(* ===== verification/Prelude.thy ===== *)
theory Prelude
  imports Main "HOL-Library.Word"
begin

unbundle bit_operations_syntax

text \<open>
  What every component shares: the machine integers, the exceptions the C++ code throws, the
  state-and-exception monad in which readers and writers are written, the big-endian encoding
  behind \<open>writeBE\<close>/\<open>readBE\<close>, and the interface of \<open>folly::io::Cursor\<close>.

  folly is not part of the repository, so a cursor is a parameter: \<open>cursor_api\<close> is the
  record of the operations the code calls, and the locale \<open>cursor\<close> states what folly
  documents about them in terms of the bytes the cursor has still to deliver.  How these bytes
  are cut into buffers (what \<open>data()\<close>/\<open>length()\<close> show) is left open.
\<close>

section \<open>Machine integers and exceptions\<close>

type_synonym byte = "8 word"
type_synonym u16 = "16 word"
type_synonym u32 = "32 word"
type_synonym u64 = "64 word"
type_synonym bytes = "8 word list"

text \<open>
  A signed C++ integer is the word of its width; where the code compares or extends it as a
  signed number the model applies \<open>sint\<close>/\<open>scast\<close>.  \<open>float\<close> and \<open>double\<close>
  are their IEEE bit patterns: the code only ever \<open>bit_cast\<close>s them.
\<close>

type_synonym i8 = "8 word"
type_synonym i16 = "16 word"
type_synonym i32 = "32 word"
type_synonym i64 = "64 word"

datatype transport_exception = INVALID_FRAME_SIZE | CORRUPTED_DATA | INVALID_STATE | BAD_ARGS
datatype application_exception = UNSUPPORTED_CLIENT_TYPE | INVALID_TRANSFORM | PROTOCOL_ERROR

datatype thrift_error =
    OutOfRange                    \<comment> \<open>\<open>std::out_of_range\<close> of a cursor that has too few bytes\<close>
  | InvalidVarint                 \<comment> \<open>\<open>throwInvalidVarint\<close>\<close>
  | PastHeaderBoundary            \<comment> \<open>\<open>readVarint64\<close> reached its boundary\<close>
  | NegativeSize
  | ExceededSizeLimit int int
  | ExceededDepthLimit
  | TruncatedData
  | BoolValueOutOfRange byte
  | InvalidSkipType byte
  | InvalidFieldData
  | BadVersionIdentifier i32
  | MissingVersionIdentifier i32
  | BadProtocolIdentifier
  | BadProtocolVersion
  | BadType byte
  | EmptyStack                    \<comment> \<open>\<open>std::stack::top\<close> of an empty stack: undefined behaviour\<close>
  | TableOutOfRange               \<comment> \<open>a table indexed beyond its end: undefined behaviour\<close>
  | UnexpectedFrameType byte
  | InvalidFlags u16
  | NonZeroSetupStreamId u32
  | UnsupportedSetupVersion u16 u16
  | ExtPayloadTooLarge
  | NonPositiveRequestN
  | QueueUnderflow                \<comment> \<open>\<open>std::underflow_error\<close> of an \<open>IOBufQueue\<close> that holds too few bytes\<close>
  | TransportException transport_exception
  | ApplicationException application_exception
  | CodecError                    \<comment> \<open>an exception of a codec of \<open>folly/compression\<close>\<close>
  | OutOfFuel                     \<comment> \<open>not an exception of the code: a bounded run of the model ended\<close>

section \<open>State and exceptions\<close>

text \<open>
  A member function that reads or writes the object's state and may throw is a function of type
  \<open>('s, 'a) st\<close>: the state in, either the exception or the result and the new state out.
\<close>

type_synonym ('s, 'a) st = "'s \<Rightarrow> thrift_error + ('a \<times> 's)"

definition sret :: "'a \<Rightarrow> ('s, 'a) st" where
  "sret a = (\<lambda>s. Inr (a, s))"

definition sfail :: "thrift_error \<Rightarrow> ('s, 'a) st" where
  "sfail e = (\<lambda>s. Inl e)"

definition sbind :: "('s, 'a) st \<Rightarrow> ('a \<Rightarrow> ('s, 'b) st) \<Rightarrow> ('s, 'b) st" where
  "sbind m k = (\<lambda>s. case m s of Inl e \<Rightarrow> Inl e | Inr (a, s') \<Rightarrow> k a s')"

definition sguard :: "bool \<Rightarrow> thrift_error \<Rightarrow> ('s, unit) st" where
  "sguard b e = (\<lambda>s. if b then Inr ((), s) else Inl e)"

definition sget :: "('s \<Rightarrow> 'a) \<Rightarrow> ('s, 'a) st" where
  "sget f = (\<lambda>s. Inr (f s, s))"

definition smod :: "('s \<Rightarrow> 's) \<Rightarrow> ('s, unit) st" where
  "smod f = (\<lambda>s. Inr ((), f s))"

lemmas st_defs = sret_def sfail_def sguard_def sget_def smod_def

lemma sret_apply [simp]: "sret a s = Inr (a, s)"
  by (simp add: sret_def)

lemma sfail_apply [simp]: "sfail e s = Inl e"
  by (simp add: sfail_def)

lemma sguard_apply [simp]: "sguard b e s = (if b then Inr ((), s) else Inl e)"
  by (simp add: sguard_def)

lemma sget_apply [simp]: "sget f s = Inr (f s, s)"
  by (simp add: sget_def)

lemma smod_apply [simp]: "smod f s = Inr ((), f s)"
  by (simp add: smod_def)

lemma sbind_apply: "sbind m k s = (case m s of Inl e \<Rightarrow> Inl e | Inr (a, s') \<Rightarrow> k a s')"
  by (simp add: sbind_def)

lemma sbind_Inr [simp]: "m s = Inr (a, s') \<Longrightarrow> sbind m k s = k a s'"
  by (simp add: sbind_def)

lemma sbind_Inl [simp]: "m s = Inl e \<Longrightarrow> sbind m k s = Inl e"
  by (simp add: sbind_def)

lemma sbind_eq_InrD:
  assumes "sbind m k s = Inr (b, s'')"
  obtains a s' where "m s = Inr (a, s')" and "k a s' = Inr (b, s'')"
  using assms by (auto simp: sbind_def split: sum.splits)

lemma sbind_assoc: "sbind (sbind m k) l = sbind m (\<lambda>a. sbind (k a) l)"
  by (rule ext) (simp add: sbind_def split: sum.split)

lemma sbind_sret [simp]: "sbind (sret a) k = k a"
  by (rule ext) (simp add: sbind_def)

section \<open>Words\<close>

lemma unat_drop_bit_7: "unat (drop_bit 7 (w :: 'a::len word)) = unat w div 128"
  by (simp only: unat_drop_bit_eq) (simp add: drop_bit_eq_div)

lemma sint_u32_small: "unat (n :: u32) < 2 ^ 31 \<Longrightarrow> sint n = int (unat n)"
proof -
  assume "unat n < 2 ^ 31"
  then have "int (unat n) < 2 ^ 31" by (metis of_nat_less_iff of_nat_numeral of_nat_power)
  then have u: "uint n < 2 ^ 31" by (simp only: uint_nat)
  have "sint n = signed_take_bit 31 (uint n)" by (simp add: sint_uint)
  also have "\<dots> = uint n"
    using u order_trans [OF _ uint_ge_0 [of n], of "- (2 ^ 31)"] by (intro signed_take_bit_int_eq_self) simp_all
  finally show ?thesis by (simp only: uint_nat)
qed

lemma size_u32: "n < 2 ^ 31 \<Longrightarrow> unat (of_nat n :: u32) = n"
  by (simp add: unat_of_nat take_bit_nat_eq_self)

section \<open>Big-endian integers\<close>

text \<open>\<open>writeBE<T>\<close> and \<open>readBE<T>\<close> with \<open>k = sizeof(T)\<close>: most significant byte first.\<close>

fun be_bytes :: "nat \<Rightarrow> 'a::len word \<Rightarrow> bytes" where
  "be_bytes 0 w = []"
| "be_bytes (Suc k) w = be_bytes k (drop_bit 8 w) @ [ucast w]"

definition be_word :: "bytes \<Rightarrow> 'a::len word" where
  "be_word bs = foldl (\<lambda>acc b. push_bit 8 acc OR ucast b) 0 bs"

lemma length_be_bytes [simp]: "length (be_bytes k w) = k"
  by (induction k arbitrary: w) auto

lemma be_word_Nil [simp]: "be_word [] = 0"
  by (simp add: be_word_def)

lemma be_word_snoc: "be_word (bs @ [b]) = push_bit 8 (be_word bs) OR ucast b"
  by (simp add: be_word_def)

lemma be_word_be_bytes_take: "be_word (be_bytes k w) = take_bit (8 * k) w"
proof (induction k arbitrary: w)
  case 0
  then show ?case by simp
next
  case (Suc k)
  show ?case
    by (simp add: be_word_snoc Suc)
      (rule bit_word_eqI, auto simp: bit_simps)
qed

lemma be_word_be_bytes:
  fixes w :: "'a::len word"
  assumes "LENGTH('a) \<le> 8 * k"
  shows "be_word (be_bytes k w) = w"
  using assms by (simp add: be_word_be_bytes_take take_bit_word_eq_self)

lemma be_word_be_bytes_sizes [simp]:
  "be_word (be_bytes 2 (h :: u16)) = h"
  "be_word (be_bytes 4 (i :: u32)) = i"
  "be_word (be_bytes 8 (l :: u64)) = l"
  by (simp_all add: be_word_be_bytes)

section \<open>The cursor interface\<close>

text \<open>
  The operations of \<open>folly::io::Cursor\<close> that the code calls.
  \<^item> \<open>cur_read n\<close>: exactly \<open>n\<close> bytes or \<open>std::out_of_range\<close> (\<open>read<T>\<close>,
    \<open>readBE<T>\<close>, \<open>pull\<close>, \<open>readFixedString\<close>, \<open>clone\<close>);
  \<^item> \<open>cur_data\<close>: the bytes of the current buffer from the position on
    (\<open>data()\<close> and \<open>length()\<close>);
  \<^item> \<open>cur_skipNoAdvance\<close>: move within the current buffer;
  \<^item> \<open>cur_peekBytes\<close>: the next non-empty run of contiguous bytes, moving to its buffer;
  \<^item> \<open>cur_skip\<close>, \<open>cur_canAdvance\<close>, \<open>cur_pullAtMost\<close>: as named.
\<close>

record 'c cursor_api =
  cur_read :: "nat \<Rightarrow> 'c \<Rightarrow> (bytes \<times> 'c) option"
  cur_data :: "'c \<Rightarrow> bytes"
  cur_skipNoAdvance :: "nat \<Rightarrow> 'c \<Rightarrow> 'c"
  cur_peekBytes :: "'c \<Rightarrow> bytes \<times> 'c"
  cur_skip :: "nat \<Rightarrow> 'c \<Rightarrow> 'c option"
  cur_canAdvance :: "nat \<Rightarrow> 'c \<Rightarrow> bool"
  cur_pullAtMost :: "nat \<Rightarrow> 'c \<Rightarrow> bytes \<times> 'c"

locale cursor =
  fixes C :: "'c cursor_api"
    and rem :: "'c \<Rightarrow> bytes"
  assumes read_ok: "n \<le> length (rem c) \<Longrightarrow>
      \<exists>c'. cur_read C n c = Some (take n (rem c), c') \<and> rem c' = drop n (rem c)"
    and read_eof: "length (rem c) < n \<Longrightarrow> cur_read C n c = None"
    and data_prefix: "take (length (cur_data C c)) (rem c) = cur_data C c"
    and skipNoAdvance_ok: "n \<le> length (cur_data C c) \<Longrightarrow>
      rem (cur_skipNoAdvance C n c) = drop n (rem c)"
    and peekBytes_ok: "cur_peekBytes C c = (d, c') \<Longrightarrow>
      rem c' = rem c \<and> cur_data C c' = d \<and> (d = [] \<longrightarrow> rem c = [])"
    and skip_ok: "n \<le> length (rem c) \<Longrightarrow> \<exists>c'. cur_skip C n c = Some c' \<and> rem c' = drop n (rem c)"
    and skip_eof: "length (rem c) < n \<Longrightarrow> cur_skip C n c = None"
    and canAdvance_iff: "cur_canAdvance C n c \<longleftrightarrow> n \<le> length (rem c)"
    and pullAtMost_ok: "cur_pullAtMost C n c = (d, c') \<Longrightarrow>
      d = take n (rem c) \<and> rem c' = drop n (rem c)"
begin

lemma length_data_le: "length (cur_data C c) \<le> length (rem c)"
  using data_prefix [of c] by (metis length_take min.cobounded1 min_def)

lemma rem_data_split: "rem c = cur_data C c @ drop (length (cur_data C c)) (rem c)"
  using data_prefix [of c] by (metis append_take_drop_id)

lemma data_nth: "i < length (cur_data C c) \<Longrightarrow> cur_data C c ! i = rem c ! i"
  using data_prefix [of c] by (metis nth_take)

lemma read_app:
  assumes "rem c = bs @ rest"
  shows "\<exists>c'. cur_read C (length bs) c = Some (bs, c') \<and> rem c' = rest"
  using read_ok [of "length bs" c] assms by auto

lemma read_SomeD:
  assumes "cur_read C n c = Some (bs, c')"
  shows "n \<le> length (rem c) \<and> bs = take n (rem c) \<and> rem c' = drop n (rem c)"
proof (cases "n \<le> length (rem c)")
  case True
  then show ?thesis using read_ok [of n c] assms by auto
next
  case False
  then show ?thesis using read_eof [of c n] assms by simp
qed

end

subsection \<open>A cursor over a chain of buffers\<close>

text \<open>
  A concrete cursor, used to show that the assumptions above can hold and to evaluate the
  model: the chain is the list of the bytes left in the current buffer and of the buffers
  after it, so that every segmentation of an input is covered.
\<close>

type_synonym chain = "bytes list"

fun chain_take :: "nat \<Rightarrow> chain \<Rightarrow> bytes" where
  "chain_take n [] = []"
| "chain_take n (b # bs) = take n b @ chain_take (n - length b) bs"

fun chain_drop :: "nat \<Rightarrow> chain \<Rightarrow> chain" where
  "chain_drop n [] = []"
| "chain_drop n (b # bs) = (if n \<le> length b then drop n b # bs else chain_drop (n - length b) bs)"

fun chain_advance :: "chain \<Rightarrow> chain" where
  "chain_advance [] = []"
| "chain_advance (b # bs) = (if b = [] then chain_advance bs else b # bs)"

definition chain_data :: "chain \<Rightarrow> bytes" where
  "chain_data c = (case c of [] \<Rightarrow> [] | b # _ \<Rightarrow> b)"

definition chain_api :: "chain cursor_api" where
  "chain_api = \<lparr>
     cur_read = (\<lambda>n c. if n \<le> length (concat c) then Some (chain_take n c, chain_drop n c) else None),
     cur_data = chain_data,
     cur_skipNoAdvance = chain_drop,
     cur_peekBytes = (\<lambda>c. (chain_data (chain_advance c), chain_advance c)),
     cur_skip = (\<lambda>n c. if n \<le> length (concat c) then Some (chain_drop n c) else None),
     cur_canAdvance = (\<lambda>n c. n \<le> length (concat c)),
     cur_pullAtMost = (\<lambda>n c. (chain_take n c, chain_drop n c)) \<rparr>"

lemma chain_take_concat: "chain_take n c = take n (concat c)"
  by (induction n c rule: chain_take.induct) auto

lemma concat_chain_drop: "concat (chain_drop n c) = drop n (concat c)"
  by (induction n c rule: chain_drop.induct) auto

lemma concat_chain_advance: "concat (chain_advance c) = concat c"
  by (induction c rule: chain_advance.induct) auto

lemma chain_data_advance_Nil: "chain_data (chain_advance c) = [] \<Longrightarrow> concat c = []"
  by (induction c rule: chain_advance.induct) (auto simp: chain_data_def split: if_splits)

lemma take_chain_data: "take (length (chain_data c)) (concat c) = chain_data c"
  by (auto simp: chain_data_def split: list.splits)

lemmas chain_lemmas = chain_take_concat concat_chain_drop concat_chain_advance take_chain_data

interpretation chain_cursor: cursor chain_api concat
  by unfold_locales (auto simp: chain_api_def chain_lemmas simp del: concat_eq_Nil_conv
      dest: chain_data_advance_Nil)

subsection \<open>Cursor operations that may throw\<close>

definition c_read :: "'c cursor_api \<Rightarrow> nat \<Rightarrow> ('c, bytes) st" where
  "c_read C n = (\<lambda>c. case cur_read C n c of None \<Rightarrow> Inl OutOfRange | Some r \<Rightarrow> Inr r)"

definition c_readBE :: "'c cursor_api \<Rightarrow> nat \<Rightarrow> ('c, 'a::len word) st" where
  "c_readBE C k = sbind (c_read C k) (\<lambda>bs. sret (be_word bs))"

definition c_skip :: "'c cursor_api \<Rightarrow> nat \<Rightarrow> ('c, unit) st" where
  "c_skip C n = (\<lambda>c. case cur_skip C n c of None \<Rightarrow> Inl OutOfRange | Some c' \<Rightarrow> Inr ((), c'))"

context cursor begin

lemma c_read_app:
  assumes "rem c = bs @ rest" and "length bs = n"
  shows "\<exists>c'. c_read C n c = Inr (bs, c') \<and> rem c' = rest"
  using read_app [OF assms(1)] assms(2) by (auto simp: c_read_def)

lemma c_read_eof: "length (rem c) < n \<Longrightarrow> c_read C n c = Inl OutOfRange"
  by (simp add: c_read_def read_eof)

lemma c_read_InrD:
  assumes "c_read C n c = Inr (bs, c')"
  shows "n \<le> length (rem c) \<and> bs = take n (rem c) \<and> rem c' = drop n (rem c)"
  using assms by (auto simp: c_read_def split: option.splits dest: read_SomeD)

lemma c_readBE_app:
  fixes w :: "'w::len word"
  assumes "rem c = bs @ rest" and "length bs = n" and "w = be_word bs"
  shows "\<exists>c'. c_readBE C n c = Inr (w, c') \<and> rem c' = rest"
  using c_read_app [OF assms(1,2)] assms(3) by (auto simp: c_readBE_def)

lemma c_readBE_eof: "length (rem c) < n \<Longrightarrow> c_readBE C n c = Inl OutOfRange"
  by (simp add: c_readBE_def c_read_eof)

lemma c_readBE_1:
  assumes "rem c = b # rest"
  shows "\<exists>c'. c_readBE C 1 c = Inr (b :: byte, c') \<and> rem c' = rest"
  using c_readBE_app [of c "[b]" rest 1 b] assms by (simp add: be_word_def)

lemma c_skip_app:
  assumes "rem c = bs @ rest" and "length bs = n"
  shows "\<exists>c'. c_skip C n c = Inr ((), c') \<and> rem c' = rest"
  using skip_ok [of n c] assms by (auto simp: c_skip_def)

end

end
