(* ===== verification/Protocol.thy ===== *)
theory Protocol
  imports Prelude
begin

text \<open>
  \<^verbatim>\<open>lib/cpp2/protocol/Protocol.h\<close> and the interface every protocol of
  \<^verbatim>\<open>lib/cpp2/protocol\<close> offers.  The C++ templates take a protocol class as a parameter and
  call its members; here a protocol is the record of these members, so that \<open>skip\<close> and the
  dynamic-value code are written once and instantiated for the Binary and the Compact protocol.
  The locale \<open>codec\<close> states when a reader undoes a writer: each read operation, started on
  the bytes the matching write operation appended, returns what was written and stops at their
  end, in a state that corresponds to the writer's.
\<close>

section \<open>Wire types\<close>

text \<open>\<open>TType\<close> is an enum of an eight-bit integer to which any byte of the input is cast.\<close>

abbreviation T_STOP :: byte where "T_STOP \<equiv> 0"
abbreviation T_VOID :: byte where "T_VOID \<equiv> 1"
abbreviation T_BOOL :: byte where "T_BOOL \<equiv> 2"
abbreviation T_BYTE :: byte where "T_BYTE \<equiv> 3"
abbreviation T_DOUBLE :: byte where "T_DOUBLE \<equiv> 4"
abbreviation T_I16 :: byte where "T_I16 \<equiv> 6"
abbreviation T_I32 :: byte where "T_I32 \<equiv> 8"
abbreviation T_U64 :: byte where "T_U64 \<equiv> 9"
abbreviation T_I64 :: byte where "T_I64 \<equiv> 10"
abbreviation T_STRING :: byte where "T_STRING \<equiv> 11"
abbreviation T_STRUCT :: byte where "T_STRUCT \<equiv> 12"
abbreviation T_MAP :: byte where "T_MAP \<equiv> 13"
abbreviation T_SET :: byte where "T_SET \<equiv> 14"
abbreviation T_LIST :: byte where "T_LIST \<equiv> 15"
abbreviation T_UTF8 :: byte where "T_UTF8 \<equiv> 16"
abbreviation T_UTF16 :: byte where "T_UTF16 \<equiv> 17"
abbreviation T_STREAM :: byte where "T_STREAM \<equiv> 18"
abbreviation T_FLOAT :: byte where "T_FLOAT \<equiv> 19"

text \<open>The types that values of a message carry on the wire.\<close>

definition value_types :: "byte list" where
  "value_types = [T_BOOL, T_BYTE, T_DOUBLE, T_I16, T_I32, T_I64, T_STRING, T_STRUCT, T_MAP, T_SET,
     T_LIST, T_FLOAT]"

section \<open>ProtocolBase\<close>

record protocol_base =
  pb_height :: u64

definition setHeight :: "u64 \<Rightarrow> 'a protocol_base_scheme \<Rightarrow> 'a protocol_base_scheme" where
  "setHeight height s = s\<lparr>pb_height := height + 1\<rparr>"

definition getHeight :: "'a protocol_base_scheme \<Rightarrow> u64" where
  "getHeight s = pb_height s - 1"

definition descend :: "('a protocol_base_scheme, unit) st" where
  "descend = sbind (smod (pb_height_update (\<lambda>h. h - 1))) (\<lambda>_.
     sbind (sget pb_height) (\<lambda>h. sguard (h \<noteq> 0) ExceededDepthLimit))"

definition ascend :: "('a protocol_base_scheme, unit) st" where
  "ascend = smod (pb_height_update (\<lambda>h. h + 1))"

lemma descend_apply: "descend s =
    (if pb_height s = 1 then Inl ExceededDepthLimit else Inr ((), s\<lparr>pb_height := pb_height s - 1\<rparr>))"
  by (simp add: descend_def sbind_def)

lemma ascend_apply [simp]: "ascend s = Inr ((), s\<lparr>pb_height := pb_height s + 1\<rparr>)"
  by (simp add: ascend_def)

section \<open>The operations of a protocol\<close>

record 'w protocol_writer =
  w_writeStructBegin :: "('w, u32) st"
  w_writeStructEnd :: "('w, u32) st"
  w_writeFieldBegin :: "byte \<Rightarrow> i16 \<Rightarrow> ('w, u32) st"
  w_writeFieldEnd :: "('w, u32) st"
  w_writeFieldStop :: "('w, u32) st"
  w_writeMapBegin :: "byte \<Rightarrow> byte \<Rightarrow> u32 \<Rightarrow> ('w, u32) st"
  w_writeMapEnd :: "('w, u32) st"
  w_writeListBegin :: "byte \<Rightarrow> u32 \<Rightarrow> ('w, u32) st"
  w_writeListEnd :: "('w, u32) st"
  w_writeSetBegin :: "byte \<Rightarrow> u32 \<Rightarrow> ('w, u32) st"
  w_writeSetEnd :: "('w, u32) st"
  w_writeBool :: "bool \<Rightarrow> ('w, u32) st"
  w_writeByte :: "i8 \<Rightarrow> ('w, u32) st"
  w_writeI16 :: "i16 \<Rightarrow> ('w, u32) st"
  w_writeI32 :: "i32 \<Rightarrow> ('w, u32) st"
  w_writeI64 :: "i64 \<Rightarrow> ('w, u32) st"
  w_writeDouble :: "u64 \<Rightarrow> ('w, u32) st"
  w_writeFloat :: "u32 \<Rightarrow> ('w, u32) st"
  w_writeString :: "bytes \<Rightarrow> ('w, u32) st"
  w_writeBinary :: "bytes \<Rightarrow> ('w, u32) st"

text \<open>
  \<open>readBinary\<close> is the overload for \<open>IOBuf\<close>, \<open>readString\<close> the one for \<open>std::string\<close>
  and \<open>skipString\<close> the one for \<open>SkipNoopString\<close>, which keeps nothing of what it reads.
\<close>

record 'r protocol_reader =
  r_readStructBegin :: "('r, unit) st"
  r_readStructEnd :: "('r, unit) st"
  r_readFieldBegin :: "('r, byte \<times> i16) st"
  r_readFieldEnd :: "('r, unit) st"
  r_readMapBegin :: "('r, byte \<times> byte \<times> u32) st"
  r_readMapEnd :: "('r, unit) st"
  r_readListBegin :: "('r, byte \<times> u32) st"
  r_readListEnd :: "('r, unit) st"
  r_readSetBegin :: "('r, byte \<times> u32) st"
  r_readSetEnd :: "('r, unit) st"
  r_readBool :: "('r, bool) st"
  r_readByte :: "('r, i8) st"
  r_readI16 :: "('r, i16) st"
  r_readI32 :: "('r, i32) st"
  r_readI64 :: "('r, i64) st"
  r_readDouble :: "('r, u64) st"
  r_readFloat :: "('r, u32) st"
  r_readString :: "('r, bytes) st"
  r_readBinary :: "('r, bytes) st"
  r_skipString :: "('r, unit) st"
  r_skipBytes :: "nat \<Rightarrow> ('r, unit) st"
  r_fixedSizeInContainer :: "byte \<Rightarrow> nat"
  r_canAdvance :: "nat \<Rightarrow> 'r \<Rightarrow> bool"

text \<open>\<open>StructReadState\<close>, the state of generated readers; both protocols keep the same two fields.\<close>

record struct_read_state =
  srs_fieldId :: i16
  srs_fieldType :: byte

section \<open>skip\<close>

definition canReadNElements :: "'r protocol_reader \<Rightarrow> u32 \<Rightarrow> byte list \<Rightarrow> 'r \<Rightarrow> bool" where
  "canReadNElements P n types = r_canAdvance P (unat n * length types)"

text \<open>
  \<open>skip\<close> and \<open>skip_n\<close> with the loops they contain.  The bound \<open>fuel\<close> is the depth of
  the recursion of the model, in which a loop is a recursion too; \<open>D\<close> is
  \<open>FLAGS_thrift_protocol_max_depth\<close>.
\<close>

function (sequential) skip :: "'r protocol_reader \<Rightarrow> int \<Rightarrow> nat \<Rightarrow> byte \<Rightarrow> int \<Rightarrow> ('r, unit) st"
  and skip_fields :: "'r protocol_reader \<Rightarrow> int \<Rightarrow> nat \<Rightarrow> int \<Rightarrow> ('r, unit) st"
  and skip_n :: "'r protocol_reader \<Rightarrow> int \<Rightarrow> nat \<Rightarrow> u32 \<Rightarrow> byte list \<Rightarrow> int \<Rightarrow> ('r, unit) st"
  and skip_loop :: "'r protocol_reader \<Rightarrow> int \<Rightarrow> nat \<Rightarrow> nat \<Rightarrow> byte list \<Rightarrow> int \<Rightarrow> ('r, unit) st"
  and skip_types :: "'r protocol_reader \<Rightarrow> int \<Rightarrow> nat \<Rightarrow> byte list \<Rightarrow> int \<Rightarrow> ('r, unit) st"
where
  "skip P D 0 arg_type depth = sfail OutOfFuel"
| "skip P D (Suc fuel) arg_type depth =
    (if depth \<ge> D then sfail ExceededDepthLimit
     else if arg_type = T_BOOL then sbind (r_readBool P) (\<lambda>_. sret ())
     else if arg_type = T_BYTE then sbind (r_readByte P) (\<lambda>_. sret ())
     else if arg_type = T_I16 then sbind (r_readI16 P) (\<lambda>_. sret ())
     else if arg_type = T_I32 then sbind (r_readI32 P) (\<lambda>_. sret ())
     else if arg_type = T_U64 \<or> arg_type = T_I64 then sbind (r_readI64 P) (\<lambda>_. sret ())
     else if arg_type = T_DOUBLE then sbind (r_readDouble P) (\<lambda>_. sret ())
     else if arg_type = T_FLOAT then sbind (r_readFloat P) (\<lambda>_. sret ())
     else if arg_type = T_UTF8 \<or> arg_type = T_UTF16 \<or> arg_type = T_STRING then r_skipString P
     else if arg_type = T_STRUCT then
       sbind (r_readStructBegin P) (\<lambda>_. sbind (skip_fields P D fuel depth) (\<lambda>_. r_readStructEnd P))
     else if arg_type = T_MAP then
       sbind (r_readMapBegin P) (\<lambda>(keyType, valType, size).
         sbind (skip_n P D fuel size [keyType, valType] (depth + 1)) (\<lambda>_. r_readMapEnd P))
     else if arg_type = T_SET then
       sbind (r_readSetBegin P) (\<lambda>(elemType, size).
         sbind (skip_n P D fuel size [elemType] (depth + 1)) (\<lambda>_. r_readSetEnd P))
     else if arg_type = T_LIST then
       sbind (r_readListBegin P) (\<lambda>(elemType, size).
         sbind (skip_n P D fuel size [elemType] (depth + 1)) (\<lambda>_. r_readListEnd P))
     else sfail (InvalidSkipType arg_type))"
| "skip_fields P D 0 depth = sfail OutOfFuel"
| "skip_fields P D (Suc fuel) depth =
    sbind (r_readFieldBegin P) (\<lambda>(ftype, fid).
      if ftype = T_STOP then sret ()
      else sbind (skip P D fuel ftype (depth + 1)) (\<lambda>_.
           sbind (r_readFieldEnd P) (\<lambda>_. skip_fields P D fuel depth)))"
| "skip_n P D 0 n types depth = sfail OutOfFuel"
| "skip_n P D (Suc fuel) n types depth =
    (if depth \<ge> D then sfail ExceededDepthLimit
     else let sizes = map (r_fixedSizeInContainer P) types in
       if list_all (\<lambda>size. size \<noteq> 0) sizes then r_skipBytes P (sum_list sizes * unat n)
       else skip_loop P D fuel (unat n) types depth)"
| "skip_loop P D 0 i types depth = sfail OutOfFuel"
| "skip_loop P D (Suc fuel) i types depth =
    (case i of 0 \<Rightarrow> sret ()
     | Suc j \<Rightarrow> sbind (skip_types P D fuel types depth) (\<lambda>_. skip_loop P D fuel j types depth))"
| "skip_types P D 0 types depth = sfail OutOfFuel"
| "skip_types P D (Suc fuel) types depth =
    (case types of [] \<Rightarrow> sret ()
     | type # types' \<Rightarrow> sbind (skip P D fuel type (depth + 1)) (\<lambda>_. skip_types P D fuel types' depth))"
  by pat_completeness auto
termination
  by (relation "measure (case_sum (case_sum (\<lambda>(P, D, fuel, t, d). fuel) (\<lambda>(P, D, fuel, d). fuel))
        (case_sum (\<lambda>(P, D, fuel, n, ts, d). fuel)
          (case_sum (\<lambda>(P, D, fuel, i, ts, d). fuel) (\<lambda>(P, D, fuel, ts, d). fuel))))") simp_all

declare skip.simps(2) [simp del] skip_fields.simps(2) [simp del] skip_n.simps(2) [simp del]
  skip_loop.simps(2) [simp del] skip_types.simps(2) [simp del]

section \<open>Reading a string\<close>

text \<open>
  \<open>readStringBody\<close> of \<^verbatim>\<open>Protocol.h\<close>: the general template, which appends run by run,
  and the overload for \<open>std::string\<close>.  The loop of the template ends because every run is
  non-empty.
\<close>

fun readStringBody_loop :: "'c cursor_api \<Rightarrow> nat \<Rightarrow> nat \<Rightarrow> bytes \<Rightarrow> ('c, bytes) st" where
  "readStringBody_loop C 0 size_left str = sfail OutOfFuel"
| "readStringBody_loop C (Suc fuel) size_left str = (\<lambda>c.
    if size_left = 0 then Inr (str, c) else
    let (data, c) = cur_peekBytes C c; data_avail = min (length data) size_left in
    if data = [] then Inl TruncatedData
    else readStringBody_loop C fuel (size_left - data_avail) (str @ take data_avail data)
           (cur_skipNoAdvance C data_avail c))"

definition readStringBody :: "'c cursor_api \<Rightarrow> nat \<Rightarrow> ('c, bytes) st" where
  "readStringBody C sz = (\<lambda>c.
    if sz = 0 then Inr ([], c)
    else if length (cur_data C c)  < sz \<and> \<not> cur_canAdvance C sz c then Inl TruncatedData
    else readStringBody_loop C (Suc sz) sz [] c)"

definition readStringBody_string :: "'c cursor_api \<Rightarrow> nat \<Rightarrow> ('c, bytes) st" where
  "readStringBody_string C sz = (\<lambda>c.
    if \<not> cur_canAdvance C sz c then Inl TruncatedData
    else let (str, c') = cur_pullAtMost C sz c in
      if length str  < sz then Inl TruncatedData else Inr (str, c'))"

context cursor begin

lemma readStringBody_loop_ok:
  assumes "size_left < fuel" and "size_left \<le> length (rem c)"
  shows "\<exists>c'. readStringBody_loop C fuel size_left str c = Inr (str @ take size_left (rem c), c') \<and>
    rem c' = drop size_left (rem c)"
  using assms
proof (induction fuel arbitrary: size_left str c)
  case (Suc fuel)
  obtain d c1 where peek: "cur_peekBytes C c = (d, c1)" by fastforce
  have c1: "rem c1 = rem c" "cur_data C c1 = d" "d = [] \<longrightarrow> rem c = []"
    using peekBytes_ok [OF peek] by auto
  show ?case
  proof (cases "size_left = 0")
    case False
    then have d: "d \<noteq> []" using c1(3) Suc.prems(2) by auto
    define k where "k = min (length d) size_left"
    have k: "0 < k" "k \<le> length d" "k \<le> size_left" using d False by (simp_all add: k_def)
    have rem: "rem (cur_skipNoAdvance C k c1) = drop k (rem c)"
      using skipNoAdvance_ok [of k c1] c1 k by simp
    have take: "take k d = take k (rem c)"
      using data_prefix [of c1] c1 k by (metis min.absorb1 take_take)
    have "\<exists>c'. readStringBody_loop C fuel (size_left - k) (str @ take k d) (cur_skipNoAdvance C k c1) =
        Inr ((str @ take k d) @ take (size_left - k) (drop k (rem c)), c') \<and>
        rem c' = drop (size_left - k) (drop k (rem c))"
      using Suc.IH [of "size_left - k" "cur_skipNoAdvance C k c1" "str @ take k d"] rem k Suc.prems by simp
    moreover have "(str @ take k d) @ take (size_left - k) (drop k (rem c)) = str @ take size_left (rem c)"
      using take k by (simp add: take_add [symmetric, of k])
    ultimately show ?thesis
      using False peek d k by (simp add: k_def [symmetric])
  qed simp
qed simp

lemma readStringBody_ok:
  assumes "rem c = bs @ rest" and "length bs = n"
  shows "\<exists>c'. readStringBody C n c = Inr (bs, c') \<and> rem c' = rest"
  using readStringBody_loop_ok [of n "Suc n" c "[]"] assms
  by (auto simp: readStringBody_def canAdvance_iff)

lemma readStringBody_string_ok:
  assumes "rem c = bs @ rest" and "length bs = n"
  shows "\<exists>c'. readStringBody_string C n c = Inr (bs, c') \<and> rem c' = rest"
proof -
  obtain d c' where p: "cur_pullAtMost C n c = (d, c')" by fastforce
  then show ?thesis using pullAtMost_ok [OF p] assms
    by (simp add: readStringBody_string_def canAdvance_iff)
qed

lemma readStringBody_truncated:
  assumes "length (rem c) < n"
  shows "readStringBody C n c = Inl TruncatedData" "readStringBody_string C n c = Inl TruncatedData"
proof -
  have "length (cur_data C c) < n" using length_data_le [of c] assms by simp
  then show "readStringBody C n c = Inl TruncatedData"
    using assms by (auto simp: readStringBody_def canAdvance_iff)
  show "readStringBody_string C n c = Inl TruncatedData"
    using assms by (simp add: readStringBody_string_def canAdvance_iff)
qed

end

end
