(* ===== verification/Codec.thy ===== *)
theory Codec
  imports Protocol
begin

text \<open>
  When a reader undoes a writer.  \<open>decodes L k f g P\<close> says of a write operation \<open>f\<close> and a
  read operation \<open>g\<close>: \<open>f\<close> appends at least \<open>k\<close> bytes to the output and returns
  their number, and \<open>g\<close>, started on these bytes in a corresponding state, returns a result
  with \<open>P\<close>, leaves what follows and ends in a corresponding state.  The laws of the locale
  \<open>codec\<close> are such statements for the operations of a protocol; the lemmas below compose them
  along the sequencing of the code.
\<close>

record ('w, 'r) link =
  lk_out :: "'w \<Rightarrow> bytes"
  lk_rem :: "'r \<Rightarrow> bytes"
  lk_idle :: "'w \<Rightarrow> bool"
  lk_sync :: "'w \<Rightarrow> 'r \<Rightarrow> bool"

definition delivers :: "('w, 'r) link \<Rightarrow> ('r, 'a) st \<Rightarrow> ('a \<Rightarrow> bool) \<Rightarrow> 'w \<Rightarrow> 'r \<Rightarrow> bytes \<Rightarrow> bool" where
  "delivers L g P w' r rest \<longleftrightarrow>
    (\<exists>x r'. g r = Inr (x, r') \<and> P x \<and> lk_rem L r' = rest \<and> lk_sync L w' r')"

definition decodes :: "('w, 'r) link \<Rightarrow> nat \<Rightarrow> ('w, u32) st \<Rightarrow> ('r, 'a) st \<Rightarrow> ('a \<Rightarrow> bool) \<Rightarrow> bool" where
  "decodes L k f g P \<longleftrightarrow> (\<forall>w n w'. lk_idle L w \<longrightarrow> f w = Inr (n, w') \<longrightarrow> lk_idle L w' \<and>
     (\<exists>bs. lk_out L w' = lk_out L w @ bs \<and> n = of_nat (length bs) \<and> k \<le> length bs \<and>
       (\<forall>r rest. lk_sync L w r \<longrightarrow> lk_rem L r = bs @ rest \<longrightarrow>
         (delivers L g P w' r rest))))"

text \<open>The code adds up the sizes the write operations return.\<close>

definition wseq :: "('w, u32) st \<Rightarrow> ('w, u32) st \<Rightarrow> ('w, u32) st" where
  "wseq f1 f2 = sbind f1 (\<lambda>a. sbind f2 (\<lambda>b. sret (a + b)))"

lemma wseq_InrD:
  assumes "wseq f1 f2 w = Inr (n, w'')"
  obtains a b w' where "f1 w = Inr (a, w')" and "f2 w' = Inr (b, w'')" and "n = a + b"
  using assms by (auto simp: wseq_def sbind_def split: sum.splits)

lemma wseq_Inr: "f1 w = Inr (a, w') \<Longrightarrow> wseq f1 f2 w =
    (case f2 w' of Inl e \<Rightarrow> Inl e | Inr (b, w'') \<Rightarrow> Inr (a + b, w''))"
  by (simp add: wseq_def sbind_def split: sum.splits)

lemma decodesI:
  assumes "\<And>w n w'. lk_idle L w \<Longrightarrow> f w = Inr (n, w') \<Longrightarrow> lk_idle L w' \<and>
     (\<exists>bs. lk_out L w' = lk_out L w @ bs \<and> n = of_nat (length bs) \<and> k \<le> length bs \<and>
       (\<forall>r rest. lk_sync L w r \<longrightarrow> lk_rem L r = bs @ rest \<longrightarrow>
         (delivers L g P w' r rest)))"
  shows "decodes L k f g P"
  using assms by (simp add: decodes_def)

lemma decodesD:
  assumes "decodes L k f g P" and "lk_idle L w" and "f w = Inr (n, w')"
  obtains bs where "lk_idle L w'" and "lk_out L w' = lk_out L w @ bs" and "n = of_nat (length bs)"
    and "k \<le> length bs" and "\<And>r rest. lk_sync L w r \<Longrightarrow> lk_rem L r = bs @ rest \<Longrightarrow>
         delivers L g P w' r rest"
  using assms unfolding decodes_def by blast

lemma decodes_wseq:
  assumes "decodes L k f1 g1 P" and "\<And>x. P x \<Longrightarrow> decodes L l f2 (h x) Q" and ex: "\<exists>x. P x"
  shows "decodes L (k + l) (wseq f1 f2) (sbind g1 h) Q"
proof (rule decodesI)
  fix w n w2
  assume w: "lk_idle L w" and "wseq f1 f2 w = Inr (n, w2)"
  then obtain a b w1 where f1: "f1 w = Inr (a, w1)" and f2: "f2 w1 = Inr (b, w2)" and n: "n = a + b"
    by (elim wseq_InrD)
  obtain bs1 where 1: "lk_idle L w1" "lk_out L w1 = lk_out L w @ bs1" "a = of_nat (length bs1)"
      "k \<le> length bs1"
    and d1: "\<And>r rest. lk_sync L w r \<Longrightarrow> lk_rem L r = bs1 @ rest \<Longrightarrow>
         delivers L g1 P w1 r rest"
    using decodesD [OF assms(1) w f1] by metis
  obtain x0 where x0: "P x0" using ex by blast
  obtain bs2 where 2: "lk_idle L w2" "lk_out L w2 = lk_out L w1 @ bs2" "b = of_nat (length bs2)"
      "l \<le> length bs2"
    using decodesD [OF assms(2) [OF x0] 1(1) f2] by metis
  have d2: "delivers L (h x) Q w2 r rest"
    if x: "P x" and r: "lk_sync L w1 r" "lk_rem L r = bs2 @ rest" for x r rest
  proof -
    obtain bs' where "lk_out L w2 = lk_out L w1 @ bs'" and "\<And>r rest. lk_sync L w1 r \<Longrightarrow>
        lk_rem L r = bs' @ rest \<Longrightarrow> delivers L (h x) Q w2 r rest"
      using decodesD [OF assms(2) [OF x] 1(1) f2] by metis
    with 2 r show ?thesis by simp
  qed
  have "delivers L (sbind g1 h) Q w2 r rest"
    if r: "lk_sync L w r" "lk_rem L r = (bs1 @ bs2) @ rest" for r rest
  proof -
    obtain x r1 where "g1 r = Inr (x, r1)" "P x" "lk_rem L r1 = bs2 @ rest" "lk_sync L w1 r1"
      using d1 [of r "bs2 @ rest"] r by (auto simp: delivers_def)
    then show ?thesis using d2 [of x r1 rest] by (simp add: delivers_def)
  qed
  then show "lk_idle L w2 \<and> (\<exists>bs. lk_out L w2 = lk_out L w @ bs \<and> n = of_nat (length bs) \<and>
      k + l \<le> length bs \<and> (\<forall>r rest. lk_sync L w r \<longrightarrow> lk_rem L r = bs @ rest \<longrightarrow>
        (delivers L (sbind g1 h) Q w2 r rest)))"
    using 1 2 n by (intro conjI exI [of _ "bs1 @ bs2"]) auto
qed

lemma decodes_reader:
  assumes "decodes L k f g P" and "l \<le> k"
    and "\<And>w' r bs rest. k \<le> length bs \<Longrightarrow> lk_rem L r = bs @ rest \<Longrightarrow> delivers L g P w' r rest \<Longrightarrow>
      delivers L g' Q w' r rest"
  shows "decodes L l f g' Q"
proof (rule decodesI)
  fix w n w' assume "lk_idle L w" "f w = Inr (n, w')"
  from decodesD [OF assms(1) this] obtain bs where bs: "lk_idle L w'" "lk_out L w' = lk_out L w @ bs"
      "n = of_nat (length bs)" "k \<le> length bs"
    and "\<And>r rest. lk_sync L w r \<Longrightarrow> lk_rem L r = bs @ rest \<Longrightarrow> delivers L g P w' r rest" by metis
  then have "\<forall>r rest. lk_sync L w r \<longrightarrow> lk_rem L r = bs @ rest \<longrightarrow> delivers L g' Q w' r rest"
    using assms(3) by blast
  with bs assms(2) show "lk_idle L w' \<and> (\<exists>bs. lk_out L w' = lk_out L w @ bs \<and> n = of_nat (length bs) \<and>
      l \<le> length bs \<and> (\<forall>r rest. lk_sync L w r \<longrightarrow> lk_rem L r = bs @ rest \<longrightarrow> delivers L g' Q w' r rest))"
    using order_trans by blast
qed

lemma decodes_mono:
  assumes "decodes L k f g P" and "l \<le> k" and "\<And>x. P x \<Longrightarrow> Q x"
  shows "decodes L l f g Q"
  using assms(1,2) by (rule decodes_reader) (use assms(3) in \<open>auto simp: delivers_def\<close>)

lemma decodes_cong:
  assumes "decodes L k f g P" and "\<And>w. lk_idle L w \<Longrightarrow> f' w = f w"
    and "\<And>w r. lk_idle L w \<Longrightarrow> lk_sync L w r \<Longrightarrow> g' r = g r"
  shows "decodes L k f' g' P"
proof (rule decodesI)
  fix w n w' assume w: "lk_idle L w" and "f' w = Inr (n, w')"
  then have "f w = Inr (n, w')" using assms(2) by simp
  from decodesD [OF assms(1) w this] obtain bs where bs: "lk_idle L w'" "lk_out L w' = lk_out L w @ bs"
      "n = of_nat (length bs)" "k \<le> length bs"
    and d: "\<And>r rest. lk_sync L w r \<Longrightarrow> lk_rem L r = bs @ rest \<Longrightarrow> delivers L g P w' r rest" by metis
  have "delivers L g' P w' r rest" if "lk_sync L w r" "lk_rem L r = bs @ rest" for r rest
    using d [OF that] assms(3) [OF w that(1)] by (simp add: delivers_def)
  with bs show "lk_idle L w' \<and> (\<exists>bs. lk_out L w' = lk_out L w @ bs \<and> n = of_nat (length bs) \<and>
      k \<le> length bs \<and> (\<forall>r rest. lk_sync L w r \<longrightarrow> lk_rem L r = bs @ rest \<longrightarrow> delivers L g' P w' r rest))"
    by blast
qed

lemma decodes_map:
  assumes "decodes L k f g P" and "\<And>x. P x \<Longrightarrow> Q (h x)"
  shows "decodes L k f (sbind g (\<lambda>x. sret (h x))) Q"
  using assms(1) order_refl by (rule decodes_reader) (use assms(2) in \<open>fastforce simp: delivers_def\<close>)

lemma decodes_sret [intro]: "P x \<Longrightarrow> decodes L 0 (sret 0) (sret x) P"
  by (rule decodesI) (auto simp: delivers_def)

lemmas decodes_sret_lambda [intro] = decodes_sret [unfolded sret_def]

lemma decodes_fail [intro]: "decodes L k (sfail e) g P"
  by (rule decodesI) auto

lemma decodes_guard:
  "(b \<Longrightarrow> decodes L k f g P) \<Longrightarrow> decodes L k (sbind (sguard b e) (\<lambda>_. f)) g P"
  by (cases b) (auto simp: decodes_def sbind_def)

lemma wseq_sret_0 [simp]: "wseq (sret 0) f = f" "wseq f (sret 0) = f"
  by (auto simp: wseq_def sbind_def fun_eq_iff split: sum.split)

lemmas wseq_sret_0_lambda [simp] = wseq_sret_0 [unfolded sret_def]

lemma wseq_assoc: "wseq (wseq f g) h = wseq f (wseq g h)"
  by (auto simp: wseq_def sbind_def fun_eq_iff add.assoc split: sum.split)

text \<open>\<open>descend\<close> and \<open>ascend\<close> in a write operation.\<close>

definition wdescend :: "('a protocol_base_scheme, u32) st" where
  "wdescend = sbind descend (\<lambda>_. sret 0)"

definition wascend :: "('a protocol_base_scheme, u32) st" where
  "wascend = sbind ascend (\<lambda>_. sret 0)"

lemma sbind_descend: "sbind descend (\<lambda>_. f) = wseq wdescend f"
  by (auto simp: wdescend_def wseq_def sbind_def fun_eq_iff split: sum.split)

lemma sbind_ascend: "sbind ascend (\<lambda>_. f) = wseq wascend f"
  by (auto simp: wascend_def wseq_def sbind_def fun_eq_iff split: sum.split)

text \<open>A read operation that first checks that enough bytes are left.\<close>

definition scheck :: "('r \<Rightarrow> bool) \<Rightarrow> thrift_error \<Rightarrow> ('r, unit) st" where
  "scheck b e = (\<lambda>r. if b r then Inr ((), r) else Inl e)"

lemma decodes_scheck:
  assumes "decodes L k f g P" and "\<And>r bs rest. k \<le> length bs \<Longrightarrow> lk_rem L r = bs @ rest \<Longrightarrow> b r"
  shows "decodes L k f (sbind (scheck b e) (\<lambda>_. g)) P"
  using assms(1) order_refl
proof (rule decodes_reader)
  fix w' r bs rest
  assume "k \<le> length bs" "lk_rem L r = bs @ rest" "delivers L g P w' r rest"
  moreover from this have "sbind (scheck b e) (\<lambda>_. g) r = g r" using assms(2) by (simp add: scheck_def)
  ultimately show "delivers L (sbind (scheck b e) (\<lambda>_. g)) P w' r rest" by (simp add: delivers_def)
qed

section \<open>The contract between a writer and a reader\<close>

locale codec =
  fixes W :: "'w protocol_writer" and R :: "'r protocol_reader" and L :: "('w, 'r) link"
  assumes canAdvance: "r_canAdvance R m r \<longleftrightarrow> m \<le> length (lk_rem L r)"
    and struct_begin: "decodes L 0 (w_writeStructBegin W) (r_readStructBegin R) (\<lambda>_. True)"
    and struct_end: "decodes L 0 (w_writeStructEnd W) (r_readStructEnd R) (\<lambda>_. True)"
    and field_begin: "t \<in> set value_types \<Longrightarrow> t \<noteq> T_BOOL \<Longrightarrow>
      decodes L 1 (w_writeFieldBegin W t i) (r_readFieldBegin R) (\<lambda>x. x = (t, i))"
    and bool_field: "decodes L 1 (wseq (w_writeFieldBegin W T_BOOL i) (w_writeBool W b))
      (sbind (r_readFieldBegin R) (\<lambda>x. sbind (r_readBool R) (\<lambda>y. sret (x, y))))
      (\<lambda>z. z = ((T_BOOL, i), b))"
    and field_end: "decodes L 0 (w_writeFieldEnd W) (r_readFieldEnd R) (\<lambda>_. True)"
    and field_stop: "decodes L 1 (w_writeFieldStop W) (r_readFieldBegin R) (\<lambda>x. fst x = T_STOP)"
    and map_begin: "k \<in> set value_types \<Longrightarrow> v \<in> set value_types \<Longrightarrow> unat n < 2 ^ 31 \<Longrightarrow>
      decodes L 1 (w_writeMapBegin W k v n) (r_readMapBegin R)
        (\<lambda>(k', v', n'). n' = n \<and> (n \<noteq> 0 \<longrightarrow> k' = k \<and> v' = v))"
    and map_end: "decodes L 0 (w_writeMapEnd W) (r_readMapEnd R) (\<lambda>_. True)"
    and list_begin: "t \<in> set value_types \<Longrightarrow> unat n < 2 ^ 31 \<Longrightarrow>
      decodes L 1 (w_writeListBegin W t n) (r_readListBegin R) (\<lambda>x. x = (t, n))"
    and list_end: "decodes L 0 (w_writeListEnd W) (r_readListEnd R) (\<lambda>_. True)"
    and set_begin: "t \<in> set value_types \<Longrightarrow> unat n < 2 ^ 31 \<Longrightarrow>
      decodes L 1 (w_writeSetBegin W t n) (r_readSetBegin R) (\<lambda>x. x = (t, n))"
    and set_end: "decodes L 0 (w_writeSetEnd W) (r_readSetEnd R) (\<lambda>_. True)"
    and bool: "decodes L 1 (w_writeBool W b) (r_readBool R) (\<lambda>x. x = b)"
    and byte: "decodes L 1 (w_writeByte W i8) (r_readByte R) (\<lambda>x. x = i8)"
    and i16: "decodes L 1 (w_writeI16 W i16) (r_readI16 R) (\<lambda>x. x = i16)"
    and i32: "decodes L 1 (w_writeI32 W i32) (r_readI32 R) (\<lambda>x. x = i32)"
    and i64: "decodes L 1 (w_writeI64 W i64) (r_readI64 R) (\<lambda>x. x = i64)"
    and double: "decodes L 1 (w_writeDouble W d) (r_readDouble R) (\<lambda>x. x = d)"
    and float: "decodes L 1 (w_writeFloat W fl) (r_readFloat R) (\<lambda>x. x = fl)"
    and string: "decodes L 1 (w_writeString W s) (r_readString R) (\<lambda>x. x = s)"
    and string_binary: "decodes L 1 (w_writeString W s) (r_readBinary R) (\<lambda>x. x = s)"
    and string_skip: "decodes L 1 (w_writeString W s) (r_skipString R) (\<lambda>_. True)"
    and binary: "decodes L 1 (w_writeBinary W s) (r_readBinary R) (\<lambda>x. x = s)"
    and binary_string: "decodes L 1 (w_writeBinary W s) (r_readString R) (\<lambda>x. x = s)"
    and binary_skip: "decodes L 1 (w_writeBinary W s) (r_skipString R) (\<lambda>_. True)"
begin

lemmas leaf_maps = bool [THEN decodes_map] byte [THEN decodes_map] i16 [THEN decodes_map]
  i32 [THEN decodes_map] i64 [THEN decodes_map] float [THEN decodes_map] double [THEN decodes_map]
  string [THEN decodes_map] string_binary [THEN decodes_map] binary [THEN decodes_map]
  binary_string [THEN decodes_map]

text \<open>A boolean field: the Compact protocol keeps its value in the field header.\<close>

lemma bool_field_bind:
  assumes "h (T_BOOL, i) = sbind (r_readBool R) k" and "decodes L l f (k b) P"
  shows "decodes L (1 + l) (wseq (wseq (w_writeFieldBegin W T_BOOL i) (w_writeBool W b)) f)
    (sbind (r_readFieldBegin R) h) P"
proof -
  let ?g = "sbind (r_readFieldBegin R) (\<lambda>x. sbind (r_readBool R) (\<lambda>y. sret (x, y)))"
  let ?g1 = "sbind ?g (\<lambda>z. if fst z = (T_BOOL, i) then k (snd z) else sfail OutOfFuel)"
  have "decodes L (1 + l) (wseq (wseq (w_writeFieldBegin W T_BOOL i) (w_writeBool W b)) f) ?g1 P"
    using assms(2) by (intro decodes_wseq [OF bool_field]) auto
  then show ?thesis
  proof (rule decodes_reader)
    fix w' r rest
    assume "delivers L ?g1 P w' r rest"
    then obtain x r' where g1: "?g1 r = Inr (x, r')" and x: "P x" "lk_rem L r' = rest" "lk_sync L w' r'"
      unfolding delivers_def by blast
    obtain z r2 where g: "?g r = Inr (z, r2)" and k: "fst z = (T_BOOL, i)" "k (snd z) r2 = Inr (x, r')"
      by (rule sbind_eq_InrD [OF g1]) (auto split: if_splits)
    obtain y r1 where f: "r_readFieldBegin R r = Inr (y, r1)"
        and y: "sbind (r_readBool R) (\<lambda>v. sret (y, v)) r1 = Inr (z, r2)"
      by (rule sbind_eq_InrD [OF g])
    obtain v r3 where "r_readBool R r1 = Inr (v, r3)" and "sret (y, v) r3 = Inr (z, r2)"
      by (rule sbind_eq_InrD [OF y])
    with f k have "sbind (r_readFieldBegin R) h r = Inr (x, r')" by (auto simp: assms(1))
    with x show "delivers L (sbind (r_readFieldBegin R) h) P w' r rest" unfolding delivers_def by blast
  qed simp
qed

lemma canRead_ok:
  assumes "unat n * length ts \<le> k" and "decodes L k f g P"
  shows "decodes L k f (sbind (scheck (canReadNElements R n ts) e) (\<lambda>_. g)) P"
  using assms by (intro decodes_scheck) (auto simp: canReadNElements_def canAdvance)

end

end
