(* ===== verification/Dynamic_Value.thy ===== *)
theory Dynamic_Value
  imports Codec
begin

text \<open>
  \<^verbatim>\<open>lib/cpp2/protocol/detail/Object.h\<close>: dynamic values (\<open>protocol::Value\<close>,
  \<open>protocol::Object\<close>), their serialization through any protocol and the schemaless parser.
  Lists, sets, maps and object members are lists in the order the container iterates over them;
  inserting into a set or map keeps one entry per key, keys being compared with \<open>veq\<close>, the
  generated \<open>operator==\<close> of \<open>Value\<close>, which is a parameter.
\<close>

section \<open>Values\<close>

datatype tvalue =
    VEmpty
  | VBool bool
  | VByte i8
  | VI16 i16
  | VI32 i32
  | VI64 i64
  | VFloat u32
  | VDouble u64
  | VString bytes
  | VBinary bytes
  | VObject "(i16 \<times> tvalue) list"
  | VList "tvalue list"
  | VSet "tvalue list"
  | VMap "(tvalue \<times> tvalue) list"

definition unifyStringType :: "byte \<Rightarrow> byte" where
  "unifyStringType type =
    (if type = T_STRING \<or> type = T_UTF8 \<or> type = T_UTF16 then T_STRING else type)"

text \<open>\<open>toTType\<close> on the base type that the active member of the union names.\<close>

fun toTType :: "tvalue \<Rightarrow> byte" where
  "toTType VEmpty = T_VOID"
| "toTType (VBool _) = T_BOOL"
| "toTType (VByte _) = T_BYTE"
| "toTType (VI16 _) = T_I16"
| "toTType (VI32 _) = T_I32"
| "toTType (VI64 _) = T_I64"
| "toTType (VFloat _) = T_FLOAT"
| "toTType (VDouble _) = T_DOUBLE"
| "toTType (VString _) = T_UTF8"
| "toTType (VBinary _) = T_STRING"
| "toTType (VObject _) = T_STRUCT"
| "toTType (VList _) = T_LIST"
| "toTType (VSet _) = T_SET"
| "toTType (VMap _) = T_MAP"

definition getTType :: "tvalue \<Rightarrow> byte" where
  "getTType val = unifyStringType (toTType val)"

definition ensureSameType :: "tvalue \<Rightarrow> byte \<Rightarrow> ('w, unit) st" where
  "ensureSameType a b = sguard (getTType a = b) InvalidFieldData"

section \<open>Serialization\<close>

definition list_elemType :: "tvalue list \<Rightarrow> byte" where
  "list_elemType listVal = (case listVal of [] \<Rightarrow> T_I64 | v # _ \<Rightarrow> getTType v)"

definition map_keyType :: "(tvalue \<times> tvalue) list \<Rightarrow> byte" where
  "map_keyType mapVal = (case mapVal of [] \<Rightarrow> T_STRING | (k, v) # _ \<Rightarrow> getTType k)"

definition map_valueType :: "(tvalue \<times> tvalue) list \<Rightarrow> byte" where
  "map_valueType mapVal = (case mapVal of [] \<Rightarrow> T_I64 | (k, v) # _ \<Rightarrow> getTType v)"

text \<open>
  \<open>serializeValue\<close> with \<open>serializeList\<close>, \<open>serializeSet\<close>, \<open>serializeMap\<close> and
  \<open>serializeObject\<close> in its cases; the three functions after it are their loops.
\<close>

function (sequential) serializeValue :: "'w protocol_writer \<Rightarrow> tvalue \<Rightarrow> ('w, u32) st"
  and serializeElems :: "'w protocol_writer \<Rightarrow> byte \<Rightarrow> tvalue list \<Rightarrow> ('w, u32) st"
  and serializeEntries :: "'w protocol_writer \<Rightarrow> byte \<Rightarrow> byte \<Rightarrow> (tvalue \<times> tvalue) list \<Rightarrow> ('w, u32) st"
  and serializeFields :: "'w protocol_writer \<Rightarrow> (i16 \<times> tvalue) list \<Rightarrow> ('w, u32) st"
where
  "serializeValue W VEmpty = sfail InvalidFieldData"
| "serializeValue W (VBool b) = w_writeBool W b"
| "serializeValue W (VByte b) = w_writeByte W b"
| "serializeValue W (VI16 i) = w_writeI16 W i"
| "serializeValue W (VI32 i) = w_writeI32 W i"
| "serializeValue W (VI64 i) = w_writeI64 W i"
| "serializeValue W (VFloat f) = w_writeFloat W f"
| "serializeValue W (VDouble d) = w_writeDouble W d"
| "serializeValue W (VString s) = w_writeString W s"
| "serializeValue W (VBinary s) = w_writeBinary W s"
| "serializeValue W (VList xs) =
    wseq (w_writeListBegin W (list_elemType xs) (of_nat (length xs)))
      (wseq (serializeElems W (list_elemType xs) xs) (w_writeListEnd W))"
| "serializeValue W (VMap kvs) =
    wseq (w_writeMapBegin W (map_keyType kvs) (map_valueType kvs) (of_nat (length kvs)))
      (wseq (serializeEntries W (map_keyType kvs) (map_valueType kvs) kvs) (w_writeMapEnd W))"
| "serializeValue W (VSet xs) =
    wseq (w_writeSetBegin W (list_elemType xs) (of_nat (length xs)))
      (wseq (serializeElems W (list_elemType xs) xs) (w_writeSetEnd W))"
| "serializeValue W (VObject fs) =
    wseq (w_writeStructBegin W)
      (wseq (serializeFields W fs) (wseq (w_writeFieldStop W) (w_writeStructEnd W)))"
| "serializeElems W elemType [] = sret 0"
| "serializeElems W elemType (val # vals) =
    sbind (ensureSameType val elemType) (\<lambda>_.
      wseq (serializeValue W val) (serializeElems W elemType vals))"
| "serializeEntries W keyType valueType [] = sret 0"
| "serializeEntries W keyType valueType ((key, val) # kvs) =
    sbind (ensureSameType key keyType) (\<lambda>_. sbind (ensureSameType val valueType) (\<lambda>_.
      wseq (serializeValue W key) (wseq (serializeValue W val)
        (serializeEntries W keyType valueType kvs))))"
| "serializeFields W [] = sret 0"
| "serializeFields W ((fieldID, fieldVal) # fs) =
    wseq (w_writeFieldBegin W (getTType fieldVal) fieldID)
      (wseq (serializeValue W fieldVal) (wseq (w_writeFieldEnd W) (serializeFields W fs)))"
  by pat_completeness auto
termination
  by (relation "measure (case_sum (case_sum (\<lambda>(W, v). size v) (\<lambda>(W, t, xs). size_list size xs))
        (case_sum (\<lambda>(W, k, v, kvs). size_list (size_prod size size) kvs)
          (\<lambda>(W, fs). size_list (size_prod (\<lambda>_. 0) size) fs)))") simp_all

definition serializeObject :: "'w protocol_writer \<Rightarrow> (i16 \<times> tvalue) list \<Rightarrow> ('w, u32) st" where
  "serializeObject W obj = serializeValue W (VObject obj)"

section \<open>Parsing\<close>

text \<open>\<open>objectValue[fid]\<close>, \<open>mapValue[key]\<close> and \<open>setValue.insert\<close>.\<close>

fun assoc_set :: "('k \<Rightarrow> 'k \<Rightarrow> bool) \<Rightarrow> 'k \<Rightarrow> 'v \<Rightarrow> ('k \<times> 'v) list \<Rightarrow> ('k \<times> 'v) list" where
  "assoc_set eq k v [] = [(k, v)]"
| "assoc_set eq k v ((k', v') # kvs) =
    (if eq k' k then (k', v) # kvs else (k', v') # assoc_set eq k v kvs)"

definition set_insert :: "('k \<Rightarrow> 'k \<Rightarrow> bool) \<Rightarrow> 'k \<Rightarrow> 'k list \<Rightarrow> 'k list" where
  "set_insert eq x xs = (if list_ex (\<lambda>y. eq y x) xs then xs else xs @ [x])"

text \<open>
  \<open>parseValueInplace\<close> and \<open>parseObjectInplace\<close> with their loops; \<open>stb\<close> is
  \<open>string_to_binary\<close>, \<open>fuel\<close> bounds the depth of the recursion of the model.
\<close>

function (sequential) parseValue :: "'r protocol_reader \<Rightarrow> (tvalue \<Rightarrow> tvalue \<Rightarrow> bool) \<Rightarrow> bool \<Rightarrow> nat \<Rightarrow> byte \<Rightarrow> ('r, tvalue) st"
  and parseObject :: "'r protocol_reader \<Rightarrow> (tvalue \<Rightarrow> tvalue \<Rightarrow> bool) \<Rightarrow> bool \<Rightarrow> nat \<Rightarrow> (i16 \<times> tvalue) list
    \<Rightarrow> ('r, (i16 \<times> tvalue) list) st"
  and parseMap :: "'r protocol_reader \<Rightarrow> (tvalue \<Rightarrow> tvalue \<Rightarrow> bool) \<Rightarrow> bool \<Rightarrow> nat \<Rightarrow> byte \<Rightarrow> byte \<Rightarrow> nat
    \<Rightarrow> (tvalue \<times> tvalue) list \<Rightarrow> ('r, (tvalue \<times> tvalue) list) st"
  and parseSet :: "'r protocol_reader \<Rightarrow> (tvalue \<Rightarrow> tvalue \<Rightarrow> bool) \<Rightarrow> bool \<Rightarrow> nat \<Rightarrow> byte \<Rightarrow> nat
    \<Rightarrow> tvalue list \<Rightarrow> ('r, tvalue list) st"
  and parseList :: "'r protocol_reader \<Rightarrow> (tvalue \<Rightarrow> tvalue \<Rightarrow> bool) \<Rightarrow> bool \<Rightarrow> nat \<Rightarrow> byte \<Rightarrow> nat
    \<Rightarrow> ('r, tvalue list) st"
where
  "parseValue P veq stb 0 arg_type = sfail OutOfFuel"
| "parseValue P veq stb (Suc fuel) arg_type =
    (let type = unifyStringType arg_type in
     if type = T_BOOL then sbind (r_readBool P) (\<lambda>b. sret (VBool b))
     else if type = T_BYTE then sbind (r_readByte P) (\<lambda>b. sret (VByte b))
     else if type = T_I16 then sbind (r_readI16 P) (\<lambda>i. sret (VI16 i))
     else if type = T_I32 then sbind (r_readI32 P) (\<lambda>i. sret (VI32 i))
     else if type = T_I64 then sbind (r_readI64 P) (\<lambda>i. sret (VI64 i))
     else if type = T_DOUBLE then sbind (r_readDouble P) (\<lambda>d. sret (VDouble d))
     else if type = T_FLOAT then sbind (r_readFloat P) (\<lambda>f. sret (VFloat f))
     else if type = T_STRING then
       (if stb then sbind (r_readBinary P) (\<lambda>s. sret (VBinary s))
        else sbind (r_readString P) (\<lambda>s. sret (VString s)))
     else if type = T_STRUCT then
       sbind (r_readStructBegin P) (\<lambda>_. sbind (parseObject P veq stb fuel []) (\<lambda>fs.
         sbind (r_readStructEnd P) (\<lambda>_. sret (VObject fs))))
     else if type = T_MAP then
       sbind (r_readMapBegin P) (\<lambda>(keyType, valType, sz).
         sbind (scheck (canReadNElements P sz [keyType, valType]) TruncatedData) (\<lambda>_.
         sbind (parseMap P veq stb fuel keyType valType (unat sz) []) (\<lambda>kvs.
         sbind (r_readMapEnd P) (\<lambda>_. sret (VMap kvs)))))
     else if type = T_SET then
       sbind (r_readSetBegin P) (\<lambda>(elemType, sz).
         sbind (scheck (canReadNElements P sz [elemType]) TruncatedData) (\<lambda>_.
         sbind (parseSet P veq stb fuel elemType (unat sz) []) (\<lambda>xs.
         sbind (r_readSetEnd P) (\<lambda>_. sret (VSet xs)))))
     else if type = T_LIST then
       sbind (r_readListBegin P) (\<lambda>(elemType, sz).
         sbind (scheck (canReadNElements P sz [elemType]) TruncatedData) (\<lambda>_.
         sbind (parseList P veq stb fuel elemType (unat sz)) (\<lambda>xs.
         sbind (r_readListEnd P) (\<lambda>_. sret (VList xs)))))
     else sfail (InvalidSkipType arg_type))"
| "parseObject P veq stb 0 fs = sfail OutOfFuel"
| "parseObject P veq stb (Suc fuel) fs =
    sbind (r_readFieldBegin P) (\<lambda>(ftype, fid).
      if ftype = T_STOP then sret fs
      else sbind (parseValue P veq stb fuel ftype) (\<lambda>v.
           sbind (r_readFieldEnd P) (\<lambda>_. parseObject P veq stb fuel (assoc_set (=) fid v fs))))"
| "parseMap P veq stb 0 keyType valType n kvs = sfail OutOfFuel"
| "parseMap P veq stb (Suc fuel) keyType valType n kvs =
    (case n of 0 \<Rightarrow> sret kvs
     | Suc m \<Rightarrow> sbind (parseValue P veq stb fuel keyType) (\<lambda>k.
         sbind (parseValue P veq stb fuel valType) (\<lambda>v.
         parseMap P veq stb fuel keyType valType m (assoc_set veq k v kvs))))"
| "parseSet P veq stb 0 elemType n xs = sfail OutOfFuel"
| "parseSet P veq stb (Suc fuel) elemType n xs =
    (case n of 0 \<Rightarrow> sret xs
     | Suc m \<Rightarrow> sbind (parseValue P veq stb fuel elemType) (\<lambda>v.
         parseSet P veq stb fuel elemType m (set_insert veq v xs)))"
| "parseList P veq stb 0 elemType n = sfail OutOfFuel"
| "parseList P veq stb (Suc fuel) elemType n =
    (case n of 0 \<Rightarrow> sret []
     | Suc m \<Rightarrow> sbind (parseValue P veq stb fuel elemType) (\<lambda>v.
         sbind (parseList P veq stb fuel elemType m) (\<lambda>vs. sret (v # vs))))"
  by pat_completeness auto
termination
  by (relation "measure (case_sum (case_sum (\<lambda>(P, veq, stb, fuel, t). fuel) (\<lambda>(P, veq, stb, fuel, fs). fuel))
        (case_sum (\<lambda>(P, veq, stb, fuel, k, v, n, kvs). fuel)
          (case_sum (\<lambda>(P, veq, stb, fuel, e, n, xs). fuel) (\<lambda>(P, veq, stb, fuel, e, n). fuel))))") simp_all

declare parseValue.simps(2) [simp del] parseObject.simps(2) [simp del] parseMap.simps(2) [simp del]
  parseSet.simps(2) [simp del] parseList.simps(2) [simp del]

section \<open>What survives a round trip\<close>

text \<open>
  Strings and binaries have the same wire type, so the parser gives them all the type it was
  asked for; everything else is kept.
\<close>

primrec norm :: "bool \<Rightarrow> tvalue \<Rightarrow> tvalue" where
  "norm stb VEmpty = VEmpty"
| "norm stb (VBool b) = VBool b"
| "norm stb (VByte b) = VByte b"
| "norm stb (VI16 i) = VI16 i"
| "norm stb (VI32 i) = VI32 i"
| "norm stb (VI64 i) = VI64 i"
| "norm stb (VFloat f) = VFloat f"
| "norm stb (VDouble d) = VDouble d"
| "norm stb (VString s) = (if stb then VBinary s else VString s)"
| "norm stb (VBinary s) = (if stb then VBinary s else VString s)"
| "norm stb (VObject fs) = VObject (map (map_prod id (norm stb)) fs)"
| "norm stb (VList xs) = VList (map (norm stb) xs)"
| "norm stb (VSet xs) = VSet (map (norm stb) xs)"
| "norm stb (VMap kvs) = VMap (map (map_prod (norm stb) (norm stb)) kvs)"

fun distinct_by :: "('k \<Rightarrow> 'k \<Rightarrow> bool) \<Rightarrow> 'k list \<Rightarrow> bool" where
  "distinct_by eq [] = True"
| "distinct_by eq (x # xs) = (list_all (\<lambda>y. \<not> eq x y) xs \<and> distinct_by eq xs)"

text \<open>
  Values the wire can carry: no empty union, sizes that fit the signed 32-bit length fields,
  and containers that are sets and maps (distinct elements, keys and field ids).
\<close>

primrec wf_value :: "(tvalue \<Rightarrow> tvalue \<Rightarrow> bool) \<Rightarrow> bool \<Rightarrow> tvalue \<Rightarrow> bool" where
  "wf_value veq stb VEmpty = False"
| "wf_value veq stb (VBool b) = True"
| "wf_value veq stb (VByte b) = True"
| "wf_value veq stb (VI16 i) = True"
| "wf_value veq stb (VI32 i) = True"
| "wf_value veq stb (VI64 i) = True"
| "wf_value veq stb (VFloat f) = True"
| "wf_value veq stb (VDouble d) = True"
| "wf_value veq stb (VString s) = True"
| "wf_value veq stb (VBinary s) = True"
| "wf_value veq stb (VObject fs) =
    (list_all snd (map (map_prod id (wf_value veq stb)) fs) \<and> distinct_by (=) (map fst fs))"
| "wf_value veq stb (VList xs) = (length xs < 2 ^ 31 \<and> list_all id (map (wf_value veq stb) xs))"
| "wf_value veq stb (VSet xs) = (length xs < 2 ^ 31 \<and> list_all id (map (wf_value veq stb) xs) \<and>
    distinct_by veq (map (norm stb) xs))"
| "wf_value veq stb (VMap kvs) = (length kvs < 2 ^ 31 \<and>
    list_all (\<lambda>(a, b). a \<and> b) (map (map_prod (wf_value veq stb) (wf_value veq stb)) kvs) \<and>
    distinct_by veq (map (\<lambda>kv. norm stb (fst kv)) kvs))"

text \<open>The recursion depth the parser's model needs for a value.\<close>

definition loop_fuel :: "nat list \<Rightarrow> nat" where
  "loop_fuel ns = foldr (\<lambda>n m. Suc (max n m)) ns 1"

primrec vfuel :: "tvalue \<Rightarrow> nat" where
  "vfuel VEmpty = 1"
| "vfuel (VBool b) = 1"
| "vfuel (VByte b) = 1"
| "vfuel (VI16 i) = 1"
| "vfuel (VI32 i) = 1"
| "vfuel (VI64 i) = 1"
| "vfuel (VFloat f) = 1"
| "vfuel (VDouble d) = 1"
| "vfuel (VString s) = 1"
| "vfuel (VBinary s) = 1"
| "vfuel (VObject fs) = Suc (loop_fuel (map snd (map (map_prod id vfuel) fs)))"
| "vfuel (VList xs) = Suc (loop_fuel (map vfuel xs))"
| "vfuel (VSet xs) = Suc (loop_fuel (map vfuel xs))"
| "vfuel (VMap kvs) = Suc (loop_fuel (map (\<lambda>(a, b). max a b) (map (map_prod vfuel vfuel) kvs)))"

lemma loop_fuel_simps [simp]:
  "loop_fuel [] = 1" "loop_fuel (n # ns) = Suc (max n (loop_fuel ns))"
  by (simp_all add: loop_fuel_def)

lemma distinct_by_append:
  "distinct_by eq (xs @ x # ys) \<Longrightarrow> list_all (\<lambda>y. \<not> eq y x) xs"
  by (induction xs) auto

lemma assoc_set_new:
  "list_all (\<lambda>y. \<not> eq y k) (map fst kvs) \<Longrightarrow> assoc_set eq k v kvs = kvs @ [(k, v)]"
  by (induction eq k v kvs rule: assoc_set.induct) auto

lemma set_insert_new: "list_all (\<lambda>y. \<not> eq y x) xs \<Longrightarrow> set_insert eq x xs = xs @ [x]"
  by (induction xs) (auto simp: set_insert_def)

lemma getTType_simps [simp]:
  "getTType VEmpty = T_VOID" "getTType (VBool b) = T_BOOL" "getTType (VByte c) = T_BYTE"
  "getTType (VI16 h) = T_I16" "getTType (VI32 i) = T_I32" "getTType (VI64 l) = T_I64"
  "getTType (VFloat f) = T_FLOAT" "getTType (VDouble d) = T_DOUBLE" "getTType (VString s) = T_STRING"
  "getTType (VBinary s) = T_STRING" "getTType (VObject fs) = T_STRUCT" "getTType (VList xs) = T_LIST"
  "getTType (VSet xs) = T_SET" "getTType (VMap kvs) = T_MAP"
  by (simp_all add: getTType_def unifyStringType_def)

lemma unifyStringType_getTType [simp]: "unifyStringType (getTType v) = getTType v"
  by (simp add: getTType_def unifyStringType_def)

lemma getTType_value_types: "v \<noteq> VEmpty \<Longrightarrow> getTType v \<in> set value_types"
  by (cases v) (simp_all add: value_types_def)

lemma default_value_types [simp]: "T_I64 \<in> set value_types" "T_STRING \<in> set value_types"
  by (simp_all add: value_types_def)

lemma getTType_wf: "wf_value veq stb v \<Longrightarrow> getTType v \<in> set value_types"
  by (cases "v = VEmpty") (auto intro: getTType_value_types)

lemma elemType_wf: "list_all id (map (wf_value veq stb) xs) \<Longrightarrow> list_elemType xs \<in> set value_types"
  by (cases xs) (auto simp: list_elemType_def intro: getTType_wf)

lemma entryTypes_wf:
  assumes "list_all (\<lambda>(a, b). a \<and> b) (map (map_prod (wf_value veq stb) (wf_value veq stb)) kvs)"
  shows "map_keyType kvs \<in> set value_types" "map_valueType kvs \<in> set value_types"
  using assms by (cases kvs; force simp: map_keyType_def map_valueType_def intro: getTType_wf)+

context codec begin

text \<open>
  The induction follows \<open>serializeValue\<close>: the value, then the loops over elements, entries
  and fields, each against the parser's loop with what it has collected so far.
\<close>

definition value_ok :: "(tvalue \<Rightarrow> tvalue \<Rightarrow> bool) \<Rightarrow> bool \<Rightarrow> tvalue \<Rightarrow> bool" where
  "value_ok veq stb v \<longleftrightarrow> (\<forall>fuel. wf_value veq stb v \<longrightarrow> vfuel v \<le> fuel \<longrightarrow>
    decodes L 1 (serializeValue W v) (parseValue R veq stb fuel (getTType v)) (\<lambda>x. x = norm stb v))"

lemma fuel_Suc:
  assumes "Suc n \<le> fuel"
  obtains m where "fuel = Suc m" and "n \<le> m"
  using assms by (cases fuel) auto

lemma leaf_ok:
  assumes "v \<in> {VBool b, VByte c, VI16 h, VI32 i, VI64 l, VFloat f, VDouble d, VString s, VBinary s}"
  shows "value_ok veq stb v"
  unfolding value_ok_def
proof (intro allI impI)
  fix fuel assume "vfuel v \<le> fuel"
  moreover have "vfuel v = 1" using assms by auto
  ultimately obtain n where n: "fuel = Suc n" by (cases fuel) auto
  show "decodes L 1 (serializeValue W v) (parseValue R veq stb fuel (getTType v)) (\<lambda>x. x = norm stb v)"
    using assms
    by (auto simp: n parseValue.simps unifyStringType_def
        intro!: leaf_maps [unfolded One_nat_def])
qed

lemma elems_list_ok:
  assumes "\<And>x. x \<in> set xs \<Longrightarrow> value_ok veq stb x" and "list_all id (map (wf_value veq stb) xs)"
    and "loop_fuel (map vfuel xs) \<le> fuel"
  shows "decodes L (length xs) (serializeElems W t xs) (parseList R veq stb fuel t (length xs))
    (\<lambda>ys. ys = map (norm stb) xs)"
  using assms
proof (induction xs arbitrary: fuel)
  case Nil
  then obtain n where "fuel = Suc n" by (cases fuel) auto
  then show ?case by (auto simp: parseList.simps)
next
  case (Cons x xs)
  from Cons.prems(3) obtain n where n: "fuel = Suc n" "vfuel x \<le> n" "loop_fuel (map vfuel xs) \<le> n"
    by (auto elim: fuel_Suc)
  have x: "decodes L 1 (serializeValue W x) (parseValue R veq stb n t) (\<lambda>y. y = norm stb x)"
    if "getTType x = t"
    using Cons.prems(1) [of x] Cons.prems(2) n(2) that by (auto simp: value_ok_def)
  have xs: "decodes L (length xs) (serializeElems W t xs) (parseList R veq stb n t (length xs))
      (\<lambda>ys. ys = map (norm stb) xs)"
    using Cons n by simp
  have "decodes L (1 + length xs) (wseq (serializeValue W x) (serializeElems W t xs))
      (sbind (parseValue R veq stb n t) (\<lambda>v. sbind (parseList R veq stb n t (length xs)) (\<lambda>vs. sret (v # vs))))
      (\<lambda>ys. ys = map (norm stb) (x # xs))" if "getTType x = t"
    by (rule decodes_wseq [OF x [OF that]]) (auto intro: decodes_map [OF xs])
  then show ?case
    using n by (auto simp: parseList.simps ensureSameType_def intro: decodes_guard)
qed

lemma elems_set_ok:
  assumes "\<And>x. x \<in> set xs \<Longrightarrow> value_ok veq stb x" and "list_all id (map (wf_value veq stb) xs)"
    and "loop_fuel (map vfuel xs) \<le> fuel" and "distinct_by veq (acc @ map (norm stb) xs)"
  shows "decodes L (length xs) (serializeElems W t xs) (parseSet R veq stb fuel t (length xs) acc)
    (\<lambda>ys. ys = acc @ map (norm stb) xs)"
  using assms
proof (induction xs arbitrary: fuel acc)
  case Nil
  then obtain n where "fuel = Suc n" by (cases fuel) auto
  then show ?case by (auto simp: parseSet.simps)
next
  case (Cons x xs)
  from Cons.prems(3) obtain n where n: "fuel = Suc n" "vfuel x \<le> n" "loop_fuel (map vfuel xs) \<le> n"
    by (auto elim: fuel_Suc)
  have x: "decodes L 1 (serializeValue W x) (parseValue R veq stb n t) (\<lambda>y. y = norm stb x)"
    if "getTType x = t"
    using Cons.prems(1) [of x] Cons.prems(2) n(2) that by (auto simp: value_ok_def)
  have ins: "set_insert veq (norm stb x) acc = acc @ [norm stb x]"
    using Cons.prems(4) by (intro set_insert_new) (auto dest: distinct_by_append)
  have xs: "decodes L (length xs) (serializeElems W t xs) (parseSet R veq stb n t (length xs) (acc @ [norm stb x]))
      (\<lambda>ys. ys = (acc @ [norm stb x]) @ map (norm stb) xs)"
    using Cons.prems n by (intro Cons.IH) auto
  have "decodes L (1 + length xs) (wseq (serializeValue W x) (serializeElems W t xs))
      (sbind (parseValue R veq stb n t) (\<lambda>v. parseSet R veq stb n t (length xs) (set_insert veq v acc)))
      (\<lambda>ys. ys = acc @ map (norm stb) (x # xs))" if "getTType x = t"
    using xs ins by (intro decodes_wseq [OF x [OF that]]) auto
  then show ?case
    using n by (auto simp: parseSet.simps ensureSameType_def intro: decodes_guard)
qed

lemma entries_ok:
  assumes "\<And>k v. (k, v) \<in> set kvs \<Longrightarrow> value_ok veq stb k \<and> value_ok veq stb v"
    and "list_all (\<lambda>(a, b). a \<and> b) (map (map_prod (wf_value veq stb) (wf_value veq stb)) kvs)"
    and "loop_fuel (map (\<lambda>(a, b). max a b) (map (map_prod vfuel vfuel) kvs)) \<le> fuel"
    and "distinct_by veq (map fst acc @ map (\<lambda>kv. norm stb (fst kv)) kvs)"
  shows "decodes L (2 * length kvs) (serializeEntries W kt vt kvs)
    (parseMap R veq stb fuel kt vt (length kvs) acc)
    (\<lambda>ys. ys = acc @ map (map_prod (norm stb) (norm stb)) kvs)"
  using assms
proof (induction kvs arbitrary: fuel acc)
  case Nil
  then obtain n where "fuel = Suc n" by (cases fuel) auto
  then show ?case by (auto simp: parseMap.simps)
next
  case (Cons kv kvs)
  obtain k v where kv: "kv = (k, v)" by (cases kv)
  from Cons.prems(3) obtain n where n: "fuel = Suc n" "vfuel k \<le> n" "vfuel v \<le> n"
      "loop_fuel (map (\<lambda>(a, b). max a b) (map (map_prod vfuel vfuel) kvs)) \<le> n"
    by (auto simp: kv elim: fuel_Suc)
  have kd: "decodes L 1 (serializeValue W k) (parseValue R veq stb n kt) (\<lambda>y. y = norm stb k)"
    if "getTType k = kt"
    using Cons.prems(1) [of k v] Cons.prems(2) n(2) that by (auto simp: value_ok_def kv)
  have vd: "decodes L 1 (serializeValue W v) (parseValue R veq stb n vt) (\<lambda>y. y = norm stb v)"
    if "getTType v = vt"
    using Cons.prems(1) [of k v] Cons.prems(2) n(3) that by (auto simp: value_ok_def kv)
  have ins: "assoc_set veq (norm stb k) y acc = acc @ [(norm stb k, y)]" for y
    using Cons.prems(4) by (intro assoc_set_new) (auto simp: kv dest: distinct_by_append)
  have rest: "decodes L (2 * length kvs) (serializeEntries W kt vt kvs)
      (parseMap R veq stb n kt vt (length kvs) (acc @ [(norm stb k, norm stb v)]))
      (\<lambda>ys. ys = (acc @ [(norm stb k, norm stb v)]) @ map (map_prod (norm stb) (norm stb)) kvs)"
    using Cons.prems n by (intro Cons.IH) (auto simp: kv)
  have "decodes L (1 + (1 + 2 * length kvs))
      (wseq (serializeValue W k) (wseq (serializeValue W v) (serializeEntries W kt vt kvs)))
      (sbind (parseValue R veq stb n kt) (\<lambda>a. sbind (parseValue R veq stb n vt) (\<lambda>b.
        parseMap R veq stb n kt vt (length kvs) (assoc_set veq a b acc))))
      (\<lambda>ys. ys = acc @ map (map_prod (norm stb) (norm stb)) (kv # kvs))"
    if "getTType k = kt" "getTType v = vt"
    using rest ins by (intro decodes_wseq [OF kd] decodes_wseq [OF vd] that) (auto simp: kv)
  then show ?case
    using n by (auto simp: kv parseMap.simps ensureSameType_def intro: decodes_guard)
qed

lemma field_ok:
  assumes "value_ok veq stb v" and "wf_value veq stb v" and "vfuel v \<le> n"
    and "decodes L l f (h i (norm stb v)) P"
  shows "decodes L (1 + l) (wseq (w_writeFieldBegin W (getTType v) i) (wseq (serializeValue W v) f))
    (sbind (r_readFieldBegin R) (\<lambda>(ftype, fid). if ftype = T_STOP then sret z
      else sbind (parseValue R veq stb n ftype) (h fid))) P"
    (is "decodes L _ _ (sbind _ ?h) P")
proof (cases "\<exists>b. v = VBool b")
  case True
  then obtain b where b: "v = VBool b" by blast
  obtain m where "n = Suc m" using assms(3) b by (cases n) auto
  then have h: "?h (T_BOOL, i) = sbind (r_readBool R) (\<lambda>y. h i (VBool y))"
    by (simp add: parseValue.simps unifyStringType_def sbind_assoc)
  show ?thesis
    using bool_field_bind [where h = ?h and k = "\<lambda>y. h i (VBool y)", OF h, of l f b P] assms(4) b
    by (simp add: wseq_assoc)
next
  case False
  then have t: "getTType v \<noteq> T_BOOL" by (cases v) auto
  have s: "getTType v \<noteq> T_STOP" by (cases v) auto
  have v: "decodes L 1 (serializeValue W v) (parseValue R veq stb n (getTType v)) (\<lambda>x. x = norm stb v)"
    using assms(1-3) by (simp add: value_ok_def)
  have "decodes L (1 + l) (wseq (serializeValue W v) f) (sbind (parseValue R veq stb n (getTType v)) (h i)) P"
    using assms(4) by (intro decodes_wseq [OF v]) auto
  then have "decodes L (1 + (1 + l)) (wseq (w_writeFieldBegin W (getTType v) i) (wseq (serializeValue W v) f))
      (sbind (r_readFieldBegin R) ?h) P"
    using s by (intro decodes_wseq [OF field_begin [OF getTType_wf [OF assms(2)] t]]) auto
  then show ?thesis by (rule decodes_mono) auto
qed

lemma fields_ok:
  assumes "\<And>i v. (i, v) \<in> set fs \<Longrightarrow> value_ok veq stb v"
    and "list_all snd (map (map_prod id (wf_value veq stb)) fs)"
    and "loop_fuel (map snd (map (map_prod id vfuel) fs)) \<le> fuel"
    and "distinct_by (=) (map fst acc @ map fst fs)"
  shows "decodes L 1 (wseq (serializeFields W fs) (w_writeFieldStop W)) (parseObject R veq stb fuel acc)
    (\<lambda>ys. ys = acc @ map (map_prod id (norm stb)) fs)"
  using assms
proof (induction fs arbitrary: fuel acc)
  case Nil
  then obtain n where "fuel = Suc n" by (cases fuel) auto
  moreover have "decodes L (1 + 0) (wseq (w_writeFieldStop W) (sret 0)) (sbind (r_readFieldBegin R)
      (\<lambda>(ftype, fid). if ftype = T_STOP then sret acc
        else sbind (parseValue R veq stb n ftype) (\<lambda>v.
           sbind (r_readFieldEnd R) (\<lambda>_. parseObject R veq stb n (assoc_set (=) fid v acc)))))
      (\<lambda>ys. ys = acc)" for n
    by (rule decodes_wseq [OF field_stop]) auto
  ultimately show ?case by (simp add: parseObject.simps)
next
  case (Cons iv fs)
  obtain i v where iv: "iv = (i, v)" by (cases iv)
  from Cons.prems(3) obtain n where n: "fuel = Suc n" "vfuel v \<le> n"
      "loop_fuel (map snd (map (map_prod id vfuel) fs)) \<le> n"
    by (auto simp: iv elim: fuel_Suc)
  have ins: "assoc_set (=) i y acc = acc @ [(i, y)]" for y
    using Cons.prems(4) by (intro assoc_set_new) (auto simp: iv dest: distinct_by_append)
  have "decodes L 1 (wseq (serializeFields W fs) (w_writeFieldStop W))
      (parseObject R veq stb n (acc @ [(i, norm stb v)]))
      (\<lambda>ys. ys = (acc @ [(i, norm stb v)]) @ map (map_prod id (norm stb)) fs)"
    using Cons.prems n by (intro Cons.IH) (auto simp: iv)
  then have "decodes L (0 + 1) (wseq (w_writeFieldEnd W) (wseq (serializeFields W fs) (w_writeFieldStop W)))
      (sbind (r_readFieldEnd R) (\<lambda>_. parseObject R veq stb n (assoc_set (=) i (norm stb v) acc)))
      (\<lambda>ys. ys = acc @ map (map_prod id (norm stb)) (iv # fs))"
    by (intro decodes_wseq [OF field_end]) (auto simp: ins iv)
  from field_ok [where h = "\<lambda>fid x. sbind (r_readFieldEnd R) (\<lambda>_. parseObject R veq stb n (assoc_set (=) fid x acc))",
      OF Cons.prems(1) [of i v] _ n(2) this]
  have "wf_value veq stb v \<Longrightarrow> decodes L (1 + (0 + 1)) (wseq (serializeFields W (iv # fs)) (w_writeFieldStop W))
      (parseObject R veq stb fuel acc) (\<lambda>ys. ys = acc @ map (map_prod id (norm stb)) (iv # fs))"
    unfolding n parseObject.simps iv serializeFields.simps wseq_assoc by simp
  moreover have "wf_value veq stb v" using Cons.prems(2) by (simp add: iv)
  ultimately show ?case by (blast intro: decodes_mono [where k = "1 + (0 + 1)"] le_add1)
qed

lemma container_begin:
  assumes "decodes L 1 f g (\<lambda>x. x = (t, n))" and "unat n \<le> k" and "decodes L k f2 (h t n) Q"
  shows "decodes L 1 (wseq f f2) (sbind g (\<lambda>(elemType, sz).
    sbind (scheck (canReadNElements R sz [elemType]) TruncatedData) (\<lambda>_. h elemType sz))) Q"
proof -
  have "decodes L (1 + k) (wseq f f2) (sbind g (\<lambda>(elemType, sz).
      sbind (scheck (canReadNElements R sz [elemType]) TruncatedData) (\<lambda>_. h elemType sz))) Q"
    using assms(2) canRead_ok [OF _ assms(3), of n "[t]"] by (intro decodes_wseq [OF assms(1)]) auto
  then show ?thesis by (rule decodes_mono) auto
qed

lemma map_begin_check:
  assumes "kt \<in> set value_types" and "vt \<in> set value_types" and "unat n < 2 ^ 31"
    and "2 * unat n \<le> k" and "\<And>kt' vt'. (n \<noteq> 0 \<longrightarrow> kt' = kt \<and> vt' = vt) \<Longrightarrow> decodes L k f2 (h kt' vt' n) Q"
  shows "decodes L 1 (wseq (w_writeMapBegin W kt vt n) f2) (sbind (r_readMapBegin R) (\<lambda>(keyType, valType, sz).
    sbind (scheck (canReadNElements R sz [keyType, valType]) TruncatedData) (\<lambda>_. h keyType valType sz))) Q"
proof -
  have step: "decodes L k f2 (sbind (scheck (canReadNElements R n [kt', vt']) TruncatedData) (\<lambda>_. h kt' vt' n)) Q"
    if "n \<noteq> 0 \<longrightarrow> kt' = kt \<and> vt' = vt" for kt' vt'
    using assms(4) by (intro canRead_ok [OF _ assms(5) [OF that]]) (simp add: mult.commute)
  have "decodes L (1 + k) (wseq (w_writeMapBegin W kt vt n) f2) (sbind (r_readMapBegin R) (\<lambda>(keyType, valType, sz).
      sbind (scheck (canReadNElements R sz [keyType, valType]) TruncatedData) (\<lambda>_. h keyType valType sz))) Q"
  proof (rule decodes_wseq [OF map_begin [OF assms(1-3)]])
    fix x :: "byte \<times> byte \<times> u32"
    assume "case x of (k', v', n') \<Rightarrow> n' = n \<and> (n \<noteq> 0 \<longrightarrow> k' = kt \<and> v' = vt)"
    then obtain k' v' where x: "x = (k', v', n)" "n \<noteq> 0 \<longrightarrow> k' = kt \<and> v' = vt" by (cases x) auto
    show "decodes L k f2 (case x of (keyType, valType, sz) \<Rightarrow>
      sbind (scheck (canReadNElements R sz [keyType, valType]) TruncatedData) (\<lambda>_. h keyType valType sz)) Q"
      using step [OF x(2)] by (simp only: x(1) prod.case)
  qed auto
  then show ?thesis by (rule decodes_mono) auto
qed

lemma list_ok:
  assumes "\<And>x. x \<in> set xs \<Longrightarrow> value_ok veq stb x"
  shows "value_ok veq stb (VList xs)"
  unfolding value_ok_def
proof (intro allI impI)
  fix fuel assume wf: "wf_value veq stb (VList xs)" and "vfuel (VList xs) \<le> fuel"
  then obtain n where n: "fuel = Suc n" "loop_fuel (map vfuel xs) \<le> n" by (auto elim: fuel_Suc)
  have len: "unat (of_nat (length xs) :: u32) = length xs" using wf by (simp add: size_u32)
  have "decodes L (length xs + 0) (wseq (serializeElems W (list_elemType xs) xs) (w_writeListEnd W))
      (sbind (parseList R veq stb n (list_elemType xs) (length xs)) (\<lambda>ys.
        sbind (r_readListEnd R) (\<lambda>_. sret (VList ys)))) (\<lambda>x. x = norm stb (VList xs))"
    using wf n assms by (intro decodes_wseq [OF elems_list_ok]) (auto intro: decodes_map [OF list_end])
  then show "decodes L 1 (serializeValue W (VList xs)) (parseValue R veq stb fuel (getTType (VList xs)))
      (\<lambda>x. x = norm stb (VList xs))"
    using container_begin [OF list_begin [of "list_elemType xs" "of_nat (length xs)"], of "length xs + 0" _
        "\<lambda>t m. sbind (parseList R veq stb n t (unat m)) (\<lambda>ys. sbind (r_readListEnd R) (\<lambda>_. sret (VList ys)))"]
      elemType_wf [of veq stb xs] wf len
    by (simp add: n parseValue.simps unifyStringType_def)
qed

lemma set_ok:
  assumes "\<And>x. x \<in> set xs \<Longrightarrow> value_ok veq stb x"
  shows "value_ok veq stb (VSet xs)"
  unfolding value_ok_def
proof (intro allI impI)
  fix fuel assume wf: "wf_value veq stb (VSet xs)" and "vfuel (VSet xs) \<le> fuel"
  then obtain n where n: "fuel = Suc n" "loop_fuel (map vfuel xs) \<le> n" by (auto elim: fuel_Suc)
  have len: "unat (of_nat (length xs) :: u32) = length xs" using wf by (simp add: size_u32)
  have "decodes L (length xs + 0) (wseq (serializeElems W (list_elemType xs) xs) (w_writeSetEnd W))
      (sbind (parseSet R veq stb n (list_elemType xs) (length xs) []) (\<lambda>ys.
        sbind (r_readSetEnd R) (\<lambda>_. sret (VSet ys)))) (\<lambda>x. x = norm stb (VSet xs))"
    using wf n assms by (intro decodes_wseq [OF elems_set_ok]) (auto intro: decodes_map [OF set_end])
  then show "decodes L 1 (serializeValue W (VSet xs)) (parseValue R veq stb fuel (getTType (VSet xs)))
      (\<lambda>x. x = norm stb (VSet xs))"
    using container_begin [OF set_begin [of "list_elemType xs" "of_nat (length xs)"], of "length xs + 0" _
        "\<lambda>t m. sbind (parseSet R veq stb n t (unat m) []) (\<lambda>ys. sbind (r_readSetEnd R) (\<lambda>_. sret (VSet ys)))"]
      elemType_wf [of veq stb xs] wf len
    by (simp add: n parseValue.simps unifyStringType_def)
qed

lemma map_ok:
  assumes "\<And>k v. (k, v) \<in> set kvs \<Longrightarrow> value_ok veq stb k \<and> value_ok veq stb v"
  shows "value_ok veq stb (VMap kvs)"
  unfolding value_ok_def
proof (intro allI impI)
  fix fuel assume wf: "wf_value veq stb (VMap kvs)" and "vfuel (VMap kvs) \<le> fuel"
  then obtain n where n: "fuel = Suc n"
      "loop_fuel (map (\<lambda>(a, b). max a b) (map (map_prod vfuel vfuel) kvs)) \<le> n" by (auto elim: fuel_Suc)
  let ?kt = "map_keyType kvs" and ?vt = "map_valueType kvs" and ?n = "of_nat (length kvs) :: u32"
  have len: "unat ?n = length kvs" using wf by (simp add: size_u32)
  have entries: "decodes L (2 * length kvs) (serializeEntries W ?kt ?vt kvs)
      (parseMap R veq stb n kt vt (length kvs) []) (\<lambda>ys. ys = map (map_prod (norm stb) (norm stb)) kvs)"
    if "?n \<noteq> 0 \<longrightarrow> kt = ?kt \<and> vt = ?vt" for kt vt
  proof (cases kvs)
    case Nil
    then show ?thesis using n by (cases n) (auto simp: parseMap.simps)
  next
    case (Cons a list)
    then have "?n \<noteq> 0" using len by (metis length_0_conv list.distinct(1) unat_0)
    then show ?thesis using entries_ok [of kvs veq stb n "[]" ?kt ?vt] assms wf n that by simp
  qed
  have "decodes L (2 * length kvs + 0) (wseq (serializeEntries W ?kt ?vt kvs) (w_writeMapEnd W))
      (sbind (parseMap R veq stb n kt vt (length kvs) []) (\<lambda>ys.
        sbind (r_readMapEnd R) (\<lambda>_. sret (VMap ys)))) (\<lambda>x. x = norm stb (VMap kvs))"
    if "?n \<noteq> 0 \<longrightarrow> kt = ?kt \<and> vt = ?vt" for kt vt
    by (intro decodes_wseq [OF entries [OF that]]) (auto intro: decodes_map [OF map_end])
  then show "decodes L 1 (serializeValue W (VMap kvs)) (parseValue R veq stb fuel (getTType (VMap kvs)))
      (\<lambda>x. x = norm stb (VMap kvs))"
    using map_begin_check [of ?kt ?vt ?n "2 * length kvs" _ "\<lambda>kt vt m. sbind (parseMap R veq stb n kt vt (unat m) [])
        (\<lambda>ys. sbind (r_readMapEnd R) (\<lambda>_. sret (VMap ys)))"] entryTypes_wf [of veq stb kvs] wf len
    by (simp add: n parseValue.simps unifyStringType_def)
qed

lemma object_ok:
  assumes "\<And>i v. (i, v) \<in> set fs \<Longrightarrow> value_ok veq stb v"
  shows "value_ok veq stb (VObject fs)"
  unfolding value_ok_def
proof (intro allI impI)
  fix fuel assume wf: "wf_value veq stb (VObject fs)" and "vfuel (VObject fs) \<le> fuel"
  then obtain n where n: "fuel = Suc n" "loop_fuel (map snd (map (map_prod id vfuel) fs)) \<le> n"
    by (auto elim: fuel_Suc)
  have fields: "decodes L 1 (wseq (serializeFields W fs) (w_writeFieldStop W)) (parseObject R veq stb n [])
    (\<lambda>ys. ys = map (map_prod id (norm stb)) fs)"
    using fields_ok [of fs veq stb n "[]"] assms wf n by simp
  have "decodes L (1 + 0) (wseq (wseq (serializeFields W fs) (w_writeFieldStop W)) (w_writeStructEnd W))
      (sbind (parseObject R veq stb n []) (\<lambda>fs. sbind (r_readStructEnd R) (\<lambda>_. sret (VObject fs))))
      (\<lambda>x. x = norm stb (VObject fs))"
    by (intro decodes_wseq [OF fields]) (auto intro: decodes_map [OF struct_end])
  then have "decodes L (0 + (1 + 0)) (serializeValue W (VObject fs)) (sbind (r_readStructBegin R) (\<lambda>_.
      sbind (parseObject R veq stb n []) (\<lambda>fs. sbind (r_readStructEnd R) (\<lambda>_. sret (VObject fs)))))
      (\<lambda>x. x = norm stb (VObject fs))"
    unfolding serializeValue.simps wseq_assoc [symmetric]
    by (simp only: wseq_assoc [of "w_writeStructBegin W"]) (intro decodes_wseq [OF struct_begin], auto simp: wseq_assoc)
  then show "decodes L 1 (serializeValue W (VObject fs)) (parseValue R veq stb fuel (getTType (VObject fs)))
      (\<lambda>x. x = norm stb (VObject fs))"
    by (simp add: n parseValue.simps unifyStringType_def)
qed

theorem serialize_parse_value: "value_ok veq stb v"
proof (induction v)
  case (VObject fs)
  then show ?case by (intro object_ok) auto
next
  case (VMap kvs)
  then show ?case by (intro map_ok) auto
qed (auto intro: leaf_ok list_ok set_ok simp: value_ok_def [of _ _ VEmpty])

end

end
