(* ===== verification/Binary_Protocol.thy ===== *)
theory Binary_Protocol
  imports Dynamic_Value
begin

unbundle bit_operations_syntax

text \<open>
  \<^verbatim>\<open>lib/cpp2/protocol/BinaryProtocol.h\<close>, \<^verbatim>\<open>BinaryProtocol-inl.h\<close> and
  \<^verbatim>\<open>BinaryProtocol.cpp\<close>: the writer and the reader, operation by operation.  The output
  queue is the list of the bytes appended to it.  \<open>sharing_\<close> decides whether the bytes of an
  \<open>IOBuf\<close> are copied or shared, not which bytes they are, and is left out.
\<close>

section \<open>The writer\<close>

record binary_writer = protocol_base +
  bw_out :: bytes

definition VERSION_1 :: i32 where "VERSION_1 = 0x80010000"
definition VERSION_MASK :: i32 where "VERSION_MASK = 0xffff0000"

definition bw_append :: "bytes \<Rightarrow> (binary_writer, u32) st" where
  "bw_append bs = (\<lambda>w. Inr (of_nat (length bs), w\<lparr>bw_out := bw_out w @ bs\<rparr>))"

definition bw_writeByte :: "i8 \<Rightarrow> (binary_writer, u32) st" where
  "bw_writeByte byte = bw_append [byte]"

definition bw_writeI16 :: "i16 \<Rightarrow> (binary_writer, u32) st" where
  "bw_writeI16 i16 = bw_append (be_bytes 2 i16)"

definition bw_writeI32 :: "i32 \<Rightarrow> (binary_writer, u32) st" where
  "bw_writeI32 i32 = bw_append (be_bytes 4 i32)"

definition bw_writeI64 :: "i64 \<Rightarrow> (binary_writer, u32) st" where
  "bw_writeI64 i64 = bw_append (be_bytes 8 i64)"

definition bw_writeDouble :: "u64 \<Rightarrow> (binary_writer, u32) st" where
  "bw_writeDouble bits = bw_append (be_bytes 8 bits)"

definition bw_writeFloat :: "u32 \<Rightarrow> (binary_writer, u32) st" where
  "bw_writeFloat bits = bw_append (be_bytes 4 bits)"

definition bw_writeBool :: "bool \<Rightarrow> (binary_writer, u32) st" where
  "bw_writeBool value' = bw_append [if value' then 1 else 0]"

definition bw_checkBinarySize :: "nat \<Rightarrow> ('w, unit) st" where
  "bw_checkBinarySize sz = (let limit = 2 ^ 31 - 1 in sguard (\<not> sz > limit) (ExceededSizeLimit (int sz) (int limit)))"

definition bw_writeBinary :: "bytes \<Rightarrow> (binary_writer, u32) st" where
  "bw_writeBinary v = sbind (bw_checkBinarySize (length v)) (\<lambda>_.
     wseq (bw_writeI32 (of_nat (length v))) (bw_append v))"

text \<open>\<open>writeBinary\<close> of an \<open>IOBuf\<close> (\<open>kWriteSize\<close>) and \<open>writeRaw\<close>: \<open>writeBinaryImpl\<close>.\<close>

definition bw_writeBinaryImpl :: "bool \<Rightarrow> bytes \<Rightarrow> (binary_writer, u32) st" where
  "bw_writeBinaryImpl kWriteSize str = sbind (bw_checkBinarySize (length str)) (\<lambda>_.
     wseq (if kWriteSize then bw_writeI32 (of_nat (length str)) else sret 0) (bw_append str))"

text \<open>\<open>writeBinary\<close> of a \<open>unique_ptr<IOBuf>\<close>, which may be null.\<close>

definition bw_writeBinary_ptr :: "bytes option \<Rightarrow> (binary_writer, u32) st" where
  "bw_writeBinary_ptr str = (case str of None \<Rightarrow> bw_writeI32 0 | Some s \<Rightarrow> bw_writeBinaryImpl True s)"

definition bw_writeString :: "bytes \<Rightarrow> (binary_writer, u32) st" where
  "bw_writeString str = bw_writeBinary str"

definition bw_writeMessageBegin :: "bytes \<Rightarrow> i32 \<Rightarrow> i32 \<Rightarrow> (binary_writer, u32) st" where
  "bw_writeMessageBegin name messageType seqid =
    (let version = VERSION_1 OR messageType in
     wseq (bw_writeI32 version) (wseq (bw_writeString name) (bw_writeI32 seqid)))"

definition bw_writeStructBegin :: "(binary_writer, u32) st" where
  "bw_writeStructBegin = sbind descend (\<lambda>_. sret 0)"

definition bw_writeStructEnd :: "(binary_writer, u32) st" where
  "bw_writeStructEnd = sbind ascend (\<lambda>_. sret 0)"

definition bw_writeFieldBegin :: "byte \<Rightarrow> i16 \<Rightarrow> (binary_writer, u32) st" where
  "bw_writeFieldBegin fieldType fieldId = wseq (bw_writeByte fieldType) (bw_writeI16 fieldId)"

definition bw_writeFieldEnd :: "(binary_writer, u32) st" where
  "bw_writeFieldEnd = sret 0"

definition bw_writeFieldStop :: "(binary_writer, u32) st" where
  "bw_writeFieldStop = bw_writeByte T_STOP"

definition bw_writeMapBegin :: "byte \<Rightarrow> byte \<Rightarrow> u32 \<Rightarrow> (binary_writer, u32) st" where
  "bw_writeMapBegin keyType valType sz = sbind descend (\<lambda>_.
     wseq (bw_writeByte keyType) (wseq (bw_writeByte valType) (bw_writeI32 sz)))"

definition bw_writeMapEnd :: "(binary_writer, u32) st" where
  "bw_writeMapEnd = sbind ascend (\<lambda>_. sret 0)"

definition bw_writeListBegin :: "byte \<Rightarrow> u32 \<Rightarrow> (binary_writer, u32) st" where
  "bw_writeListBegin elemType sz = sbind descend (\<lambda>_.
     wseq (bw_writeByte elemType) (bw_writeI32 sz))"

definition bw_writeListEnd :: "(binary_writer, u32) st" where
  "bw_writeListEnd = sbind ascend (\<lambda>_. sret 0)"

definition bw_writeSetBegin :: "byte \<Rightarrow> u32 \<Rightarrow> (binary_writer, u32) st" where
  "bw_writeSetBegin elemType sz = sbind descend (\<lambda>_.
     wseq (bw_writeByte elemType) (bw_writeI32 sz))"

definition bw_writeSetEnd :: "(binary_writer, u32) st" where
  "bw_writeSetEnd = sbind ascend (\<lambda>_. sret 0)"

definition BinaryProtocolWriter :: "binary_writer protocol_writer" where
  "BinaryProtocolWriter = \<lparr>
     w_writeStructBegin = bw_writeStructBegin, w_writeStructEnd = bw_writeStructEnd,
     w_writeFieldBegin = bw_writeFieldBegin, w_writeFieldEnd = bw_writeFieldEnd,
     w_writeFieldStop = bw_writeFieldStop, w_writeMapBegin = bw_writeMapBegin,
     w_writeMapEnd = bw_writeMapEnd, w_writeListBegin = bw_writeListBegin,
     w_writeListEnd = bw_writeListEnd, w_writeSetBegin = bw_writeSetBegin,
     w_writeSetEnd = bw_writeSetEnd, w_writeBool = bw_writeBool, w_writeByte = bw_writeByte,
     w_writeI16 = bw_writeI16, w_writeI32 = bw_writeI32, w_writeI64 = bw_writeI64,
     w_writeDouble = bw_writeDouble, w_writeFloat = bw_writeFloat, w_writeString = bw_writeString,
     w_writeBinary = bw_writeBinaryImpl True \<rparr>"

subsection \<open>Serialized sizes\<close>

definition bw_serializedSizeI32 :: u32 where "bw_serializedSizeI32 = 4"

definition bw_serializedSizeByteRange :: "bytes \<Rightarrow> u32" where
  "bw_serializedSizeByteRange str = bw_serializedSizeI32 + of_nat (length str)"

definition bw_serializedMessageSize :: "bytes \<Rightarrow> u32" where
  "bw_serializedMessageSize name = 2 * bw_serializedSizeI32 + bw_serializedSizeByteRange name"

definition bw_serializedFieldSize :: u32 where "bw_serializedFieldSize = 1 + 2"

definition bw_serializedSizeMapBegin :: u32 where "bw_serializedSizeMapBegin = 1 + 1 + 4"

definition bw_serializedSizeListBegin :: u32 where "bw_serializedSizeListBegin = 1 + 4"

definition bw_serializedSizeBinary :: "bool \<Rightarrow> bytes \<Rightarrow> thrift_error + u32" where
  "bw_serializedSizeBinary pack v =
    (let limit = (2 ^ 32 - 1) - 4 in
     if length v > limit then Inl (ExceededSizeLimit (int (length v)) (int limit))
     else Inr (if \<not> pack then bw_serializedSizeI32 else of_nat (length v) + bw_serializedSizeI32))"

definition bw_serializedSizeBinary_ptr :: "bool \<Rightarrow> bytes option \<Rightarrow> thrift_error + u32" where
  "bw_serializedSizeBinary_ptr pack v = (case v of None \<Rightarrow> Inr 0 | Some s \<Rightarrow> bw_serializedSizeBinary pack s)"

definition bw_serializedSizeZCBinary :: "nat \<Rightarrow> bool \<Rightarrow> bytes \<Rightarrow> u32" where
  "bw_serializedSizeZCBinary kMaxPackCopy pack v =
    (if \<not> pack \<or> length v > kMaxPackCopy then bw_serializedSizeI32
     else of_nat (length v) + bw_serializedSizeI32)"

section \<open>The reader\<close>

record 'c binary_reader = protocol_base +
  br_string_limit :: i32
  br_container_limit :: i32
  br_strict_read :: bool
  br_in :: 'c

text \<open>A cursor operation on the reader's input.\<close>

definition br_cursor :: "('c, 'a) st \<Rightarrow> ('c binary_reader, 'a) st" where
  "br_cursor m = (\<lambda>r. case m (br_in r) of Inl e \<Rightarrow> Inl e | Inr (a, c) \<Rightarrow> Inr (a, r\<lparr>br_in := c\<rparr>))"

definition br_readByte :: "'c cursor_api \<Rightarrow> ('c binary_reader, i8) st" where
  "br_readByte C = br_cursor (c_readBE C 1)"

definition br_readI16 :: "'c cursor_api \<Rightarrow> ('c binary_reader, i16) st" where
  "br_readI16 C = br_cursor (c_readBE C 2)"

definition br_readI32 :: "'c cursor_api \<Rightarrow> ('c binary_reader, i32) st" where
  "br_readI32 C = br_cursor (c_readBE C 4)"

definition br_readI64 :: "'c cursor_api \<Rightarrow> ('c binary_reader, i64) st" where
  "br_readI64 C = br_cursor (c_readBE C 8)"

definition br_readDouble :: "'c cursor_api \<Rightarrow> ('c binary_reader, u64) st" where
  "br_readDouble C = br_cursor (c_readBE C 8)"

definition br_readFloat :: "'c cursor_api \<Rightarrow> ('c binary_reader, u32) st" where
  "br_readFloat C = br_cursor (c_readBE C 4)"

definition br_readBool :: "'c cursor_api \<Rightarrow> ('c binary_reader, bool) st" where
  "br_readBool C = sbind (br_cursor (c_readBE C 1)) (\<lambda>byte :: byte.
     sbind (sguard (\<not> byte \<ge> 2) (BoolValueOutOfRange byte)) (\<lambda>_. sret (byte \<noteq> 0)))"

definition br_checkStringSize :: "i32 \<Rightarrow> ('c binary_reader, unit) st" where
  "br_checkStringSize sz = sbind (sguard (\<not> sint sz < 0) NegativeSize) (\<lambda>_.
     sbind (sget br_string_limit) (\<lambda>string_limit.
     sguard (\<not> (sint string_limit > 0 \<and> sint sz > sint string_limit))
       (ExceededSizeLimit (sint sz) (sint string_limit))))"

definition br_checkContainerSize :: "i32 \<Rightarrow> ('c binary_reader, unit) st" where
  "br_checkContainerSize sz = sbind (sguard (\<not> sint sz < 0) NegativeSize) (\<lambda>_.
     sbind (sget br_container_limit) (\<lambda>container_limit.
     sguard (\<not> (container_limit \<noteq> 0 \<and> sint sz > sint container_limit))
       (ExceededSizeLimit (sint sz) (sint container_limit))))"

text \<open>\<open>readStringBody\<close> for \<open>std::string\<close> and for the types handled by the general template.\<close>

definition br_readStringBody :: "'c cursor_api \<Rightarrow> i32 \<Rightarrow> ('c binary_reader, bytes) st" where
  "br_readStringBody C sz = sbind (br_checkStringSize sz) (\<lambda>_. br_cursor (readStringBody_string C (unat sz)))"

definition br_readStringBody_noop :: "'c cursor_api \<Rightarrow> i32 \<Rightarrow> ('c binary_reader, bytes) st" where
  "br_readStringBody_noop C sz = sbind (br_checkStringSize sz) (\<lambda>_. br_cursor (readStringBody C (unat sz)))"

definition br_readString :: "'c cursor_api \<Rightarrow> ('c binary_reader, bytes) st" where
  "br_readString C = sbind (br_readI32 C) (\<lambda>sz. br_readStringBody C sz)"

definition br_skipString :: "'c cursor_api \<Rightarrow> ('c binary_reader, unit) st" where
  "br_skipString C = sbind (br_readI32 C) (\<lambda>sz. sbind (br_readStringBody_noop C sz) (\<lambda>_. sret ()))"

definition br_readBinary :: "'c cursor_api \<Rightarrow> ('c binary_reader, bytes) st" where
  "br_readBinary C = sbind (br_readI32 C) (\<lambda>sz. sbind (br_checkStringSize sz) (\<lambda>_.
     br_cursor (c_read C (unat sz))))"

definition br_readMessageBegin :: "'c cursor_api \<Rightarrow> ('c binary_reader, bytes \<times> i32 \<times> i32) st" where
  "br_readMessageBegin C = sbind (br_readI32 C) (\<lambda>sz.
     if sint sz < 0 then
       let version = sz AND VERSION_MASK in
       sbind (sguard (\<not> version \<noteq> VERSION_1) (BadVersionIdentifier sz)) (\<lambda>_.
       let messageType = sz AND 0x000000ff in
       sbind (br_readString C) (\<lambda>name.
       sbind (br_readI32 C) (\<lambda>seqid. sret (name, messageType, seqid))))
     else sbind (sget br_strict_read) (\<lambda>strict_read.
       if strict_read then sfail (MissingVersionIdentifier sz)
       else sbind (br_readStringBody C sz) (\<lambda>name.
            sbind (br_readByte C) (\<lambda>type.
            sbind (br_readI32 C) (\<lambda>seqid. sret (name, scast type, seqid))))))"

definition br_readStructBegin :: "('c binary_reader, unit) st" where
  "br_readStructBegin = descend"

definition br_readStructEnd :: "('c binary_reader, unit) st" where
  "br_readStructEnd = ascend"

definition br_readFieldBegin :: "'c cursor_api \<Rightarrow> ('c binary_reader, byte \<times> i16) st" where
  "br_readFieldBegin C = sbind (br_readByte C) (\<lambda>fieldType.
     if fieldType = T_STOP then sret (fieldType, 0)
     else sbind (br_readI16 C) (\<lambda>fieldId. sret (fieldType, fieldId)))"

definition br_readFieldEnd :: "('c binary_reader, unit) st" where
  "br_readFieldEnd = sret ()"

definition br_readMapBegin :: "'c cursor_api \<Rightarrow> ('c binary_reader, byte \<times> byte \<times> u32) st" where
  "br_readMapBegin C = sbind descend (\<lambda>_. sbind (br_readByte C) (\<lambda>k. sbind (br_readByte C) (\<lambda>v.
     sbind (br_readI32 C) (\<lambda>sizei. sbind (br_checkContainerSize sizei) (\<lambda>_. sret (k, v, sizei))))))"

definition br_readMapEnd :: "('c binary_reader, unit) st" where
  "br_readMapEnd = ascend"

definition br_readListBegin :: "'c cursor_api \<Rightarrow> ('c binary_reader, byte \<times> u32) st" where
  "br_readListBegin C = sbind descend (\<lambda>_. sbind (br_readByte C) (\<lambda>e.
     sbind (br_readI32 C) (\<lambda>sizei. sbind (br_checkContainerSize sizei) (\<lambda>_. sret (e, sizei)))))"

definition br_readListEnd :: "('c binary_reader, unit) st" where
  "br_readListEnd = ascend"

definition br_readSetBegin :: "'c cursor_api \<Rightarrow> ('c binary_reader, byte \<times> u32) st" where
  "br_readSetBegin C = sbind descend (\<lambda>_. sbind (br_readByte C) (\<lambda>e.
     sbind (br_readI32 C) (\<lambda>sizei. sbind (br_checkContainerSize sizei) (\<lambda>_. sret (e, sizei)))))"

definition br_readSetEnd :: "('c binary_reader, unit) st" where
  "br_readSetEnd = ascend"

definition br_fixedSizeInContainer :: "byte \<Rightarrow> nat" where
  "br_fixedSizeInContainer type =
    (if type = T_BOOL \<or> type = T_BYTE then 1
     else if type = T_I16 then 2
     else if type = T_I32 \<or> type = T_FLOAT then 4
     else if type = T_I64 \<or> type = T_DOUBLE then 8
     else 0)"

definition br_skipBytes :: "'c cursor_api \<Rightarrow> nat \<Rightarrow> ('c binary_reader, unit) st" where
  "br_skipBytes C n = br_cursor (c_skip C n)"

definition BinaryProtocolReader :: "'c cursor_api \<Rightarrow> 'c binary_reader protocol_reader" where
  "BinaryProtocolReader C = \<lparr>
     r_readStructBegin = br_readStructBegin, r_readStructEnd = br_readStructEnd,
     r_readFieldBegin = br_readFieldBegin C, r_readFieldEnd = br_readFieldEnd,
     r_readMapBegin = br_readMapBegin C, r_readMapEnd = br_readMapEnd,
     r_readListBegin = br_readListBegin C, r_readListEnd = br_readListEnd,
     r_readSetBegin = br_readSetBegin C, r_readSetEnd = br_readSetEnd,
     r_readBool = br_readBool C, r_readByte = br_readByte C, r_readI16 = br_readI16 C,
     r_readI32 = br_readI32 C, r_readI64 = br_readI64 C, r_readDouble = br_readDouble C,
     r_readFloat = br_readFloat C, r_readString = br_readString C, r_readBinary = br_readBinary C,
     r_skipString = br_skipString C, r_skipBytes = br_skipBytes C,
     r_fixedSizeInContainer = br_fixedSizeInContainer,
     r_canAdvance = (\<lambda>n r. cur_canAdvance C n (br_in r)) \<rparr>"

subsection \<open>The state of generated readers\<close>

text \<open>
  \<open>StructReadState\<close> and \<open>advanceToNextField\<close>, with which generated code first tries the
  field it expects next.
\<close>

definition br_readFieldBeginWithState :: "'c cursor_api \<Rightarrow> struct_read_state
    \<Rightarrow> ('c binary_reader, struct_read_state) st" where
  "br_readFieldBeginWithState C state = sbind (br_readByte C) (\<lambda>type.
     let state = state\<lparr>srs_fieldType := type\<rparr> in
     if type = T_STOP then sret state
     else sbind (br_readI16 C) (\<lambda>fieldId. sret (state\<lparr>srs_fieldId := fieldId\<rparr>)))"

definition br_advanceToNextField :: "'c cursor_api \<Rightarrow> i16 \<Rightarrow> byte \<Rightarrow> struct_read_state
    \<Rightarrow> ('c binary_reader, bool \<times> struct_read_state) st" where
  "br_advanceToNextField C nextFieldId nextFieldType state = (\<lambda>r.
    let data = cur_data C (br_in r);
        skipNoAdvance = (\<lambda>n. r\<lparr>br_in := cur_skipNoAdvance C n (br_in r)\<rparr>);
        slow = sbind (br_readFieldBeginWithState C state) (\<lambda>state'. sret (False, state')) r in
    if nextFieldType = T_STOP then
      (if data \<noteq> [] \<and> data ! 0 = T_STOP then Inr ((True, state), skipNoAdvance 1) else slow)
    else if length data \<ge> 3 then
      let type = data ! 0; fieldId = be_word [data ! 1, data ! 2] in
      if nextFieldType = type then
        if nextFieldId = fieldId then Inr ((True, state), skipNoAdvance 3)
        else Inr ((False, state\<lparr>srs_fieldType := type, srs_fieldId := fieldId\<rparr>), skipNoAdvance 3)
      else if type \<noteq> T_STOP then
        Inr ((False, state\<lparr>srs_fieldType := type, srs_fieldId := fieldId\<rparr>), skipNoAdvance 3)
      else Inr ((False, state\<lparr>srs_fieldType := type\<rparr>), skipNoAdvance 1)
    else slow)"

section \<open>The reader undoes the writer\<close>

definition binary_link :: "('c \<Rightarrow> bytes) \<Rightarrow> (binary_writer, 'c binary_reader) link" where
  "binary_link rem = \<lparr> lk_out = bw_out, lk_rem = (\<lambda>r. rem (br_in r)), lk_idle = (\<lambda>_. True),
     lk_sync = (\<lambda>w r. pb_height w = pb_height r \<and> br_string_limit r = 0 \<and> br_container_limit r = 0) \<rparr>"

lemma binary_link_simps [simp]:
  "lk_out (binary_link rem) = bw_out" "lk_rem (binary_link rem) r = rem (br_in r)"
  "lk_idle (binary_link rem) w"
  "lk_sync (binary_link rem) w r \<longleftrightarrow>
     pb_height w = pb_height r \<and> br_string_limit r = 0 \<and> br_container_limit r = 0"
  by (simp_all add: binary_link_def)

lemma br_cursor_Inr: "m (br_in r) = Inr (x, c) \<Longrightarrow> br_cursor m r = Inr (x, r\<lparr>br_in := c\<rparr>)"
  by (simp add: br_cursor_def)

lemma binary_descend: "decodes (binary_link rem) 0 wdescend descend (\<lambda>_. True)"
  by (rule decodesI) (auto simp: wdescend_def sbind_def descend_apply delivers_def split: if_splits)

lemma binary_ascend: "decodes (binary_link rem) 0 wascend ascend (\<lambda>_. True)"
  by (rule decodesI) (auto simp: wascend_def delivers_def)

lemma binary_append:
  assumes "\<And>c rest. rem c = bs @ rest \<Longrightarrow> \<exists>c'. m c = Inr (x, c') \<and> rem c' = rest" and "k \<le> length bs"
  shows "decodes (binary_link rem) k (bw_append bs) (br_cursor m) (\<lambda>y. y = x)"
proof (rule decodesI)
  fix w n w' assume "bw_append bs w = Inr (n, w')"
  then have w': "w' = w\<lparr>bw_out := bw_out w @ bs\<rparr>" "n = of_nat (length bs)" by (auto simp: bw_append_def)
  have "delivers (binary_link rem) (br_cursor m) (\<lambda>y. y = x) w' r rest"
    if "lk_sync (binary_link rem) w r" "lk_rem (binary_link rem) r = bs @ rest" for r rest
    using assms(1) [of "br_in r" rest] that by (auto simp: delivers_def br_cursor_def w')
  with assms(2) w' show "lk_idle (binary_link rem) w' \<and> (\<exists>bs. lk_out (binary_link rem) w' =
      lk_out (binary_link rem) w @ bs \<and> n = of_nat (length bs) \<and> k \<le> length bs \<and>
      (\<forall>r rest. lk_sync (binary_link rem) w r \<longrightarrow> lk_rem (binary_link rem) r = bs @ rest \<longrightarrow>
        delivers (binary_link rem) (br_cursor m) (\<lambda>y. y = x) w' r rest))"
    by (intro conjI exI [of _ bs]) auto
qed

lemma binary_container_check:
  assumes "decodes (binary_link rem) k f g (\<lambda>y. y = n)" and "unat n < 2 ^ 31"
  shows "decodes (binary_link rem) k f (sbind g (\<lambda>sizei. sbind (br_checkContainerSize sizei) (\<lambda>_. sret (h sizei))))
    (\<lambda>y. y = h n)"
  using assms(1) order_refl
  by (rule decodes_reader)
    (use assms(2) in \<open>fastforce simp: delivers_def br_checkContainerSize_def sbind_apply sint_u32_small\<close>)

lemma binary_string_check:
  assumes "decodes (binary_link rem) k f g (\<lambda>y. y = n)" and "unat n < 2 ^ 31"
  shows "decodes (binary_link rem) k f (sbind g (\<lambda>sz. sbind (br_checkStringSize sz) (\<lambda>_. sret sz))) (\<lambda>y. y = n)"
  using assms(1) order_refl
  by (rule decodes_reader)
    (use assms(2) in \<open>fastforce simp: delivers_def br_checkStringSize_def sbind_apply sint_u32_small\<close>)

context cursor begin

lemma binary_byte: "decodes (binary_link rem) 1 (bw_writeByte b) (br_readByte C) (\<lambda>x. x = b)"
  unfolding bw_writeByte_def br_readByte_def by (rule binary_append) (use c_readBE_1 in auto)

lemma binary_i16: "decodes (binary_link rem) 1 (bw_writeI16 i) (br_readI16 C) (\<lambda>x. x = i)"
  unfolding bw_writeI16_def br_readI16_def by (rule binary_append) (auto intro: c_readBE_app)

lemma binary_i32: "decodes (binary_link rem) 1 (bw_writeI32 i) (br_readI32 C) (\<lambda>x. x = i)"
  unfolding bw_writeI32_def br_readI32_def by (rule binary_append) (auto intro: c_readBE_app)

lemma binary_i64: "decodes (binary_link rem) 1 (bw_writeI64 i) (br_readI64 C) (\<lambda>x. x = i)"
  unfolding bw_writeI64_def br_readI64_def by (rule binary_append) (auto intro: c_readBE_app)

lemma binary_double: "decodes (binary_link rem) 1 (bw_writeDouble d) (br_readDouble C) (\<lambda>x. x = d)"
  unfolding bw_writeDouble_def br_readDouble_def by (rule binary_append) (auto intro: c_readBE_app)

lemma binary_float: "decodes (binary_link rem) 1 (bw_writeFloat d) (br_readFloat C) (\<lambda>x. x = d)"
  unfolding bw_writeFloat_def br_readFloat_def by (rule binary_append) (auto intro: c_readBE_app)

lemma binary_bool: "decodes (binary_link rem) 1 (bw_writeBool b) (br_readBool C) (\<lambda>x. x = b)"
proof -
  let ?b = "if b then 1 else 0 :: byte"
  have "decodes (binary_link rem) 1 (bw_append [?b]) (br_cursor (c_readBE C 1)) (\<lambda>x. x = ?b)"
    by (rule binary_append) (use c_readBE_1 in auto)
  then show ?thesis
    unfolding bw_writeBool_def br_readBool_def
    by (rule decodes_reader) (auto simp: delivers_def sbind_apply word_le_nat_alt split: if_splits)
qed

text \<open>A length-prefixed string, whatever reads its body.\<close>

lemma binary_sized:
  assumes "\<And>c bs rest. rem c = bs @ rest \<Longrightarrow> \<exists>c'. body (length bs) c = Inr (bs, c') \<and> rem c' = rest"
  shows "decodes (binary_link rem) 1 (bw_writeBinaryImpl True s)
    (sbind (br_readI32 C) (\<lambda>sz. sbind (br_checkStringSize sz) (\<lambda>_. br_cursor (body (unat sz))))) (\<lambda>x. x = s)"
proof -
  let ?n = "of_nat (length s) :: i32"
  have 4: "decodes (binary_link rem) (1 + 0) (wseq (bw_writeI32 ?n) (bw_append s))
      (sbind (sbind (br_readI32 C) (\<lambda>sz. sbind (br_checkStringSize sz) (\<lambda>_. sret sz)))
        (\<lambda>sz. br_cursor (body (unat sz)))) (\<lambda>x. x = s)" if "length s < 2 ^ 31"
    using that assms
    by (intro decodes_wseq [OF binary_string_check [OF binary_i32]]) (auto simp: size_u32 intro!: binary_append)
  have "decodes (binary_link rem) 1 (wseq (bw_writeI32 ?n) (bw_append s))
      (sbind (br_readI32 C) (\<lambda>sz. sbind (br_checkStringSize sz) (\<lambda>_. br_cursor (body (unat sz))))) (\<lambda>x. x = s)"
    if "length s < 2 ^ 31"
    using 4 [OF that] unfolding sbind_assoc sbind_sret by (rule decodes_mono) auto
  then show ?thesis
    unfolding bw_writeBinaryImpl_def bw_checkBinarySize_def Let_def if_True by (intro decodes_guard) simp
qed

lemma binary_field_begin:
  assumes "t \<noteq> T_STOP"
  shows "decodes (binary_link rem) 1 (bw_writeFieldBegin t i) (br_readFieldBegin C) (\<lambda>x. x = (t, i))"
proof -
  have "decodes (binary_link rem) (1 + 1) (bw_writeFieldBegin t i) (br_readFieldBegin C) (\<lambda>x. x = (t, i))"
    unfolding bw_writeFieldBegin_def br_readFieldBegin_def
    using assms by (intro decodes_wseq [OF binary_byte]) (auto intro: decodes_map [OF binary_i16, simplified])
  then show ?thesis by (rule decodes_mono) auto
qed

lemma binary_field_stop:
  "decodes (binary_link rem) 1 bw_writeFieldStop (br_readFieldBegin C) (\<lambda>x. fst x = T_STOP)"
proof -
  have "decodes (binary_link rem) (1 + 0) (wseq bw_writeFieldStop (sret 0)) (br_readFieldBegin C) (\<lambda>x. fst x = T_STOP)"
    unfolding bw_writeFieldStop_def br_readFieldBegin_def by (intro decodes_wseq [OF binary_byte]) auto
  then show ?thesis by simp
qed

lemma binary_list_begin:
  assumes "unat n < 2 ^ 31"
  shows "decodes (binary_link rem) 1 (bw_writeListBegin t n) (br_readListBegin C) (\<lambda>x. x = (t, n))"
proof -
  have "decodes (binary_link rem) (0 + (1 + 1)) (bw_writeListBegin t n) (br_readListBegin C) (\<lambda>x. x = (t, n))"
    unfolding bw_writeListBegin_def br_readListBegin_def sbind_descend
    using assms
    by (intro decodes_wseq [OF binary_descend] decodes_wseq [OF binary_byte])
      (auto intro: binary_container_check [OF binary_i32, simplified])
  then show ?thesis by (rule decodes_mono) auto
qed

lemma binary_map_begin:
  assumes "unat n < 2 ^ 31"
  shows "decodes (binary_link rem) 1 (bw_writeMapBegin k v n) (br_readMapBegin C)
    (\<lambda>(k', v', n'). n' = n \<and> (n \<noteq> 0 \<longrightarrow> k' = k \<and> v' = v))"
proof -
  have "decodes (binary_link rem) (0 + (1 + (1 + 1))) (bw_writeMapBegin k v n) (br_readMapBegin C) (\<lambda>x. x = (k, v, n))"
    unfolding bw_writeMapBegin_def br_readMapBegin_def sbind_descend
    by (intro decodes_wseq [OF binary_descend] decodes_wseq [OF binary_byte])
      (auto intro: binary_container_check [OF binary_i32 assms, simplified])
  then show ?thesis by (rule decodes_mono) auto
qed

lemma binary_bool_field:
  "decodes (binary_link rem) 1 (wseq (bw_writeFieldBegin T_BOOL i) (bw_writeBool b))
    (sbind (br_readFieldBegin C) (\<lambda>x. sbind (br_readBool C) (\<lambda>y. sret (x, y)))) (\<lambda>z. z = ((T_BOOL, i), b))"
proof -
  have "decodes (binary_link rem) (1 + 1) (wseq (bw_writeFieldBegin T_BOOL i) (bw_writeBool b))
    (sbind (br_readFieldBegin C) (\<lambda>x. sbind (br_readBool C) (\<lambda>y. sret (x, y)))) (\<lambda>z. z = ((T_BOOL, i), b))"
    by (rule decodes_wseq [OF binary_field_begin]) (auto intro!: decodes_map [OF binary_bool, simplified])
  then show ?thesis by (rule decodes_mono) auto
qed

lemma bw_writeBinary_eq: "bw_writeBinary s = bw_writeBinaryImpl True s"
  by (simp add: bw_writeBinary_def bw_writeBinaryImpl_def)

lemma binary_strings:
  "decodes (binary_link rem) 1 (bw_writeBinaryImpl True s) (br_readString C) (\<lambda>x. x = s)"
  "decodes (binary_link rem) 1 (bw_writeBinaryImpl True s) (br_readBinary C) (\<lambda>x. x = s)"
  "decodes (binary_link rem) 1 (bw_writeBinaryImpl True s) (br_skipString C) (\<lambda>_. True)"
proof -
  show "decodes (binary_link rem) 1 (bw_writeBinaryImpl True s) (br_readString C) (\<lambda>x. x = s)"
    unfolding br_readString_def br_readStringBody_def
    by (rule binary_sized) (rule readStringBody_string_ok, simp_all)
  show "decodes (binary_link rem) 1 (bw_writeBinaryImpl True s) (br_readBinary C) (\<lambda>x. x = s)"
    unfolding br_readBinary_def by (rule binary_sized) (rule c_read_app, simp_all)
  have "decodes (binary_link rem) 1 (bw_writeBinaryImpl True s)
      (sbind (sbind (br_readI32 C) (\<lambda>sz. br_readStringBody_noop C sz)) (\<lambda>_. sret ())) (\<lambda>_. True)"
    unfolding br_readStringBody_noop_def
    by (rule decodes_map [OF binary_sized]) (rule readStringBody_ok, simp_all)
  then show "decodes (binary_link rem) 1 (bw_writeBinaryImpl True s) (br_skipString C) (\<lambda>_. True)"
    by (simp add: br_skipString_def sbind_assoc)
qed

end

lemmas binary_writer_ops = BinaryProtocolWriter_def bw_writeStructBegin_def bw_writeStructEnd_def
  bw_writeMapEnd_def bw_writeListEnd_def bw_writeSetEnd_def bw_writeFieldEnd_def bw_writeString_def
  bw_writeSetBegin_def [folded bw_writeListBegin_def]

lemmas binary_reader_ops = BinaryProtocolReader_def br_readStructBegin_def br_readStructEnd_def
  br_readMapEnd_def br_readListEnd_def br_readSetEnd_def br_readFieldEnd_def
  br_readSetBegin_def [folded br_readListBegin_def]

sublocale cursor \<subseteq> binary: codec BinaryProtocolWriter "BinaryProtocolReader C" "binary_link rem"
proof unfold_locales
  fix t :: byte and i
  assume "t \<in> set value_types" "t \<noteq> T_BOOL"
  then have "t \<noteq> T_STOP" by (auto simp: value_types_def)
  then show "decodes (binary_link rem) 1 (w_writeFieldBegin BinaryProtocolWriter t i)
      (r_readFieldBegin (BinaryProtocolReader C)) (\<lambda>x. x = (t, i))"
    by (simp add: BinaryProtocolWriter_def BinaryProtocolReader_def binary_field_begin [simplified])
qed (simp_all add: binary_writer_ops binary_reader_ops canAdvance_iff sbind_descend sbind_ascend
    bw_writeBinary_eq binary_descend binary_ascend binary_byte [simplified] binary_i16 [simplified]
    binary_i32 [simplified] binary_i64 [simplified] binary_double [simplified] binary_float [simplified]
    binary_bool [simplified] binary_strings [simplified] binary_list_begin [simplified]
    binary_map_begin [simplified] binary_bool_field [simplified] binary_field_stop [simplified]
    decodes_sret decodes_sret_lambda)

end
