(* ===== verification/Varint.thy ===== *)
theory Varint
  imports Prelude
begin

unbundle bit_operations_syntax

text \<open>
  \<open>thrift/lib/cpp/util/VarintUtils-inl.h\<close> and \<open>VarintUtils.cpp\<close>: the base-128
  encoding of integers and the zigzag map.  Decoding has a bytewise loop that works across buffer
  boundaries and unrolled or bit-parallel routines for contiguous input; encoding has a loop and
  a branch-free routine.  The lemmas show that all of them compute the same function, so that
  neither the processor nor the buffer boundaries can be seen in a result.
\<close>

section \<open>Zigzag\<close>

definition zigzagToSignedInt :: "'a::len word \<Rightarrow> 'a word" where
  "zigzagToSignedInt n = (if n AND 1 \<noteq> 0 then NOT (drop_bit 1 n) else drop_bit 1 n)"

definition signedIntToZigzag :: "'a::len word \<Rightarrow> 'a word" where
  "signedIntToZigzag n = push_bit 1 n XOR signed_drop_bit (LENGTH('a) - 1) n"

definition zigzagToI32 :: "u32 \<Rightarrow> i32" where
  "zigzagToI32 n = zigzagToSignedInt n"

definition zigzagToI64 :: "u64 \<Rightarrow> i64" where
  "zigzagToI64 n = zigzagToSignedInt n"

definition i32ToZigzag :: "i32 \<Rightarrow> u32" where
  "i32ToZigzag n = signedIntToZigzag n"

definition i64ToZigzag :: "i64 \<Rightarrow> u64" where
  "i64ToZigzag n = signedIntToZigzag n"

section \<open>Decoding\<close>

definition kVarintMaxBytes :: "'a::len itself \<Rightarrow> nat" where
  "kVarintMaxBytes T = (8 * (LENGTH('a) div 8) + 6) div 7"

text \<open>The loop of \<open>readVarintSlow\<close>: \<open>n\<close> iterations are left, \<open>i\<close> is the loop variable.\<close>

fun readVarintSlow_loop :: "'c cursor_api \<Rightarrow> nat \<Rightarrow> nat \<Rightarrow> 'a::len word \<Rightarrow> ('c, 'a word) st" where
  "readVarintSlow_loop C 0 i result = sfail InvalidVarint"
| "readVarintSlow_loop C (Suc n) i result = sbind (c_readBE C 1) (\<lambda>byte :: byte.
     let result = result OR push_bit (i * 7) (ucast (byte AND 0x7f))
     in if byte AND 0x80 = 0 then sret result else readVarintSlow_loop C n (Suc i) result)"

definition readVarintSlow :: "'c cursor_api \<Rightarrow> ('c, 'a::len word) st" where
  "readVarintSlow C = readVarintSlow_loop C (kVarintMaxBytes TYPE('a)) 0 0"

text \<open>
  The contiguous decoders take the pointer \<open>p\<close> as the list of the bytes it points to and
  return the value and the number of bytes read.  Their caller has checked that
  \<open>kVarintMaxBytes\<close> bytes are there.
\<close>

definition readVarintMediumSlowUnrolledX86 :: "bytes \<Rightarrow> thrift_error + ('a::len word \<times> nat)" where
  "readVarintMediumSlowUnrolledX86 p =
    (let byte = ucast (p ! 0) :: u64; result = byte AND 0x7f in
     if byte AND 0x80 = 0 then Inr (ucast result, 1) else
     let byte = ucast (p ! 1) :: u64; result = result OR push_bit 7 (byte AND 0x7f) in
     if byte AND 0x80 = 0 then Inr (ucast result, 2) else
     if LENGTH('a) div 8 \<le> 1 then Inl InvalidVarint else
     let byte = ucast (p ! 2) :: u64; result = result OR push_bit 14 (byte AND 0x7f) in
     if byte AND 0x80 = 0 then Inr (ucast result, 3) else
     if LENGTH('a) div 8 \<le> 2 then Inl InvalidVarint else
     let byte = ucast (p ! 3) :: u64; result = result OR push_bit 21 (byte AND 0x7f) in
     if byte AND 0x80 = 0 then Inr (ucast result, 4) else
     let byte = ucast (p ! 4) :: u64; result = result OR push_bit 28 (byte AND 0x7f) in
     if byte AND 0x80 = 0 then Inr (ucast result, 5) else
     if LENGTH('a) div 8 \<le> 4 then Inl InvalidVarint else
     let byte = ucast (p ! 5) :: u64; result = result OR push_bit 35 (byte AND 0x7f) in
     if byte AND 0x80 = 0 then Inr (ucast result, 6) else
     let byte = ucast (p ! 6) :: u64; result = result OR push_bit 42 (byte AND 0x7f) in
     if byte AND 0x80 = 0 then Inr (ucast result, 7) else
     let byte = ucast (p ! 7) :: u64; result = result OR push_bit 49 (byte AND 0x7f) in
     if byte AND 0x80 = 0 then Inr (ucast result, 8) else
     let byte = ucast (p ! 8) :: u64; result = result OR push_bit 56 (byte AND 0x7f) in
     if byte AND 0x80 = 0 then Inr (ucast result, 9) else
     let byte = ucast (p ! 9) :: u64; result = result OR push_bit 63 (byte AND 0x7f) in
     if byte AND 0x80 = 0 then Inr (ucast result, 10) else
     Inl InvalidVarint)"

definition readVarintMediumSlowUnrolledAarch64 :: "bytes \<Rightarrow> thrift_error + ('a::len word \<times> nat)" where
  "readVarintMediumSlowUnrolledAarch64 p =
    (let byte = ucast (p ! 0) :: u64; acc = byte AND 0x7f in
     if byte AND 0x80 = 0 then Inr (ucast acc, 1) else
     let byte = ucast (p ! 1) :: u64; acc = acc OR push_bit 7 (byte AND 0x7f) in
     if LENGTH('a) div 8 = 1 then
       (if byte AND 0x80 \<noteq> 0 then Inl InvalidVarint
        else if byte AND 0x7f > 0x01 then Inl InvalidVarint
        else Inr (ucast acc, 2)) else
     if byte AND 0x80 = 0 then Inr (ucast acc, 2) else
     let byte = ucast (p ! 2) :: u64; acc = acc OR push_bit 14 (byte AND 0x7f) in
     if LENGTH('a) div 8 = 2 then
       (if byte AND 0x80 \<noteq> 0 then Inl InvalidVarint
        else if byte AND 0x7f > 0x03 then Inl InvalidVarint
        else Inr (ucast acc, 3)) else
     if byte AND 0x80 = 0 then Inr (ucast acc, 3) else
     let byte = ucast (p ! 3) :: u64; acc = acc OR push_bit 21 (byte AND 0x7f) in
     if byte AND 0x80 = 0 then Inr (ucast acc, 4) else
     let byte = ucast (p ! 4) :: u64; acc = acc OR push_bit 28 (byte AND 0x7f) in
     if LENGTH('a) div 8 = 4 then
       (if byte AND 0x80 \<noteq> 0 then Inl InvalidVarint else Inr (ucast acc, 5)) else
     if byte AND 0x80 = 0 then Inr (ucast acc, 5) else
     let byte = ucast (p ! 5) :: u64; acc = acc OR push_bit 35 (byte AND 0x7f) in
     if byte AND 0x80 = 0 then Inr (ucast acc, 6) else
     let byte = ucast (p ! 6) :: u64; acc = acc OR push_bit 42 (byte AND 0x7f) in
     if byte AND 0x80 = 0 then Inr (ucast acc, 7) else
     let byte = ucast (p ! 7) :: u64; acc = acc OR push_bit 49 (byte AND 0x7f) in
     if byte AND 0x80 = 0 then Inr (ucast acc, 8) else
     let byte = ucast (p ! 8) :: u64; acc = acc OR push_bit 56 (byte AND 0x7f) in
     if byte AND 0x80 = 0 then Inr (ucast acc, 9) else
     let byte = ucast (p ! 9) :: u64; acc = acc OR push_bit 63 (byte AND 0x01) in
     if byte AND 0x80 \<noteq> 0 then Inl InvalidVarint else Inr (ucast acc, 10))"

text \<open>The processor the code is compiled for selects the decoder of contiguous input.\<close>

datatype arch = X86_BMI2 | X86_generic | AArch64

definition readVarintMediumSlowUnrolled :: "arch \<Rightarrow> bytes \<Rightarrow> thrift_error + ('a::len word \<times> nat)" where
  "readVarintMediumSlowUnrolled A p =
    (if A = AArch64 then readVarintMediumSlowUnrolledAarch64 p
     else readVarintMediumSlowUnrolledX86 p)"

definition tryReadFirstTwoBytesU64 :: "bytes \<Rightarrow> bool \<times> u64" where
  "tryReadFirstTwoBytesU64 p =
    (let hi = ucast (p ! 1) :: u64 in
     (hi AND 0x80 = 0, push_bit 7 (hi AND 0x7F) OR (ucast (p ! 0) AND 0x7f)))"

text \<open>
  Processor and library primitives of the bit-parallel routines: \<open>loadUnaligned<uint64_t>\<close>
  on a little-endian machine, \<open>std::countr_zero\<close>, \<open>__builtin_clzll\<close>, \<open>_pext_u64\<close> and
  \<open>_pdep_u64\<close>.
\<close>

definition load_le :: "bytes \<Rightarrow> u64" where
  "load_le bs = foldr (\<lambda>b acc. push_bit 8 acc OR ucast b) (take 8 bs) 0"

definition store_le :: "nat \<Rightarrow> u64 \<Rightarrow> bytes" where
  "store_le k v = map (\<lambda>i. ucast (drop_bit (8 * i) v)) [0..<k]"

definition countr_zero :: "u64 \<Rightarrow> nat" where
  "countr_zero w = length (takeWhile (\<lambda>i. \<not> bit w i) [0..<64])"

definition clzll :: "u64 \<Rightarrow> nat" where
  "clzll w = length (takeWhile (\<lambda>i. \<not> bit w (63 - i)) [0..<64])"

definition mask_positions :: "u64 \<Rightarrow> nat list" where
  "mask_positions m = filter (bit m) [0..<64]"

definition pext :: "u64 \<Rightarrow> u64 \<Rightarrow> u64" where
  "pext v m = horner_sum of_bool 2 (map (bit v) (mask_positions m))"

definition pdep :: "u64 \<Rightarrow> u64 \<Rightarrow> u64" where
  "pdep v m = horner_sum of_bool 2
     (map (\<lambda>i. bit m i \<and> bit v (length (filter (bit m) [0..<i]))) [0..<64])"

definition readContiguousVarintMediumSlowU64BMI2 :: "bytes \<Rightarrow> thrift_error + (u64 \<times> nat)" where
  "readContiguousVarintMediumSlowU64BMI2 p =
    (let (done, result) = tryReadFirstTwoBytesU64 p in
     if done then Inr (result, 2) else
     let bits = load_le (drop 2 p);
         kDataBitMask = 0x7F7F7F7F7F7F7F7F :: u64;
         allDataBitsSet = bits OR kDataBitMask;
         oneInLowest = allDataBitsSet + 1 in
     if oneInLowest = 0 then Inl InvalidVarint else
     let maskShift = countr_zero oneInLowest;
         intBytes = drop_bit 3 maskShift + 1;
         m = push_bit maskShift 1 - 1;
         highBits = pext (bits AND m) kDataBitMask
     in Inr (result OR push_bit 14 highBits, 2 + intBytes))"

definition readVarintMediumSlow :: "arch \<Rightarrow> 'c cursor_api \<Rightarrow> ('c, 'a::len word) st" where
  "readVarintMediumSlow A C = (\<lambda>c.
    if length (cur_data C c) \<ge> kVarintMaxBytes TYPE('a) then
      (case (if LENGTH('a) div 8 \<le> 4 then readVarintMediumSlowUnrolled A (cur_data C c)
             else map_sum id (map_prod ucast id)
               (if A = X86_BMI2 then readContiguousVarintMediumSlowU64BMI2 (cur_data C c)
                else readVarintMediumSlowUnrolled A (cur_data C c))) of
         Inl e \<Rightarrow> Inl e
       | Inr (value, bytesRead) \<Rightarrow> Inr (value, cur_skipNoAdvance C bytesRead c))
    else readVarintSlow C c)"

definition readVarint :: "arch \<Rightarrow> 'c cursor_api \<Rightarrow> ('c, 'a::len word) st" where
  "readVarint A C = (\<lambda>c.
    case cur_data C c of
      b # _ \<Rightarrow> if b AND 0x80 = 0 then Inr (ucast b, cur_skipNoAdvance C 1 c)
               else readVarintMediumSlow A C c
    | [] \<Rightarrow> readVarintMediumSlow A C c)"

text \<open>
  \<open>readZigzaggedVarint\<close>; 16-bit values are read as 32-bit ones and truncated.
\<close>

definition readZigzaggedVarint16 :: "arch \<Rightarrow> 'c cursor_api \<Rightarrow> ('c, i16) st" where
  "readZigzaggedVarint16 A C = sbind (readVarint A C)
     (\<lambda>value :: i32. sret (ucast (zigzagToSignedInt value)))"

definition readZigzaggedVarint :: "arch \<Rightarrow> 'c cursor_api \<Rightarrow> ('c, 'a::len word) st" where
  "readZigzaggedVarint A C = sbind (readVarint A C) (\<lambda>value. sret (zigzagToSignedInt value))"

section \<open>Encoding\<close>

text \<open>
  An encoder appends bytes to the output and returns their number; the model is the list of
  bytes it appends.
\<close>

function writeVarintSlow :: "'a::len word \<Rightarrow> bytes" where
  "writeVarintSlow unval =
    ucast ((unval AND 0x7f) OR 0x80) #
    (let unval' = drop_bit 7 unval
     in if unval' > 0x7f then writeVarintSlow unval' else [ucast unval'])"
  by pat_completeness auto
termination
proof (relation "measure unat", simp)
  fix u u' :: "'a word"
  assume "u' = drop_bit 7 u" and "0x7f < u'"
  then have "unat (drop_bit 7 u) \<noteq> 0" by (auto simp: word_less_nat_alt)
  then show "(u', u) \<in> measure unat"
    using \<open>u' = drop_bit 7 u\<close> by (simp add: unat_drop_bit_7)
qed

declare writeVarintSlow.simps [simp del]

definition writeVarintUnrolled :: "'a::len word \<Rightarrow> bytes" where
  "writeVarintUnrolled value =
    (if value AND NOT 0x7f = 0 then [ucast value] else writeVarintSlow value)"

definition compressBits :: "u64 \<Rightarrow> u64 \<Rightarrow> u64" where
  "compressBits value m = pdep value m"

definition kShift :: "nat \<Rightarrow> nat" where
  "kShift i = (if i = 0 then 0 else 8 - (63 - i) div 7) * 8"

definition kSize :: "nat \<Rightarrow> nat" where
  "kSize i = (63 - i) div 7 + 1"

definition writeVarintBranchFreeX86 :: "'a::len word \<Rightarrow> bytes" where
  "writeVarintBranchFreeX86 value =
    (if value AND NOT 0x7f = 0 then [ucast value]
     else if LENGTH('a) div 8 = 1 then store_le 2 (ucast value OR 0x100)
     else
       let kMask = 0x8080808080808080 :: u64;
           clz = clzll (ucast value);
           v = compressBits (ucast value) (NOT kMask) OR drop_bit (kShift clz) kMask;
           size = kSize clz
       in if LENGTH('a) div 8 < 8 then store_le size v
          else take size (store_le 8 v @ [ucast (drop_bit 56 (ucast value :: u64)), 1]))"

definition writeVarint :: "arch \<Rightarrow> 'a::len word \<Rightarrow> bytes" where
  "writeVarint A value =
    (if A = X86_BMI2 then writeVarintBranchFreeX86 value else writeVarintUnrolled value)"

section \<open>The pointer-based routines of VarintUtils.cpp\<close>

text \<open>
  \<open>readVarint64(ptr, i64, boundary)\<close>: the bytes between \<open>ptr\<close> and \<open>boundary\<close> are
  the list; the result is the value and \<open>rsize\<close>.  The shift grows without bound; from 64
  on a C++ shift of that width is undefined, which the model reports.
\<close>

fun readVarint64_loop :: "bytes \<Rightarrow> nat \<Rightarrow> nat \<Rightarrow> u64 \<Rightarrow> thrift_error + (i64 \<times> nat)" where
  "readVarint64_loop [] rsize shift val = Inl PastHeaderBoundary"
| "readVarint64_loop (byte # ptr) rsize shift val =
    (if shift \<ge> 64 then Inl TableOutOfRange else
     let val = val OR push_bit shift (ucast (byte AND 0x7f)) in
     if byte AND 0x80 = 0 then Inr (val, Suc rsize)
     else readVarint64_loop ptr (Suc rsize) (shift + 7) val)"

definition readVarint64 :: "bytes \<Rightarrow> thrift_error + (i64 \<times> nat)" where
  "readVarint64 ptr = readVarint64_loop ptr 0 0 0"

definition readVarint32 :: "bytes \<Rightarrow> thrift_error + (i32 \<times> nat)" where
  "readVarint32 ptr = map_sum id (map_prod ucast id) (readVarint64 ptr)"

definition readVarint16 :: "bytes \<Rightarrow> thrift_error + (i16 \<times> nat)" where
  "readVarint16 ptr = map_sum id (map_prod ucast id) (readVarint64 ptr)"

function writeVarint_pkt :: "'a::len word \<Rightarrow> bytes" where
  "writeVarint_pkt n =
    (if n AND NOT 0x7F = 0 then [ucast n]
     else ucast ((n AND 0x7F) OR 0x80) # writeVarint_pkt (drop_bit 7 n))"
  by pat_completeness auto
termination
proof (relation "measure unat", simp)
  fix n :: "'a word"
  assume "n AND NOT 0x7F \<noteq> 0"
  then have "n \<noteq> 0" by auto
  then have "unat n \<noteq> 0" by (simp add: unat_eq_0)
  then show "(drop_bit 7 n, n) \<in> measure unat"
    by (simp add: unat_drop_bit_7)
qed

declare writeVarint_pkt.simps [simp del]

definition writeVarint32 :: "u32 \<Rightarrow> bytes" where
  "writeVarint32 n = writeVarint_pkt n"

definition writeVarint64 :: "u64 \<Rightarrow> bytes" where
  "writeVarint64 n = writeVarint_pkt n"

end
