(* ===== verification/Varint_Decode.thy ===== *)
theory Varint_Decode
  imports Varint
begin

unbundle bit_operations_syntax

text \<open>
  The decoders of \<^verbatim>\<open>VarintUtils-inl.h\<close> against one reference decoder on byte lists.
  \<open>varint_decode\<close> reads at most \<open>kVarintMaxBytes\<close> groups of seven bits; the bytewise
  loop over a cursor, both unrolled routines and the bit-parallel BMI2 routine are shown to
  return its value and to consume its number of bytes, whatever buffers the input lies in.
\<close>

section \<open>The reference decoder\<close>

fun varint_spec :: "nat \<Rightarrow> nat \<Rightarrow> 'a::len word \<Rightarrow> bytes \<Rightarrow> thrift_error + ('a word \<times> nat)" where
  "varint_spec 0 i acc bs = Inl InvalidVarint"
| "varint_spec (Suc n) i acc [] = Inl OutOfRange"
| "varint_spec (Suc n) i acc (b # bs) =
    (let acc' = acc OR push_bit (i * 7) (ucast (b AND 0x7f)) in
     if b AND 0x80 = 0 then Inr (acc', Suc i) else varint_spec n (Suc i) acc' bs)"

definition varint_decode :: "bytes \<Rightarrow> thrift_error + ('a::len word \<times> nat)" where
  "varint_decode bs = varint_spec (kVarintMaxBytes TYPE('a)) 0 0 bs"

lemma varint_spec_consumed:
  "varint_spec n i acc bs = Inr (v, k) \<Longrightarrow> i < k \<and> k \<le> i + n \<and> k - i \<le> length bs"
  by (induction n i acc bs rule: varint_spec.induct) (fastforce simp: Let_def split: if_splits)+

lemma varint_decode_consumed:
  "varint_decode bs = Inr (v :: 'a::len word, k) \<Longrightarrow> 0 < k \<and> k \<le> kVarintMaxBytes TYPE('a) \<and> k \<le> length bs"
  using varint_spec_consumed [of _ 0 0 bs v k] by (auto simp: varint_decode_def)

definition outcome :: "('c \<Rightarrow> bytes) \<Rightarrow> 'c \<Rightarrow> thrift_error + ('a \<times> 'c) \<Rightarrow> thrift_error + ('a \<times> nat) \<Rightarrow> bool" where
  "outcome rem c r p \<longleftrightarrow> (case p of
      Inl e \<Rightarrow> r = Inl e
    | Inr (v, k) \<Rightarrow> (\<exists>c'. r = Inr (v, c') \<and> rem c' = drop k (rem c)))"

definition implements :: "('c \<Rightarrow> bytes) \<Rightarrow> ('c, 'a) st \<Rightarrow> (bytes \<Rightarrow> thrift_error + ('a \<times> nat)) \<Rightarrow> bool" where
  "implements rem m p \<longleftrightarrow> (\<forall>c. outcome rem c (m c) (p (rem c)))"

lemma outcome_Inl [simp]: "outcome rem c r (Inl e) \<longleftrightarrow> r = Inl e"
  by (simp add: outcome_def)

lemma outcome_Inr [simp]:
  "outcome rem c r (Inr (v, k)) \<longleftrightarrow> (\<exists>c'. r = Inr (v, c') \<and> rem c' = drop k (rem c))"
  by (simp add: outcome_def)

context cursor begin

lemma readVarintSlow_loop_spec:
  fixes acc :: "'w::len word"
  shows "case varint_spec n i acc (rem c) of
      Inl e \<Rightarrow> readVarintSlow_loop C n i acc c = Inl e
    | Inr (v, k) \<Rightarrow> (\<exists>c'. readVarintSlow_loop C n i acc c = Inr (v, c') \<and> rem c' = drop (k - i) (rem c))"
proof (induction n arbitrary: i acc c)
  case 0
  then show ?case by simp
next
  case (Suc n)
  show ?case
  proof (cases "rem c")
    case Nil
    then show ?thesis by (simp add: c_readBE_eof)
  next
    case (Cons b bs)
    then obtain c' where c': "c_readBE C (Suc 0) c = Inr (b, c')" "rem c' = bs"
      using c_readBE_1 [of c b bs] by auto
    show ?thesis
    proof (cases "b AND 0x80 = 0")
      case True
      then show ?thesis using c' Cons by simp
    next
      case False
      have "drop (k - i) (b # bs) = drop (k - Suc i) bs"
        if "varint_spec n (Suc i) a bs = Inr (v, k)" for a v :: "'w word" and k
        using varint_spec_consumed [OF that] by (simp add: drop_Cons' )
      then show ?thesis
        using Suc.IH [of "Suc i" "acc OR push_bit (i * 7) (ucast (b AND 0x7f))" c'] False c' Cons
        by (auto split: sum.splits)
    qed
  qed
qed

lemma readVarintSlow_implements:
  "implements rem (readVarintSlow C :: ('c, 'w::len word) st) varint_decode"
  unfolding implements_def outcome_def varint_decode_def readVarintSlow_def
  using readVarintSlow_loop_spec [of "kVarintMaxBytes TYPE('w)" 0 "0 :: 'w word", unfolded diff_zero]
  by blast

end

lemma and_7f: "(w :: 'a::len word) AND 0x7f = take_bit 7 w"
proof -
  have "(0x7f :: 'a word) = mask 7" by (simp add: mask_eq_exp_minus_1)
  then show ?thesis by (simp add: take_bit_eq_mask)
qed

lemma and_80_eq_0: "(w :: 'a::len word) AND 0x80 = 0 \<longleftrightarrow> \<not> bit w 7"
  using and_exp_eq_0_iff_not_bit [of w 7] by simp

lemma ucast_take_bit_7: "take_bit 7 (ucast (b :: byte) :: u64) = ucast (take_bit 7 b)"
  by (rule bit_word_eqI) (auto simp: bit_simps)

lemma bit_ucast_byte_7: "bit (ucast (b :: byte) :: u64) 7 \<longleftrightarrow> bit b 7"
  by (simp add: bit_simps)

lemma ucast_push_bit_u64:
  "LENGTH('a) \<le> 64 \<Longrightarrow> (ucast (push_bit n (w :: u64)) :: 'a::len word) = push_bit n (ucast w)"
  by (rule bit_word_eqI) (auto simp: bit_simps)

lemma ucast_or: "(ucast (x OR y) :: 'b::len word) = ucast (x :: 'a::len word) OR ucast y"
  by (rule bit_word_eqI) (auto simp: bit_simps)

lemma ucast_ucast_u64: "LENGTH('a) \<le> 64 \<Longrightarrow> (ucast (ucast (b :: byte) :: u64) :: 'a::len word) = ucast b"
  by (rule bit_word_eqI) (auto simp: bit_simps)

lemmas varint_bits = and_7f and_80_eq_0 ucast_take_bit_7 bit_ucast_byte_7 ucast_push_bit_u64 ucast_or
  ucast_ucast_u64

lemma list_ge_Cons: "Suc n \<le> length xs \<longleftrightarrow> (\<exists>y ys. xs = y # ys \<and> n \<le> length ys)"
  by (cases xs) auto

lemma varint_spec_rec:
  "varint_spec n i acc (b # bs) = (if n = 0 then Inl InvalidVarint else
    let acc' = acc OR push_bit (i * 7) (ucast (b AND 0x7f)) in
     if b AND 0x80 = 0 then Inr (acc', i + 1) else varint_spec (n - 1) (i + 1) acc' bs)"
  by (cases n) (simp_all add: Let_def)

lemma unrolledX86_64:
  assumes "10 \<le> length p"
  shows "readVarintMediumSlowUnrolledX86 p = (varint_decode p :: thrift_error + u64 \<times> nat)"
proof -
  obtain b0 b1 b2 b3 b4 b5 b6 b7 b8 b9 rest
    where p: "p = b0 # b1 # b2 # b3 # b4 # b5 # b6 # b7 # b8 # b9 # rest"
    using assms by (auto simp: list_ge_Cons numeral_eq_Suc)
  show ?thesis
    unfolding p readVarintMediumSlowUnrolledX86_def varint_decode_def kVarintMaxBytes_def
    by (simp add: varint_bits varint_spec_rec Let_def del: varint_spec.simps(2-))
qed


lemma unrolledX86_32:
  assumes "5 \<le> length p"
  shows "readVarintMediumSlowUnrolledX86 p = (varint_decode p :: thrift_error + u32 \<times> nat)"
proof -
  obtain b0 b1 b2 b3 b4 rest where p: "p = b0 # b1 # b2 # b3 # b4 # rest"
    using assms by (auto simp: list_ge_Cons numeral_eq_Suc)
  show ?thesis
    unfolding p readVarintMediumSlowUnrolledX86_def varint_decode_def kVarintMaxBytes_def
    by (simp add: varint_bits varint_spec_rec Let_def del: varint_spec.simps(2-))
qed

lemma unrolledX86_16:
  assumes "3 \<le> length p"
  shows "readVarintMediumSlowUnrolledX86 p = (varint_decode p :: thrift_error + u16 \<times> nat)"
proof -
  obtain b0 b1 b2 rest where p: "p = b0 # b1 # b2 # rest"
    using assms by (auto simp: list_ge_Cons numeral_eq_Suc)
  show ?thesis
    unfolding p readVarintMediumSlowUnrolledX86_def varint_decode_def kVarintMaxBytes_def
    by (simp add: varint_bits varint_spec_rec Let_def del: varint_spec.simps(2-))
qed

lemma unrolledX86_8:
  assumes "2 \<le> length p"
  shows "readVarintMediumSlowUnrolledX86 p = (varint_decode p :: thrift_error + byte \<times> nat)"
proof -
  obtain b0 b1 rest where p: "p = b0 # b1 # rest"
    using assms by (auto simp: list_ge_Cons numeral_eq_Suc)
  show ?thesis
    unfolding p readVarintMediumSlowUnrolledX86_def varint_decode_def kVarintMaxBytes_def
    by (simp add: varint_bits varint_spec_rec Let_def del: varint_spec.simps(2-))
qed

lemma push_bit_63_odd: "push_bit 63 ((w :: u64) AND 1) = push_bit 63 (take_bit 7 w)"
proof -
  have "w AND 1 = take_bit 1 w"
    by (simp add: take_bit_Suc and_one_eq mod_2_eq_odd)
  moreover have "push_bit 63 (take_bit 1 w) = push_bit 63 (take_bit 7 w)"
    by (rule bit_word_eqI) (auto simp: bit_simps bit_0)
  ultimately show ?thesis by simp
qed

lemma unrolledAarch64_64:
  assumes "10 \<le> length p"
  shows "readVarintMediumSlowUnrolledAarch64 p = (varint_decode p :: thrift_error + u64 \<times> nat)"
proof -
  obtain b0 b1 b2 b3 b4 b5 b6 b7 b8 b9 rest
    where p: "p = b0 # b1 # b2 # b3 # b4 # b5 # b6 # b7 # b8 # b9 # rest"
    using assms by (auto simp: list_ge_Cons numeral_eq_Suc)
  show ?thesis
    unfolding p readVarintMediumSlowUnrolledAarch64_def varint_decode_def kVarintMaxBytes_def
      push_bit_63_odd
    by (simp add: varint_bits varint_spec_rec Let_def del: varint_spec.simps(2-))
qed

lemma unrolledAarch64_32:
  assumes "5 \<le> length p"
  shows "readVarintMediumSlowUnrolledAarch64 p = (varint_decode p :: thrift_error + u32 \<times> nat)"
proof -
  obtain b0 b1 b2 b3 b4 rest where p: "p = b0 # b1 # b2 # b3 # b4 # rest"
    using assms by (auto simp: list_ge_Cons numeral_eq_Suc)
  show ?thesis
    unfolding p readVarintMediumSlowUnrolledAarch64_def varint_decode_def kVarintMaxBytes_def
    by (simp add: varint_bits varint_spec_rec Let_def del: varint_spec.simps(2-))
qed

section \<open>The bit-parallel decoder\<close>

fun groups_word :: "bytes \<Rightarrow> 'a::len word" where
  "groups_word [] = 0"
| "groups_word (b # bs) = push_bit 7 (groups_word bs) OR ucast (take_bit 7 b)"

lemma bit_groups_word:
  "bit (groups_word bs :: 'a::len word) n \<longleftrightarrow>
    n < LENGTH('a) \<and> n div 7 < length bs \<and> bit (bs ! (n div 7)) (n mod 7)"
proof (induction bs arbitrary: n)
  case Nil
  then show ?case by simp
next
  case (Cons b bs)
  show ?case
  proof (cases "n < 7")
    case True
    then show ?thesis by (auto simp: bit_simps)
  next
    case False
    then have "n div 7 = Suc ((n - 7) div 7)" "n mod 7 = (n - 7) mod 7"
      by (simp_all add: le_div_geq le_mod_geq)
    then show ?thesis using False Cons [of "n - 7"] by (auto simp: bit_simps)
  qed
qed

lemma varint_spec_groups:
  fixes acc :: "'a::len word"
  assumes "\<forall>j<k. bit (bs ! j) 7" and "\<not> bit (bs ! k) 7" and "k < length bs" and "k < n"
  shows "varint_spec n i acc bs = Inr (acc OR push_bit (7 * i) (groups_word (take (Suc k) bs)), i + k + 1)"
  using assms
proof (induction k arbitrary: n i acc bs)
  case 0
  then obtain b bs' n' where "bs = b # bs'" "n = Suc n'"
    by (cases bs; cases n) auto
  with 0 show ?case by (simp add: and_7f and_80_eq_0 mult.commute)
next
  case (Suc k)
  then obtain b bs' n' where bs: "bs = b # bs'" "n = Suc n'"
    by (cases bs; cases n) auto
  let ?acc = "acc OR push_bit (i * 7) (ucast (take_bit 7 b)) :: 'a word"
  have b: "bit b 7" using Suc.prems(1) bs by force
  have "varint_spec n' (Suc i) ?acc bs' =
      Inr (?acc OR push_bit (7 * Suc i) (groups_word (take (Suc k) bs')), Suc i + k + 1)"
    using Suc.prems bs by (intro Suc.IH) auto
  moreover have "?acc OR push_bit (7 * Suc i) (groups_word (take (Suc k) bs')) =
      acc OR push_bit (7 * i) (groups_word (take (Suc (Suc k)) bs))"
    using bs by (simp add: push_bit_or or.assoc or.left_commute mult.commute add.commute)
      (simp add: or.commute)
  ultimately show ?case
    using bs b by (simp add: and_7f and_80_eq_0)
qed

lemma varint_spec_overlong:
  assumes "\<forall>j<n. bit (bs ! j) 7" and "n \<le> length bs"
  shows "varint_spec n i acc bs = Inl InvalidVarint"
  using assms
proof (induction n i acc bs rule: varint_spec.induct)
  case (3 n i acc b bs)
  then have "bit b 7" "\<forall>j<n. bit (bs ! j) 7" by force+
  with 3 show ?case by (simp add: and_7f and_80_eq_0)
qed simp_all

lemma bit_load_le:
  assumes "8 \<le> length q"
  shows "bit (load_le q) n \<longleftrightarrow> n < 64 \<and> bit (q ! (n div 8)) (n mod 8)"
proof -
  have gen: "bit (foldr (\<lambda>b acc. push_bit 8 acc OR ucast b) bs (0::u64)) n \<longleftrightarrow>
      n < 64 \<and> n div 8 < length bs \<and> bit (bs ! (n div 8)) (n mod 8)" for bs :: bytes
  proof (induction bs arbitrary: n)
    case Nil
    then show ?case by simp
  next
    case (Cons b bs)
    show ?case
    proof (cases "n < 8")
      case True
      then show ?thesis by (auto simp: bit_simps)
    next
      case False
      then have "n div 8 = Suc ((n - 8) div 8)" "n mod 8 = (n - 8) mod 8"
        by (simp_all add: le_div_geq le_mod_geq)
      moreover have "\<not> bit b n" using False by (auto dest: bit_imp_le_length)
      ultimately show ?thesis using False Cons [of "n - 8"] by (auto simp: bit_simps)
    qed
  qed
  show ?thesis
    using assms unfolding load_le_def gen by auto
qed

lemma bit_data_mask: "bit (0x7F7F7F7F7F7F7F7F :: u64) n \<longleftrightarrow> n < 64 \<and> n mod 8 \<noteq> 7"
proof -
  have "\<forall>n\<in>set [0..<64]. bit (0x7F7F7F7F7F7F7F7F :: u64) n \<longleftrightarrow> n mod 8 \<noteq> 7"
    by code_simp
  then show ?thesis by (auto dest: bit_imp_le_length)
qed

lemma mask_positions_data: "mask_positions 0x7F7F7F7F7F7F7F7F = map (\<lambda>j. 8 * (j div 7) + j mod 7) [0..<56]"
  by code_simp

lemma bit_pext_data:
  "bit (pext v 0x7F7F7F7F7F7F7F7F) j \<longleftrightarrow> j < 56 \<and> bit v (8 * (j div 7) + j mod 7)"
  unfolding pext_def mask_positions_data by (auto simp: bit_simps)

lemma takeWhile_upt:
  assumes "\<forall>n<N. P n" and "\<not> P N" and "N < M"
  shows "takeWhile P [0..<M] = [0..<N]"
proof -
  have "[0..<M] = [0..<N] @ N # [Suc N..<M]"
    using assms(3) upt_add_eq_append [of 0 N "M - N"] by (simp add: upt_conv_Cons)
  then show ?thesis using assms(1,2) by (simp add: takeWhile_append)
qed

lemma countr_zero_eq:
  assumes "\<forall>n<N. \<not> bit w n" and "bit w N"
  shows "countr_zero w = N"
proof -
  have "N < 64" using assms(2) bit_imp_le_length [of w N] by simp
  then show ?thesis unfolding countr_zero_def
    using takeWhile_upt [of N "\<lambda>i. \<not> bit w i" 64] assms by simp
qed

lemma bit_plus_1_low:
  fixes x :: "'a::len word"
  assumes "\<forall>n<N. bit x n" and "\<not> bit x N" and "N < LENGTH('a)" and "n \<le> N"
  shows "bit (x + 1) n \<longleftrightarrow> n = N"
proof -
  obtain M where MN: "M \<le> n \<longleftrightarrow> N < n" for n
    using Suc_le_eq by blast
  let ?h = "push_bit M (drop_bit M x)"
  have x: "x = mask N + ?h"
  proof -
    have "mask N AND ?h = 0" using MN by (intro bit_word_eqI) (auto simp: bit_simps)
    moreover have "x = mask N OR ?h"
    proof (rule bit_word_eqI)
      fix n assume "n < LENGTH('a)"
      then show "bit x n \<longleftrightarrow> bit (mask N OR ?h) n"
        using assms(1,2) MN by (cases n N rule: linorder_cases) (auto simp: bit_simps)
    qed
    ultimately show ?thesis by (metis disjunctive_add_eq_or)
  qed
  have "x + 1 = 2 ^ N + ?h" by (subst x) (simp add: mask_eq_exp_minus_1)
  moreover have "2 ^ N AND ?h = 0" using MN by (intro bit_word_eqI) (auto simp: bit_simps)
  ultimately have "x + 1 = 2 ^ N OR ?h" by (simp add: disjunctive_add_eq_or)
  then show ?thesis using assms(3,4) MN by (auto simp: bit_simps)
qed

lemma bit_first_two:
  "bit (snd (tryReadFirstTwoBytesU64 (b0 # b1 # q))) n \<longleftrightarrow>
    (n < 7 \<and> bit b0 n) \<or> (7 \<le> n \<and> n < 14 \<and> bit b1 (n - 7))"
  by (auto simp: tryReadFirstTwoBytesU64_def Let_def and_7f bit_simps dest: bit_imp_le_length)

lemma BMI2_continued:
  assumes q: "8 \<le> length q" and b: "bit b0 7" "bit b1 7"
    and k: "\<forall>j<k. bit (q ! j) 7" "\<not> bit (q ! k) 7" "k < 8"
  shows "readContiguousVarintMediumSlowU64BMI2 (b0 # b1 # q) =
    Inr (groups_word (b0 # b1 # take (Suc k) q), k + 3)"
proof -
  let ?bits = "load_le q" and ?N = "8 * k + 7"
  let ?x = "?bits OR (0x7F7F7F7F7F7F7F7F :: u64)"
  let ?two = "snd (tryReadFirstTwoBytesU64 (b0 # b1 # q))"
  have x: "bit ?x n \<longleftrightarrow> n < 64 \<and> (n mod 8 \<noteq> 7 \<or> bit (q ! (n div 8)) 7)" for n
    using bit_load_le [OF q, of n] bit_data_mask [of n] by (auto simp: bit_or_iff)
  have low: "\<forall>n<?N. bit ?x n"
  proof (intro allI impI)
    fix n assume n: "n < ?N"
    have "n div 8 < k" if "n mod 8 = 7" using that n div_mult_mod_eq [of n 8] by linarith
    then show "bit ?x n" unfolding x using k(1,3) n by auto
  qed
  have top: "\<not> bit ?x ?N" using x k by auto
  have one: "bit (?x + 1) n \<longleftrightarrow> n = ?N" if "n \<le> ?N" for n
    using bit_plus_1_low [OF low top _ that] k(3) by simp
  have cz: "countr_zero (?x + 1) = ?N" using one by (intro countr_zero_eq) auto
  have nz: "?x + 1 \<noteq> 0" using one [of ?N] by auto
  have m: "push_bit ?N (1::u64) - 1 = mask ?N" by (simp add: mask_eq_exp_minus_1 push_bit_eq_mult)
  have ib: "drop_bit 3 ?N + 1 = k + (1::nat)" by (simp add: drop_bit_eq_div)
  have "?two OR push_bit 14 (pext (?bits AND mask ?N) 0x7F7F7F7F7F7F7F7F) =
      groups_word (b0 # b1 # take (Suc k) q)" (is "?l = ?r")
  proof (rule bit_word_eqI)
    fix n assume "n < LENGTH(64)"
    then have n: "n < 64" by simp
    consider "n < 7" | "7 \<le> n" "n < 14" | "14 \<le> n" by linarith
    then show "bit ?l n \<longleftrightarrow> bit ?r n"
    proof cases
      case 1
      then show ?thesis by (simp add: bit_or_iff bit_first_two bit_push_bit_iff bit_groups_word del: groups_word.simps)
    next
      case 2
      then have "n div 7 = 1" "n mod 7 = n - 7" by (simp_all add: le_div_geq le_mod_geq)
      with 2 n show ?thesis by (simp add: bit_or_iff bit_first_two bit_push_bit_iff bit_groups_word del: groups_word.simps)
    next
      case 3
      define j where "j = n - 14"
      have j: "n = j + 14" "j < 50" using 3 n by (simp_all add: j_def)
      have d: "n div 7 = Suc (Suc (j div 7))" "n mod 7 = j mod 7" using j(1) by presburger+
      have split: "(8 * a + r) div 8 = a \<and> (8 * a + r) mod 8 = r \<and> (8 * a + r < 8 * k + 7 \<longleftrightarrow> a < Suc k)"
        if "r < 7" for a r :: nat using that by auto
      have "j mod 7 < 7" by simp
      note e = split [OF this, of "j div 7"]
      have "j div 7 \<le> 7" using j(2) by simp
      then have f: "8 * (j div 7) + j mod 7 < 64" using \<open>j mod 7 < 7\<close> by linarith
      show ?thesis
        using n 3 j(2) q k(3) bit_load_le [OF q, of "8 * (j div 7) + j mod 7"]
        by (auto simp: bit_or_iff bit_and_iff bit_mask_iff bit_first_two bit_push_bit_iff bit_pext_data bit_groups_word d e f j_def [symmetric] simp del: groups_word.simps)
    qed
  qed
  moreover have "\<not> fst (tryReadFirstTwoBytesU64 (b0 # b1 # q))"
    using b by (simp add: tryReadFirstTwoBytesU64_def Let_def varint_bits)
  ultimately show ?thesis
    using b cz nz m ib
    by (simp add: readContiguousVarintMediumSlowU64BMI2_def Let_def case_prod_unfold)
qed


lemma BMI2_overlong:
  assumes q: "8 \<le> length q" and b: "bit b0 7" "bit b1 7" and k: "\<forall>j<8. bit (q ! j) 7"
  shows "readContiguousVarintMediumSlowU64BMI2 (b0 # b1 # q) = Inl InvalidVarint"
proof -
  have "load_le q OR (0x7F7F7F7F7F7F7F7F :: u64) = -1"
  proof (rule bit_word_eqI)
    fix n assume "n < LENGTH(64)"
    then have "n div 8 < 8" by simp
    then show "bit (load_le q OR (0x7F7F7F7F7F7F7F7F :: u64)) n \<longleftrightarrow> bit (-1 :: u64) n"
      using \<open>n < LENGTH(64)\<close> bit_load_le [OF q, of n] bit_data_mask [of n] k
      by (cases "n mod 8 = 7") (auto simp: bit_or_iff)
  qed
  then show ?thesis
    using b by (simp add: readContiguousVarintMediumSlowU64BMI2_def tryReadFirstTwoBytesU64_def
        Let_def varint_bits)
qed

lemma BMI2_eq_decode:
  assumes "10 \<le> length p" and "bit (p ! 0) 7"
  shows "readContiguousVarintMediumSlowU64BMI2 p = varint_decode p"
proof -
  obtain b0 b1 q where p: "p = b0 # b1 # q" and q: "8 \<le> length q"
    using assms(1) by (auto simp: list_ge_Cons numeral_eq_Suc)
  have b0: "bit b0 7" using assms(2) p by simp
  consider (two) "\<not> bit b1 7" | (long) "bit b1 7" "\<forall>j<8. bit (q ! j) 7"
    | (cont) "bit b1 7" "\<exists>k<8. \<not> bit (q ! k) 7" by blast
  then show ?thesis
  proof cases
    case two
    then show ?thesis
      using b0 p by (simp add: readContiguousVarintMediumSlowU64BMI2_def tryReadFirstTwoBytesU64_def
        varint_decode_def kVarintMaxBytes_def varint_spec_rec Let_def varint_bits or.commute
        del: varint_spec.simps(2-))
  next
    case long
    have "\<forall>j<10. bit (p ! j) 7"
    proof (intro allI impI)
      fix j :: nat assume "j < 10"
      then show "bit (p ! j) 7" using long b0 p by (cases j; cases "j - 1") auto
    qed
    then have "varint_decode p = (Inl InvalidVarint :: thrift_error + u64 \<times> nat)"
      using varint_spec_overlong [of 10 p] assms(1)
      by (simp add: varint_decode_def kVarintMaxBytes_def)
    with BMI2_overlong [OF q b0 long] p show ?thesis by simp
  next
    case cont
    then obtain l where l: "l < 8" "\<not> bit (q ! l) 7" by blast
    define k where "k = (LEAST k. \<not> bit (q ! k) 7)"
    have k1: "\<not> bit (q ! k) 7" unfolding k_def by (rule LeastI, rule l(2))
    have k2: "k \<le> l" unfolding k_def by (rule Least_le, rule l(2))
    have k3: "\<forall>j<k. bit (q ! j) 7" unfolding k_def using not_less_Least by blast
    have k: "k < 8" using k2 l(1) by linarith
    have "\<forall>j<Suc (Suc k). bit (p ! j) 7"
      using k3 cont(1) b0 p by (auto simp: less_Suc_eq_0_disj) 
    then have "varint_decode p = Inr (groups_word (take (Suc (Suc (Suc k))) p) :: u64, k + 3)"
      using varint_spec_groups [of "Suc (Suc k)" p 10 0 "0 :: u64"] k k1 p q
      by (simp add: varint_decode_def kVarintMaxBytes_def)
    with BMI2_continued [OF q b0 cont(1) k3 k1 k] p show ?thesis by simp
  qed
qed

section \<open>Every decoder is the reference decoder\<close>

lemma varint_spec_append:
  "n \<le> length d \<Longrightarrow> varint_spec n i acc (d @ r) = varint_spec n i acc d"
  by (induction n i acc d rule: varint_spec.induct) (auto simp: Let_def)

lemma varint_decode_append:
  "kVarintMaxBytes TYPE('a) \<le> length d \<Longrightarrow>
    (varint_decode (d @ r) :: thrift_error + 'a::len word \<times> nat) = varint_decode d"
  by (simp add: varint_decode_def varint_spec_append)

lemma ucast_byte_take_bit_7: "\<not> bit b 7 \<Longrightarrow> ucast (take_bit 7 b) = ucast (b :: byte)"
proof -
  assume "\<not> bit b 7"
  then have "take_bit 7 b = b"
    by (intro bit_word_eqI) (auto simp: bit_simps less_Suc_eq numeral_eq_Suc)
  then show ?thesis by simp
qed

lemma varint_decode_small:
  "8 \<le> LENGTH('a) \<Longrightarrow> \<not> bit b 7 \<Longrightarrow> varint_decode (b # bs) = Inr (ucast b :: 'a::len word, 1)"
proof -
  assume "8 \<le> LENGTH('a)" "\<not> bit b 7"
  moreover from this have "kVarintMaxBytes TYPE('a) \<noteq> 0" by (simp add: kVarintMaxBytes_def)
  ultimately show ?thesis
    by (cases "kVarintMaxBytes TYPE('a)")
      (simp_all add: varint_decode_def varint_bits ucast_byte_take_bit_7)
qed

definition readContiguous :: "arch \<Rightarrow> bytes \<Rightarrow> thrift_error + ('a::len word \<times> nat)" where
  "readContiguous A p = (if LENGTH('a) div 8 \<le> 4 then readVarintMediumSlowUnrolled A p
             else map_sum id (map_prod ucast id)
               (if A = X86_BMI2 then readContiguousVarintMediumSlowU64BMI2 p
                else readVarintMediumSlowUnrolled A p))"

definition contiguous_ok :: "arch \<Rightarrow> 'a::len itself \<Rightarrow> bool" where
  "contiguous_ok A T \<longleftrightarrow> (\<forall>p. kVarintMaxBytes T \<le> length p \<longrightarrow> bit (p ! 0) 7 \<longrightarrow>
     readContiguous A p = (varint_decode p :: thrift_error + 'a word \<times> nat))"

lemma map_sum_ucast_same: "map_sum id (map_prod (ucast :: 'a::len word \<Rightarrow> 'a word) id) = id"
proof -
  have "(ucast :: 'a word \<Rightarrow> 'a word) = id" by (rule ext) simp
  then show ?thesis by (simp add: prod.map_id0 sum.map_id0)
qed

lemma contiguous_ok_64: "contiguous_ok A TYPE(64)"
  by (cases A) (simp_all add: contiguous_ok_def readContiguous_def readVarintMediumSlowUnrolled_def
      kVarintMaxBytes_def BMI2_eq_decode unrolledX86_64 unrolledAarch64_64
      map_sum_ucast_same)

lemma contiguous_ok_32: "contiguous_ok A TYPE(32)"
  by (cases A) (simp_all add: contiguous_ok_def readContiguous_def readVarintMediumSlowUnrolled_def
      kVarintMaxBytes_def unrolledX86_32 unrolledAarch64_32)

lemma contiguous_ok_16: "A \<noteq> AArch64 \<Longrightarrow> contiguous_ok A TYPE(16)"
  by (simp add: contiguous_ok_def readContiguous_def readVarintMediumSlowUnrolled_def
      kVarintMaxBytes_def unrolledX86_16)

lemma contiguous_ok_8: "A \<noteq> AArch64 \<Longrightarrow> contiguous_ok A TYPE(8)"
  by (simp add: contiguous_ok_def readContiguous_def readVarintMediumSlowUnrolled_def
      kVarintMaxBytes_def unrolledX86_8)

context cursor begin

lemma readVarintMediumSlow_spec:
  assumes "contiguous_ok A TYPE('w::len)"
    and "\<forall>b bs. cur_data C c = b # bs \<longrightarrow> bit b 7" and "8 \<le> LENGTH('w)"
  shows "outcome rem c (readVarintMediumSlow A C c) (varint_decode (rem c) :: thrift_error + 'w word \<times> nat)"
proof (cases "kVarintMaxBytes TYPE('w) \<le> length (cur_data C c)")
  case False
  then show ?thesis
    using readVarintSlow_implements [where 'w = 'w]
    by (simp add: readVarintMediumSlow_def implements_def)
next
  case True
  let ?d = "cur_data C c"
  have "kVarintMaxBytes TYPE('w) > 0" using assms(3) by (simp add: kVarintMaxBytes_def)
  then have "bit (?d ! 0) 7" using assms(2) True by (cases ?d) auto
  then have *: "readContiguous A ?d = (varint_decode ?d :: thrift_error + 'w word \<times> nat)"
    using assms(1) True by (simp add: contiguous_ok_def)
  have eq: "varint_decode (rem c) = (varint_decode ?d :: thrift_error + 'w word \<times> nat)"
    using varint_decode_append [OF True] rem_data_split [of c] by metis
  show ?thesis
  proof (cases "varint_decode ?d :: thrift_error + 'w word \<times> nat")
    case (Inl e)
    then show ?thesis using True * eq by (simp add: readVarintMediumSlow_def flip: readContiguous_def)
  next
    case (Inr r)
    then obtain v k where r: "varint_decode ?d = Inr (v :: 'w word, k)" by (cases r) auto
    then show ?thesis
      using True * eq varint_decode_consumed [OF r] skipNoAdvance_ok [of k c]
      by (simp add: readVarintMediumSlow_def flip: readContiguous_def)
  qed
qed

lemma readVarint_implements:
  assumes "contiguous_ok A TYPE('w::len)" and "8 \<le> LENGTH('w)"
  shows "implements rem (readVarint A C :: ('c, 'w word) st) varint_decode"
  unfolding implements_def
proof
  fix c
  show "outcome rem c (readVarint A C c) (varint_decode (rem c) :: thrift_error + 'w word \<times> nat)"
  proof (cases "cur_data C c")
    case Nil
    then show ?thesis
      using readVarintMediumSlow_spec [OF assms(1) _ assms(2), of c] by (simp add: readVarint_def)
  next
    case (Cons b bs)
    show ?thesis
    proof (cases "bit b 7")
      case True
      then show ?thesis
        using readVarintMediumSlow_spec [OF assms(1) _ assms(2), of c] Cons
        by (simp add: readVarint_def and_80_eq_0)
    next
      case False
      have "rem c = b # tl (rem c)" using rem_data_split [of c] Cons by (metis append_Cons list.sel(3))
      then have "varint_decode (rem c) = Inr (ucast b :: 'w word, 1)"
        using varint_decode_small [OF assms(2) False] by metis
      then show ?thesis
        using False Cons skipNoAdvance_ok [of 1 c] by (simp add: readVarint_def and_80_eq_0)
    qed
  qed
qed

end

lemma implementsD_Inr:
  assumes "implements rem m p" and "p (rem c) = Inr (v, k)"
  obtains c' where "m c = Inr (v, c')" and "rem c' = drop k (rem c)"
  using assms by (metis implements_def outcome_Inr)

lemma implementsD_Inl: "implements rem m p \<Longrightarrow> p (rem c) = Inl e \<Longrightarrow> m c = Inl e"
  by (metis implements_def outcome_Inl)

end
