(* ===== verification/Varint_Encode.thy ===== *)
theory Varint_Encode
  imports Varint_Decode
begin

unbundle bit_operations_syntax

text \<open>
  The encoders of \<^verbatim>\<open>VarintUtils-inl.h\<close> and \<^verbatim>\<open>VarintUtils.cpp\<close>: the loop, the
  unrolled entry and the branch-free routine produce the same bytes, never more than
  \<open>kVarintMaxBytes\<close> of them, and every decoder reads the value back; zigzag is a bijection
  that keeps small absolute values small.
\<close>

section \<open>The encoders agree\<close>

lemma mask_7: "(0x7f :: 'a::len word) = mask 7"
  by (simp add: mask_eq_exp_minus_1)

lemma and_not_7f: "(n :: 'a::len word) AND NOT 0x7f = push_bit 7 (drop_bit 7 n)"
  unfolding mask_7 by (rule bit_word_eqI) (auto simp: bit_simps)

lemma and_not_7f_eq_0: "(n :: 'a::len word) AND -128 = 0 \<longleftrightarrow> drop_bit 7 n = 0"
proof
  have minus: "-128 = (NOT 0x7f :: 'a word)" by simp
  show "n AND -128 = 0" if "drop_bit 7 n = 0" unfolding minus and_not_7f that by simp
  assume "n AND -128 = 0"
  then have "drop_bit 7 (push_bit 7 (drop_bit 7 n)) = 0" unfolding minus and_not_7f by simp
  moreover have "drop_bit 7 (push_bit 7 (drop_bit 7 n)) = drop_bit 7 n"
    by (rule bit_word_eqI) (auto simp: bit_simps dest: bit_imp_le_length)
  ultimately show "drop_bit 7 n = 0" by simp
qed

lemma bit_80: "bit (0x80 :: 'a::len word) n \<longleftrightarrow> n = 7 \<and> 7 < LENGTH('a)"
proof -
  have "(0x80 :: 'a word) = push_bit 7 1" by simp
  then show ?thesis by (simp only: bit_simps) (auto simp: bit_1_iff)
qed

lemma bit_80_more: "bit (0x80 :: nat) n \<longleftrightarrow> n = 7" "bit (0x80 :: int) n \<longleftrightarrow> n = 7"
  using bit_exp_iff [where 'a = nat, of 7 n] bit_exp_iff [where 'a = int, of 7 n] by auto

lemma pkt_small: "drop_bit 7 u = 0 \<Longrightarrow> writeVarint_pkt u = [ucast u]"
  by (subst writeVarint_pkt.simps) (simp add: and_not_7f_eq_0)

lemma pkt_large: "drop_bit 7 u \<noteq> 0 \<Longrightarrow>
    writeVarint_pkt u = ucast (take_bit 7 u OR 0x80) # writeVarint_pkt (drop_bit 7 u)"
  by (subst writeVarint_pkt.simps) (simp add: and_not_7f_eq_0 and_7f)

lemma gt_7f: "8 \<le> LENGTH('a) \<Longrightarrow> (n :: 'a::len word) > 0x7f \<longleftrightarrow> drop_bit 7 n \<noteq> 0"
proof -
  assume "8 \<le> LENGTH('a)"
  then have "(2::nat) ^ 8 \<le> 2 ^ LENGTH('a)" by (rule power_increasing) simp
  then have "unat (0x7f :: 'a word) = 127" by (simp add: unsigned_numeral take_bit_eq_mod)
  moreover have "drop_bit 7 n = 0 \<longleftrightarrow> unat n div 128 = 0"
    using unat_drop_bit_7 [of n] by (metis unat_eq_0)
  ultimately show ?thesis by (auto simp: word_less_nat_alt)
qed

lemma writeVarintSlow_pkt:
  "8 \<le> LENGTH('a) \<Longrightarrow> drop_bit 7 (u :: 'a::len word) \<noteq> 0 \<Longrightarrow> writeVarintSlow u = writeVarint_pkt u"
proof (induction u rule: writeVarintSlow.induct)
  case (1 u)
  show ?case
  proof (cases "drop_bit 7 (drop_bit 7 u) = 0")
    case True
    with 1(2,3) pkt_small [OF True] pkt_large [OF 1(3)] show ?thesis
      by (subst writeVarintSlow.simps) (simp add: gt_7f Let_def and_7f del: drop_bit_drop_bit)
  next
    case False
    with 1 pkt_large [OF 1(3)] show ?thesis
      by (subst writeVarintSlow.simps) (simp add: gt_7f Let_def and_7f del: drop_bit_drop_bit)
  qed
qed

lemma writeVarintUnrolled_eq:
  "8 \<le> LENGTH('a) \<Longrightarrow> writeVarintUnrolled (u :: 'a::len word) = writeVarint_pkt u"
  using writeVarintSlow_pkt [of u] pkt_small [of u]
  by (simp add: writeVarintUnrolled_def and_not_7f_eq_0)

lemma length_writeVarint_pkt:
  "drop_bit (7 * Suc k) (u :: 'a::len word) = 0 \<Longrightarrow> length (writeVarint_pkt u) \<le> Suc k"
proof (induction k arbitrary: u)
  case 0
  then show ?case by (simp add: pkt_small)
next
  case (Suc k)
  have "drop_bit (7 * Suc k) (drop_bit 7 u) = 0" using Suc.prems by (simp add: add.commute)
  from Suc.IH [OF this] show ?case
    by (cases "drop_bit 7 u = 0") (simp_all add: pkt_small pkt_large)
qed

lemma drop_bit_eq_0: "LENGTH('a) \<le> n \<Longrightarrow> drop_bit n (u :: 'a::len word) = 0"
  by (rule bit_word_eqI) (auto simp: bit_simps dest: bit_imp_le_length)

lemma length_writeVarint_pkt_le_max:
  fixes u :: "'a::len word"
  assumes "8 dvd LENGTH('a)"
  shows "length (writeVarint_pkt u) \<le> kVarintMaxBytes TYPE('a)"
proof -
  obtain m where m: "LENGTH('a) = 8 * m" using assms by (auto simp: dvd_def)
  moreover have "0 < LENGTH('a)" by simp
  ultimately obtain k where k: "kVarintMaxBytes TYPE('a) = Suc k" "8 * m \<le> 7 * Suc k"
    using that [of "(8 * m + 6) div 7 - 1"] by (auto simp: kVarintMaxBytes_def)
  then show ?thesis using length_writeVarint_pkt [of k u] drop_bit_eq_0 [of "7 * Suc k" u] m by simp
qed

lemma drop_bit_0_bit:
  assumes "drop_bit m (u :: 'a::len word) = 0" and "m \<le> n"
  shows "\<not> bit u n"
proof -
  have "bit (drop_bit m u) (n - m) \<longleftrightarrow> bit u n"
    using assms(2) by (simp only: bit_drop_bit_eq comp_apply le_add_diff_inverse)
  then show ?thesis using assms(1) by simp
qed

lemma group_byte:
  fixes u :: "'a::len word"
  assumes "8 \<le> LENGTH('a)"
  shows "bit (ucast (take_bit 7 u OR 0x80) :: byte) 7"
    and "ucast (take_bit 7 (ucast (take_bit 7 u OR 0x80) :: byte)) = take_bit 7 u"
    and "drop_bit 7 u = 0 \<Longrightarrow> \<not> bit (ucast u :: byte) 7"
    and "drop_bit 7 u = 0 \<Longrightarrow> ucast (take_bit 7 (ucast u :: byte)) = u"
proof -
  show "bit (ucast (take_bit 7 u OR 0x80) :: byte) 7"
    using assms by (simp add: bit_simps bit_80)
  show "ucast (take_bit 7 (ucast (take_bit 7 u OR 0x80) :: byte)) = take_bit 7 u"
    by (rule bit_word_eqI) (auto simp: bit_simps bit_80 bit_80_more)
  assume "drop_bit 7 u = 0"
  then have u: "\<not> bit u n" if "7 \<le> n" for n
    using that by (rule drop_bit_0_bit)
  then show "\<not> bit (ucast u :: byte) 7" by (simp add: bit_simps)
  have "n < 7" if "bit u n" for n using that u by (meson not_le)
  then show "ucast (take_bit 7 (ucast u :: byte)) = u"
    by (intro bit_word_eqI) (fastforce simp: bit_simps)
qed

lemma push_bit_group:
  "push_bit (i * 7) (take_bit 7 u) OR push_bit (Suc i * 7) (drop_bit 7 u) = push_bit (i * 7) (u :: 'a::len word)"
proof -
  have "take_bit 7 u OR push_bit 7 (drop_bit 7 u) = u"
    by (rule bit_word_eqI) (simp add: bit_simps, linarith?, metis le_add_diff_inverse not_le)
  then have "push_bit (i * 7) (take_bit 7 u OR push_bit 7 (drop_bit 7 u)) = push_bit (i * 7) u" by simp
  then show ?thesis by (simp add: push_bit_or add.commute)
qed

lemma varint_spec_encode:
  fixes u :: "'a::len word"
  assumes "8 \<le> LENGTH('a)"
  shows "length (writeVarint_pkt u) \<le> n \<Longrightarrow> varint_spec n i acc (writeVarint_pkt u @ rest) =
    Inr (acc OR push_bit (i * 7) u, i + length (writeVarint_pkt u))"
proof (induction u arbitrary: n i acc rule: writeVarint_pkt.induct)
  case (1 u)
  show ?case
  proof (cases "drop_bit 7 u = 0")
    case True
    then show ?thesis using 1(2) group_byte(3,4) [OF assms True]
      by (cases n) (simp_all add: pkt_small and_7f and_80_eq_0)
  next
    case False
    obtain n' where n: "n = Suc n'" using 1(2) pkt_large [OF False] by (cases n) auto
    show ?thesis
      using 1(1) [of n' "Suc i" "acc OR push_bit (i * 7) (take_bit 7 u)"] False 1(2)
        group_byte(1,2) [OF assms, of u] push_bit_group [of i u]
      by (simp add: pkt_large n and_7f and_80_eq_0 and_not_7f_eq_0 or.assoc)
  qed
qed


lemma varint_decode_encode:
  fixes u :: "'a::len word"
  assumes "8 dvd LENGTH('a)"
  shows "varint_decode (writeVarint_pkt u @ rest) = Inr (u, length (writeVarint_pkt u))"
proof -
  have "8 \<le> LENGTH('a)" using assms by (simp add: dvd_imp_le)
  then show ?thesis
    using varint_spec_encode [where u = u and i = 0 and acc = 0] length_writeVarint_pkt_le_max [OF assms, of u]
    by (simp add: varint_decode_def)
qed

definition enc_groups :: "nat \<Rightarrow> 'a::len word \<Rightarrow> bytes" where
  "enc_groups k u = map (\<lambda>i. ucast (take_bit 7 (drop_bit (7 * i) u)) OR (if i < k then 0x80 else 0)) [0..<Suc k]"

lemma ucast_80: "8 \<le> LENGTH('a) \<Longrightarrow> ucast (w OR (0x80 :: 'a::len word)) = ucast w OR (0x80 :: byte)"
  by (rule bit_word_eqI) (auto simp: bit_simps bit_80 bit_80_more)

lemma pkt_eq_groups:
  fixes u :: "'a::len word"
  assumes "8 \<le> LENGTH('a)"
  shows "drop_bit (7 * Suc k) u = 0 \<Longrightarrow> k = 0 \<or> drop_bit (7 * k) u \<noteq> 0 \<Longrightarrow>
    writeVarint_pkt u = enc_groups k u"
proof (induction k arbitrary: u)
  case 0
  then have d: "drop_bit 7 u = 0" by simp
  then have "n < 7" if "bit u n" for n using that drop_bit_0_bit [OF d] by (meson not_le)
  then have "take_bit 7 u = u" by (intro bit_word_eqI) (auto simp: bit_simps)
  with 0 show ?case by (simp add: pkt_small enc_groups_def)
next
  case (Suc k)
  have *: "drop_bit (7 * j) (drop_bit 7 u) = drop_bit (7 * Suc j) u" for j by (simp add: add.commute)
  have nz: "drop_bit 7 u \<noteq> 0"
  proof
    assume "drop_bit 7 u = 0"
    then have "drop_bit (7 * k) (drop_bit 7 u) = 0" by simp
    with Suc.prems(2) * show False by simp
  qed
  have IH: "writeVarint_pkt (drop_bit 7 u) = enc_groups k (drop_bit 7 u)"
    using Suc.prems nz by (intro Suc.IH) (simp_all add: * del: mult_Suc_right drop_bit_drop_bit)
  have "enc_groups (Suc k) u = (ucast (take_bit 7 u) OR 0x80) # enc_groups k (drop_bit 7 u)"
    unfolding enc_groups_def map_upt_Suc [of _ "Suc k"] * by simp
  with IH nz assms show ?case by (simp add: pkt_large ucast_80)
qed

lemma clzll_eq:
  assumes "bit w t" and "\<forall>n>t. \<not> bit w n"
  shows "clzll w = 63 - t"
proof -
  have t: "t < 64" using assms(1) bit_imp_le_length [of w t] by simp
  then have "63 - (63 - t) = t" by simp
  then have "takeWhile (\<lambda>i. \<not> bit w (63 - i)) [0..<64] = [0..<63 - t]"
    using assms t by (intro takeWhile_upt) auto
  then show ?thesis by (simp add: clzll_def)
qed

lemma not_kMask: "NOT 0x8080808080808080 = (0x7F7F7F7F7F7F7F7F :: u64)"
  by simp

lemma rank_data_mask:
  assumes "n < 64" and "n mod 8 \<noteq> 7"
  shows "length (filter (bit (0x7F7F7F7F7F7F7F7F :: u64)) [0..<n]) = 7 * (n div 8) + n mod 8"
proof -
  have "\<forall>n\<in>set [0..<64]. n mod 8 \<noteq> 7 \<longrightarrow>
    length (filter (\<lambda>n. n mod 8 \<noteq> 7) [0..<n]) = 7 * (n div 8) + n mod 8" by code_simp
  moreover have "filter (bit (0x7F7F7F7F7F7F7F7F :: u64)) [0..<n] = filter (\<lambda>n. n mod 8 \<noteq> 7) [0..<n]"
  proof (rule filter_cong [OF refl])
    fix x assume "x \<in> set [0..<n]"
    then have "x < 64" using assms(1) by simp
    then show "bit (0x7F7F7F7F7F7F7F7F :: u64) x \<longleftrightarrow> x mod 8 \<noteq> 7" using bit_data_mask [of x] by blast
  qed
  ultimately show ?thesis using assms by simp
qed

lemma bit_compress:
  "bit (compressBits v (NOT 0x8080808080808080)) n \<longleftrightarrow> n < 64 \<and> n mod 8 \<noteq> 7 \<and> bit v (7 * (n div 8) + n mod 8)"
  unfolding compressBits_def pdep_def not_kMask
  using bit_data_mask [of n] rank_data_mask [of n]
  by (auto simp: bit_horner_sum_bit_word_iff)

lemma bit_kMask_shift:
  "bit (drop_bit (8 * m) (0x8080808080808080 :: u64)) n \<longleftrightarrow> n mod 8 = 7 \<and> n + 8 * m < 64"
proof -
  have "bit (0x8080808080808080 :: u64) k \<longleftrightarrow> k < 64 \<and> k mod 8 = 7" for k
  proof -
    have "\<forall>n\<in>set [0..<64]. bit (0x8080808080808080 :: u64) n \<longleftrightarrow> n mod 8 = 7" by code_simp
    then show ?thesis by (auto dest: bit_imp_le_length)
  qed
  then show ?thesis by (auto simp: bit_drop_bit_eq add.commute)
qed


lemma bit_byte_of_or:
  "n < 8 \<Longrightarrow> bit (ucast (drop_bit j (x OR y)) :: byte) n \<longleftrightarrow> bit x (j + n) \<or> bit (y :: u64) (j + n)"
  by (auto simp: bit_simps dest: bit_imp_le_length)

lemma compressed_byte:
  fixes V :: u64
  assumes "i < 8" and "i \<le> k" and "k \<le> 9" and "m = 8 - k"
  shows "ucast (drop_bit (8 * i) (compressBits V (NOT 0x8080808080808080) OR
      drop_bit (8 * m) 0x8080808080808080)) =
    (ucast (take_bit 7 (drop_bit (7 * i) V)) OR (if i < k then 0x80 else 0) :: byte)" (is "?l = ?r")
proof (rule bit_word_eqI)
  fix n assume "n < LENGTH(8)"
  then have n: "n < 8" by simp
  have d: "(8 * i + n) mod 8 = n" "(8 * i + n) div 8 = i" "8 * i + n < 64" using n assms(1) by auto
  have "bit ?l n \<longleftrightarrow> (n \<noteq> 7 \<and> bit V (7 * i + n)) \<or> (n = 7 \<and> 8 * i + n + 8 * m < 64)"
    unfolding bit_byte_of_or [OF n] bit_compress bit_kMask_shift d using d(3) by auto
  moreover have "n = 7 \<Longrightarrow> 8 * i + n + 8 * m < 64 \<longleftrightarrow> i < k" using assms by auto
  moreover have "n \<noteq> 7 \<Longrightarrow> n < 7" using n by simp
  moreover have "bit ?r n \<longleftrightarrow> (n < 7 \<and> bit V (7 * i + n)) \<or> (n = 7 \<and> i < k)"
    using n by (auto simp: bit_simps bit_80 bit_80_more)
  ultimately show "bit ?l n \<longleftrightarrow> bit ?r n" by blast
qed

lemma top_bit:
  assumes "(V :: 'a::len word) \<noteq> 0"
  obtains t where "bit V t" and "\<forall>n>t. \<not> bit V n"
proof -
  have fin: "finite {n. bit V n}" by (rule finite_subset [of _ "{..<LENGTH('a)}"]) (auto dest: bit_imp_le_length)
  have ne: "{n. bit V n} \<noteq> {}" using assms by (auto simp: bit_eq_iff)
  show ?thesis
  proof (rule that)
    show "bit V (Max {n. bit V n})" using Max_in [OF fin ne] by (rule CollectD)
    show "\<forall>n>Max {n. bit V n}. \<not> bit V n" using Max_ge [OF fin] by (meson CollectI not_le)
  qed
qed

lemma enc_groups_ucast:
  "LENGTH('a) \<le> 64 \<Longrightarrow> enc_groups k (ucast (u :: 'a::len word) :: u64) = enc_groups k u"
  unfolding enc_groups_def
  by (intro map_cong refl arg_cong2 [where f = "(OR)"] bit_word_eqI) (auto simp: bit_simps dest: bit_imp_le_length)

lemma writeVarintBranchFreeX86_eq:
  fixes u :: "'a::len word"
  assumes "8 < LENGTH('a)" and "LENGTH('a) \<le> 64" and "8 dvd LENGTH('a)"
  shows "writeVarintBranchFreeX86 u = writeVarint_pkt u"
proof (cases "drop_bit 7 u = 0")
  case True
  then show ?thesis by (simp add: writeVarintBranchFreeX86_def and_not_7f_eq_0 pkt_small)
next
  case False
  let ?V = "ucast u :: u64"
  have bV: "bit ?V n \<longleftrightarrow> bit u n" for n using assms(2) by (auto simp: bit_simps dest: bit_imp_le_length)
  from False have "u \<noteq> 0" by auto
  then obtain t where t: "bit u t" "\<forall>n>t. \<not> bit u n" by (rule top_bit)
  have t63: "t < LENGTH('a)" using t(1) by (rule bit_imp_le_length)
  have t7: "7 \<le> t"
  proof (rule ccontr)
    assume "\<not> 7 \<le> t"
    then have "drop_bit 7 u = 0" using t(2) by (intro bit_word_eqI) (auto simp: bit_simps)
    with False show False ..
  qed
  define k where "k = t div 7"
  have k: "7 * k \<le> t" "t < 7 * Suc k" "k \<le> 9" using t63 assms(2) by (auto simp: k_def)
  have pkt: "writeVarint_pkt u = enc_groups k ?V"
  proof -
    have "drop_bit (7 * Suc k) u = 0" using t(2) k(2) by (intro bit_word_eqI) (auto simp: bit_simps)
    moreover have "bit (drop_bit (7 * k) u) (t - 7 * k)" using t(1) k(1) by (simp add: bit_drop_bit_eq)
    then have "drop_bit (7 * k) u \<noteq> 0" by auto
    ultimately show ?thesis using pkt_eq_groups [of k u] assms enc_groups_ucast [of k u] by simp
  qed
  have clz: "clzll ?V = 63 - t" using t by (intro clzll_eq) (simp_all add: bV)
  have size: "kSize (clzll ?V) = Suc k" using t63 assms(2) by (simp add: clz kSize_def k_def)
  have shift: "kShift (clzll ?V) = 8 * (8 - k)"
  proof (cases "t = 63")
    case False
    then show ?thesis using t63 assms(2) by (simp add: clz kShift_def k_def)
  qed (simp add: clz kShift_def k_def)
  define v where "v = compressBits ?V (NOT 0x8080808080808080) OR drop_bit (kShift (clzll ?V)) 0x8080808080808080"
  have byte: "ucast (drop_bit (8 * i) v) = (enc_groups k ?V ! i :: byte)" if "i < 8" "i \<le> k" for i
    using compressed_byte [OF that k(3) refl, of ?V] that
    unfolding v_def shift enc_groups_def by (simp del: upt_Suc)
  have len: "length (enc_groups k ?V) = Suc k" by (simp add: enc_groups_def)
  have store: "store_le (Suc k) v = enc_groups k ?V" if "k < 8"
    using that byte len by (intro nth_equalityI) (auto simp: store_le_def simp del: upt_Suc)
  have "ucast (drop_bit 56 ?V) = (enc_groups k ?V ! 8 :: byte)" if "8 \<le> k"
  proof (rule bit_word_eqI)
    fix n assume "n < LENGTH(8)"
    then have "n < 7 \<or> n = 7" by auto
    moreover have "8 < k \<longleftrightarrow> bit ?V 63"
      using that t t63 assms(2) k unfolding bV by (cases "t = 63") (auto simp: k_def)
    ultimately show "bit (ucast (drop_bit 56 ?V) :: byte) n \<longleftrightarrow> bit (enc_groups k ?V ! 8) n"
      using that unfolding enc_groups_def by (auto simp: bit_simps bit_80 bit_80_more simp del: upt_Suc)
  qed
  note nth8 = this
  have nth9: "enc_groups k ?V ! 9 = 1" if "9 \<le> k"
  proof -
    have "t = 63" using that t63 assms(2) k by simp
    then have "bit ?V (63 + n) \<longleftrightarrow> n = 0" for n
      using t(1) bV [of 63] bit_imp_le_length [of ?V "63 + n"] by (cases n) auto
    then have "drop_bit 63 ?V = 1"
      by (intro bit_word_eqI) (simp only: bit_drop_bit_eq comp_apply bit_1_iff)
    then show ?thesis using that k(3) unfolding enc_groups_def by (simp add: take_bit_Suc del: upt_Suc)
  qed
  have tail: "([ucast (drop_bit 56 ?V), 1] :: bytes) ! (i - 8) = enc_groups k ?V ! i" if "8 \<le> i" "i \<le> k" for i
  proof (cases "i = 8")
    case False
    with that k(3) have "i = 9" "9 \<le> k" by auto
    with nth9 show ?thesis by simp
  qed (use that nth8 in simp)
  have long: "take (Suc k) (store_le 8 v @ [ucast (drop_bit 56 ?V), 1]) = enc_groups k ?V"
    using byte tail len k(3)
    by (intro nth_equalityI) (auto simp: store_le_def nth_append simp del: upt_Suc)
  obtain l where l: "LENGTH('a) = 8 * l" using assms(3) by (auto simp: dvd_def)
  have k4: "k < 8" if "\<not> 8 \<le> LENGTH('a) div 8" using that t63 unfolding l k_def by simp
  have l1: "LENGTH('a) div 8 \<noteq> 1" using assms(1) unfolding l by simp
  show ?thesis
    unfolding writeVarintBranchFreeX86_def Let_def v_def [symmetric] size
    using False l1 store long k4 pkt by (simp add: and_not_7f_eq_0 del: take_append)
qed


lemma writeVarintBranchFreeX86_8: "writeVarintBranchFreeX86 (u :: byte) = writeVarint_pkt u"
proof (cases "drop_bit 7 u = 0")
  case False
  have off: "bit u (7 + n) \<longleftrightarrow> n = 0 \<and> bit u 7" for n
    using bit_imp_le_length [of u "7 + n"] by (cases n) auto
  have b7: "bit u 7"
  proof (rule ccontr)
    assume "\<not> bit u 7"
    then have "drop_bit 7 u = 0"
      using off by (intro bit_word_eqI) (simp only: bit_drop_bit_eq comp_apply bit_0_eq bot_apply bot_bool_def simp_thms)
    with False show False ..
  qed
  have one: "drop_bit 7 u = 1"
    using off b7 by (intro bit_word_eqI) (simp only: bit_drop_bit_eq comp_apply bit_1_iff simp_thms)
  have "take_bit 7 u OR 0x80 = u"
  proof (rule bit_word_eqI)
    fix n assume "n < LENGTH(8)"
    then have "n < 7 \<or> n = 7" by auto
    then show "bit (take_bit 7 u OR 0x80) n \<longleftrightarrow> bit u n"
      using b7 by (auto simp: bit_simps bit_80 bit_80_more)
  qed
  moreover have "ucast (ucast u OR 0x100 :: u64) = u" "ucast (drop_bit 8 (ucast u OR 0x100 :: u64)) = (1 :: byte)"
  proof -
    have "bit (0x100 :: u64) n \<longleftrightarrow> n = 8" for n using bit_exp_iff [where 'a = u64, of 8 n] by auto
    note b = this
    show "ucast (ucast u OR 0x100 :: u64) = u"
    proof (rule bit_word_eqI)
      fix n assume "n < LENGTH(8)"
      then show "bit (ucast (ucast u OR 0x100 :: u64) :: byte) n \<longleftrightarrow> bit u n"
        by (simp only: bit_unsigned_iff bit_or_iff b) auto
    qed
    show "ucast (drop_bit 8 (ucast u OR 0x100 :: u64)) = (1 :: byte)"
    proof (rule bit_word_eqI)
      fix n assume "n < LENGTH(8)"
      then show "bit (ucast (drop_bit 8 (ucast u OR 0x100 :: u64)) :: byte) n \<longleftrightarrow> bit 1 n"
        using bit_imp_le_length [of u "8 + n"]
        by (simp only: bit_unsigned_iff bit_or_iff bit_drop_bit_eq comp_apply b bit_1_iff) auto
    qed
  qed
  ultimately show ?thesis
    using False by (simp add: writeVarintBranchFreeX86_def and_not_7f_eq_0 pkt_large one pkt_small
        store_le_def numeral_2_eq_2)
qed (simp add: writeVarintBranchFreeX86_def and_not_7f_eq_0 pkt_small)

lemma writeVarint_eq:
  "writeVarint A (u8 :: byte) = writeVarint_pkt u8"
  "writeVarint A (u16 :: u16) = writeVarint_pkt u16"
  "writeVarint A (u32 :: u32) = writeVarint_pkt u32"
  "writeVarint A (u64 :: u64) = writeVarint_pkt u64"
  by (simp_all add: writeVarint_def writeVarintBranchFreeX86_8 writeVarintBranchFreeX86_eq writeVarintUnrolled_eq)

lemma readVarint64_loop_encode:
  "shift + 7 * length (writeVarint_pkt u) < 71 \<Longrightarrow>
   readVarint64_loop (writeVarint_pkt u @ rest) rsize shift val =
    Inr (val OR push_bit shift u, rsize + length (writeVarint_pkt u))"
proof (induction u arbitrary: rsize shift val rule: writeVarint_pkt.induct)
  case (1 u)
  show ?case
  proof (cases "drop_bit 7 u = 0")
    case True
    then show ?thesis using 1(2) group_byte(3,4) [of u, OF _ True]
      by (simp add: pkt_small and_7f and_80_eq_0 Let_def)
  next
    case False
    have "push_bit shift (take_bit 7 u) OR push_bit (shift + 7) (drop_bit 7 u) = push_bit shift u"
    proof -
      have "take_bit 7 u OR push_bit 7 (drop_bit 7 u) = u" using push_bit_group [of 0 u] by simp
      then have "push_bit shift (take_bit 7 u OR push_bit 7 (drop_bit 7 u)) = push_bit shift u" by simp
      then show ?thesis by (simp add: push_bit_or)
    qed
    then show ?thesis
      using 1(1) [of "shift + 7" "Suc rsize" "val OR push_bit shift (take_bit 7 u)"] False 1(2)
        group_byte(1,2) [of u]
      by (simp add: pkt_large and_7f and_80_eq_0 and_not_7f_eq_0 or.assoc Let_def)
  qed
qed

lemma readVarint64_writeVarint64:
  "readVarint64 (writeVarint64 u @ rest) = Inr (u, length (writeVarint64 u))"
  using readVarint64_loop_encode [of 0 u rest 0 0] length_writeVarint_pkt_le_max [of u]
  by (simp add: readVarint64_def writeVarint64_def kVarintMaxBytes_def)

lemma ucast_pkt:
  fixes u :: "'a::len word"
  assumes "8 \<le> LENGTH('a)" and "LENGTH('a) \<le> 64"
  shows "writeVarint_pkt (ucast u :: u64) = writeVarint_pkt u"
proof (induction u rule: writeVarint_pkt.induct)
  case (1 u)
  have d: "drop_bit 7 (ucast u :: u64) = ucast (drop_bit 7 u)"
    using assms(2) by (intro bit_word_eqI) (auto simp: bit_simps dest: bit_imp_le_length)
  have b: "ucast (take_bit 7 (ucast u :: u64) OR 0x80) = (ucast (take_bit 7 u OR 0x80) :: byte)"
  proof -
    have "ucast (take_bit 7 (ucast u :: u64)) = (ucast (take_bit 7 u) :: byte)"
      using assms(2) by (intro bit_word_eqI) (auto simp: bit_simps dest: bit_imp_le_length)
    then show ?thesis using assms(1) by (simp add: ucast_80)
  qed
  have z: "(ucast (drop_bit 7 u) :: u64) = 0 \<longleftrightarrow> drop_bit 7 u = 0"
  proof
    assume *: "(ucast (drop_bit 7 u) :: u64) = 0"
    have "bit (ucast (drop_bit 7 u) :: u64) n \<longleftrightarrow> bit (drop_bit 7 u) n" if "n < LENGTH('a)" for n
      using that assms(2) by (simp add: bit_unsigned_iff)
    with * show "drop_bit 7 u = 0" by (intro bit_word_eqI) simp
  qed simp
  show ?case
  proof (cases "drop_bit 7 u = 0")
    case True
    moreover have "ucast (ucast u :: u64) = (ucast u :: byte)"
      using assms(2) by (intro bit_word_eqI) (auto simp: bit_simps dest: bit_imp_le_length)
    ultimately show ?thesis using pkt_small [of "ucast u :: u64"] pkt_small [OF True] by (simp add: d)
  next
    case False
    then show ?thesis
      using 1 pkt_large [of "ucast u :: u64"] pkt_large [OF False] by (simp add: d b z and_not_7f_eq_0)
  qed
qed

lemma readVarint32_writeVarint32:
  "readVarint32 (writeVarint32 u @ rest) = Inr (u, length (writeVarint32 u))"
proof -
  have "ucast (ucast u :: u64) = u" by (rule bit_word_eqI) (auto simp: bit_simps)
  then show ?thesis
    using readVarint64_writeVarint64 [of "ucast u" rest]
    by (simp add: readVarint32_def writeVarint32_def writeVarint64_def ucast_pkt)
qed

lemma bit_signedIntToZigzag:
  fixes n :: "'a::len word"
  shows "bit (signedIntToZigzag n) k \<longleftrightarrow> k < LENGTH('a) \<and>
    ((k > 0 \<and> bit n (k - 1)) \<noteq> bit n (LENGTH('a) - 1))"
proof (cases "k < LENGTH('a)")
  case True
  have "LENGTH('a) - Suc 0 + k = LENGTH('a) - 1" if "k = 0" using that by simp
  then have "bit (signed_drop_bit (LENGTH('a) - 1) n) k \<longleftrightarrow> bit n (LENGTH('a) - 1)"
    using True by (auto simp: bit_signed_drop_bit_iff not_le dest: bit_imp_le_length)
  then show ?thesis
    using True unfolding signedIntToZigzag_def bit_xor_iff bit_push_bit_iff by (auto simp: Suc_le_eq)
qed (auto dest: bit_imp_le_length)

lemma bit_zigzagToSignedInt:
  fixes n :: "'a::len word"
  shows "bit (zigzagToSignedInt n) k \<longleftrightarrow> k < LENGTH('a) \<and> (bit n (Suc k) \<noteq> bit n 0)"
proof -
  have "n AND 1 \<noteq> 0 \<longleftrightarrow> bit n 0" by (simp add: and_one_eq bit_0 odd_iff_mod_2_eq_one)
  then show ?thesis
    by (auto simp: zigzagToSignedInt_def bit_not_iff bit_drop_bit_eq dest: bit_imp_le_length)
qed

lemma zigzag_inverse: "zigzagToSignedInt (signedIntToZigzag n) = n"
proof (rule bit_word_eqI)
  fix k assume "k < LENGTH('a)"
  then show "bit (zigzagToSignedInt (signedIntToZigzag n)) k \<longleftrightarrow> bit (n :: 'a word) k"
    by (cases "Suc k < LENGTH('a)") (auto simp: bit_zigzagToSignedInt bit_signedIntToZigzag dest: less_imp_Suc_add)
qed

lemma zigzag_inverse': "signedIntToZigzag (zigzagToSignedInt n) = n"
proof (rule bit_word_eqI)
  fix k assume "k < LENGTH('a)"
  then show "bit (signedIntToZigzag (zigzagToSignedInt n)) k \<longleftrightarrow> bit (n :: 'a word) k"
    by (cases k) (auto simp: bit_zigzagToSignedInt bit_signedIntToZigzag dest: bit_imp_le_length)
qed


lemma zigzag_value:
  fixes n :: "'a::len word"
  shows "sint n = (if bit (signedIntToZigzag n) 0
    then - int (unat (signedIntToZigzag n) div 2) - 1 else int (unat (signedIntToZigzag n) div 2))"
proof -
  let ?z = "signedIntToZigzag n"
  have z: "n = zigzagToSignedInt ?z" by (simp add: zigzag_inverse)
  have h: "sint (drop_bit 1 ?z) = int (unat ?z div 2)"
  proof -
    have "\<not> bit (drop_bit 1 ?z) (LENGTH('a) - 1)"
      by (auto simp: bit_drop_bit_eq dest: bit_imp_le_length)
    moreover have "take_bit (LENGTH('a) - 1) (uint (drop_bit 1 ?z)) = uint (drop_bit 1 ?z)"
      by (rule bit_eqI) (auto simp: bit_simps dest: bit_imp_le_length)
    ultimately have "sint (drop_bit 1 ?z) = uint (drop_bit 1 ?z)"
      by (simp add: sint_uint signed_take_bit_eq_if_positive bit_uint_iff)
    also have "\<dots> = int (unat ?z div 2)"
      by (simp only: uint_nat unat_drop_bit_eq) (simp add: drop_bit_eq_div)
    finally show ?thesis .
  qed
  have "?z AND 1 \<noteq> 0 \<longleftrightarrow> bit ?z 0" by (simp add: and_one_eq bit_0 odd_iff_mod_2_eq_one)
  moreover have "sint (NOT (drop_bit 1 ?z)) = - sint (drop_bit 1 ?z) - 1"
  proof -
    have "signed_take_bit LENGTH('a) (NOT (sint w)) = NOT (signed_take_bit LENGTH('a) (sint w))" for w :: "'a word"
      by (rule bit_eqI) (auto simp: bit_simps)
    moreover have "signed_take_bit LENGTH('a) (sint w) = sint w" for w :: "'a word"
      by (simp add: sint_uint)
    ultimately show ?thesis by (simp add: signed_not_eq not_int_def)
  qed
  ultimately show ?thesis by (subst z) (simp add: zigzagToSignedInt_def h [unfolded One_nat_def])
qed

context cursor begin

lemma readVarint_app:
  fixes u :: "'w::len word"
  assumes "contiguous_ok B TYPE('w)" and "8 dvd LENGTH('w)" and "rem c = writeVarint_pkt u @ rest"
  shows "\<exists>c'. readVarint B C c = Inr (u, c') \<and> rem c' = rest"
proof -
  have "8 \<le> LENGTH('w)" using assms(2) by (simp add: dvd_imp_le)
  moreover have "varint_decode (rem c) = Inr (u, length (writeVarint_pkt u))"
    using varint_decode_encode [OF assms(2), of u rest] assms(3) by simp
  ultimately obtain c' where "readVarint B C c = Inr (u, c')"
      "rem c' = drop (length (writeVarint_pkt u)) (rem c)"
    using implementsD_Inr [OF readVarint_implements [OF assms(1)]] by blast
  then show ?thesis using assms(3) by auto
qed

end

section \<open>Properties\<close>





text \<open>
  The branch-free x86 encoder, the unrolled encoder and the loop of \<^verbatim>\<open>VarintUtils.cpp\<close>
  write the same bytes for all four integer widths, at most \<open>kVarintMaxBytes\<close> of them (the
  space the encoders reserve before they write).
\<close>

theorem writeVarint_encoders_agree:
  "writeVarint A (a :: byte) = writeVarint_pkt a \<and> length (writeVarint A a) \<le> kVarintMaxBytes TYPE(8) \<and>
   writeVarint A (b :: u16) = writeVarint_pkt b \<and> length (writeVarint A b) \<le> kVarintMaxBytes TYPE(16) \<and>
   writeVarint A (c :: u32) = writeVarint32 c \<and> length (writeVarint A c) \<le> kVarintMaxBytes TYPE(32) \<and>
   writeVarint A (d :: u64) = writeVarint64 d \<and> length (writeVarint A d) \<le> kVarintMaxBytes TYPE(64)"
  by (simp add: writeVarint_eq writeVarint32_def writeVarint64_def length_writeVarint_pkt_le_max)

text \<open>
  The pointer routines of \<^verbatim>\<open>VarintUtils.cpp\<close>, used for the transport headers, read
  back what they wrote, and report the bytes they used.
\<close>

theorem varint_pointer_roundtrip:
  "readVarint64 (writeVarint64 u @ rest) = Inr (u, length (writeVarint64 u)) \<and>
   readVarint32 (writeVarint32 v @ rest) = Inr (v, length (writeVarint32 v))"
  by (simp add: readVarint64_writeVarint64 readVarint32_writeVarint32)

text \<open>
  Zigzag is a bijection between signed and unsigned integers of every width, and the
  unsigned value is twice the absolute value or one less than that, so that small negative
  numbers get short encodings.
\<close>

theorem zigzag_bijection:
  fixes n :: "'a::len word"
  shows "zigzagToSignedInt (signedIntToZigzag n) = n \<and> signedIntToZigzag (zigzagToSignedInt n) = n \<and>
    uint (signedIntToZigzag n) = (if sint n < 0 then - 2 * sint n - 1 else 2 * sint n)"
proof -
  let ?u = "unat (signedIntToZigzag n)"
  have "bit (signedIntToZigzag n) 0 \<longleftrightarrow> ?u mod 2 = 1"
    using bit_unsigned_iff [where 'a = nat, of "signedIntToZigzag n" 0]
    by (auto simp: bit_0 odd_iff_mod_2_eq_one [where 'a = nat])
  moreover have "uint (signedIntToZigzag n) = 2 * int (?u div 2) + int (?u mod 2)"
    unfolding uint_nat by (metis mult_div_mod_eq of_nat_add of_nat_mult of_nat_numeral)
  ultimately show ?thesis
    using zigzag_value [of n] mod2_eq_if [of ?u]
    by (cases "bit (signedIntToZigzag n) 0")
      (simp_all add: zigzag_inverse zigzag_inverse' del: of_nat_unat)
qed


end
