(* ===== verification/Compact_Protocol.thy ===== *)
theory Compact_Protocol
  imports Dynamic_Value Varint_Encode
begin

unbundle bit_operations_syntax

text \<open>
  \<^verbatim>\<open>lib/cpp2/protocol/CompactProtocol.h\<close>, \<^verbatim>\<open>CompactProtocol-inl.h\<close> and
  \<^verbatim>\<open>CompactProtocol.cpp\<close>: the writer and the reader with the state the format needs: the
  stack of last field ids (field headers hold differences) and the pending boolean field (its
  value is part of the header).  The parameter \<open>A\<close> selects the varint routines of a processor.
\<close>

section \<open>Compact types\<close>

abbreviation CT_STOP :: byte where "CT_STOP \<equiv> 0x00"
abbreviation CT_BOOLEAN_TRUE :: byte where "CT_BOOLEAN_TRUE \<equiv> 0x01"
abbreviation CT_BOOLEAN_FALSE :: byte where "CT_BOOLEAN_FALSE \<equiv> 0x02"
abbreviation CT_BYTE :: byte where "CT_BYTE \<equiv> 0x03"
abbreviation CT_I16 :: byte where "CT_I16 \<equiv> 0x04"
abbreviation CT_I32 :: byte where "CT_I32 \<equiv> 0x05"
abbreviation CT_I64 :: byte where "CT_I64 \<equiv> 0x06"
abbreviation CT_DOUBLE :: byte where "CT_DOUBLE \<equiv> 0x07"
abbreviation CT_BINARY :: byte where "CT_BINARY \<equiv> 0x08"
abbreviation CT_LIST :: byte where "CT_LIST \<equiv> 0x09"
abbreviation CT_SET :: byte where "CT_SET \<equiv> 0x0A"
abbreviation CT_MAP :: byte where "CT_MAP \<equiv> 0x0B"
abbreviation CT_STRUCT :: byte where "CT_STRUCT \<equiv> 0x0C"
abbreviation CT_FLOAT :: byte where "CT_FLOAT \<equiv> 0x0D"

definition TTypeToCType :: "byte list" where
  "TTypeToCType = [CT_STOP, 0, CT_BOOLEAN_TRUE, CT_BYTE, CT_DOUBLE, 0, CT_I16, 0, CT_I32, 0, CT_I64,
     CT_BINARY, CT_STRUCT, CT_MAP, CT_SET, CT_LIST, 0, 0, 0, CT_FLOAT]"

definition CTypeToTType :: "byte list" where
  "CTypeToTType = [T_STOP, T_BOOL, T_BOOL, T_BYTE, T_I16, T_I32, T_I64, T_DOUBLE, T_STRING, T_LIST,
     T_SET, T_MAP, T_STRUCT, T_FLOAT]"

text \<open>Indexing the array beyond its end is undefined behaviour in C++.\<close>

definition ctypeOf :: "byte \<Rightarrow> ('s, byte) st" where
  "ctypeOf type = (if unat type < length TTypeToCType then sret (TTypeToCType ! unat type)
     else sfail TableOutOfRange)"

definition getType :: "byte \<Rightarrow> ('s, byte) st" where
  "getType type = (if unat type < length CTypeToTType then sret (CTypeToTType ! unat type)
     else sfail (BadType type))"

definition COMPACT_PROTOCOL_VERSION :: byte where "COMPACT_PROTOCOL_VERSION = 0x02"
definition PROTOCOL_ID :: byte where "PROTOCOL_ID = 0x82"
definition TYPE_MASK :: byte where "TYPE_MASK = 0xE0"
definition COMPACT_VERSION_MASK :: byte where "COMPACT_VERSION_MASK = 0x1f"
definition TYPE_SHIFT_AMOUNT :: nat where "TYPE_SHIFT_AMOUNT = 5"

section \<open>The writer\<close>

record compact_writer = protocol_base +
  cw_out :: bytes
  cw_booleanField :: "(byte \<times> i16) option"
  cw_lastField :: "i16 list"
  cw_lastFieldId :: i16

definition cw_append :: "bytes \<Rightarrow> (compact_writer, u32) st" where
  "cw_append bs = (\<lambda>w. Inr (of_nat (length bs), w\<lparr>cw_out := cw_out w @ bs\<rparr>))"

definition cw_writeByte :: "i8 \<Rightarrow> (compact_writer, u32) st" where
  "cw_writeByte byte = cw_append [byte]"

definition cw_writeI16 :: "arch \<Rightarrow> i16 \<Rightarrow> (compact_writer, u32) st" where
  "cw_writeI16 A i16 = cw_append (writeVarint A (i32ToZigzag (scast i16)))"

definition cw_writeI32 :: "arch \<Rightarrow> i32 \<Rightarrow> (compact_writer, u32) st" where
  "cw_writeI32 A i32 = cw_append (writeVarint A (i32ToZigzag i32))"

definition cw_writeI64 :: "arch \<Rightarrow> i64 \<Rightarrow> (compact_writer, u32) st" where
  "cw_writeI64 A i64 = cw_append (writeVarint A (i64ToZigzag i64))"

definition cw_writeDouble :: "u64 \<Rightarrow> (compact_writer, u32) st" where
  "cw_writeDouble bits = cw_append (be_bytes 8 bits)"

definition cw_writeFloat :: "u32 \<Rightarrow> (compact_writer, u32) st" where
  "cw_writeFloat bits = cw_append (be_bytes 4 bits)"

definition cw_checkBinarySize :: "nat \<Rightarrow> ('w, unit) st" where
  "cw_checkBinarySize sz = (let limit = 2 ^ 31 - 1 in sguard (\<not> sz > limit) (ExceededSizeLimit (int sz) (int limit)))"

definition cw_writeBinary :: "arch \<Rightarrow> bytes \<Rightarrow> (compact_writer, u32) st" where
  "cw_writeBinary A str = sbind (cw_checkBinarySize (length str)) (\<lambda>_.
     wseq (cw_append (writeVarint A (of_nat (length str) :: i32))) (cw_append str))"

definition cw_writeBinaryImpl :: "arch \<Rightarrow> bool \<Rightarrow> bytes \<Rightarrow> (compact_writer, u32) st" where
  "cw_writeBinaryImpl A kWriteSize str = sbind (cw_checkBinarySize (length str)) (\<lambda>_.
     wseq (if kWriteSize then cw_append (writeVarint A (of_nat (length str) :: i32)) else sret 0)
       (cw_append str))"

definition cw_writeBinary_ptr :: "arch \<Rightarrow> bytes option \<Rightarrow> (compact_writer, u32) st" where
  "cw_writeBinary_ptr A str = (case str of None \<Rightarrow> cw_writeI32 A 0 | Some s \<Rightarrow> cw_writeBinaryImpl A True s)"

definition cw_writeString :: "arch \<Rightarrow> bytes \<Rightarrow> (compact_writer, u32) st" where
  "cw_writeString A str = cw_writeBinary A str"

definition cw_writeMessageBegin :: "arch \<Rightarrow> bytes \<Rightarrow> i32 \<Rightarrow> i32 \<Rightarrow> (compact_writer, u32) st" where
  "cw_writeMessageBegin A name messageType seqid =
    wseq (cw_writeByte PROTOCOL_ID)
      (wseq (cw_writeByte (COMPACT_PROTOCOL_VERSION OR
               (ucast (push_bit TYPE_SHIFT_AMOUNT messageType) AND TYPE_MASK)))
      (wseq (cw_append (writeVarint A seqid)) (cw_writeString A name)))"

definition cw_writeStructBegin :: "(compact_writer, u32) st" where
  "cw_writeStructBegin = sbind descend (\<lambda>_.
     sbind (smod (\<lambda>w. w\<lparr>cw_lastField := cw_lastFieldId w # cw_lastField w, cw_lastFieldId := 0\<rparr>))
       (\<lambda>_. sret 0))"

definition cw_writeStructEnd :: "(compact_writer, u32) st" where
  "cw_writeStructEnd = sbind (\<lambda>w. case cw_lastField w of
       [] \<Rightarrow> Inl EmptyStack
     | i # is \<Rightarrow> Inr ((), w\<lparr>cw_lastFieldId := i, cw_lastField := is\<rparr>)) (\<lambda>_.
     sbind ascend (\<lambda>_. sret 0))"

text \<open>\<open>typeOverride\<close> is \<open>None\<close> for the value -1 of the code.\<close>

definition cw_writeFieldBeginInternal :: "arch \<Rightarrow> byte \<Rightarrow> i16 \<Rightarrow> byte option \<Rightarrow> i16 \<Rightarrow> (compact_writer, u32) st" where
  "cw_writeFieldBeginInternal A fieldType fieldId typeOverride previousId =
    sbind (case typeOverride of None \<Rightarrow> ctypeOf fieldType | Some t \<Rightarrow> sret t) (\<lambda>typeToWrite.
    sbind (if sint fieldId > sint previousId \<and> sint fieldId - sint previousId \<le> 15
           then cw_writeByte (push_bit 4 (ucast (fieldId - previousId)) OR typeToWrite)
           else wseq (cw_writeByte typeToWrite) (cw_writeI16 A fieldId)) (\<lambda>wsize.
    sbind (smod (\<lambda>w. w\<lparr>cw_lastFieldId := fieldId\<rparr>)) (\<lambda>_. sret wsize)))"

definition cw_writeFieldBegin :: "arch \<Rightarrow> byte \<Rightarrow> i16 \<Rightarrow> (compact_writer, u32) st" where
  "cw_writeFieldBegin A fieldType fieldId = sbind (sget cw_lastFieldId) (\<lambda>previousId.
     if fieldType = T_BOOL
     then sbind (smod (\<lambda>w. w\<lparr>cw_booleanField := Some (fieldType, fieldId)\<rparr>)) (\<lambda>_. sret 0)
     else cw_writeFieldBeginInternal A fieldType fieldId None previousId)"

definition cw_writeFieldEnd :: "(compact_writer, u32) st" where
  "cw_writeFieldEnd = sret 0"

definition cw_writeFieldStop :: "(compact_writer, u32) st" where
  "cw_writeFieldStop = cw_writeByte T_STOP"

definition cw_writeMapBegin :: "arch \<Rightarrow> byte \<Rightarrow> byte \<Rightarrow> u32 \<Rightarrow> (compact_writer, u32) st" where
  "cw_writeMapBegin A keyType valType sz = sbind descend (\<lambda>_.
     if sz = 0 then cw_writeByte 0
     else wseq (cw_append (writeVarint A sz))
       (sbind (ctypeOf keyType) (\<lambda>k. sbind (ctypeOf valType) (\<lambda>v. cw_writeByte (push_bit 4 k OR v)))))"

definition cw_writeMapEnd :: "(compact_writer, u32) st" where
  "cw_writeMapEnd = sbind ascend (\<lambda>_. sret 0)"

definition cw_writeCollectionBegin :: "arch \<Rightarrow> byte \<Rightarrow> i32 \<Rightarrow> (compact_writer, u32) st" where
  "cw_writeCollectionBegin A elemType sz = sbind (ctypeOf elemType) (\<lambda>ct.
     if sint sz \<le> 14 then cw_writeByte (ucast (push_bit 4 sz OR ucast ct))
     else wseq (cw_writeByte (0xf0 OR ct)) (cw_append (writeVarint A sz)))"

definition cw_writeListBegin :: "arch \<Rightarrow> byte \<Rightarrow> u32 \<Rightarrow> (compact_writer, u32) st" where
  "cw_writeListBegin A elemType sz = sbind descend (\<lambda>_. cw_writeCollectionBegin A elemType sz)"

definition cw_writeListEnd :: "(compact_writer, u32) st" where
  "cw_writeListEnd = sbind ascend (\<lambda>_. sret 0)"

definition cw_writeSetBegin :: "arch \<Rightarrow> byte \<Rightarrow> u32 \<Rightarrow> (compact_writer, u32) st" where
  "cw_writeSetBegin A elemType sz = sbind descend (\<lambda>_. cw_writeCollectionBegin A elemType sz)"

definition cw_writeSetEnd :: "(compact_writer, u32) st" where
  "cw_writeSetEnd = sbind ascend (\<lambda>_. sret 0)"

definition cw_writeBool :: "arch \<Rightarrow> bool \<Rightarrow> (compact_writer, u32) st" where
  "cw_writeBool A value' = sbind (sget cw_booleanField) (\<lambda>booleanField.
     let ct = if value' then CT_BOOLEAN_TRUE else CT_BOOLEAN_FALSE in
     case booleanField of
       Some (fieldType, fieldId) \<Rightarrow>
         sbind (sget cw_lastFieldId) (\<lambda>lastFieldId.
         sbind (cw_writeFieldBeginInternal A fieldType fieldId (Some ct) lastFieldId) (\<lambda>wsize.
         sbind (smod (\<lambda>w. w\<lparr>cw_booleanField := None\<rparr>)) (\<lambda>_. sret wsize)))
     | None \<Rightarrow> cw_writeByte ct)"

definition CompactProtocolWriter :: "arch \<Rightarrow> compact_writer protocol_writer" where
  "CompactProtocolWriter A = \<lparr>
     w_writeStructBegin = cw_writeStructBegin, w_writeStructEnd = cw_writeStructEnd,
     w_writeFieldBegin = cw_writeFieldBegin A, w_writeFieldEnd = cw_writeFieldEnd,
     w_writeFieldStop = cw_writeFieldStop, w_writeMapBegin = cw_writeMapBegin A,
     w_writeMapEnd = cw_writeMapEnd, w_writeListBegin = cw_writeListBegin A,
     w_writeListEnd = cw_writeListEnd, w_writeSetBegin = cw_writeSetBegin A,
     w_writeSetEnd = cw_writeSetEnd, w_writeBool = cw_writeBool A, w_writeByte = cw_writeByte,
     w_writeI16 = cw_writeI16 A, w_writeI32 = cw_writeI32 A, w_writeI64 = cw_writeI64 A,
     w_writeDouble = cw_writeDouble, w_writeFloat = cw_writeFloat, w_writeString = cw_writeString A,
     w_writeBinary = cw_writeBinaryImpl A True \<rparr>"

subsection \<open>Serialized sizes\<close>

definition cw_serializedSizeI16 :: u32 where "cw_serializedSizeI16 = 3"
definition cw_serializedSizeI32 :: u32 where "cw_serializedSizeI32 = 5"
definition cw_serializedSizeI64 :: u32 where "cw_serializedSizeI64 = 10"

definition cw_serializedSizeByteRange :: "bytes \<Rightarrow> u32" where
  "cw_serializedSizeByteRange v = cw_serializedSizeI32 + of_nat (length v)"

definition cw_serializedMessageSize :: "bytes \<Rightarrow> u32" where
  "cw_serializedMessageSize name = 2 * cw_serializedSizeI32 + cw_serializedSizeByteRange name"

definition cw_serializedFieldSize :: u32 where "cw_serializedFieldSize = 1 + cw_serializedSizeI16"

definition cw_serializedSizeMapBegin :: u32 where
  "cw_serializedSizeMapBegin = 1 + 1 + cw_serializedSizeI32"

definition cw_serializedSizeListBegin :: u32 where
  "cw_serializedSizeListBegin = 1 + cw_serializedSizeI32"

definition cw_serializedSizeBinary :: "bytes \<Rightarrow> thrift_error + u32" where
  "cw_serializedSizeBinary v =
    (let limit = (2 ^ 32 - 1) - 5 in
     if length v > limit then Inl (ExceededSizeLimit (int (length v)) (int limit))
     else Inr (cw_serializedSizeI32 + of_nat (length v)))"

definition cw_serializedSizeBinary_ptr :: "bytes option \<Rightarrow> thrift_error + u32" where
  "cw_serializedSizeBinary_ptr v = (case v of None \<Rightarrow> Inr 0 | Some s \<Rightarrow> cw_serializedSizeBinary s)"

section \<open>The reader\<close>

record 'c compact_reader = protocol_base +
  cr_in :: 'c
  cr_string_limit :: i32
  cr_container_limit :: i32
  cr_lastField :: "i16 list"
  cr_lastFieldId :: i16
  cr_boolValue :: "bool option"

definition cr_cursor :: "('c, 'a) st \<Rightarrow> ('c compact_reader, 'a) st" where
  "cr_cursor m = (\<lambda>r. case m (cr_in r) of Inl e \<Rightarrow> Inl e | Inr (a, c) \<Rightarrow> Inr (a, r\<lparr>cr_in := c\<rparr>))"

definition cr_readByte :: "'c cursor_api \<Rightarrow> ('c compact_reader, i8) st" where
  "cr_readByte C = cr_cursor (c_readBE C 1)"

definition cr_readI16 :: "arch \<Rightarrow> 'c cursor_api \<Rightarrow> ('c compact_reader, i16) st" where
  "cr_readI16 A C = cr_cursor (readZigzaggedVarint16 A C)"

definition cr_readI32 :: "arch \<Rightarrow> 'c cursor_api \<Rightarrow> ('c compact_reader, i32) st" where
  "cr_readI32 A C = cr_cursor (readZigzaggedVarint A C)"

definition cr_readI64 :: "arch \<Rightarrow> 'c cursor_api \<Rightarrow> ('c compact_reader, i64) st" where
  "cr_readI64 A C = cr_cursor (readZigzaggedVarint A C)"

definition cr_readDouble :: "'c cursor_api \<Rightarrow> ('c compact_reader, u64) st" where
  "cr_readDouble C = cr_cursor (c_readBE C 8)"

definition cr_readFloat :: "'c cursor_api \<Rightarrow> ('c compact_reader, u32) st" where
  "cr_readFloat C = cr_cursor (c_readBE C 4)"

definition cr_checkStringSize :: "i32 \<Rightarrow> ('c compact_reader, unit) st" where
  "cr_checkStringSize sz = sbind (sguard (\<not> sint sz < 0) NegativeSize) (\<lambda>_.
     sbind (sget cr_string_limit) (\<lambda>string_limit.
     sguard (\<not> (sint string_limit > 0 \<and> sint sz > sint string_limit))
       (ExceededSizeLimit (sint sz) (sint string_limit))))"

definition cr_readStringSize :: "arch \<Rightarrow> 'c cursor_api \<Rightarrow> ('c compact_reader, i32) st" where
  "cr_readStringSize A C = sbind (cr_cursor (readVarint A C)) (\<lambda>sz.
     sbind (cr_checkStringSize sz) (\<lambda>_. sret sz))"

definition cr_readString :: "arch \<Rightarrow> 'c cursor_api \<Rightarrow> ('c compact_reader, bytes) st" where
  "cr_readString A C = sbind (cr_readStringSize A C) (\<lambda>sz. cr_cursor (readStringBody_string C (unat sz)))"

definition cr_skipString :: "arch \<Rightarrow> 'c cursor_api \<Rightarrow> ('c compact_reader, unit) st" where
  "cr_skipString A C = sbind (cr_readStringSize A C) (\<lambda>sz.
     sbind (cr_cursor (readStringBody C (unat sz))) (\<lambda>_. sret ()))"

definition cr_readBinary :: "arch \<Rightarrow> 'c cursor_api \<Rightarrow> ('c compact_reader, bytes) st" where
  "cr_readBinary A C = sbind (cr_readStringSize A C) (\<lambda>sz. cr_cursor (c_read C (unat sz)))"

definition cr_readMessageBegin :: "arch \<Rightarrow> 'c cursor_api \<Rightarrow> ('c compact_reader, bytes \<times> i32 \<times> i32) st" where
  "cr_readMessageBegin A C = sbind (cr_readByte C) (\<lambda>protocolId.
     sbind (sguard (\<not> protocolId \<noteq> PROTOCOL_ID) BadProtocolIdentifier) (\<lambda>_.
     sbind (cr_readByte C) (\<lambda>versionAndType.
     sbind (sguard (\<not> versionAndType AND COMPACT_VERSION_MASK \<noteq> COMPACT_PROTOCOL_VERSION) BadProtocolVersion) (\<lambda>_.
     let messageType = ucast (drop_bit TYPE_SHIFT_AMOUNT (versionAndType AND TYPE_MASK)) in
     sbind (cr_cursor (readVarint A C)) (\<lambda>seqid.
     sbind (cr_readString A C) (\<lambda>name. sret (name, messageType, seqid)))))))"

definition cr_readStructBegin :: "('c compact_reader, unit) st" where
  "cr_readStructBegin = sbind descend (\<lambda>_.
     smod (\<lambda>r. r\<lparr>cr_lastField := cr_lastFieldId r # cr_lastField r, cr_lastFieldId := 0\<rparr>))"

definition cr_readStructEnd :: "('c compact_reader, unit) st" where
  "cr_readStructEnd = sbind (\<lambda>r. case cr_lastField r of
       [] \<Rightarrow> Inl EmptyStack
     | i # is \<Rightarrow> Inr ((), r\<lparr>cr_lastFieldId := i, cr_lastField := is\<rparr>)) (\<lambda>_. ascend)"

definition cr_readFieldBegin :: "arch \<Rightarrow> 'c cursor_api \<Rightarrow> ('c compact_reader, byte \<times> i16) st" where
  "cr_readFieldBegin A C = sbind (cr_readByte C) (\<lambda>byte.
     let type = byte AND 0x0f in
     if type = T_STOP then sret (T_STOP, 0)
     else
       let modifier = drop_bit 4 (byte AND 0xf0) in
       sbind (if modifier = 0 then cr_readI16 A C
              else sbind (sget cr_lastFieldId) (\<lambda>lastFieldId. sret (lastFieldId + ucast modifier))) (\<lambda>fieldId.
       sbind (getType type) (\<lambda>fieldType.
       sbind (if type = CT_BOOLEAN_TRUE \<or> type = CT_BOOLEAN_FALSE
              then smod (\<lambda>r. r\<lparr>cr_boolValue := Some (type = CT_BOOLEAN_TRUE)\<rparr>) else sret ()) (\<lambda>_.
       sbind (smod (\<lambda>r. r\<lparr>cr_lastFieldId := fieldId\<rparr>)) (\<lambda>_. sret (fieldType, fieldId))))))"

definition cr_readFieldEnd :: "('c compact_reader, unit) st" where
  "cr_readFieldEnd = sret ()"

definition cr_checkContainerSize :: "i32 \<Rightarrow> ('c compact_reader, unit) st" where
  "cr_checkContainerSize sz = sbind (sguard (\<not> sint sz < 0) NegativeSize) (\<lambda>_.
     sbind (sget cr_container_limit) (\<lambda>container_limit.
     sguard (\<not> (container_limit \<noteq> 0 \<and> sint sz > sint container_limit))
       (ExceededSizeLimit (sint sz) (sint container_limit))))"

definition cr_readMapBegin :: "arch \<Rightarrow> 'c cursor_api \<Rightarrow> ('c compact_reader, byte \<times> byte \<times> u32) st" where
  "cr_readMapBegin A C = sbind descend (\<lambda>_. sbind (cr_cursor (readVarint A C)) (\<lambda>msize :: i32.
     sbind (if msize \<noteq> 0 then cr_readByte C else sret 0) (\<lambda>kvType.
     sbind (cr_checkContainerSize msize) (\<lambda>_.
     sbind (getType (drop_bit 4 kvType)) (\<lambda>keyType.
     sbind (getType (kvType AND 0xf)) (\<lambda>valType. sret (keyType, valType, msize)))))))"

definition cr_readMapEnd :: "('c compact_reader, unit) st" where
  "cr_readMapEnd = ascend"

definition cr_readListBegin :: "arch \<Rightarrow> 'c cursor_api \<Rightarrow> ('c compact_reader, byte \<times> u32) st" where
  "cr_readListBegin A C = sbind descend (\<lambda>_. sbind (cr_readByte C) (\<lambda>size_and_type.
     let lsize = ucast (drop_bit 4 size_and_type AND 0x0f) :: i32 in
     sbind (if lsize = 15 then cr_cursor (readVarint A C) else sret lsize) (\<lambda>lsize.
     sbind (cr_checkContainerSize lsize) (\<lambda>_.
     sbind (getType (size_and_type AND 0x0f)) (\<lambda>elemType. sret (elemType, lsize))))))"

definition cr_readListEnd :: "('c compact_reader, unit) st" where
  "cr_readListEnd = ascend"

definition cr_readSetBegin :: "arch \<Rightarrow> 'c cursor_api \<Rightarrow> ('c compact_reader, byte \<times> u32) st" where
  "cr_readSetBegin A C = cr_readListBegin A C"

definition cr_readSetEnd :: "('c compact_reader, unit) st" where
  "cr_readSetEnd = ascend"

definition cr_readBool :: "'c cursor_api \<Rightarrow> ('c compact_reader, bool) st" where
  "cr_readBool C = sbind (sget cr_boolValue) (\<lambda>boolValue. case boolValue of
       Some value' \<Rightarrow> sbind (smod (\<lambda>r. r\<lparr>cr_boolValue := None\<rparr>)) (\<lambda>_. sret value')
     | None \<Rightarrow> sbind (cr_readByte C) (\<lambda>val. sret (val = CT_BOOLEAN_TRUE)))"

definition cr_fixedSizeInContainer :: "byte \<Rightarrow> nat" where
  "cr_fixedSizeInContainer type =
    (if type = T_BOOL \<or> type = T_BYTE then 1 else if type = T_FLOAT then 4
     else if type = T_DOUBLE then 8 else 0)"

definition cr_skipBytes :: "'c cursor_api \<Rightarrow> nat \<Rightarrow> ('c compact_reader, unit) st" where
  "cr_skipBytes C n = cr_cursor (c_skip C n)"

definition CompactProtocolReader :: "arch \<Rightarrow> 'c cursor_api \<Rightarrow> 'c compact_reader protocol_reader" where
  "CompactProtocolReader A C = \<lparr>
     r_readStructBegin = cr_readStructBegin, r_readStructEnd = cr_readStructEnd,
     r_readFieldBegin = cr_readFieldBegin A C, r_readFieldEnd = cr_readFieldEnd,
     r_readMapBegin = cr_readMapBegin A C, r_readMapEnd = cr_readMapEnd,
     r_readListBegin = cr_readListBegin A C, r_readListEnd = cr_readListEnd,
     r_readSetBegin = cr_readSetBegin A C, r_readSetEnd = cr_readSetEnd,
     r_readBool = cr_readBool C, r_readByte = cr_readByte C, r_readI16 = cr_readI16 A C,
     r_readI32 = cr_readI32 A C, r_readI64 = cr_readI64 A C, r_readDouble = cr_readDouble C,
     r_readFloat = cr_readFloat C, r_readString = cr_readString A C, r_readBinary = cr_readBinary A C,
     r_skipString = cr_skipString A C, r_skipBytes = cr_skipBytes C,
     r_fixedSizeInContainer = cr_fixedSizeInContainer,
     r_canAdvance = (\<lambda>n r. cur_canAdvance C n (cr_in r)) \<rparr>"

subsection \<open>The state of generated readers\<close>

definition cr_readFieldBeginWithStateImpl :: "arch \<Rightarrow> 'c cursor_api \<Rightarrow> struct_read_state \<Rightarrow> i16 \<Rightarrow> byte
    \<Rightarrow> ('c compact_reader, struct_read_state) st" where
  "cr_readFieldBeginWithStateImpl A C state prevFieldId firstByte =
    (if firstByte = CT_STOP then sret (state\<lparr>srs_fieldType := T_STOP\<rparr>)
     else
       let modifier = drop_bit 4 (firstByte AND 0xf0) in
       sbind (if modifier \<noteq> 0 then sret (prevFieldId + ucast modifier) else cr_readI16 A C) (\<lambda>fieldId.
       let type = firstByte AND 0xf in
       sbind (getType type) (\<lambda>fieldType.
       sbind (if type = CT_BOOLEAN_TRUE \<or> type = CT_BOOLEAN_FALSE
              then smod (\<lambda>r. r\<lparr>cr_boolValue := Some (type = CT_BOOLEAN_TRUE)\<rparr>) else sret ()) (\<lambda>_.
       sret (state\<lparr>srs_fieldId := fieldId, srs_fieldType := fieldType\<rparr>)))))"

definition cr_readFieldBeginWithState :: "arch \<Rightarrow> 'c cursor_api \<Rightarrow> struct_read_state
    \<Rightarrow> ('c compact_reader, struct_read_state) st" where
  "cr_readFieldBeginWithState A C state = sbind (cr_readByte C) (\<lambda>byte.
     cr_readFieldBeginWithStateImpl A C state (srs_fieldId state) byte)"

definition cr_skipNoAdvance :: "'c cursor_api \<Rightarrow> nat \<Rightarrow> ('c compact_reader, unit) st" where
  "cr_skipNoAdvance C n = smod (\<lambda>r. r\<lparr>cr_in := cur_skipNoAdvance C n (cr_in r)\<rparr>)"

definition cr_readFieldBeginWithStateMediumSlow :: "arch \<Rightarrow> 'c cursor_api \<Rightarrow> struct_read_state \<Rightarrow> i16
    \<Rightarrow> ('c compact_reader, struct_read_state) st" where
  "cr_readFieldBeginWithStateMediumSlow A C state prevFieldId =
    sbind (sget (\<lambda>r. cur_data C (cr_in r) ! 0)) (\<lambda>byte.
    sbind (cr_skipNoAdvance C 1) (\<lambda>_. cr_readFieldBeginWithStateImpl A C state prevFieldId byte))"

text \<open>The comparisons are made on the promoted \<open>int\<close>.\<close>

definition cr_matchTypeHeader :: "byte \<Rightarrow> byte \<Rightarrow> byte \<Rightarrow> ('c compact_reader, bool) st" where
  "cr_matchTypeHeader byte type diff =
    (let header = (\<lambda>ct. (ucast byte :: i32) = ucast (ct :: byte) OR push_bit 4 (ucast diff)) in
     if type = T_BOOL then
       (if header CT_BOOLEAN_TRUE \<or> header CT_BOOLEAN_FALSE
        then sbind (smod (\<lambda>r. r\<lparr>cr_boolValue := Some (byte AND 1 \<noteq> 0)\<rparr>)) (\<lambda>_. sret True)
        else sret False)
     else sbind (ctypeOf type) (\<lambda>ct. sret (header ct)))"

text \<open>The bytes a field header with the id in full must continue with to be taken without decoding them.\<close>

definition field_id_bytes :: "i16 \<Rightarrow> bytes" where
  "field_id_bytes nextFieldId =
    (let z = i32ToZigzag (scast nextFieldId) in
     if - 64 \<le> sint nextFieldId \<and> sint nextFieldId \<le> 63 then [ucast z]
     else if - 8192 \<le> sint nextFieldId \<and> sint nextFieldId \<le> 8191 then
       [ucast ((z AND 0x7F) OR 0x80), ucast (drop_bit 7 (z AND 0x3F80))]
     else [ucast ((z AND 0x7F) OR 0x80), ucast (drop_bit 7 (z AND 0x3F80) OR 0x80),
           ucast (drop_bit 14 (z AND 0x1FC000))])"

definition cr_advanceToNextField :: "arch \<Rightarrow> 'c cursor_api \<Rightarrow> i16 \<Rightarrow> i16 \<Rightarrow> byte \<Rightarrow> struct_read_state
    \<Rightarrow> ('c compact_reader, bool \<times> struct_read_state) st" where
  "cr_advanceToNextField A C currFieldId nextFieldId nextFieldType state =
    sbind (sget (\<lambda>r. cur_data C (cr_in r))) (\<lambda>data.
    let fallback = sbind (cr_readFieldBeginWithStateMediumSlow A C state currFieldId) (\<lambda>state'. sret (False, state'));
        accept = (\<lambda>n. sbind (cr_skipNoAdvance C n) (\<lambda>_. sret (True, state))) in
    if data \<noteq> [] then
      if nextFieldType = T_STOP then
        (if data ! 0 = T_STOP then accept 1 else fallback)
      else if sint nextFieldId > sint currFieldId \<and> sint nextFieldId - sint currFieldId \<le> 15 then
        sbind (cr_matchTypeHeader (data ! 0) nextFieldType (ucast (nextFieldId - currFieldId))) (\<lambda>b.
          if b then accept 1 else fallback)
      else
        sbind (cr_matchTypeHeader (data ! 0) nextFieldType 0) (\<lambda>b.
          let ids = field_id_bytes nextFieldId in
          if b \<and> length data > length ids \<and> take (length ids) (drop 1 data) = ids
          then accept (1 + length ids) else fallback)
    else sbind (cr_readFieldBeginWithState A C (state\<lparr>srs_fieldId := currFieldId\<rparr>)) (\<lambda>state'. sret (False, state')))"

end
