(* ===== verification/Compact_Codec.thy ===== *)
theory Compact_Codec
  imports Compact_Protocol
begin

unbundle bit_operations_syntax

text \<open>
  The Compact reader undoes the Compact writer: each read operation against the write operation it
  belongs to, with the nibbles of field, list and map headers taken apart, up to the contract
  \<open>codec\<close> for every cursor and every pair of processors.
\<close>

definition compact_link :: "('c \<Rightarrow> bytes) \<Rightarrow> (compact_writer, 'c compact_reader) link" where
  "compact_link rem = \<lparr> lk_out = cw_out, lk_rem = (\<lambda>r. rem (cr_in r)),
     lk_idle = (\<lambda>w. cw_booleanField w = None),
     lk_sync = (\<lambda>w r. pb_height w = pb_height r \<and> cr_string_limit r = 0 \<and> cr_container_limit r = 0 \<and>
       cr_boolValue r = None \<and> cr_lastField r = cw_lastField w \<and> cr_lastFieldId r = cw_lastFieldId w) \<rparr>"

lemma compact_link_simps [simp]:
  "lk_out (compact_link rem) = cw_out" "lk_rem (compact_link rem) r = rem (cr_in r)"
  "lk_idle (compact_link rem) w \<longleftrightarrow> cw_booleanField w = None"
  "lk_sync (compact_link rem) w r \<longleftrightarrow> pb_height w = pb_height r \<and> cr_string_limit r = 0 \<and>
     cr_container_limit r = 0 \<and> cr_boolValue r = None \<and> cr_lastField r = cw_lastField w \<and>
     cr_lastFieldId r = cw_lastFieldId w"
  by (simp_all add: compact_link_def)

lemma compact_descend: "decodes (compact_link rem) 0 wdescend descend (\<lambda>_. True)"
  by (rule decodesI) (auto simp: wdescend_def sbind_def descend_apply delivers_def split: if_splits)

lemma compact_ascend: "decodes (compact_link rem) 0 wascend ascend (\<lambda>_. True)"
  by (rule decodesI) (auto simp: wascend_def delivers_def)

lemma compact_struct_begin: "decodes (compact_link rem) 0 cw_writeStructBegin cr_readStructBegin (\<lambda>_. True)"
  by (rule decodesI) (auto simp: cw_writeStructBegin_def cr_readStructBegin_def sbind_def descend_apply
      delivers_def split: if_splits)

lemma compact_struct_end: "decodes (compact_link rem) 0 cw_writeStructEnd cr_readStructEnd (\<lambda>_. True)"
  by (rule decodesI) (auto simp: cw_writeStructEnd_def cr_readStructEnd_def sbind_def
      delivers_def split: list.splits)

lemma compact_append:
  assumes "\<And>c rest. rem c = bs @ rest \<Longrightarrow> \<exists>c'. m c = Inr (x, c') \<and> rem c' = rest" and "k \<le> length bs"
  shows "decodes (compact_link rem) k (cw_append bs) (cr_cursor m) (\<lambda>y. y = x)"
proof (rule decodesI)
  fix w n w' assume "lk_idle (compact_link rem) w" "cw_append bs w = Inr (n, w')"
  then have w': "w' = w\<lparr>cw_out := cw_out w @ bs\<rparr>" "n = of_nat (length bs)" "cw_booleanField w = None"
    by (auto simp: cw_append_def)
  have "delivers (compact_link rem) (cr_cursor m) (\<lambda>y. y = x) w' r rest"
    if "lk_sync (compact_link rem) w r" "lk_rem (compact_link rem) r = bs @ rest" for r rest
    using assms(1) [of "cr_in r" rest] that by (auto simp: delivers_def cr_cursor_def w')
  with assms(2) w' show "lk_idle (compact_link rem) w' \<and> (\<exists>bs. lk_out (compact_link rem) w' =
      lk_out (compact_link rem) w @ bs \<and> n = of_nat (length bs) \<and> k \<le> length bs \<and>
      (\<forall>r rest. lk_sync (compact_link rem) w r \<longrightarrow> lk_rem (compact_link rem) r = bs @ rest \<longrightarrow>
        delivers (compact_link rem) (cr_cursor m) (\<lambda>y. y = x) w' r rest))"
    by (intro conjI exI [of _ bs]) auto
qed

lemma compact_container_check:
  assumes "decodes (compact_link rem) k f g (\<lambda>y. y = n)" and "unat n < 2 ^ 31"
  shows "decodes (compact_link rem) k f (sbind g (\<lambda>sizei. sbind (cr_checkContainerSize sizei) (\<lambda>_. sret (h sizei))))
    (\<lambda>y. y = h n)"
  using assms(1) order_refl
  by (rule decodes_reader)
    (use assms(2) in \<open>fastforce simp: delivers_def cr_checkContainerSize_def sbind_apply sint_u32_small\<close>)

lemma compact_string_check:
  assumes "decodes (compact_link rem) k f g (\<lambda>y. y = n)" and "unat n < 2 ^ 31"
  shows "decodes (compact_link rem) k f (sbind g (\<lambda>sz. sbind (cr_checkStringSize sz) (\<lambda>_. sret sz))) (\<lambda>y. y = n)"
  using assms(1) order_refl
  by (rule decodes_reader)
    (use assms(2) in \<open>fastforce simp: delivers_def cr_checkStringSize_def sbind_apply sint_u32_small\<close>)

lemma length_pkt_pos: "1 \<le> length (writeVarint_pkt u)"
  by (subst writeVarint_pkt.simps) simp

context cursor begin

lemma compact_varint32:
  "decodes (compact_link rem) 1 (cw_append (writeVarint A (u :: u32))) (cr_cursor (readVarint B C)) (\<lambda>x. x = u)"
  unfolding writeVarint_eq using length_pkt_pos [of u]
  by (intro compact_append readVarint_app) (auto simp: contiguous_ok_32)

lemma compact_byte: "decodes (compact_link rem) 1 (cw_writeByte b) (cr_readByte C) (\<lambda>x. x = b)"
  unfolding cw_writeByte_def cr_readByte_def by (rule compact_append) (use c_readBE_1 in auto)

lemma compact_i32: "decodes (compact_link rem) 1 (cw_writeI32 A i) (cr_readI32 B C) (\<lambda>x. x = i)"
proof -
  have "\<exists>c'. readZigzaggedVarint B C c = Inr (i, c') \<and> rem c' = rest"
    if "rem c = writeVarint_pkt (signedIntToZigzag i) @ rest" for c rest
    using readVarint_app [OF contiguous_ok_32 _ that, of B] by (auto simp: readZigzaggedVarint_def zigzag_inverse)
  then show ?thesis
    unfolding cw_writeI32_def cr_readI32_def writeVarint_eq i32ToZigzag_def
    by (intro compact_append length_pkt_pos)
qed

lemma compact_i64: "decodes (compact_link rem) 1 (cw_writeI64 A i) (cr_readI64 B C) (\<lambda>x. x = i)"
proof -
  have "\<exists>c'. readZigzaggedVarint B C c = Inr (i, c') \<and> rem c' = rest"
    if "rem c = writeVarint_pkt (signedIntToZigzag i) @ rest" for c rest
    using readVarint_app [OF contiguous_ok_64 _ that, of B] by (auto simp: readZigzaggedVarint_def zigzag_inverse)
  then show ?thesis
    unfolding cw_writeI64_def cr_readI64_def writeVarint_eq i64ToZigzag_def
    by (intro compact_append length_pkt_pos)
qed

lemma compact_i16: "decodes (compact_link rem) 1 (cw_writeI16 A i) (cr_readI16 B C) (\<lambda>x. x = i)"
proof -
  have "ucast (scast i :: i32) = i" by (rule bit_word_eqI) (auto simp: bit_simps)
  then have "\<exists>c'. readZigzaggedVarint16 B C c = Inr (i, c') \<and> rem c' = rest"
    if "rem c = writeVarint_pkt (signedIntToZigzag (scast i :: i32)) @ rest" for c rest
    using readVarint_app [OF contiguous_ok_32 _ that, of B] by (auto simp: readZigzaggedVarint16_def zigzag_inverse)
  then show ?thesis
    unfolding cw_writeI16_def cr_readI16_def writeVarint_eq i32ToZigzag_def
    by (intro compact_append length_pkt_pos)
qed

lemma compact_double: "decodes (compact_link rem) 1 (cw_writeDouble d) (cr_readDouble C) (\<lambda>x. x = d)"
  unfolding cw_writeDouble_def cr_readDouble_def by (rule compact_append) (auto intro: c_readBE_app)

lemma compact_float: "decodes (compact_link rem) 1 (cw_writeFloat d) (cr_readFloat C) (\<lambda>x. x = d)"
  unfolding cw_writeFloat_def cr_readFloat_def by (rule compact_append) (auto intro: c_readBE_app)

lemma compact_bool: "decodes (compact_link rem) 1 (cw_writeBool A b) (cr_readBool C) (\<lambda>x. x = b)"
proof (rule decodes_cong)
  let ?b = "if b then CT_BOOLEAN_TRUE else CT_BOOLEAN_FALSE"
  show "decodes (compact_link rem) 1 (cw_writeByte ?b)
      (sbind (cr_readByte C) (\<lambda>val. sret (val = CT_BOOLEAN_TRUE))) (\<lambda>x. x = b)"
    by (rule decodes_map [OF compact_byte]) auto
  show "cw_writeBool A b w = cw_writeByte ?b w" if "lk_idle (compact_link rem) w" for w
    using that by (simp add: cw_writeBool_def)
  show "cr_readBool C r = sbind (cr_readByte C) (\<lambda>val. sret (val = CT_BOOLEAN_TRUE)) r"
    if "lk_sync (compact_link rem) w r" for w r
    using that by (simp add: cr_readBool_def)
qed

lemma compact_sized:
  assumes "\<And>c bs rest. rem c = bs @ rest \<Longrightarrow> \<exists>c'. body (length bs) c = Inr (bs, c') \<and> rem c' = rest"
  shows "decodes (compact_link rem) 1 (cw_writeBinaryImpl A True s)
    (sbind (cr_readStringSize B C) (\<lambda>sz. cr_cursor (body (unat sz)))) (\<lambda>x. x = s)"
proof -
  let ?n = "of_nat (length s) :: i32"
  have "decodes (compact_link rem) (1 + 0) (wseq (cw_append (writeVarint A ?n)) (cw_append s))
      (sbind (cr_readStringSize B C) (\<lambda>sz. cr_cursor (body (unat sz)))) (\<lambda>x. x = s)" if "length s < 2 ^ 31"
    using that assms unfolding cr_readStringSize_def
    by (intro decodes_wseq [OF compact_string_check [OF compact_varint32]]) (auto simp: size_u32 intro!: compact_append)
  then show ?thesis
    unfolding cw_writeBinaryImpl_def cw_checkBinarySize_def Let_def if_True by (intro decodes_guard) simp
qed

lemma cw_writeBinary_eq: "cw_writeBinary A s = cw_writeBinaryImpl A True s"
  by (simp add: cw_writeBinary_def cw_writeBinaryImpl_def)

lemma compact_strings:
  "decodes (compact_link rem) 1 (cw_writeBinaryImpl A True s) (cr_readString B C) (\<lambda>x. x = s)"
  "decodes (compact_link rem) 1 (cw_writeBinaryImpl A True s) (cr_readBinary B C) (\<lambda>x. x = s)"
  "decodes (compact_link rem) 1 (cw_writeBinaryImpl A True s) (cr_skipString B C) (\<lambda>_. True)"
proof -
  show "decodes (compact_link rem) 1 (cw_writeBinaryImpl A True s) (cr_readString B C) (\<lambda>x. x = s)"
    unfolding cr_readString_def by (rule compact_sized) (rule readStringBody_string_ok, simp_all)
  show "decodes (compact_link rem) 1 (cw_writeBinaryImpl A True s) (cr_readBinary B C) (\<lambda>x. x = s)"
    unfolding cr_readBinary_def by (rule compact_sized) (rule c_read_app, simp_all)
  have "decodes (compact_link rem) 1 (cw_writeBinaryImpl A True s)
      (sbind (sbind (cr_readStringSize B C) (\<lambda>sz. cr_cursor (readStringBody C (unat sz)))) (\<lambda>_. sret ())) (\<lambda>_. True)"
    by (rule decodes_map [OF compact_sized]) (rule readStringBody_ok, simp_all)
  then show "decodes (compact_link rem) 1 (cw_writeBinaryImpl A True s) (cr_skipString B C) (\<lambda>_. True)"
    by (simp add: cr_skipString_def sbind_assoc)
qed

end



definition ctype :: "byte \<Rightarrow> byte" where
  "ctype t = TTypeToCType ! unat t"

lemma ctype_table:
  assumes "t \<in> set value_types"
  shows "ctypeOf t = sret (ctype t)" "getType (ctype t) = sret t" "unat (ctype t) < 16" "ctype t \<noteq> 0"
    "t \<noteq> T_BOOL \<Longrightarrow> ctype t \<noteq> CT_BOOLEAN_TRUE \<and> ctype t \<noteq> CT_BOOLEAN_FALSE"
proof -
  have "\<forall>t\<in>set value_types. unat t < length TTypeToCType \<and> unat (ctype t) < length CTypeToTType \<and>
    CTypeToTType ! unat (ctype t) = t \<and> ctype t \<noteq> 0 \<and>
    (t \<noteq> T_BOOL \<longrightarrow> ctype t \<noteq> CT_BOOLEAN_TRUE \<and> ctype t \<noteq> CT_BOOLEAN_FALSE)"
    by code_simp
  then have t: "unat t < length TTypeToCType" "unat (ctype t) < length CTypeToTType"
    "CTypeToTType ! unat (ctype t) = t" "ctype t \<noteq> 0"
    "t \<noteq> T_BOOL \<longrightarrow> ctype t \<noteq> CT_BOOLEAN_TRUE \<and> ctype t \<noteq> CT_BOOLEAN_FALSE"
    using assms by blast+
  show "ctypeOf t = sret (ctype t)" using t(1) by (simp add: ctypeOf_def ctype_def)
  show "getType (ctype t) = sret t" using t(2,3) by (simp add: getType_def)
  show "unat (ctype t) < 16" using t(2) by (simp add: CTypeToTType_def)
  show "ctype t \<noteq> 0" by (rule t(4))
  show "t \<noteq> T_BOOL \<Longrightarrow> ctype t \<noteq> CT_BOOLEAN_TRUE \<and> ctype t \<noteq> CT_BOOLEAN_FALSE" using t(5) by simp
qed

lemma and_0f: "(w :: byte) AND 0x0f = take_bit 4 w"
proof -
  have "(0x0f :: byte) = mask 4" by (simp add: mask_eq_exp_minus_1)
  then show ?thesis by (simp add: take_bit_eq_mask)
qed

lemma drop_and_f0: "drop_bit 4 ((w :: byte) AND 0xf0) = drop_bit 4 w"
proof -
  have "\<forall>n\<in>set [0..<8]. bit (0xf0 :: byte) n \<longleftrightarrow> 4 \<le> n" by code_simp
  then have f0: "bit (0xf0 :: byte) (4 + n) \<longleftrightarrow> n < 4" for n
    using bit_imp_le_length [of "0xf0 :: byte" "4 + n"] by force
  have "bit w (4 + n) \<and> n < 4 \<longleftrightarrow> bit w (4 + n)" for n
    using bit_imp_le_length [of w "4 + n"] by auto
  then show ?thesis by (intro bit_word_eqI) (simp only: bit_drop_bit_eq comp_apply bit_and_iff f0)
qed

lemma take_bit_4_small:
  assumes "unat (w :: 'a::len word) < 16"
  shows "take_bit 4 w = w"
proof -
  have "take_bit 4 (unat w) = unat w" using assms by (intro take_bit_nat_eq_self) simp
  then have "unat (take_bit 4 w) = unat w" by (simp only: unsigned_take_bit_eq)
  then show ?thesis by (rule unsigned_word_eqI)
qed

lemma nibbles:
  assumes "unat ct < 16" and "unat (x :: byte) < 16"
  shows "take_bit 4 (push_bit 4 x OR ct) = ct" "drop_bit 4 (push_bit 4 x OR ct) = x"
proof -
  have ct: "\<not> bit ct n" if "4 \<le> n" for n
    using that take_bit_4_small [OF assms(1)] by (metis bit_take_bit_iff not_le)
  have x: "\<not> bit x n" if "4 \<le> n" for n
    using that take_bit_4_small [OF assms(2)] by (metis bit_take_bit_iff not_le)
  show "take_bit 4 (push_bit 4 x OR ct) = ct"
    by (rule bit_word_eqI) (use ct in \<open>auto simp: bit_simps not_le [symmetric]\<close>)
  show "drop_bit 4 (push_bit 4 x OR ct) = x"
    by (rule bit_word_eqI) (use ct x in \<open>auto simp: bit_simps intro: ccontr\<close>)
qed

definition header :: "i16 \<Rightarrow> byte \<Rightarrow> i16 \<Rightarrow> bytes" where
  "header p ct i = (if sint i > sint p \<and> sint i - sint p \<le> 15
    then [push_bit 4 (ucast (i - p)) OR ct] else ct # writeVarint_pkt (signedIntToZigzag (scast i :: i32)))"

lemma write_header:
  "cw_writeFieldBeginInternal A ft i (Some ct) p w =
    Inr (of_nat (length (header p ct i)), w\<lparr>cw_out := cw_out w @ header p ct i, cw_lastFieldId := i\<rparr>)"
  by (simp add: cw_writeFieldBeginInternal_def header_def wseq_def sbind_apply cw_writeByte_def cw_append_def
      cw_writeI16_def writeVarint_eq i32ToZigzag_def)

lemma delta_word:
  fixes i p :: i16
  assumes "sint i > sint p" and "sint i - sint p \<le> 15"
  shows "unat (ucast (i - p) :: byte) < 16" "ucast (i - p) \<noteq> (0 :: byte)" "p + ucast (ucast (i - p) :: byte) = i"
proof -
  define d where "d = nat (sint i - sint p)"
  have d: "1 \<le> d" "d \<le> 15" "sint i - sint p = int d" using assms by (simp_all add: d_def)
  have "i - p = of_int (sint i) - of_int (sint p)" by simp
  also have "\<dots> = of_nat d" using d(3) by (metis of_int_diff of_int_of_nat_eq)
  finally have ip: "i - p = of_nat d" .
  have u: "unat (of_nat d :: i16) = d" "unat (of_nat d :: byte) = d"
    using d by (simp_all add: unat_of_nat take_bit_nat_eq_self)
  have b: "ucast (i - p) = (of_nat d :: byte)"
    unfolding ip using u d by (intro unsigned_word_eqI [where 'a = nat]) (simp add: unsigned_ucast_eq take_bit_nat_eq_self)
  have "ucast (of_nat d :: byte) = (of_nat d :: i16)"
    using u d by (intro unsigned_word_eqI [where 'a = nat]) (simp add: unsigned_ucast_eq take_bit_nat_eq_self)
  then show "p + ucast (ucast (i - p) :: byte) = i" unfolding b by (simp flip: ip)
  show "unat (ucast (i - p) :: byte) < 16" unfolding b using u d by simp
  show "ucast (i - p) \<noteq> (0 :: byte)" unfolding b using u(2) d(1) by (metis unat_0 not_one_le_zero)
qed


context cursor begin

lemma cr_readByte_Cons:
  assumes "rem (cr_in r) = b # rest"
  obtains c where "cr_readByte C r = Inr (b, r\<lparr>cr_in := c\<rparr>)" and "rem c = rest"
  using c_readBE_1 [of "cr_in r" b rest] assms by (auto simp: cr_readByte_def cr_cursor_def)

lemma cr_readI16_app:
  assumes "rem (cr_in r) = writeVarint_pkt (signedIntToZigzag (scast i :: i32)) @ rest"
  obtains c where "cr_readI16 B C r = Inr (i, r\<lparr>cr_in := c\<rparr>)" and "rem c = rest"
proof -
  have "ucast (scast i :: i32) = i" by (rule bit_word_eqI) (auto simp: bit_simps)
  then show ?thesis
    using readVarint_app [OF contiguous_ok_32 _ assms, of B] that
    by (auto simp: readZigzaggedVarint16_def zigzag_inverse cr_readI16_def cr_cursor_def)
qed

lemma readFieldBegin_eval:
  assumes "cr_readByte C r = Inr (b, r1)" and "take_bit 4 b = ct" and "ct \<noteq> 0" and "getType ct = (sret t :: ('c compact_reader, byte) st)"
    and "(if drop_bit 4 b = 0 then cr_readI16 B C r1
      else Inr (cr_lastFieldId r1 + ucast (drop_bit 4 b), r1)) = Inr (i, r2)"
  shows "cr_readFieldBegin B C r = Inr ((t, i), r2\<lparr>
    cr_boolValue := (if ct = CT_BOOLEAN_TRUE \<or> ct = CT_BOOLEAN_FALSE then Some (ct = CT_BOOLEAN_TRUE)
      else cr_boolValue r2), cr_lastFieldId := i\<rparr>)"
proof -
  define m where "m = (if drop_bit 4 b = 0 then cr_readI16 B C
      else sbind (sget cr_lastFieldId) (\<lambda>lastFieldId. sret (lastFieldId + ucast (drop_bit 4 b))))"
  have "m r1 = Inr (i, r2)" using assms(5) by (auto simp: m_def split: if_splits)
  note id = sbind_Inr [where m = m, OF this]
  show ?thesis
    unfolding cr_readFieldBegin_def and_0f drop_and_f0 Let_def sbind_Inr [where m = "cr_readByte C", OF assms(1)] assms(2) m_def [symmetric]
    using assms(3,4) by (simp add: id)
qed

lemma read_header:
  assumes "rem (cr_in r) = header p ct i @ rest" and "cr_lastFieldId r = p" and "unat ct < 16" and "ct \<noteq> 0"
    and "getType ct = (sret t :: ('c compact_reader, byte) st)"
  shows "\<exists>c. rem c = rest \<and> cr_readFieldBegin B C r = Inr ((t, i), r\<lparr>cr_in := c,
    cr_boolValue := (if ct = CT_BOOLEAN_TRUE \<or> ct = CT_BOOLEAN_FALSE then Some (ct = CT_BOOLEAN_TRUE)
      else cr_boolValue r), cr_lastFieldId := i\<rparr>)"
proof (cases "sint i > sint p \<and> sint i - sint p \<le> 15")
  case True
  note d = delta_word [OF conjunct1 [OF True] conjunct2 [OF True]]
  let ?b = "push_bit 4 (ucast (i - p)) OR ct"
  have "rem (cr_in r) = ?b # rest" using assms(1) True by (simp add: header_def)
  then obtain c where c: "cr_readByte C r = Inr (?b, r\<lparr>cr_in := c\<rparr>)" "rem c = rest"
    by (rule cr_readByte_Cons)
  have "cr_readFieldBegin B C r = Inr ((t, i), r\<lparr>cr_in := c\<rparr>\<lparr>
    cr_boolValue := (if ct = CT_BOOLEAN_TRUE \<or> ct = CT_BOOLEAN_FALSE then Some (ct = CT_BOOLEAN_TRUE)
      else cr_boolValue (r\<lparr>cr_in := c\<rparr>)), cr_lastFieldId := i\<rparr>)"
    by (rule readFieldBegin_eval [OF c(1) nibbles(1) [OF assms(3) d(1)] assms(4,5)])
      (simp only: nibbles(2) [OF assms(3) d(1)] d(2) if_False compact_reader.select_convs compact_reader.surjective
        compact_reader.update_convs, use d(3) assms(2) in simp)
  then show ?thesis using c(2) by auto
next
  case False
  have h: "rem (cr_in r) = ct # writeVarint_pkt (signedIntToZigzag (scast i :: i32)) @ rest"
    using assms(1) False by (simp add: header_def)
  then obtain c1 where c1: "cr_readByte C r = Inr (ct, r\<lparr>cr_in := c1\<rparr>)"
      "rem c1 = writeVarint_pkt (signedIntToZigzag (scast i :: i32)) @ rest"
    by (rule cr_readByte_Cons)
  then obtain c where c: "cr_readI16 B C (r\<lparr>cr_in := c1\<rparr>) = Inr (i, r\<lparr>cr_in := c\<rparr>)" "rem c = rest"
    using cr_readI16_app [of "r\<lparr>cr_in := c1\<rparr>" i rest B] by auto
  have "take_bit 4 ct = ct" "drop_bit 4 ct = 0"
    using take_bit_4_small [OF assms(3)] nibbles(2) [OF assms(3), of 0] by simp_all
  with c(1) have "cr_readFieldBegin B C r = Inr ((t, i), r\<lparr>cr_in := c\<rparr>\<lparr>
    cr_boolValue := (if ct = CT_BOOLEAN_TRUE \<or> ct = CT_BOOLEAN_FALSE then Some (ct = CT_BOOLEAN_TRUE)
      else cr_boolValue (r\<lparr>cr_in := c\<rparr>)), cr_lastFieldId := i\<rparr>)"
    by (intro readFieldBegin_eval [OF c1(1) _ assms(4,5)]) simp_all
  then show ?thesis using c(2) by auto
qed

lemma compact_field_begin:
  assumes t: "t \<in> set value_types" "t \<noteq> T_BOOL"
  shows "decodes (compact_link rem) 1 (cw_writeFieldBegin A t i) (cr_readFieldBegin B C) (\<lambda>x. x = (t, i))"
proof (rule decodesI)
  fix w n w' assume w: "lk_idle (compact_link rem) w" and f: "cw_writeFieldBegin A t i w = Inr (n, w')"
  let ?h = "header (cw_lastFieldId w) (ctype t) i"
  from f have w': "n = of_nat (length ?h)" "w' = w\<lparr>cw_out := cw_out w @ ?h, cw_lastFieldId := i\<rparr>"
    using t write_header [of A t i "ctype t" "cw_lastFieldId w" w]
    by (auto simp: cw_writeFieldBegin_def cw_writeFieldBeginInternal_def ctype_table)
  have "delivers (compact_link rem) (cr_readFieldBegin B C) (\<lambda>x. x = (t, i)) w' r rest"
    if "lk_sync (compact_link rem) w r" "lk_rem (compact_link rem) r = ?h @ rest" for r rest
    using read_header [OF _ _ ctype_table(3,4,2) [OF t(1)], of r "cw_lastFieldId w" i rest B] ctype_table(5) [OF t] that
    by (auto simp: delivers_def w')
  moreover have "1 \<le> length ?h" by (simp add: header_def)
  ultimately show "lk_idle (compact_link rem) w' \<and> (\<exists>bs. lk_out (compact_link rem) w' = lk_out (compact_link rem) w @ bs \<and>
     n = of_nat (length bs) \<and> 1 \<le> length bs \<and> (\<forall>r rest. lk_sync (compact_link rem) w r \<longrightarrow>
       lk_rem (compact_link rem) r = bs @ rest \<longrightarrow>
       delivers (compact_link rem) (cr_readFieldBegin B C) (\<lambda>x. x = (t, i)) w' r rest))"
    using w w' by (intro conjI exI [of _ ?h]) auto
qed

lemma compact_bool_field:
  "decodes (compact_link rem) 1 (wseq (cw_writeFieldBegin A T_BOOL i) (cw_writeBool A b))
    (sbind (cr_readFieldBegin B C) (\<lambda>x. sbind (cr_readBool C) (\<lambda>y. sret (x, y)))) (\<lambda>z. z = ((T_BOOL, i), b))"
  (is "decodes _ _ ?f ?g ?P")
proof (rule decodesI)
  fix w n w' assume w: "lk_idle (compact_link rem) w" and f: "?f w = Inr (n, w')"
  let ?ct = "if b then CT_BOOLEAN_TRUE else CT_BOOLEAN_FALSE"
  let ?h = "header (cw_lastFieldId w) ?ct i"
  from w f have w': "n = of_nat (length ?h)" "w' = w\<lparr>cw_out := cw_out w @ ?h, cw_lastFieldId := i\<rparr>"
    using write_header [of A T_BOOL i ?ct "cw_lastFieldId w"]
    by (auto simp: wseq_def cw_writeFieldBegin_def cw_writeBool_def sbind_apply)
  have ct: "getType ?ct = (sret T_BOOL :: ('c compact_reader, byte) st)" "unat ?ct < 16" "?ct \<noteq> 0"
    by (simp_all add: getType_def CTypeToTType_def)
  have "delivers (compact_link rem) ?g ?P w' r rest"
    if r: "lk_sync (compact_link rem) w r" "lk_rem (compact_link rem) r = ?h @ rest" for r rest
  proof -
    obtain c where "rem c = rest" "cr_readFieldBegin B C r =
        Inr ((T_BOOL, i), r\<lparr>cr_in := c, cr_boolValue := Some b, cr_lastFieldId := i\<rparr>)"
      using read_header [OF _ _ ct(2,3,1), of r "cw_lastFieldId w" i rest B] r by (auto split: if_splits)
    then show ?thesis using r by (simp add: delivers_def cr_readBool_def w')
  qed
  moreover have "1 \<le> length ?h" by (simp add: header_def)
  ultimately show "lk_idle (compact_link rem) w' \<and> (\<exists>bs. lk_out (compact_link rem) w' = lk_out (compact_link rem) w @ bs \<and>
     n = of_nat (length bs) \<and> 1 \<le> length bs \<and> (\<forall>r rest. lk_sync (compact_link rem) w r \<longrightarrow>
       lk_rem (compact_link rem) r = bs @ rest \<longrightarrow> delivers (compact_link rem) ?g ?P w' r rest))"
    using w w' by (intro conjI exI [of _ ?h]) auto
qed

lemma compact_field_stop:
  "decodes (compact_link rem) 1 cw_writeFieldStop (cr_readFieldBegin B C) (\<lambda>x. fst x = T_STOP)"
proof -
  have "decodes (compact_link rem) (1 + 0) (wseq cw_writeFieldStop (sret 0)) (cr_readFieldBegin B C) (\<lambda>x. fst x = T_STOP)"
    unfolding cw_writeFieldStop_def cr_readFieldBegin_def by (intro decodes_wseq [OF compact_byte]) auto
  then show ?thesis by simp
qed

lemma compact_list_begin:
  assumes t: "t \<in> set value_types" and n: "unat n < 2 ^ 31"
  shows "decodes (compact_link rem) 1 (cw_writeListBegin A t n) (cr_readListBegin B C) (\<lambda>x. x = (t, n))"
proof -
  let ?rd = "\<lambda>b. sbind (if (ucast (drop_bit 4 b AND 0x0f) :: i32) = 15 then cr_cursor (readVarint B C)
        else sret (ucast (drop_bit 4 b AND 0x0f))) (\<lambda>lsize.
     sbind (cr_checkContainerSize lsize) (\<lambda>_. sbind (getType (b AND 0x0f)) (\<lambda>elemType. sret (elemType, lsize))))"
  have "decodes (compact_link rem) 1 (cw_writeCollectionBegin A t n) (sbind (cr_readByte C) ?rd) (\<lambda>x. x = (t, n))"
  proof (cases "sint n \<le> 14")
    case True
    then have n14: "unat n \<le> 14" unfolding sint_u32_small [OF n] by linarith
    define x where "x = (ucast n :: byte)"
    have x: "unat x = unat n" using n14 by (simp add: x_def unsigned_ucast_eq take_bit_nat_eq_self)
    have b: "ucast (push_bit 4 n OR ucast (ctype t)) = push_bit 4 x OR ctype t"
      unfolding x_def by (rule bit_word_eqI) (auto simp: bit_simps)
    have x16: "unat x < 16" using x n14 by simp
    have lx: "drop_bit 4 (push_bit 4 x OR ctype t) AND 0x0f = x"
      unfolding nibbles(2) [OF ctype_table(3) [OF t] x16] and_0f using take_bit_4_small [OF x16] .
    have un: "(ucast x :: i32) = n"
      using x n14 by (intro unsigned_word_eqI [where 'a = nat]) (simp add: unsigned_ucast_eq take_bit_nat_eq_self)
    have n15: "n \<noteq> 15" using n14 by auto
    have "?rd (push_bit 4 x OR ctype t) = sbind (sret n) (\<lambda>lsize. sbind (cr_checkContainerSize lsize) (\<lambda>_. sret (t, lsize)))"
      unfolding lx un unfolding and_0f nibbles(1) [OF ctype_table(3) [OF t] x16] ctype_table(2) [OF t] using n15 by (simp add: sbind_def fun_eq_iff split: sum.split)
    moreover have "decodes (compact_link rem) 0 (sret 0) (sbind (sret n) (\<lambda>lsize.
        sbind (cr_checkContainerSize lsize) (\<lambda>_. sret (t, lsize)))) (\<lambda>x. x = (t, n))"
      by (rule compact_container_check [OF decodes_sret n]) simp
    ultimately have "decodes (compact_link rem) (1 + 0) (wseq (cw_writeByte (push_bit 4 x OR ctype t)) (sret 0))
        (sbind (cr_readByte C) ?rd) (\<lambda>x. x = (t, n))"
      by (intro decodes_wseq [OF compact_byte]) auto
    then show ?thesis using True by (simp add: cw_writeCollectionBegin_def ctype_table [OF t] b)
  next
    case False
    have f: "unat (0xf :: byte) < 16" by simp
    have b: "0xf0 OR ctype t = push_bit 4 0xf OR ctype t" by simp
    have l: "(ucast (0x0f :: byte) :: i32) = 15" by simp
    have lx: "drop_bit 4 (push_bit 4 0xf OR ctype t) AND 0x0f = 0xf"
      unfolding nibbles(2) [OF ctype_table(3) [OF t] f] and_0f using take_bit_4_small [OF f] .
    have "?rd (push_bit 4 0xf OR ctype t) = sbind (cr_cursor (readVarint B C)) (\<lambda>lsize.
        sbind (cr_checkContainerSize lsize) (\<lambda>_. sret (t, lsize)))"
      unfolding lx unfolding and_0f nibbles(1) [OF ctype_table(3) [OF t] f] ctype_table(2) [OF t] l by (simp add: sbind_def fun_eq_iff split: sum.split)
    moreover have "decodes (compact_link rem) 1 (cw_append (writeVarint A n)) (sbind (cr_cursor (readVarint B C)) (\<lambda>lsize.
        sbind (cr_checkContainerSize lsize) (\<lambda>_. sret (t, lsize)))) (\<lambda>x. x = (t, n))"
      by (rule compact_container_check [OF compact_varint32 n])
    ultimately have "decodes (compact_link rem) (1 + 1) (wseq (cw_writeByte (push_bit 4 0xf OR ctype t)) (cw_append (writeVarint A n)))
        (sbind (cr_readByte C) ?rd) (\<lambda>x. x = (t, n))"
      by (intro decodes_wseq [OF compact_byte]) auto
    then have "decodes (compact_link rem) 1 (wseq (cw_writeByte (push_bit 4 0xf OR ctype t)) (cw_append (writeVarint A n)))
        (sbind (cr_readByte C) ?rd) (\<lambda>x. x = (t, n))" by (rule decodes_mono) auto
    then show ?thesis using False unfolding cw_writeCollectionBegin_def ctype_table(1) [OF t] sbind_sret b by simp
  qed
  then have "decodes (compact_link rem) (0 + 1) (cw_writeListBegin A t n) (cr_readListBegin B C) (\<lambda>x. x = (t, n))"
    unfolding cw_writeListBegin_def cr_readListBegin_def sbind_descend Let_def
    by (intro decodes_wseq [OF compact_descend]) auto
  then show ?thesis by simp
qed

lemma compact_map_begin:
  assumes k: "k \<in> set value_types" and v: "v \<in> set value_types" and n: "unat n < 2 ^ 31"
  shows "decodes (compact_link rem) 1 (cw_writeMapBegin A k v n) (cr_readMapBegin B C)
    (\<lambda>(k', v', n'). n' = n \<and> (n \<noteq> 0 \<longrightarrow> k' = k \<and> v' = v))"
proof -
  let ?P = "\<lambda>(k', v', n'). n' = n \<and> (n \<noteq> 0 \<longrightarrow> k' = k \<and> v' = v)"
  let ?fin = "\<lambda>msize kvType. sbind (cr_checkContainerSize msize) (\<lambda>_.
     sbind (getType (drop_bit 4 kvType)) (\<lambda>keyType.
     sbind (getType (kvType AND 0xf)) (\<lambda>valType. sret (keyType, valType, msize))))"
  let ?rd = "sbind (cr_cursor (readVarint B C)) (\<lambda>msize :: i32.
     sbind (if msize \<noteq> 0 then cr_readByte C else sret 0) (?fin msize))"
  let ?wr = "if n = 0 then cw_writeByte 0 else wseq (cw_append (writeVarint A n))
       (sbind (ctypeOf k) (\<lambda>k. sbind (ctypeOf v) (\<lambda>v. cw_writeByte (push_bit 4 k OR v))))"
  have check: "cr_checkContainerSize n r = Inr ((), r)" if "cr_container_limit r = 0" for r :: "'c compact_reader"
    using that n by (simp add: cr_checkContainerSize_def sint_u32_small)
  have "decodes (compact_link rem) 1 ?wr ?rd ?P"
  proof (cases "n = 0")
    case True
    have stop: "getType 0 = (sret T_STOP :: ('c compact_reader, byte) st)" by (simp add: getType_def CTypeToTType_def)
    have fin0: "decodes (compact_link rem) 0 (sret 0) (sbind (sret 0) (?fin n)) ?P"
      by (rule decodes_cong [OF decodes_sret [of _ "(T_STOP, T_STOP, n)"]]) (auto simp: True check [unfolded True] stop)
    have "decodes (compact_link rem) (1 + 0) (wseq (cw_append (writeVarint A n)) (sret 0)) ?rd ?P"
      by (rule decodes_wseq [OF compact_varint32]) (use fin0 True in auto)
    moreover have "writeVarint A (0 :: u32) = [0]" by (simp add: writeVarint_eq pkt_small)
    ultimately show ?thesis using True by (simp add: cw_writeByte_def)
  next
    case False
    let ?b = "push_bit 4 (ctype k) OR ctype v"
    note nib = nibbles [OF ctype_table(3) [OF v] ctype_table(3) [OF k]]
    have "decodes (compact_link rem) 1 (cw_writeByte ?b) (sbind (cr_readByte C) (?fin n)) ?P"
      using compact_byte order_refl
    proof (rule decodes_reader)
      fix w' r rest assume "delivers (compact_link rem) (cr_readByte C) (\<lambda>x. x = ?b) w' r rest"
      then obtain r' where r': "cr_readByte C r = Inr (?b, r')" "rem (cr_in r') = rest" "lk_sync (compact_link rem) w' r'"
        by (auto simp: delivers_def)
      have "sbind (cr_readByte C) (?fin n) r = Inr ((k, v, n), r')"
        unfolding sbind_Inr [where m = "cr_readByte C", OF r'(1)] and_0f nib ctype_table(2) [OF k] ctype_table(2) [OF v]
        using check r'(3) by simp
      then show "delivers (compact_link rem) (sbind (cr_readByte C) (?fin n)) ?P w' r rest"
        using r' by (simp add: delivers_def)
    qed
    then have "decodes (compact_link rem) (1 + 1) (wseq (cw_append (writeVarint A n)) (cw_writeByte ?b)) ?rd ?P"
      using False by (intro decodes_wseq [OF compact_varint32]) auto
    then have "decodes (compact_link rem) 1 (wseq (cw_append (writeVarint A n)) (cw_writeByte ?b)) ?rd ?P"
      by (rule decodes_mono) auto
    then show ?thesis using False unfolding ctype_table(1) [OF k] ctype_table(1) [OF v] sbind_sret by simp
  qed
  then have "decodes (compact_link rem) (0 + 1) (cw_writeMapBegin A k v n) (cr_readMapBegin B C) ?P"
    unfolding cw_writeMapBegin_def cr_readMapBegin_def sbind_descend
    by (intro decodes_wseq [OF compact_descend]) auto
  then show ?thesis by simp
qed

end

lemmas compact_writer_ops = CompactProtocolWriter_def cw_writeMapEnd_def cw_writeListEnd_def
  cw_writeSetEnd_def cw_writeFieldEnd_def cw_writeString_def cw_writeSetBegin_def [folded cw_writeListBegin_def]

lemmas compact_reader_ops = CompactProtocolReader_def cr_readMapEnd_def cr_readListEnd_def
  cr_readSetEnd_def cr_readFieldEnd_def cr_readSetBegin_def

sublocale cursor \<subseteq> compact: codec "CompactProtocolWriter A" "CompactProtocolReader B C" "compact_link rem"
  for A B
  by unfold_locales
    (simp_all add: compact_writer_ops compact_reader_ops canAdvance_iff sbind_ascend
    cw_writeBinary_eq compact_ascend compact_struct_begin compact_struct_end
    compact_byte [simplified] compact_i16 [simplified]
    compact_i32 [simplified] compact_i64 [simplified] compact_double [simplified] compact_float [simplified]
    compact_bool [simplified] compact_strings [simplified] compact_list_begin [simplified]
    compact_map_begin [simplified] compact_bool_field [simplified] compact_field_stop [simplified]
    compact_field_begin [simplified] decodes_sret decodes_sret_lambda)

end
