(* ===== verification/Value_Roundtrip.thy ===== *)
theory Value_Roundtrip
  imports Binary_Protocol Compact_Codec
begin

text \<open>
  Dynamic values through the Binary and the Compact protocol.  The locale \<open>bounded_writer\<close> says
  when the operations of a writer succeed, in terms of the depth that is left and of the structs
  that are open; in it every uniform value below the depth limit is shown to be written.  Together
  with the contract \<open>codec\<close> of each protocol this gives the round trips.
\<close>

section \<open>When writing succeeds\<close>

definition whole_below :: "('w \<Rightarrow> nat) \<Rightarrow> ('w \<Rightarrow> 's) \<Rightarrow> nat \<Rightarrow> ('w, u32) st \<Rightarrow> bool" where
  "whole_below height opened d f \<longleftrightarrow> (\<forall>w. d < height w \<longrightarrow>
    (\<exists>n w'. f w = Inr (n, w') \<and> height w' = height w \<and> opened w' = opened w))"

text \<open>The part of a value's nesting that counts against the depth limit.\<close>

primrec vdepth :: "tvalue \<Rightarrow> nat" where
  "vdepth VEmpty = 0"
| "vdepth (VBool b) = 0"
| "vdepth (VByte b) = 0"
| "vdepth (VI16 i) = 0"
| "vdepth (VI32 i) = 0"
| "vdepth (VI64 i) = 0"
| "vdepth (VFloat f) = 0"
| "vdepth (VDouble d) = 0"
| "vdepth (VString s) = 0"
| "vdepth (VBinary s) = 0"
| "vdepth (VObject fs) = Suc (foldr max (map snd (map (map_prod id vdepth) fs)) 0)"
| "vdepth (VList xs) = Suc (foldr max (map vdepth xs) 0)"
| "vdepth (VSet xs) = Suc (foldr max (map vdepth xs) 0)"
| "vdepth (VMap kvs) = Suc (foldr max (map (\<lambda>(a, b). max a b) (map (map_prod vdepth vdepth) kvs)) 0)"

text \<open>Containers hold values of one wire type, strings fit a signed 32-bit length.\<close>

primrec uniform :: "tvalue \<Rightarrow> bool" where
  "uniform VEmpty = False"
| "uniform (VBool b) = True"
| "uniform (VByte b) = True"
| "uniform (VI16 i) = True"
| "uniform (VI32 i) = True"
| "uniform (VI64 i) = True"
| "uniform (VFloat f) = True"
| "uniform (VDouble d) = True"
| "uniform (VString s) = (length s < 2 ^ 31)"
| "uniform (VBinary s) = (length s < 2 ^ 31)"
| "uniform (VObject fs) = list_all snd (map (map_prod id uniform) fs)"
| "uniform (VList xs) = (list_all id (map uniform xs) \<and> list_all (\<lambda>x. getTType x = list_elemType xs) xs)"
| "uniform (VSet xs) = (list_all id (map uniform xs) \<and> list_all (\<lambda>x. getTType x = list_elemType xs) xs)"
| "uniform (VMap kvs) = (list_all (\<lambda>(a, b). a \<and> b) (map (map_prod uniform uniform) kvs) \<and>
     list_all (\<lambda>(k, v). getTType k = map_keyType kvs \<and> getTType v = map_valueType kvs) kvs)"

lemma uniform_not_empty: "uniform v \<Longrightarrow> getTType v \<in> set value_types"
  by (cases "v = VEmpty") (auto intro: getTType_value_types)

locale bounded_writer =
  fixes W :: "'w protocol_writer" and height :: "'w \<Rightarrow> nat" and opened :: "'w \<Rightarrow> 's"
    and pushed :: "'s \<Rightarrow> 's \<Rightarrow> bool"
  assumes struct_begin_total: "1 < height w \<Longrightarrow> \<exists>n w'. w_writeStructBegin W w = Inr (n, w') \<and>
      height w' = height w - 1 \<and> pushed (opened w) (opened w')"
    and struct_end_total: "height w < 2 ^ 64 - 1 \<Longrightarrow> pushed s (opened w) \<Longrightarrow>
      \<exists>n w'. w_writeStructEnd W w = Inr (n, w') \<and> height w' = height w + 1 \<and> opened w' = s"
    and height_bound: "height w < 2 ^ 64"
    and map_begin_total: "1 < height w \<Longrightarrow> k \<in> set value_types \<Longrightarrow> v \<in> set value_types \<Longrightarrow>
      \<exists>n w'. w_writeMapBegin W k v sz w = Inr (n, w') \<and> height w' = height w - 1 \<and> opened w' = opened w"
    and list_begin_total: "1 < height w \<Longrightarrow> k \<in> set value_types \<Longrightarrow>
      \<exists>n w'. w_writeListBegin W k sz w = Inr (n, w') \<and> height w' = height w - 1 \<and> opened w' = opened w"
    and set_begin_total: "1 < height w \<Longrightarrow> k \<in> set value_types \<Longrightarrow>
      \<exists>n w'. w_writeSetBegin W k sz w = Inr (n, w') \<and> height w' = height w - 1 \<and> opened w' = opened w"
    and container_end_total: "height w < 2 ^ 64 - 1 \<Longrightarrow> e \<in> {w_writeMapEnd W, w_writeListEnd W, w_writeSetEnd W} \<Longrightarrow>
      \<exists>n w'. e w = Inr (n, w') \<and> height w' = height w + 1 \<and> opened w' = opened w"
    and field_begin_total: "k \<in> set value_types \<Longrightarrow> whole_below height opened 0 (w_writeFieldBegin W k i)"
    and field_ends_total: "whole_below height opened 0 (w_writeFieldEnd W)" "whole_below height opened 0 (w_writeFieldStop W)"
    and leaves_total: "whole_below height opened 0 (w_writeBool W b)" "whole_below height opened 0 (w_writeByte W c)"
      "whole_below height opened 0 (w_writeI16 W h)" "whole_below height opened 0 (w_writeI32 W j)"
      "whole_below height opened 0 (w_writeI64 W l)" "whole_below height opened 0 (w_writeFloat W fl)"
      "whole_below height opened 0 (w_writeDouble W d)"
    and strings_total: "length str < 2 ^ 31 \<Longrightarrow> whole_below height opened 0 (w_writeString W str)"
      "length str < 2 ^ 31 \<Longrightarrow> whole_below height opened 0 (w_writeBinary W str)"
begin

abbreviation "fits \<equiv> whole_below height opened"

end

lemma whole_below_mono: "whole_below h p d f \<Longrightarrow> d \<le> e \<Longrightarrow> whole_below h p e f"
  unfolding whole_below_def by (meson le_less_trans)

lemma whole_below_wseq: "whole_below h p d f \<Longrightarrow> whole_below h p d g \<Longrightarrow> whole_below h p d (wseq f g)"
  unfolding whole_below_def
proof (intro allI impI)
  fix w
  assume f: "\<forall>w. d < h w \<longrightarrow> (\<exists>n w'. f w = Inr (n, w') \<and> h w' = h w \<and> p w' = p w)"
    and g: "\<forall>w. d < h w \<longrightarrow> (\<exists>n w'. g w = Inr (n, w') \<and> h w' = h w \<and> p w' = p w)" and "d < h w"
  then obtain n w' where "f w = Inr (n, w')" "h w' = h w" "p w' = p w" by blast
  moreover from this g \<open>d < h w\<close> obtain m w'' where "g w' = Inr (m, w'')" "h w'' = h w'" "p w'' = p w'"
    by (metis (no_types))
  ultimately show "\<exists>n w'. wseq f g w = Inr (n, w') \<and> h w' = h w \<and> p w' = p w" by (simp add: wseq_Inr)
qed

lemma whole_below_sret [intro]: "whole_below h p d (sret n)"
  by (simp add: whole_below_def)

lemma foldr_max_le: "foldr max ns 0 \<le> (d :: nat) \<longleftrightarrow> (\<forall>n\<in>set ns. n \<le> d)"
  by (induction ns) auto

context bounded_writer begin

lemma bracket_total:
  assumes b: "\<And>w. 1 < height w \<Longrightarrow> \<exists>n w'. b w = Inr (n, w') \<and> height w' = height w - 1 \<and> P (opened w) (opened w')"
    and f: "fits d f"
    and e: "\<And>s w. height w < 2 ^ 64 - 1 \<Longrightarrow> P s (opened w) \<Longrightarrow>
        \<exists>n w'. e w = Inr (n, w') \<and> height w' = height w + 1 \<and> opened w' = s"
  shows "fits (Suc d) (wseq b (wseq f e))"
  unfolding whole_below_def
proof (intro allI impI)
  fix w assume h: "Suc d < height w"
  obtain n1 w1 where 1: "b w = Inr (n1, w1)" "height w1 = height w - 1" "P (opened w) (opened w1)"
    using b [of w] h by auto
  obtain n2 w2 where 2: "f w1 = Inr (n2, w2)" "height w2 = height w1" "opened w2 = opened w1"
    using f 1(2) h unfolding whole_below_def by (metis Suc_eq_plus1 less_diff_conv)
  have "height w2 < 2 ^ 64 - 1" using height_bound [of w] 1 2 h by linarith
  then obtain n3 w3 where "e w2 = Inr (n3, w3)" "height w3 = height w2 + 1" "opened w3 = opened w"
    using e [of w2 "opened w"] 1 2 by auto
  with 1 2 h show "\<exists>n w'. wseq b (wseq f e) w = Inr (n, w') \<and> height w' = height w \<and> opened w' = opened w"
    by (simp add: wseq_Inr)
qed

lemma container_total:
  assumes "\<And>w. 1 < height w \<Longrightarrow> \<exists>n w'. b w = Inr (n, w') \<and> height w' = height w - 1 \<and> opened w' = opened w"
    and "fits d f" and "e \<in> {w_writeMapEnd W, w_writeListEnd W, w_writeSetEnd W}"
  shows "fits (Suc d) (wseq b (wseq f e))"
  by (rule bracket_total [where P = "\<lambda>s s'. s' = s"]) (use assms container_end_total in auto)

lemma elems_total:
  assumes "\<And>x. x \<in> set xs \<Longrightarrow> fits d (serializeValue W x)" and "list_all (\<lambda>x. getTType x = t) xs"
  shows "fits d (serializeElems W t xs)"
  using assms
  by (induction xs) (auto simp: ensureSameType_def sguard_def sbind_def intro!: whole_below_wseq)

lemma entries_total:
  assumes "\<forall>(k, v)\<in>set kvs. fits d (serializeValue W k) \<and> fits d (serializeValue W v)"
    and "list_all (\<lambda>(k, v). getTType k = kt \<and> getTType v = vt) kvs"
  shows "fits d (serializeEntries W kt vt kvs)"
  using assms
  by (induction kvs) (auto simp: ensureSameType_def sguard_def sbind_def intro!: whole_below_wseq)

lemma fields_total:
  assumes "\<forall>(i, v)\<in>set fs. fits d (serializeValue W v) \<and> getTType v \<in> set value_types"
  shows "fits d (serializeFields W fs)"
  using assms
  by (induction fs) (auto intro!: whole_below_wseq whole_below_mono [OF field_begin_total]
      whole_below_mono [OF field_ends_total(1)])

theorem serialize_total: "uniform v \<Longrightarrow> fits (vdepth v) (serializeValue W v)"
proof (induction v)
  case (VObject fs)
  let ?d = "foldr max (map snd (map (map_prod id vdepth) fs)) 0"
  have "fits ?d (serializeValue W v) \<and> getTType v \<in> set value_types" if "(i, v) \<in> set fs" for i v
  proof -
    have "uniform v" using VObject.prems that by (force simp: list_all_iff)
    moreover have "vdepth v \<le> ?d" using foldr_max_le [of "map snd (map (map_prod id vdepth) fs)" ?d] that by force
    ultimately show ?thesis
      using VObject.IH [OF that, of v] by (auto simp del: map_map intro: whole_below_mono uniform_not_empty)
  qed
  then have "fits ?d (wseq (serializeFields W fs) (w_writeFieldStop W))"
    by (auto intro!: whole_below_wseq fields_total whole_below_mono [OF field_ends_total(2)] simp del: map_map)
  from bracket_total [OF struct_begin_total this struct_end_total]
  show ?case by (simp add: wseq_assoc)
next
  case (VList xs)
  let ?d = "foldr max (map vdepth xs) 0"
  have *: "fits ?d (serializeValue W x)" if "x \<in> set xs" for x
  proof -
    have "uniform x" "vdepth x \<le> ?d"
      using VList.prems that foldr_max_le [of "map vdepth xs" ?d] by (auto simp: list_all_iff)
    then show ?thesis using VList.IH that by (auto intro: whole_below_mono)
  qed
  have "list_elemType xs \<in> set value_types"
    using VList.prems by (cases xs) (auto simp: list_elemType_def intro: uniform_not_empty)
  then have "fits (Suc ?d) (wseq (w_writeListBegin W (list_elemType xs) (of_nat (length xs)))
      (wseq (serializeElems W (list_elemType xs) xs) (w_writeListEnd W)))"
    using * VList.prems by (intro container_total list_begin_total elems_total) auto
  then show ?case by simp
next
  case (VSet xs)
  let ?d = "foldr max (map vdepth xs) 0"
  have *: "fits ?d (serializeValue W x)" if "x \<in> set xs" for x
  proof -
    have "uniform x" "vdepth x \<le> ?d"
      using VSet.prems that foldr_max_le [of "map vdepth xs" ?d] by (auto simp: list_all_iff)
    then show ?thesis using VSet.IH that by (auto intro: whole_below_mono)
  qed
  have "list_elemType xs \<in> set value_types"
    using VSet.prems by (cases xs) (auto simp: list_elemType_def intro: uniform_not_empty)
  then have "fits (Suc ?d) (wseq (w_writeSetBegin W (list_elemType xs) (of_nat (length xs)))
      (wseq (serializeElems W (list_elemType xs) xs) (w_writeSetEnd W)))"
    using * VSet.prems by (intro container_total set_begin_total elems_total) auto
  then show ?case by simp
next
  case (VMap kvs)
  let ?ds = "map (\<lambda>(a, b). max a b) (map (map_prod vdepth vdepth) kvs)"
  have *: "fits (foldr max ?ds 0) (serializeValue W k) \<and> fits (foldr max ?ds 0) (serializeValue W v)"
    if kv: "(k, v) \<in> set kvs" for k v
  proof -
    have "max (vdepth k) (vdepth v) \<le> foldr max ?ds 0"
      using foldr_max_le [of ?ds "foldr max ?ds 0"] kv by force
    moreover have "uniform k" "uniform v" using VMap.prems kv by (force simp: list_all_iff)+
    ultimately show ?thesis using VMap.IH(1) [OF kv, of k] VMap.IH(2) [OF kv, of v] by (auto simp del: map_map intro: whole_below_mono)
  qed
  have "map_keyType kvs \<in> set value_types" "map_valueType kvs \<in> set value_types"
    using VMap.prems by (cases kvs; force simp: map_keyType_def map_valueType_def intro: uniform_not_empty)+
  then have "fits (Suc (foldr max ?ds 0)) (wseq (w_writeMapBegin W (map_keyType kvs) (map_valueType kvs) (of_nat (length kvs)))
      (wseq (serializeEntries W (map_keyType kvs) (map_valueType kvs) kvs) (w_writeMapEnd W)))"
    using * VMap.prems by (intro container_total map_begin_total entries_total) (auto simp del: map_map)
  then show ?case by simp
qed (auto intro: leaves_total strings_total)

end

lemma whole_belowI:
  assumes "\<And>w. \<exists>n w'. f w = Inr (n, w') \<and> h w' = h w \<and> p w' = p w"
  shows "whole_below h p d f"
  using assms by (simp add: whole_below_def)

lemma height_down: "1 < unat (h :: u64) \<Longrightarrow> h \<noteq> 1 \<and> unat (h - 1) = unat h - 1"
  using unat_minus_one [of h] by (cases "h = 0") auto

lemma height_less: "unat (h :: u64) < 2 ^ 64"
  using unsigned_less [of h, where 'a = nat] by simp

lemma height_up: "unat (h :: u64) < 2 ^ 64 - 1 \<Longrightarrow> unat (h + 1) = unat h + 1"
  by (simp add: unat_word_ariths)

lemmas height_simps = height_down [simplified] height_up [simplified]

interpretation binary_total: bounded_writer BinaryProtocolWriter "\<lambda>w. unat (pb_height w)" "\<lambda>_. ()" "\<lambda>_ _. True"
  by unfold_locales
    (auto simp: BinaryProtocolWriter_def bw_writeStructBegin_def bw_writeStructEnd_def bw_writeMapBegin_def
      bw_writeListBegin_def bw_writeSetBegin_def bw_writeMapEnd_def bw_writeListEnd_def bw_writeSetEnd_def
      bw_writeFieldBegin_def bw_writeFieldEnd_def bw_writeFieldStop_def bw_writeBool_def bw_writeByte_def
      bw_writeI16_def bw_writeI32_def bw_writeI64_def bw_writeFloat_def bw_writeDouble_def bw_writeString_def
      bw_writeBinary_def bw_writeBinaryImpl_def bw_checkBinarySize_def bw_append_def wseq_def sbind_def
      descend_apply height_simps height_less [simplified] whole_below_def)

interpretation compact_total: bounded_writer "CompactProtocolWriter A" "\<lambda>w. unat (pb_height w)" cw_lastField
    "\<lambda>s s'. s' \<noteq> [] \<and> tl s' = s" for A
proof unfold_locales
  fix w :: compact_writer and k v sz
  assume h: "1 < unat (pb_height w)" and k: "k \<in> set value_types"
  then show "\<exists>n w'. w_writeListBegin (CompactProtocolWriter A) k sz w = Inr (n, w') \<and>
       unat (pb_height w') = unat (pb_height w) - 1 \<and> cw_lastField w' = cw_lastField w"
   "\<exists>n w'. w_writeSetBegin (CompactProtocolWriter A) k sz w = Inr (n, w') \<and>
       unat (pb_height w') = unat (pb_height w) - 1 \<and> cw_lastField w' = cw_lastField w"
    by (auto simp: CompactProtocolWriter_def cw_writeListBegin_def cw_writeSetBegin_def cw_writeCollectionBegin_def
      ctype_table(1) [OF k] cw_writeByte_def cw_append_def wseq_def sbind_def descend_apply height_simps)
  assume v: "v \<in> set value_types"
  with h k show "\<exists>n w'. w_writeMapBegin (CompactProtocolWriter A) k v sz w = Inr (n, w') \<and>
       unat (pb_height w') = unat (pb_height w) - 1 \<and> cw_lastField w' = cw_lastField w"
    by (auto simp: CompactProtocolWriter_def cw_writeMapBegin_def ctype_table(1)
      cw_writeByte_def cw_append_def wseq_def sbind_def descend_apply height_simps)
next
  fix k :: byte and i
  assume "k \<in> set value_types"
  then show "whole_below (\<lambda>w. unat (pb_height w)) cw_lastField 0 (w_writeFieldBegin (CompactProtocolWriter A) k i)"
    by (auto simp: CompactProtocolWriter_def cw_writeFieldBegin_def cw_writeFieldBeginInternal_def ctype_table(1)
      cw_writeByte_def cw_writeI16_def cw_append_def wseq_def sbind_def whole_below_def)
qed (auto simp: CompactProtocolWriter_def cw_writeStructBegin_def cw_writeStructEnd_def cw_writeMapEnd_def
    cw_writeListEnd_def cw_writeSetEnd_def cw_writeFieldEnd_def cw_writeFieldStop_def cw_writeBool_def
    cw_writeFieldBeginInternal_def cw_writeByte_def cw_writeI16_def cw_writeI32_def cw_writeI64_def
    cw_writeFloat_def cw_writeDouble_def cw_writeString_def cw_writeBinary_def cw_writeBinaryImpl_def
    cw_checkBinarySize_def cw_append_def wseq_def sbind_def descend_apply height_simps
    height_less [simplified] whole_below_def split: list.splits option.splits)

section \<open>Round trips\<close>

lemma roundtrip_of_decodes:
  assumes d: "decodes L 1 f g P" and "lk_idle L w" and t: "whole_below (\<lambda>w. unat (h w :: u64)) p d f" and "d < unat (h w)"
  obtains n w' bs where "f w = Inr (n, w')" and "h w' = h w" and "p w' = p w" and "lk_idle L w'"
    and "lk_out L w' = lk_out L w @ bs" and "n = of_nat (length bs)"
    and "\<forall>r rest. lk_sync L w r \<longrightarrow> lk_rem L r = bs @ rest \<longrightarrow> delivers L g P w' r rest"
proof -
  obtain n w' where f: "f w = Inr (n, w')" "unat (h w') = unat (h w)" "p w' = p w"
    using t assms(4) unfolding whole_below_def by blast
  then have "h w' = h w" by (simp add: unsigned_word_eqI)
  from decodesD [OF d assms(2) f(1)] that [OF f(1) this f(3)] show thesis by metis
qed

context cursor begin

lemma binary_value_decodes:
  assumes "wf_value veq stb v" and "vfuel v \<le> fuel"
  shows "decodes (binary_link rem) 1 (serializeValue BinaryProtocolWriter v)
      (parseValue (BinaryProtocolReader C) veq stb fuel (getTType v)) (\<lambda>x. x = norm stb v)"
  using binary.serialize_parse_value [of veq stb v] assms unfolding binary.value_ok_def by simp

lemma compact_value_decodes:
  assumes "wf_value veq stb v" and "vfuel v \<le> fuel"
  shows "decodes (compact_link rem) 1 (serializeValue (CompactProtocolWriter A) v)
      (parseValue (CompactProtocolReader B C) veq stb fuel (getTType v)) (\<lambda>x. x = norm stb v)"
  using compact.serialize_parse_value [of A B veq stb v] assms unfolding compact.value_ok_def by simp

end

text \<open>
  C5: Writing a dynamic value with the Binary protocol succeeds whenever its containers are uniform
  and its nesting is below the depth limit, returns the number of bytes it appended, and the
  schemaless parser, on any cursor over these bytes and whatever follows them, returns the value
  (strings in the type it was asked for) and stops exactly behind them at the depth it started with.
\<close>
theorem binary_value_roundtrip:
  assumes "cursor C rem" and "wf_value veq stb v" and "uniform v" and "vdepth v < unat (pb_height w)"
    and "vfuel v \<le> fuel"
  shows "\<exists>n w' bs. serializeValue BinaryProtocolWriter v w = Inr (n, w') \<and> pb_height w' = pb_height w \<and>
    bw_out w' = bw_out w @ bs \<and> n = of_nat (length bs) \<and>
    (\<forall>r rest. pb_height r = pb_height w \<and> br_string_limit r = 0 \<and> br_container_limit r = 0 \<and>
        rem (br_in r) = bs @ rest \<longrightarrow>
      (\<exists>r'. parseValue (BinaryProtocolReader C) veq stb fuel (getTType v) r = Inr (norm stb v, r') \<and>
        rem (br_in r') = rest \<and> pb_height r' = pb_height r))"
proof -
  let ?L = "binary_link rem" and ?g = "parseValue (BinaryProtocolReader C) veq stb fuel (getTType v)"
  obtain n w' bs where f: "serializeValue BinaryProtocolWriter v w = Inr (n, w')" "pb_height w' = pb_height w"
      "lk_out ?L w' = lk_out ?L w @ bs" "n = of_nat (length bs)"
    and d: "\<forall>r rest. lk_sync ?L w r \<longrightarrow> lk_rem ?L r = bs @ rest \<longrightarrow> delivers ?L ?g (\<lambda>x. x = norm stb v) w' r rest"
    by (rule roundtrip_of_decodes [OF cursor.binary_value_decodes [OF assms(1,2,5)] binary_link_simps(3)
        binary_total.serialize_total [OF assms(3)] assms(4)]) blast
  have "\<exists>r'. ?g r = Inr (norm stb v, r') \<and> rem (br_in r') = rest \<and> pb_height r' = pb_height r"
    if "pb_height r = pb_height w \<and> br_string_limit r = 0 \<and> br_container_limit r = 0 \<and> rem (br_in r) = bs @ rest" for r rest
    using d [rule_format, of r rest] that f(2) by (auto simp: delivers_def)
  with f show ?thesis by (intro exI [of _ n] exI [of _ w'] exI [of _ bs]) simp
qed

text \<open>
  C3: The same for the Compact protocol, whatever processors write and read.
\<close>
theorem compact_value_roundtrip:
  assumes "cursor C rem" and "wf_value veq stb v" and "uniform v" and "vdepth v < unat (pb_height w)"
    and "vfuel v \<le> fuel" and "cw_booleanField w = None"
  shows "\<exists>n w' bs. serializeValue (CompactProtocolWriter A) v w = Inr (n, w') \<and> pb_height w' = pb_height w \<and>
    cw_lastField w' = cw_lastField w \<and> cw_booleanField w' = None \<and>
    cw_out w' = cw_out w @ bs \<and> n = of_nat (length bs) \<and>
    (\<forall>r rest. pb_height r = pb_height w \<and> cr_string_limit r = 0 \<and> cr_container_limit r = 0 \<and>
        cr_boolValue r = None \<and> cr_lastField r = cw_lastField w \<and> cr_lastFieldId r = cw_lastFieldId w \<and>
        rem (cr_in r) = bs @ rest \<longrightarrow>
      (\<exists>r'. parseValue (CompactProtocolReader B C) veq stb fuel (getTType v) r = Inr (norm stb v, r') \<and>
        rem (cr_in r') = rest \<and> pb_height r' = pb_height r \<and> cr_lastField r' = cr_lastField r \<and>
        cr_lastFieldId r' = cw_lastFieldId w' \<and> cr_boolValue r' = None))"
proof -
  let ?L = "compact_link rem" and ?g = "parseValue (CompactProtocolReader B C) veq stb fuel (getTType v)"
  have w: "lk_idle ?L w" using assms(6) by simp
  obtain n w' bs where f: "serializeValue (CompactProtocolWriter A) v w = Inr (n, w')" "pb_height w' = pb_height w"
      "cw_lastField w' = cw_lastField w" "lk_idle ?L w'" "lk_out ?L w' = lk_out ?L w @ bs" "n = of_nat (length bs)"
    and d: "\<forall>r rest. lk_sync ?L w r \<longrightarrow> lk_rem ?L r = bs @ rest \<longrightarrow> delivers ?L ?g (\<lambda>x. x = norm stb v) w' r rest"
    by (rule roundtrip_of_decodes [OF cursor.compact_value_decodes [OF assms(1,2,5), of A B] w
        compact_total.serialize_total [OF assms(3)] assms(4)]) blast
  have "\<exists>r'. ?g r = Inr (norm stb v, r') \<and> rem (cr_in r') = rest \<and> pb_height r' = pb_height r \<and>
      cr_lastField r' = cr_lastField r \<and> cr_lastFieldId r' = cw_lastFieldId w' \<and> cr_boolValue r' = None"
    if "pb_height r = pb_height w \<and> cr_string_limit r = 0 \<and> cr_container_limit r = 0 \<and>
        cr_boolValue r = None \<and> cr_lastField r = cw_lastField w \<and> cr_lastFieldId r = cw_lastFieldId w \<and>
        rem (cr_in r) = bs @ rest" for r rest
    using d [rule_format, of r rest] that f(2,3) by (auto simp: delivers_def)
  with f show ?thesis by (intro exI [of _ n] exI [of _ w'] exI [of _ bs]) simp
qed

definition sample_value :: tvalue where
  "sample_value = VObject [(1, VBool True), (40, VList [VI32 5, VI32 (- 6)]), (41, VMap [(VString [0x61], VBool False)])]"

definition sample_fuel :: nat where "sample_fuel = 10"

lemma sample_ok:
  "wf_value (=) False sample_value" "uniform sample_value" "vdepth sample_value < 12001" "vfuel sample_value \<le> sample_fuel"
  by (simp_all add: sample_value_def sample_fuel_def list_elemType_def map_keyType_def map_valueType_def)

theorem binary_value_roundtrip_witness:
  "\<exists>n w' bs. serializeValue BinaryProtocolWriter sample_value \<lparr>pb_height = 12001, bw_out = []\<rparr> = Inr (n, w') \<and>
    pb_height w' = 12001 \<and> bw_out w' = bs \<and> n = of_nat (length bs) \<and>
    (\<forall>r rest. pb_height r = 12001 \<and> br_string_limit r = 0 \<and> br_container_limit r = 0 \<and>
        concat (br_in r) = bs @ rest \<longrightarrow>
      (\<exists>r'. parseValue (BinaryProtocolReader chain_api) (=) False sample_fuel T_STRUCT r =
          Inr (norm False sample_value, r') \<and> concat (br_in r') = rest \<and> pb_height r' = pb_height r))"
  using binary_value_roundtrip [OF chain_cursor.cursor_axioms sample_ok(1,2), of "\<lparr>pb_height = 12001, bw_out = []\<rparr>" sample_fuel]
    sample_ok(3,4) by (simp add: sample_value_def)

definition sample_writer :: compact_writer where
  "sample_writer = \<lparr>pb_height = 12001, cw_out = [], cw_booleanField = None, cw_lastField = [], cw_lastFieldId = 0\<rparr>"

theorem compact_value_roundtrip_witness:
  "\<exists>n w' bs. serializeValue (CompactProtocolWriter AArch64) sample_value sample_writer = Inr (n, w') \<and>
    pb_height w' = pb_height sample_writer \<and>
    cw_lastField w' = cw_lastField sample_writer \<and> cw_booleanField w' = None \<and>
    cw_out w' = cw_out sample_writer @ bs \<and> n = of_nat (length bs) \<and>
    (\<forall>r rest. pb_height r = pb_height sample_writer \<and> cr_string_limit r = 0 \<and> cr_container_limit r = 0 \<and>
        cr_boolValue r = None \<and> cr_lastField r = cw_lastField sample_writer \<and>
        cr_lastFieldId r = cw_lastFieldId sample_writer \<and> concat (cr_in r) = bs @ rest \<longrightarrow>
      (\<exists>r'. parseValue (CompactProtocolReader X86_BMI2 chain_api) (=) False sample_fuel (getTType sample_value) r =
          Inr (norm False sample_value, r') \<and> concat (cr_in r') = rest \<and> pb_height r' = pb_height r \<and>
        cr_lastField r' = cr_lastField r \<and> cr_lastFieldId r' = cw_lastFieldId w' \<and> cr_boolValue r' = None))"
proof -
  have "vdepth sample_value < unat (pb_height sample_writer)" "cw_booleanField sample_writer = None"
    using sample_ok(3) by (simp_all add: sample_writer_def)
  then show ?thesis
    by (intro compact_value_roundtrip [OF chain_cursor.cursor_axioms sample_ok(1,2) _ sample_ok(4)])
qed

end
