(* ===== verification/Field_Advance.thy ===== *)
theory Field_Advance
  imports Binary_Protocol Compact_Codec
begin

unbundle bit_operations_syntax

text \<open>
  \<open>advanceToNextField\<close> of the Binary and the Compact reader, with which generated code tries the
  field it expects next on the bytes of the current buffer, against reading the header the general
  way.  Readers are compared by their views: everything but how the remaining bytes are cut into
  buffers.
\<close>

section \<open>What a reader does, up to the segmentation of its input\<close>

definition cr_view :: "('c \<Rightarrow> bytes) \<Rightarrow> 'c compact_reader \<Rightarrow> bytes compact_reader" where
  "cr_view rem r = \<lparr>pb_height = pb_height r, cr_in = rem (cr_in r), cr_string_limit = cr_string_limit r,
     cr_container_limit = cr_container_limit r, cr_lastField = cr_lastField r, cr_lastFieldId = cr_lastFieldId r,
     cr_boolValue = cr_boolValue r\<rparr>"

definition cr_result :: "('c \<Rightarrow> bytes) \<Rightarrow> thrift_error + ('a \<times> 'c compact_reader) \<Rightarrow> thrift_error + ('a \<times> bytes compact_reader)" where
  "cr_result rem = map_sum id (map_prod id (cr_view rem))"

lemma cr_result_simps [simp]: "cr_result rem (Inl e) = Inl e" "cr_result rem (Inr (a, r)) = Inr (a, cr_view rem r)"
  by (simp_all add: cr_result_def)

text \<open>The field a generated reader goes on with: at the end of a struct its id is of no use.\<close>

definition next_field :: "struct_read_state \<Rightarrow> byte \<times> i16" where
  "next_field s = (srs_fieldType s, if srs_fieldType s = T_STOP then 0 else srs_fieldId s)"

definition announced :: "i16 \<Rightarrow> byte \<Rightarrow> bool \<times> struct_read_state \<Rightarrow> byte \<times> i16" where
  "announced nextFieldId nextFieldType x = (if fst x
     then (nextFieldType, if nextFieldType = T_STOP then 0 else nextFieldId) else next_field (snd x))"

definition on_value :: "('a \<Rightarrow> 'b) \<Rightarrow> thrift_error + ('a \<times> 's) \<Rightarrow> thrift_error + ('b \<times> 's)" where
  "on_value f = map_sum id (map_prod f id)"

lemma on_value_simps [simp]: "on_value f (Inl e) = Inl e" "on_value f (Inr (a, r)) = Inr (f a, r)"
  by (simp_all add: on_value_def)

lemma cr_result_on_value: "cr_result rem (on_value f x) = on_value f (cr_result rem x)"
  by (cases x) (auto simp: on_value_def)

lemma drop_bit_zero_iff: "drop_bit m (z :: 'a::len word) = 0 \<longleftrightarrow> unat z < 2 ^ m"
proof -
  have "drop_bit m z = 0 \<longleftrightarrow> unat (drop_bit m z) = 0" by (simp add: word_unat_eq_iff)
  also have "\<dots> \<longleftrightarrow> unat z < 2 ^ m" by (simp only: unat_drop_bit_eq) (simp add: drop_bit_eq_div div_eq_0_iff)
  finally show ?thesis .
qed

lemma zigzag_bound:
  "drop_bit (Suc m) (signedIntToZigzag (n :: 'a::len word)) = 0 \<longleftrightarrow> - (2 ^ m) \<le> sint n \<and> sint n \<le> 2 ^ m - 1"
proof -
  let ?z = "unat (signedIntToZigzag n)"
  have "?z < 2 ^ Suc m \<longleftrightarrow> int (?z div 2) < 2 ^ m"
  proof -
    have "?z < 2 ^ Suc m \<longleftrightarrow> ?z div 2 < 2 ^ m" by (simp add: div_less_iff_less_mult mult.commute)
    also have "\<dots> \<longleftrightarrow> int (?z div 2) < int (2 ^ m)" by (simp only: of_nat_less_iff)
    finally show ?thesis by simp
  qed
  moreover have "0 < (2 :: int) ^ m" by simp
  ultimately show ?thesis unfolding drop_bit_zero_iff zigzag_value [of n] by (auto simp del: zero_less_power)
qed

lemma field_id_bytes_eq: "field_id_bytes i = writeVarint_pkt (signedIntToZigzag (scast i :: i32))"
proof -
  define z where "z = signedIntToZigzag (scast i :: i32)"
  have s: "sint (scast i :: i32) = sint i" 
    using sint_ge [of i] sint_lt [of i] by (simp add: signed_scast_eq signed_take_bit_int_eq_self)
  have 7: "drop_bit 7 z = 0 \<longleftrightarrow> - 64 \<le> sint i \<and> sint i \<le> 63"
    using zigzag_bound [of 6 "scast i :: i32"] by (simp add: z_def s)
  have 14: "drop_bit 7 (drop_bit 7 z) = 0 \<longleftrightarrow> - 8192 \<le> sint i \<and> sint i \<le> 8191"
    using zigzag_bound [of 13 "scast i :: i32"] by (simp add: z_def s)
  have "drop_bit 16 z = 0" using zigzag_bound [of 15 "scast i :: i32"] sint_ge [of i] sint_lt [of i] by (simp add: z_def s)
  then have "drop_bit 21 z = 0" by (simp add: drop_bit_zero_iff)
  then have 21: "drop_bit 7 (drop_bit 7 (drop_bit 7 z)) = 0" by simp
  have m: "drop_bit 7 (z AND 0x3F80) = take_bit 7 (drop_bit 7 z)" "drop_bit 14 (z AND 0x1FC000) = take_bit 7 (drop_bit 7 (drop_bit 7 z))"
    by (simp_all add: and_7f)
  have t: "take_bit 7 w = w" if "drop_bit 7 w = 0" for w :: i32
    using that unfolding drop_bit_zero_iff
    by (intro unsigned_word_eqI [where 'a = nat]) (simp add: unsigned_take_bit_eq take_bit_nat_eq_self)
  show ?thesis
    unfolding field_id_bytes_def Let_def i32ToZigzag_def z_def [symmetric] m and_7f 7 [symmetric] 14 [symmetric]
    using 21 by (auto simp: pkt_small pkt_large t simp del: drop_bit_drop_bit)
qed

context cursor begin

lemma readI16_same:
  assumes v: "rem (cr_in r) = rem (cr_in r')"
  obtains (error) e where "cr_readI16 A C r = Inl e" and "cr_readI16 A C r' = Inl e"
  | (ok) i c c' where "cr_readI16 A C r = Inr (i, r\<lparr>cr_in := c\<rparr>)" and "cr_readI16 A C r' = Inr (i, r'\<lparr>cr_in := c'\<rparr>)"
      and "rem c = rem c'"
proof -
  have imp: "implements rem (readVarint A C :: ('c, u32) st) varint_decode"
    by (rule readVarint_implements [OF contiguous_ok_32]) simp
  have "outcome rem (cr_in r) (readVarint A C (cr_in r)) (varint_decode (rem (cr_in r)) :: _ + (u32 \<times> nat))"
    "outcome rem (cr_in r') (readVarint A C (cr_in r')) (varint_decode (rem (cr_in r)) :: _ + (u32 \<times> nat))"
    using imp v unfolding implements_def by metis+
  then show thesis
    using v error ok by (cases "varint_decode (rem (cr_in r)) :: _ + (u32 \<times> nat)")
      (auto simp: cr_readI16_def cr_cursor_def readZigzaggedVarint16_def sbind_apply)
qed

definition impl_finish :: "struct_read_state \<Rightarrow> byte \<Rightarrow> i16 \<Rightarrow> ('c compact_reader, struct_read_state) st" where
  "impl_finish s ct fieldId = sbind (getType ct) (\<lambda>fieldType.
     sbind (if ct = CT_BOOLEAN_TRUE \<or> ct = CT_BOOLEAN_FALSE
            then smod (\<lambda>r. r\<lparr>cr_boolValue := Some (ct = CT_BOOLEAN_TRUE)\<rparr>) else sret ()) (\<lambda>_.
     sret (s\<lparr>srs_fieldId := fieldId, srs_fieldType := fieldType\<rparr>)))"

lemma impl_eq: "cr_readFieldBeginWithStateImpl A C s p b =
    (if b = 0 then sret (s\<lparr>srs_fieldType := T_STOP\<rparr>)
     else sbind (if drop_bit 4 b \<noteq> 0 then sret (p + ucast (drop_bit 4 b)) else cr_readI16 A C) (impl_finish s (take_bit 4 b)))"
  unfolding cr_readFieldBeginWithStateImpl_def Let_def and_0f drop_and_f0 impl_finish_def by simp

lemma impl_finish_same:
  assumes "cr_view rem (r\<lparr>cr_boolValue := x\<rparr>) = cr_view rem (r'\<lparr>cr_boolValue := x\<rparr>)"
    and "cr_boolValue r = cr_boolValue r' \<or> ct = CT_BOOLEAN_TRUE \<or> ct = CT_BOOLEAN_FALSE"
  shows "on_value next_field (cr_result rem (impl_finish s ct i r)) = on_value next_field (cr_result rem (impl_finish s' ct i r'))"
  using assms by (auto simp: impl_finish_def sbind_apply getType_def next_field_def cr_view_def)

lemma impl_same:
  assumes v: "cr_view rem (r\<lparr>cr_boolValue := x\<rparr>) = cr_view rem (r'\<lparr>cr_boolValue := x\<rparr>)"
    and b: "cr_boolValue r = cr_boolValue r' \<or> take_bit 4 b = CT_BOOLEAN_TRUE \<or> take_bit 4 b = CT_BOOLEAN_FALSE"
  shows "on_value next_field (cr_result rem (cr_readFieldBeginWithStateImpl A C s p b r)) =
    on_value next_field (cr_result rem (cr_readFieldBeginWithStateImpl A C s' p b r'))"
proof -
  consider "b = 0" | "b \<noteq> 0" "drop_bit 4 b \<noteq> 0" | "b \<noteq> 0" "drop_bit 4 b = 0" by blast
  then show ?thesis
  proof cases
    case 1
    with v b show ?thesis by (auto simp: impl_eq next_field_def cr_view_def)
  next
    case 2
    with impl_finish_same [OF v b] show ?thesis by (simp add: impl_eq)
  next
    case 3
    have "rem (cr_in r) = rem (cr_in r')" using v by (simp add: cr_view_def)
    then show ?thesis
    proof (cases rule: readI16_same [of r r' A])
      case error
      with 3 show ?thesis by (simp add: impl_eq)
    next
      case (ok i c c')
      have "cr_view rem (r\<lparr>cr_in := c\<rparr>\<lparr>cr_boolValue := x\<rparr>) = cr_view rem (r'\<lparr>cr_in := c'\<rparr>\<lparr>cr_boolValue := x\<rparr>)"
        using v ok(3) by (simp add: cr_view_def)
      moreover have "cr_readFieldBeginWithStateImpl A C s p b r = impl_finish s (take_bit 4 b) i (r\<lparr>cr_in := c\<rparr>)"
        "cr_readFieldBeginWithStateImpl A C s' p b r' = impl_finish s' (take_bit 4 b) i (r'\<lparr>cr_in := c'\<rparr>)"
        using 3 ok(1,2) by (simp_all add: impl_eq)
      moreover have "cr_boolValue (r\<lparr>cr_in := c\<rparr>) = cr_boolValue (r'\<lparr>cr_in := c'\<rparr>) \<or>
          take_bit 4 b = CT_BOOLEAN_TRUE \<or> take_bit 4 b = CT_BOOLEAN_FALSE" using b by simp
      ultimately show ?thesis using impl_finish_same by metis
    qed
  qed
qed

lemma slow_eval:
  assumes "rem (cr_in r) = b # rest"
  obtains c where "rem c = rest" and "cr_readFieldBeginWithState A C s r =
    cr_readFieldBeginWithStateImpl A C s (srs_fieldId s) b (r\<lparr>cr_in := c\<rparr>)"
proof -
  obtain c where "cr_readByte C r = Inr (b, r\<lparr>cr_in := c\<rparr>)" "rem c = rest" using cr_readByte_Cons [OF assms] .
  then show thesis by (intro that [of c]) (simp_all add: cr_readFieldBeginWithState_def)
qed

lemma impl_header:
  assumes b: "header p ct i = b # bs" and r: "rem (cr_in r) = bs @ rest" and ct: "unat ct < 16" "ct \<noteq> 0"
    and t: "getType ct = (sret t :: ('c compact_reader, byte) st)"
  shows "\<exists>c. rem c = rest \<and> cr_readFieldBeginWithStateImpl A C s p b r = Inr (s\<lparr>srs_fieldId := i, srs_fieldType := t\<rparr>,
    r\<lparr>cr_in := c, cr_boolValue := (if ct = CT_BOOLEAN_TRUE \<or> ct = CT_BOOLEAN_FALSE then Some (ct = CT_BOOLEAN_TRUE)
      else cr_boolValue r)\<rparr>)"
proof (cases "sint i > sint p \<and> sint i - sint p \<le> 15")
  case True
  note d = delta_word [OF conjunct1 [OF True] conjunct2 [OF True]]
  have bb: "b = push_bit 4 (ucast (i - p)) OR ct" "bs = []" using b True by (auto simp: header_def)
  have nib: "take_bit 4 b = ct" "drop_bit 4 b = ucast (i - p)" unfolding bb using nibbles [OF ct(1) d(1)] .
  then have "b \<noteq> 0" using ct(2) by auto
  then show ?thesis
    unfolding impl_eq nib impl_finish_def t
    using d(2,3) r bb(2) by (intro exI [of _ "cr_in r"]) (simp add: sbind_apply)
next
  case False
  have bb: "b = ct" "bs = writeVarint_pkt (signedIntToZigzag (scast i :: i32))" using b False by (auto simp: header_def split: if_splits)
  have nib: "take_bit 4 b = ct" "drop_bit 4 b = 0"
    unfolding bb using nibbles [OF ct(1), of 0] by simp_all
  obtain c where "cr_readI16 A C r = Inr (i, r\<lparr>cr_in := c\<rparr>)" "rem c = rest"
    using cr_readI16_app [OF r [unfolded bb(2)]] .
  then show ?thesis
    unfolding impl_eq nib impl_finish_def t
    using ct(2) bb(1) by (intro exI [of _ c]) (simp add: sbind_apply)
qed

text \<open>The two ways in which the fast path ends.\<close>

definition agrees :: "arch \<Rightarrow> i16 \<Rightarrow> i16 \<Rightarrow> byte \<Rightarrow> struct_read_state \<Rightarrow> 'c compact_reader \<Rightarrow>
    thrift_error + ((bool \<times> struct_read_state) \<times> 'c compact_reader) \<Rightarrow> bool" where
  "agrees A prev nxt t s r x \<longleftrightarrow> on_value (announced nxt t) (cr_result rem x) =
     on_value next_field (cr_result rem (cr_readFieldBeginWithState A C (s\<lparr>srs_fieldId := prev\<rparr>) r))"

lemma fallback_agrees:
  assumes d: "cur_data C (cr_in r) = b # bs"
    and x: "x = cr_boolValue r \<or> take_bit 4 b = CT_BOOLEAN_TRUE \<or> take_bit 4 b = CT_BOOLEAN_FALSE"
  shows "agrees A prev nxt t s r (sbind (cr_readFieldBeginWithStateMediumSlow A C s prev)
    (\<lambda>s'. sret (False, s')) (r\<lparr>cr_boolValue := x\<rparr>))"
proof -
  let ?r = "r\<lparr>cr_boolValue := x, cr_in := cur_skipNoAdvance C 1 (cr_in r)\<rparr>"
  define rest where "rest = drop 1 (rem (cr_in r))"
  have rem: "rem (cr_in r) = b # rest"
    using rem_data_split [of "cr_in r"] d unfolding rest_def by (cases "rem (cr_in r)") simp_all
  obtain c where c: "rem c = rest" and slow: "cr_readFieldBeginWithState A C (s\<lparr>srs_fieldId := prev\<rparr>) r =
      cr_readFieldBeginWithStateImpl A C (s\<lparr>srs_fieldId := prev\<rparr>) prev b (r\<lparr>cr_in := c\<rparr>)"
    using slow_eval [OF rem, of A "s\<lparr>srs_fieldId := prev\<rparr>"] by auto
  have "rem (cur_skipNoAdvance C 1 (cr_in r)) = rest" using skipNoAdvance_ok [of 1 "cr_in r"] d by (simp add: rest_def)
  then have v: "cr_view rem (?r\<lparr>cr_boolValue := None\<rparr>) = cr_view rem (r\<lparr>cr_in := c\<rparr>\<lparr>cr_boolValue := None\<rparr>)"
    using c by (simp add: cr_view_def)
  have "cr_readFieldBeginWithStateMediumSlow A C s prev (r\<lparr>cr_boolValue := x\<rparr>) = cr_readFieldBeginWithStateImpl A C s prev b ?r"
    using d by (simp add: cr_readFieldBeginWithStateMediumSlow_def cr_skipNoAdvance_def sbind_apply)
  moreover have "on_value (announced nxt t) (cr_result rem (sbind m (\<lambda>s'. sret (False, s')) q)) =
      on_value next_field (cr_result rem (m q))" for m :: "('c compact_reader, struct_read_state) st" and q
    by (cases "m q") (auto simp: announced_def sbind_apply)
  ultimately show ?thesis
    using impl_same [OF v, of b A s prev "s\<lparr>srs_fieldId := prev\<rparr>"] x slow by (simp add: agrees_def)
qed

lemma accept_agrees:
  assumes d: "cur_data C (cr_in r) = header prev ct nxt @ bs" and n: "n = length (header prev ct nxt)"
    and ct: "unat ct < 16" "ct \<noteq> 0" and t: "getType ct = (sret t :: ('c compact_reader, byte) st)" "t \<noteq> T_STOP"
    and x: "x = (if ct = CT_BOOLEAN_TRUE \<or> ct = CT_BOOLEAN_FALSE then Some (ct = CT_BOOLEAN_TRUE) else cr_boolValue r)"
  shows "agrees A prev nxt t s r (sbind (cr_skipNoAdvance C n) (\<lambda>_. sret (True, s)) (r\<lparr>cr_boolValue := x\<rparr>))"
proof -
  obtain b hs where h: "header prev ct nxt = b # hs"
    by (cases "header prev ct nxt") (auto simp: header_def split: if_splits)
  define rest where "rest = drop n (rem (cr_in r))"
  have rem: "rem (cr_in r) = b # (hs @ rest)"
  proof -
    obtain tl where "rem (cr_in r) = header prev ct nxt @ bs @ tl" using rem_data_split [of "cr_in r"] d by auto
    then show ?thesis using n h by (simp add: rest_def)
  qed
  obtain c where c: "rem c = hs @ rest" and slow: "cr_readFieldBeginWithState A C (s\<lparr>srs_fieldId := prev\<rparr>) r =
      cr_readFieldBeginWithStateImpl A C (s\<lparr>srs_fieldId := prev\<rparr>) prev b (r\<lparr>cr_in := c\<rparr>)"
    using slow_eval [OF rem, of A "s\<lparr>srs_fieldId := prev\<rparr>"] by auto
  have "rem (cur_skipNoAdvance C n (cr_in r)) = rest"
    using skipNoAdvance_ok [of n "cr_in r"] d n by (simp add: rest_def)
  moreover obtain c' where "rem c' = rest" "cr_readFieldBeginWithStateImpl A C (s\<lparr>srs_fieldId := prev\<rparr>) prev b (r\<lparr>cr_in := c\<rparr>) =
      Inr (s\<lparr>srs_fieldId := nxt, srs_fieldType := t\<rparr>, r\<lparr>cr_in := c', cr_boolValue := x\<rparr>)"
    using impl_header [OF h, of "r\<lparr>cr_in := c\<rparr>" rest t A "s\<lparr>srs_fieldId := prev\<rparr>"] c ct t x by auto
  ultimately show ?thesis
    using slow t(2) by (simp add: agrees_def cr_skipNoAdvance_def sbind_apply announced_def next_field_def cr_view_def)
qed

lemma match_int:
  assumes "unat (d :: byte) < 16"
  shows "(ucast b :: i32) = ucast (ct :: byte) OR push_bit 4 (ucast d) \<longleftrightarrow> b = push_bit 4 d OR ct"
proof -
  have d: "\<not> bit d n" if "4 \<le> n" for n
    using that take_bit_4_small [OF assms] by (metis bit_take_bit_iff not_le)
  then have d': "n < 8" if "4 \<le> n" "bit d (n - 4)" for n using that d [of "n - 4"] by linarith
  have "ucast ct OR push_bit 4 (ucast d) = (ucast (push_bit 4 d OR ct) :: i32)"
    by (rule bit_word_eqI) (auto simp: bit_simps dest: bit_imp_le_length d')
  moreover have "(ucast b :: i32) = ucast b' \<longleftrightarrow> b = b'" for b' :: byte
  proof
    assume e: "(ucast b :: i32) = ucast b'"
    show "b = b'"
    proof (rule bit_word_eqI)
      fix n assume "n < LENGTH(8)"
      moreover have "bit (ucast b :: i32) n \<longleftrightarrow> bit (ucast b' :: i32) n" by (simp only: e)
      ultimately show "bit b n \<longleftrightarrow> bit b' n" by (simp add: bit_simps)
    qed
  qed simp
  ultimately show ?thesis by simp
qed

lemma match_cases:
  assumes t: "t \<in> set value_types" and d: "unat d < 16"
  obtains (no) "cr_matchTypeHeader b t d r = Inr (False, r)"
  | (yes) ct where "cr_matchTypeHeader b t d r = Inr (True, r\<lparr>cr_boolValue :=
        if ct = CT_BOOLEAN_TRUE \<or> ct = CT_BOOLEAN_FALSE then Some (ct = CT_BOOLEAN_TRUE) else cr_boolValue r\<rparr>)"
      and "b = push_bit 4 d OR ct" and "unat ct < 16" and "ct \<noteq> 0" and "getType ct = (sret t :: ('c compact_reader, byte) st)"
proof (cases "t = T_BOOL")
  case True
  have odd: "(push_bit 4 d OR ct) AND 1 \<noteq> 0 \<longleftrightarrow> bit ct 0" for ct
    by (auto simp: and_one_eq bit_0 odd_iff_mod_2_eq_one [symmetric] even_or_iff)
  have bits: "bit CT_BOOLEAN_TRUE 0" "\<not> bit CT_BOOLEAN_FALSE 0" by code_simp+
  have types: "getType CT_BOOLEAN_TRUE = (sret t :: ('c compact_reader, byte) st)"
    "getType CT_BOOLEAN_FALSE = (sret t :: ('c compact_reader, byte) st)"
    unfolding True getType_def CTypeToTType_def by simp_all
  consider "b = push_bit 4 d OR CT_BOOLEAN_TRUE" | "b = push_bit 4 d OR CT_BOOLEAN_FALSE"
    | "b \<noteq> push_bit 4 d OR CT_BOOLEAN_TRUE" "b \<noteq> push_bit 4 d OR CT_BOOLEAN_FALSE" by blast
  then show ?thesis
  proof cases
    case 1
    moreover have "b AND 1 \<noteq> 0" unfolding 1 odd by (rule bits)
    ultimately show ?thesis by (intro yes [of CT_BOOLEAN_TRUE] types) (simp_all add: cr_matchTypeHeader_def match_int [OF d] True)
  next
    case 2
    moreover have "\<not> b AND 1 \<noteq> 0" unfolding 2 odd by (rule bits)
    ultimately show ?thesis by (intro yes [of CT_BOOLEAN_FALSE] types) (simp_all add: cr_matchTypeHeader_def match_int [OF d] True)
  next
    case 3
    then show ?thesis by (intro no) (simp add: cr_matchTypeHeader_def match_int [OF d] True)
  qed
next
  case False
  have m: "cr_matchTypeHeader b t d r = Inr (b = push_bit 4 d OR ctype t, r)"
    unfolding cr_matchTypeHeader_def ctype_table(1) [OF t] match_int [OF d] Let_def using False by simp
  show ?thesis
  proof (cases "b = push_bit 4 d OR ctype t")
    case True
    then show ?thesis
      using m ctype_table(5) [OF t False] by (intro yes [of "ctype t"] ctype_table [OF t]) simp_all
  next
    case False
    with m show ?thesis by (intro no) simp
  qed
qed

lemma advance_agrees:
  assumes t: "t = T_STOP \<or> t \<in> set value_types"
  shows "agrees A prev nxt t s r (cr_advanceToNextField A C prev nxt t s r)"
proof (cases "cur_data C (cr_in r)")
  case Nil
  then show ?thesis
    by (cases "cr_readFieldBeginWithState A C (s\<lparr>srs_fieldId := prev\<rparr>) r")
      (auto simp: agrees_def cr_advanceToNextField_def Let_def sbind_apply announced_def)
next
  case (Cons b bs)
  have fb: "agrees A prev nxt t s r (sbind (cr_readFieldBeginWithStateMediumSlow A C s prev) (\<lambda>s'. sret (False, s')) r)"
    using fallback_agrees [OF Cons, of "cr_boolValue r"] by simp
  show ?thesis
  proof (cases "t = T_STOP")
    case True
    show ?thesis
    proof (cases "b = 0")
      case b: True
      define rest where "rest = drop 1 (rem (cr_in r))"
      have rem: "rem (cr_in r) = 0 # rest"
        using rem_data_split [of "cr_in r"] Cons b unfolding rest_def by (cases "rem (cr_in r)") simp_all
      obtain c where "rem c = rest" "cr_readFieldBeginWithState A C (s\<lparr>srs_fieldId := prev\<rparr>) r =
          cr_readFieldBeginWithStateImpl A C (s\<lparr>srs_fieldId := prev\<rparr>) prev 0 (r\<lparr>cr_in := c\<rparr>)"
        using slow_eval [OF rem, of A "s\<lparr>srs_fieldId := prev\<rparr>"] by auto
      then show ?thesis
        using True Cons b skipNoAdvance_ok [of 1 "cr_in r"]
        by (simp add: agrees_def cr_advanceToNextField_def Let_def cr_skipNoAdvance_def announced_def next_field_def impl_eq
            cr_view_def rest_def)
    next
      case False
      with True fb Cons show ?thesis by (simp add: cr_advanceToNextField_def Let_def)
    qed
  next
    case False
    then have t: "t \<in> set value_types" using assms by simp
    show ?thesis
    proof (cases "sint nxt > sint prev \<and> sint nxt - sint prev \<le> 15")
      case delta: True
      note d = delta_word [OF conjunct1 [OF delta] conjunct2 [OF delta]]
      from t d(1) show ?thesis
      proof (cases rule: match_cases [where b = b and r = r])
        case no
        then show ?thesis using False delta Cons fb by (simp add: cr_advanceToNextField_def Let_def)
      next
        case (yes ct)
        have h: "header prev ct nxt = [b]" using delta yes(2) by (simp add: header_def)
        show ?thesis
          using accept_agrees [of r prev ct nxt bs 1 t _ A s] h Cons yes False delta
          by (simp add: cr_advanceToNextField_def Let_def)
      qed
    next
      case full: False
      have zero: "unat (0 :: byte) < 16" by simp
      from t zero show ?thesis
      proof (cases rule: match_cases [where b = b and r = r])
        case no
        then show ?thesis using False Cons fb by (simp add: cr_advanceToNextField_def Let_def if_not_P [OF full])
      next
        case (yes ct)
        let ?ids = "field_id_bytes nxt"
        have h: "header prev ct nxt = b # ?ids" using yes(2) by (simp add: header_def field_id_bytes_eq if_not_P [OF full])
        show ?thesis
        proof (cases "length (b # bs) > length ?ids \<and> take (length ?ids) bs = ?ids")
          case True
          then have "b # bs = header prev ct nxt @ drop (length ?ids) bs" using h by (metis append_Cons append_take_drop_id)
          then show ?thesis
            using accept_agrees [of r prev ct nxt "drop (length ?ids) bs" "Suc (length ?ids)" t _ A s] h Cons yes False True
            by (simp add: cr_advanceToNextField_def Let_def if_not_P [OF full])
        next
          case nomatch: False
          have "take_bit 4 b = ct" using yes(2,3) take_bit_4_small by simp
          then show ?thesis
            using fallback_agrees [OF Cons, of "if ct = CT_BOOLEAN_TRUE \<or> ct = CT_BOOLEAN_FALSE then Some (ct = CT_BOOLEAN_TRUE)
              else cr_boolValue r" A prev nxt t s] Cons yes False nomatch
            by (auto simp: cr_advanceToNextField_def Let_def if_not_P [OF full])
        qed
      qed
    qed
  qed
qed

end

section \<open>The Binary protocol\<close>

definition br_view :: "('c \<Rightarrow> bytes) \<Rightarrow> 'c binary_reader \<Rightarrow> bytes binary_reader" where
  "br_view rem r = \<lparr>pb_height = pb_height r, br_string_limit = br_string_limit r,
     br_container_limit = br_container_limit r, br_strict_read = br_strict_read r, br_in = rem (br_in r)\<rparr>"

definition br_result :: "('c \<Rightarrow> bytes) \<Rightarrow> thrift_error + ('a \<times> 'c binary_reader) \<Rightarrow> thrift_error + ('a \<times> bytes binary_reader)" where
  "br_result rem = map_sum id (map_prod id (br_view rem))"

lemma br_result_simps [simp]: "br_result rem (Inl e) = Inl e" "br_result rem (Inr (a, r)) = Inr (a, br_view rem r)"
  by (simp_all add: br_result_def)

context cursor begin

lemma br_slow_stop:
  assumes "rem (br_in r) = T_STOP # rest"
  shows "\<exists>c. rem c = rest \<and> br_readFieldBeginWithState C s r = Inr (s\<lparr>srs_fieldType := T_STOP\<rparr>, r\<lparr>br_in := c\<rparr>)"
proof -
  obtain c where "c_readBE C 1 (br_in r) = Inr (T_STOP, c)" "rem c = rest" using c_readBE_1 [OF assms] by blast
  then show ?thesis by (auto simp: br_readFieldBeginWithState_def br_readByte_def br_cursor_def sbind_apply)
qed

lemma br_slow_field:
  assumes "rem (br_in r) = t # h # l # rest" and "t \<noteq> T_STOP"
  shows "\<exists>c. rem c = rest \<and> br_readFieldBeginWithState C s r =
    Inr (s\<lparr>srs_fieldType := t, srs_fieldId := be_word [h, l]\<rparr>, r\<lparr>br_in := c\<rparr>)"
proof -
  obtain c where c: "c_readBE C 1 (br_in r) = Inr (t, c)" "rem c = h # l # rest" using c_readBE_1 [OF assms(1)] by blast
  obtain c' where "c_readBE C 2 c = Inr (be_word [h, l] :: i16, c')" "rem c' = rest"
    using c_readBE_app [of c "[h, l]" rest 2 "be_word [h, l]"] c(2) by auto
  with c assms(2) show ?thesis
    by (auto simp: br_readFieldBeginWithState_def br_readByte_def br_readI16_def br_cursor_def sbind_apply)
qed

lemma data_two:
  assumes "3 \<le> length (cur_data C c)"
  obtains a h l ds where "cur_data C c = a # h # l # ds" and "rem c = a # h # l # drop 3 (rem c)"
proof -
  obtain a h l ds where d: "cur_data C c = a # h # l # ds"
    using assms by (metis One_nat_def Suc_1 Suc_le_length_iff numeral_3_eq_3)
  then have "rem c = a # h # l # drop 3 (rem c)"
    using rem_data_split [of c] by (metis append_Cons drop0 drop_Suc_Cons numeral_3_eq_3)
  from d this show thesis by (rule that)
qed

lemma br_advance_agrees:
  "on_value (announced nxt t) (br_result rem (br_advanceToNextField C nxt t s r)) =
    on_value next_field (br_result rem (br_readFieldBeginWithState C s r))"
proof -
  let ?data = "cur_data C (br_in r)"
  have slow: "on_value (announced nxt t) (br_result rem (sbind (br_readFieldBeginWithState C s) (\<lambda>s'. sret (False, s')) r)) =
      on_value next_field (br_result rem (br_readFieldBeginWithState C s r))"
    by (cases "br_readFieldBeginWithState C s r") (auto simp: sbind_apply announced_def)
  consider (stop) "t = T_STOP" "?data \<noteq> []" "?data ! 0 = T_STOP"
    | (three) "t \<noteq> T_STOP" "3 \<le> length ?data"
    | (slow) "br_advanceToNextField C nxt t s r = sbind (br_readFieldBeginWithState C s) (\<lambda>s'. sret (False, s')) r"
    by (cases "t = T_STOP"; cases "3 \<le> length ?data"; cases "?data \<noteq> [] \<and> ?data ! 0 = T_STOP")
      (auto simp: br_advanceToNextField_def Let_def)
  then show ?thesis
  proof cases
    case stop
    define rest where "rest = drop 1 (rem (br_in r))"
    have "rem (br_in r) = T_STOP # rest"
      using rem_data_split [of "br_in r"] stop(2,3) unfolding rest_def by (cases ?data; cases "rem (br_in r)") auto
    then obtain c where "rem c = rest" "br_readFieldBeginWithState C s r = Inr (s\<lparr>srs_fieldType := T_STOP\<rparr>, r\<lparr>br_in := c\<rparr>)"
      using br_slow_stop by blast
    moreover have "rem (cur_skipNoAdvance C 1 (br_in r)) = rest"
      using skipNoAdvance_ok [of 1 "br_in r"] stop(2) by (cases ?data) (auto simp: rest_def)
    ultimately show ?thesis using stop
      by (simp add: br_advanceToNextField_def Let_def announced_def next_field_def br_view_def)
  next
    case three
    obtain a h l ds where d: "?data = a # h # l # ds" and rem: "rem (br_in r) = a # h # l # drop 3 (rem (br_in r))"
      using data_two [OF three(2)] .
    have skip: "rem (cur_skipNoAdvance C 3 (br_in r)) = drop 3 (rem (br_in r))"
      "rem (cur_skipNoAdvance C 1 (br_in r)) = drop 1 (rem (br_in r))"
      using skipNoAdvance_ok [of _ "br_in r"] d by simp_all
    show ?thesis
    proof (cases "a = T_STOP")
      case True
      obtain c where "rem c = h # l # drop 3 (rem (br_in r))"
          "br_readFieldBeginWithState C s r = Inr (s\<lparr>srs_fieldType := T_STOP\<rparr>, r\<lparr>br_in := c\<rparr>)"
        using br_slow_stop [of r "h # l # drop 3 (rem (br_in r))" s] rem True by auto
      moreover have "drop 1 (rem (br_in r)) = h # l # drop 3 (rem (br_in r))" by (subst rem) simp
      ultimately show ?thesis using three True d skip(2)
        by (simp add: br_advanceToNextField_def Let_def announced_def next_field_def br_view_def)
    next
      case False
      obtain c where "rem c = drop 3 (rem (br_in r))"
          "br_readFieldBeginWithState C s r = Inr (s\<lparr>srs_fieldType := a, srs_fieldId := be_word [h, l]\<rparr>, r\<lparr>br_in := c\<rparr>)"
        using br_slow_field [OF rem False] by blast
      then show ?thesis using three False d skip(1)
        by (simp add: br_advanceToNextField_def Let_def announced_def next_field_def br_view_def)
    qed
  next
    case slow
    then show ?thesis using slow \<open>on_value _ _ = _\<close> by simp
  qed
qed

end

section \<open>Properties\<close>

text \<open>
  C34: the fast path of generated Compact readers agrees with reading the field header the general
  way.  Whether \<open>advanceToNextField\<close> recognises the announced field in the buffer, decodes what is
  there instead or falls back, the field the reader goes on with, the bytes it has consumed, the
  pending boolean and every error are those of \<open>readFieldBeginWithState\<close>, for every field id, every
  type a struct member can have and every segmentation of the input.
\<close>

theorem compact_advanceToNextField:
  assumes "cursor C rem" and "t = T_STOP \<or> t \<in> set value_types"
  shows "on_value (announced nxt t) (cr_result rem (cr_advanceToNextField A C prev nxt t s r)) =
    on_value next_field (cr_result rem (cr_readFieldBeginWithState A C (s\<lparr>srs_fieldId := prev\<rparr>) r))"
  using cursor.advance_agrees [OF assms] by (simp only: cursor.agrees_def [OF assms(1)])

definition sample_compact_reader :: "chain \<Rightarrow> chain compact_reader" where
  "sample_compact_reader c = \<lparr>pb_height = 12001, cr_in = c, cr_string_limit = 0, cr_container_limit = 0,
     cr_lastField = [], cr_lastFieldId = 0, cr_boolValue = None\<rparr>"

theorem compact_advanceToNextField_witness:
  "on_value (announced 300 T_BOOL) (cr_result concat (cr_advanceToNextField AArch64 chain_api 3 300 T_BOOL
      \<lparr>srs_fieldId = 0, srs_fieldType = 0\<rparr> (sample_compact_reader [[0x01, 0xD8], [0x04, 0x00]]))) =
    on_value next_field (cr_result concat (cr_readFieldBeginWithState AArch64 chain_api
      \<lparr>srs_fieldId = 3, srs_fieldType = 0\<rparr> (sample_compact_reader [[0x01, 0xD8], [0x04, 0x00]])))"
  using compact_advanceToNextField [OF chain_cursor.cursor_axioms, of T_BOOL 300 AArch64 3
      "\<lparr>srs_fieldId = 0, srs_fieldType = 0\<rparr>" "sample_compact_reader [[0x01, 0xD8], [0x04, 0x00]]"]
  by (simp add: value_types_def)

text \<open>
  C35: the same for the Binary protocol, for every announced id and type.
\<close>

theorem binary_advanceToNextField:
  assumes "cursor C rem"
  shows "on_value (announced nxt t) (br_result rem (br_advanceToNextField C nxt t s r)) =
    on_value next_field (br_result rem (br_readFieldBeginWithState C s r))"
  by (rule cursor.br_advance_agrees [OF assms])

theorem binary_advanceToNextField_witness:
  "on_value (announced 5 T_I32) (br_result concat (br_advanceToNextField chain_api 5 T_I32
      \<lparr>srs_fieldId = 0, srs_fieldType = 0\<rparr> \<lparr>pb_height = 12001, br_string_limit = 0, br_container_limit = 0,
        br_strict_read = True, br_in = [[0x08, 0x00], [0x05]]\<rparr>)) =
    on_value next_field (br_result concat (br_readFieldBeginWithState chain_api
      \<lparr>srs_fieldId = 0, srs_fieldType = 0\<rparr> \<lparr>pb_height = 12001, br_string_limit = 0, br_container_limit = 0,
        br_strict_read = True, br_in = [[0x08, 0x00], [0x05]]\<rparr>))"
  by (rule binary_advanceToNextField [OF chain_cursor.cursor_axioms])

end
