(* ===== verification/Rocket_Frames.thy ===== *)
theory Rocket_Frames
  imports Prelude
begin

unbundle bit_operations_syntax

text \<open>
  The frames of the rocket transport (\<^verbatim>\<open>lib/cpp2/transport/rocket\<close>): flags and frame types,
  payloads, one record per frame class of \<^verbatim>\<open>framing/Frames.h\<close>, the serialization and the parsing
  constructors of \<^verbatim>\<open>framing/Frames.cpp\<close>, \<^verbatim>\<open>framing/Serializer.h\<close> and \<^verbatim>\<open>framing/Util.cpp\<close>.

  An \<open>IOBuf\<close> is the list of its bytes.  The operations of a \<open>Serializer\<close> append to its output
  and return the number of bytes, so a serialization is the list of bytes it appends.  A parsing
  constructor reads from a cursor over the frame and keeps what is left of it: the parameter
  \<open>rest\<close> gives the bytes of the frame from the cursor's position on, which is what
  \<open>trimBuffer\<close> with \<open>getCurrentPosition\<close> keeps.  The \<open>DCHECK\<close>s of the code are not part of the
  release build and have no counterpart; what they assert is proved about serialized frames.
\<close>

section \<open>Flags and frame types\<close>

abbreviation NEXT :: u16 where "NEXT \<equiv> 0x20"
abbreviation COMPLETE :: u16 where "COMPLETE \<equiv> 0x40"
abbreviation LEASE :: u16 where "LEASE \<equiv> 0x40"
abbreviation FOLLOWS :: u16 where "FOLLOWS \<equiv> 0x80"
abbreviation RESUME_TOKEN :: u16 where "RESUME_TOKEN \<equiv> 0x80"
abbreviation RESPOND :: u16 where "RESPOND \<equiv> 0x80"
abbreviation METADATA :: u16 where "METADATA \<equiv> 0x100"
abbreviation IGNORE :: u16 where "IGNORE \<equiv> 0x200"

definition kFlagBits :: nat where "kFlagBits = 10"
definition kFlagMask :: u16 where "kFlagMask = 0x3ff"
definition kInvalidMask :: u16 where "kInvalidMask = 0x1f"

definition flags_get :: "u16 \<Rightarrow> u16 \<Rightarrow> bool" where
  "flags_get bits flags \<longleftrightarrow> flags AND bits \<noteq> 0"

definition flags_set :: "u16 \<Rightarrow> bool \<Rightarrow> u16 \<Rightarrow> u16" where
  "flags_set bits on flags = (if on then flags OR bits else flags AND NOT bits)"

definition flags_make :: "u16 \<Rightarrow> ('s, u16) st" where
  "flags_make flags = sbind (sguard (\<not> flags AND kInvalidMask \<noteq> 0) (InvalidFlags flags)) (\<lambda>_. sret flags)"

abbreviation F_SETUP :: byte where "F_SETUP \<equiv> 0x01"
abbreviation F_KEEPALIVE :: byte where "F_KEEPALIVE \<equiv> 0x03"
abbreviation F_REQUEST_RESPONSE :: byte where "F_REQUEST_RESPONSE \<equiv> 0x04"
abbreviation F_REQUEST_FNF :: byte where "F_REQUEST_FNF \<equiv> 0x05"
abbreviation F_REQUEST_STREAM :: byte where "F_REQUEST_STREAM \<equiv> 0x06"
abbreviation F_REQUEST_CHANNEL :: byte where "F_REQUEST_CHANNEL \<equiv> 0x07"
abbreviation F_REQUEST_N :: byte where "F_REQUEST_N \<equiv> 0x08"
abbreviation F_CANCEL :: byte where "F_CANCEL \<equiv> 0x09"
abbreviation F_PAYLOAD :: byte where "F_PAYLOAD \<equiv> 0x0A"
abbreviation F_ERROR :: byte where "F_ERROR \<equiv> 0x0B"
abbreviation F_METADATA_PUSH :: byte where "F_METADATA_PUSH \<equiv> 0x0C"
abbreviation F_EXT :: byte where "F_EXT \<equiv> 0x3F"

definition frame_types :: "byte list" where
  "frame_types = [F_SETUP, F_REQUEST_RESPONSE, F_REQUEST_FNF, F_REQUEST_STREAM, F_REQUEST_CHANNEL,
     F_REQUEST_N, F_CANCEL, F_PAYLOAD, F_ERROR, F_METADATA_PUSH, F_KEEPALIVE, F_EXT]"

section \<open>Payloads\<close>

record payload =
  p_buffer :: bytes
  p_metadataSize :: nat
  p_metadataAndDataSize :: nat

definition makeFromData :: "bytes \<Rightarrow> payload" where
  "makeFromData data = \<lparr>p_buffer = data, p_metadataSize = 0, p_metadataAndDataSize = length data\<rparr>"

definition makeFromMetadataAndData :: "bytes \<Rightarrow> bytes \<Rightarrow> payload" where
  "makeFromMetadataAndData metadata data = \<lparr>p_buffer = metadata @ data, p_metadataSize = length metadata,
     p_metadataAndDataSize = length metadata + length data\<rparr>"

definition makeCombined :: "bytes \<Rightarrow> nat \<Rightarrow> payload" where
  "makeCombined buffer metadataSize = \<lparr>p_buffer = buffer, p_metadataSize = metadataSize,
     p_metadataAndDataSize = length buffer\<rparr>"

definition hasNonemptyMetadata :: "payload \<Rightarrow> bool" where
  "hasNonemptyMetadata p \<longleftrightarrow> p_metadataSize p \<noteq> 0"

definition dataSize :: "payload \<Rightarrow> nat" where
  "dataSize p = unat (of_nat (p_metadataAndDataSize p) - of_nat (p_metadataSize p) :: u64)"

definition serializedSize :: "payload \<Rightarrow> nat" where
  "serializedSize p = p_metadataAndDataSize p + (if hasNonemptyMetadata p then 3 else 0)"

definition payload_append :: "payload \<Rightarrow> payload \<Rightarrow> payload" where
  "payload_append p other = \<lparr>p_buffer = p_buffer p @ p_buffer other,
     p_metadataSize = p_metadataSize p + p_metadataSize other,
     p_metadataAndDataSize = p_metadataAndDataSize p + p_metadataAndDataSize other\<rparr>"

text \<open>
  \<open>data()\<close> pops buffers off the chain until the metadata is gone.  When the chain is shorter than
  the metadata size it ends by dereferencing the null pointer that \<open>pop\<close> returned.
\<close>

fun data_loop :: "nat \<Rightarrow> bytes list \<Rightarrow> bytes list option" where
  "data_loop toTrim [] = (if toTrim > 0 then None else Some [])"
| "data_loop toTrim (b # bs) = (if toTrim > 0 then
      if length b \<ge> toTrim then Some (drop toTrim b # bs) else data_loop (toTrim - length b) bs
    else Some (b # bs))"

section \<open>Serializer\<close>

abbreviation kBytesForFrameOrMetadataLength :: nat where "kBytesForFrameOrMetadataLength \<equiv> 3"

definition writeFrameOrMetadataSize :: "nat \<Rightarrow> bytes" where
  "writeFrameOrMetadataSize nbytes = be_bytes 3 (of_nat nbytes :: u64)"

definition writeFrameTypeAndFlags :: "byte \<Rightarrow> u16 \<Rightarrow> bytes" where
  "writeFrameTypeAndFlags frameType flags = be_bytes 2 (push_bit kFlagBits (ucast frameType) OR flags)"

definition writeStreamId :: "u32 \<Rightarrow> bytes" where
  "writeStreamId streamId = be_bytes 4 streamId"

definition writePayload :: "payload \<Rightarrow> bytes" where
  "writePayload p =
    (if hasNonemptyMetadata p then writeFrameOrMetadataSize (p_metadataSize p) else []) @
    (if p_buffer p \<noteq> [] then p_buffer p else [])"

text \<open>\<open>HeaderSerializer\<close> writes into a fixed buffer and refuses what does not fit.\<close>

record header_serializer =
  hs_buf :: bytes
  hs_maxLen :: nat

definition hs_push :: "bytes \<Rightarrow> header_serializer \<Rightarrow> header_serializer" where
  "hs_push bs w = (if hs_maxLen w - length (hs_buf w) \<ge> length bs then w\<lparr>hs_buf := hs_buf w @ bs\<rparr> else w)"

definition writeInt24BE :: "nat \<Rightarrow> bytes" where
  "writeInt24BE nbytes = (let n = of_nat nbytes :: u64 in
     [ucast (drop_bit 16 n AND 0xFF), ucast (drop_bit 8 n AND 0xFF), ucast (n AND 0xFF)])"

section \<open>Reading the common parts\<close>

definition readStreamId :: "'c cursor_api \<Rightarrow> ('c, u32) st" where
  "readStreamId C = c_readBE C 4"

definition readFrameOrMetadataSize :: "'c cursor_api \<Rightarrow> ('c, nat) st" where
  "readFrameOrMetadataSize C = sbind (c_read C 3) (\<lambda>bytes.
     sret (unat (push_bit 16 (ucast (bytes ! 0)) OR push_bit 8 (ucast (bytes ! 1)) OR ucast (bytes ! 2) :: u64)))"

definition readFrameTypeAndFlagsUnsafe :: "'c cursor_api \<Rightarrow> ('c, byte \<times> u16) st" where
  "readFrameTypeAndFlagsUnsafe C = sbind (c_readBE C 2) (\<lambda>frameTypeAndFlags :: u16.
     sbind (flags_make (frameTypeAndFlags AND kFlagMask)) (\<lambda>flags.
     sret (ucast (drop_bit kFlagBits frameTypeAndFlags), flags)))"

definition readFrameTypeAndFlags :: "'c cursor_api \<Rightarrow> ('c, byte \<times> u16) st" where
  "readFrameTypeAndFlags C = sbind (readFrameTypeAndFlagsUnsafe C) (\<lambda>(frameType, flags).
     if frameType \<in> set frame_types then sret (frameType, flags) else sfail (UnexpectedFrameType frameType))"

definition readExtFrameType :: "'c cursor_api \<Rightarrow> ('c, u32) st" where
  "readExtFrameType C = sbind (c_readBE C 4 :: ('c, u32) st) (\<lambda>_. sret 0)"

definition readPayload :: "'c cursor_api \<Rightarrow> ('c \<Rightarrow> bytes) \<Rightarrow> bool \<Rightarrow> ('c, payload) st" where
  "readPayload C rest expectingMetadata =
    sbind (if expectingMetadata then readFrameOrMetadataSize C else sret 0) (\<lambda>metadataSize.
    sbind (sget rest) (\<lambda>buffer. sret (makeCombined buffer metadataSize)))"

section \<open>The frames\<close>

definition ascii :: "string \<Rightarrow> bytes" where "ascii s = map of_char s"

definition kLegacyMimeType :: bytes where "kLegacyMimeType = ascii ''text/plain''"
definition kRocketMetadataCompactMimeType :: bytes where
  "kRocketMetadataCompactMimeType = ascii ''application/x-rocket-metadata+compact''"
definition kRocketMetadataBinaryMimeType :: bytes where
  "kRocketMetadataBinaryMimeType = ascii ''application/x-rocket-metadata+binary''"
definition kRocketPayloadMimeType :: bytes where
  "kRocketPayloadMimeType = ascii ''application/x-rocket-payload''"

definition kMaxFragmentedPayloadSize :: nat where "kMaxFragmentedPayloadSize = 0xffffff - 512"

record setup_frame =
  sf_flags :: u16
  sf_resumeToken :: bytes
  sf_payload :: payload
  sf_rocketMimeTypes :: bool
  sf_encodeMetadataUsingBinary :: bool

record request_response_frame =
  rr_streamId :: u32
  rr_flags :: u16
  rr_payload :: payload

record request_fnf_frame =
  rf_streamId :: u32
  rf_flags :: u16
  rf_payload :: payload

record request_stream_frame =
  rs_streamId :: u32
  rs_initialRequestN :: i32
  rs_flags :: u16
  rs_payload :: payload

record request_channel_frame =
  rc_streamId :: u32
  rc_initialRequestN :: i32
  rc_flags :: u16
  rc_payload :: payload

record request_n_frame =
  rn_streamId :: u32
  rn_requestN :: i32

record cancel_frame =
  cf_streamId :: u32

record payload_frame =
  pf_streamId :: u32
  pf_flags :: u16
  pf_payload :: payload

record error_frame =
  ef_streamId :: u32
  ef_errorCode :: u32
  ef_payload :: payload

record metadata_push_frame =
  mp_metadata :: bytes

record keep_alive_frame =
  ka_streamId :: u32
  ka_flags :: u16
  ka_data :: bytes

record ext_frame =
  xf_streamId :: u32
  xf_flags :: u16
  xf_extFrameType :: u32
  xf_payload :: payload

subsection \<open>Constructors\<close>

definition setup_make :: "payload \<Rightarrow> bool \<Rightarrow> setup_frame" where
  "setup_make payload encodeMetadataUsingBinary = \<lparr>sf_flags = 0, sf_resumeToken = [], sf_payload = payload,
     sf_rocketMimeTypes = True, sf_encodeMetadataUsingBinary = encodeMetadataUsingBinary\<rparr>"

definition rr_make :: "u32 \<Rightarrow> payload \<Rightarrow> request_response_frame" where
  "rr_make streamId payload = \<lparr>rr_streamId = streamId, rr_flags = 0, rr_payload = payload\<rparr>"

definition rf_make :: "u32 \<Rightarrow> payload \<Rightarrow> request_fnf_frame" where
  "rf_make streamId payload = \<lparr>rf_streamId = streamId, rf_flags = 0, rf_payload = payload\<rparr>"

definition rs_make :: "u32 \<Rightarrow> payload \<Rightarrow> i32 \<Rightarrow> thrift_error + request_stream_frame" where
  "rs_make streamId payload n = (if sint n \<le> 0 then Inl NonPositiveRequestN
     else Inr \<lparr>rs_streamId = streamId, rs_initialRequestN = n, rs_flags = 0, rs_payload = payload\<rparr>)"

definition rc_make :: "u32 \<Rightarrow> payload \<Rightarrow> i32 \<Rightarrow> thrift_error + request_channel_frame" where
  "rc_make streamId payload n = (if sint n \<le> 0 then Inl NonPositiveRequestN
     else Inr \<lparr>rc_streamId = streamId, rc_initialRequestN = n, rc_flags = 0, rc_payload = payload\<rparr>)"

definition rn_make :: "u32 \<Rightarrow> i32 \<Rightarrow> thrift_error + request_n_frame" where
  "rn_make streamId n = (if sint n \<le> 0 then Inl NonPositiveRequestN
     else Inr \<lparr>rn_streamId = streamId, rn_requestN = n\<rparr>)"

subsection \<open>Serialization into one frame\<close>

definition setup_frameHeaderSize :: "setup_frame \<Rightarrow> nat" where
  "setup_frameHeaderSize f =
    (let metadataMimeTypeSize = (if sf_encodeMetadataUsingBinary f then length kRocketMetadataBinaryMimeType
           else length kRocketMetadataCompactMimeType);
         frameSize = 20 + (if sf_rocketMimeTypes f then metadataMimeTypeSize + length kRocketPayloadMimeType
           else 2 * length kLegacyMimeType) in
     if flags_get RESUME_TOKEN (sf_flags f) then frameSize + 2 + length (sf_resumeToken f) else frameSize)"

definition setup_metadataMimeType :: "setup_frame \<Rightarrow> bytes" where
  "setup_metadataMimeType f = (if sf_rocketMimeTypes f then
     if sf_encodeMetadataUsingBinary f then kRocketMetadataBinaryMimeType else kRocketMetadataCompactMimeType
     else kLegacyMimeType)"

definition setup_payloadMimeType :: "setup_frame \<Rightarrow> bytes" where
  "setup_payloadMimeType f = (if sf_rocketMimeTypes f then kRocketPayloadMimeType else kLegacyMimeType)"

definition setup_serialize :: "setup_frame \<Rightarrow> bytes" where
  "setup_serialize f =
    (let payload = sf_payload f; frameSize = setup_frameHeaderSize f + serializedSize payload;
         hasToken = flags_get RESUME_TOKEN (sf_flags f) in
     writeFrameOrMetadataSize frameSize @ writeStreamId 0 @
     writeFrameTypeAndFlags F_SETUP (flags_set RESUME_TOKEN hasToken
       (flags_set METADATA (hasNonemptyMetadata payload) 0)) @
     be_bytes 2 (1 :: u16) @ be_bytes 2 (0 :: u16) @
     be_bytes 4 (2 ^ 31 - 1 :: u32) @ be_bytes 4 (2 ^ 31 - 1 :: u32) @
     (if hasToken then be_bytes 2 (of_nat (length (sf_resumeToken f)) :: u16) @ sf_resumeToken f else []) @
     be_bytes 1 (of_nat (length (setup_metadataMimeType f)) :: byte) @ setup_metadataMimeType f @
     be_bytes 1 (of_nat (length (setup_payloadMimeType f)) :: byte) @ setup_payloadMimeType f @
     writePayload payload)"

definition rr_serializeIntoSingleFrame :: "request_response_frame \<Rightarrow> bytes" where
  "rr_serializeIntoSingleFrame f =
    (let payload = rr_payload f; frameSize = 6 + serializedSize payload in
     writeFrameOrMetadataSize frameSize @ writeStreamId (rr_streamId f) @
     writeFrameTypeAndFlags F_REQUEST_RESPONSE (flags_set FOLLOWS (flags_get FOLLOWS (rr_flags f)) (flags_set METADATA (hasNonemptyMetadata payload) 0)) @
     writePayload payload)"

definition rf_serializeIntoSingleFrame :: "request_fnf_frame \<Rightarrow> bytes" where
  "rf_serializeIntoSingleFrame f =
    (let payload = rf_payload f; frameSize = 6 + serializedSize payload in
     writeFrameOrMetadataSize frameSize @ writeStreamId (rf_streamId f) @
     writeFrameTypeAndFlags F_REQUEST_FNF (flags_set FOLLOWS (flags_get FOLLOWS (rf_flags f)) (flags_set METADATA (hasNonemptyMetadata payload) 0)) @
     writePayload payload)"

definition rs_serializeIntoSingleFrame :: "request_stream_frame \<Rightarrow> bytes" where
  "rs_serializeIntoSingleFrame f =
    (let payload = rs_payload f; frameSize = 10 + serializedSize payload in
     writeFrameOrMetadataSize frameSize @ writeStreamId (rs_streamId f) @
     writeFrameTypeAndFlags F_REQUEST_STREAM (flags_set FOLLOWS (flags_get FOLLOWS (rs_flags f)) (flags_set METADATA (hasNonemptyMetadata payload) 0)) @
     be_bytes 4 (rs_initialRequestN f) @ writePayload payload)"

definition rc_serializeIntoSingleFrame :: "request_channel_frame \<Rightarrow> bytes" where
  "rc_serializeIntoSingleFrame f =
    (let payload = rc_payload f; frameSize = 10 + serializedSize payload in
     writeFrameOrMetadataSize frameSize @ writeStreamId (rc_streamId f) @
     writeFrameTypeAndFlags F_REQUEST_CHANNEL (flags_set COMPLETE (flags_get COMPLETE (rc_flags f))
       (flags_set FOLLOWS (flags_get FOLLOWS (rc_flags f)) (flags_set METADATA (hasNonemptyMetadata payload) 0))) @
     be_bytes 4 (rc_initialRequestN f) @ writePayload payload)"

definition pf_serializeIntoSingleFrame :: "payload_frame \<Rightarrow> bytes" where
  "pf_serializeIntoSingleFrame f =
    (let payload = pf_payload f; frameSize = 6 + serializedSize payload in
     writeFrameOrMetadataSize frameSize @ writeStreamId (pf_streamId f) @
     writeFrameTypeAndFlags F_PAYLOAD (flags_set NEXT (flags_get NEXT (pf_flags f))
       (flags_set COMPLETE (flags_get COMPLETE (pf_flags f))
       (flags_set FOLLOWS (flags_get FOLLOWS (pf_flags f)) (flags_set METADATA (hasNonemptyMetadata payload) 0)))) @
     writePayload payload)"

definition rn_serialize :: "request_n_frame \<Rightarrow> bytes" where
  "rn_serialize f = writeFrameOrMetadataSize 10 @ writeStreamId (rn_streamId f) @
     writeFrameTypeAndFlags F_REQUEST_N 0 @ be_bytes 4 (rn_requestN f)"

definition cf_serialize :: "cancel_frame \<Rightarrow> bytes" where
  "cf_serialize f = writeFrameOrMetadataSize 6 @ writeStreamId (cf_streamId f) @ writeFrameTypeAndFlags F_CANCEL 0"

definition ef_serialize :: "error_frame \<Rightarrow> bytes" where
  "ef_serialize f =
    (let payload = ef_payload f; frameSize = 10 + serializedSize payload in
     writeFrameOrMetadataSize frameSize @ writeStreamId (ef_streamId f) @ writeFrameTypeAndFlags F_ERROR 0 @
     be_bytes 4 (ef_errorCode f) @ writePayload payload)"

definition mp_serialize :: "metadata_push_frame \<Rightarrow> bytes" where
  "mp_serialize f = writeFrameOrMetadataSize (6 + length (mp_metadata f)) @ writeStreamId 0 @
     writeFrameTypeAndFlags F_METADATA_PUSH (flags_set METADATA True 0) @ mp_metadata f"

definition ka_serialize :: "keep_alive_frame \<Rightarrow> bytes" where
  "ka_serialize f = writeFrameOrMetadataSize (14 + length (ka_data f)) @ writeStreamId 0 @
     writeFrameTypeAndFlags F_KEEPALIVE (ka_flags f) @ be_bytes 8 (0 :: u64) @ ka_data f"

definition xf_serialize :: "ext_frame \<Rightarrow> thrift_error + bytes" where
  "xf_serialize f =
    (let payload = xf_payload f; frameSize = 10 + serializedSize payload in
     if p_metadataAndDataSize payload \<ge> kMaxFragmentedPayloadSize then Inl ExtPayloadTooLarge
     else Inr (writeFrameOrMetadataSize frameSize @ writeStreamId (xf_streamId f) @
       writeFrameTypeAndFlags F_EXT (flags_set IGNORE (flags_get IGNORE (xf_flags f))
         (flags_set METADATA (hasNonemptyMetadata payload) (xf_flags f))) @
       be_bytes 4 (xf_extFrameType f) @ writePayload payload))"

subsection \<open>Serialization into the headroom of the payload's buffer\<close>

text \<open>
  \<open>flags\<close>, \<open>frameType\<close>, the stream id and the initial request-n of a frame as
  \<open>serializeIntoHeadroom\<close> sees them; \<open>initialRequestN\<close> is \<open>None\<close> for the classes without that member.
\<close>

definition serializeIntoHeadroom :: "byte \<Rightarrow> nat \<Rightarrow> u32 \<Rightarrow> u16 \<Rightarrow> i32 option \<Rightarrow> payload \<Rightarrow> bytes" where
  "serializeIntoHeadroom frameType frameHeaderSize streamId flags0 initialRequestN payload =
    (let flags = flags_set METADATA (hasNonemptyMetadata payload) flags0;
         dataLen = dataSize payload; metadataLen = p_metadataSize payload;
         rsocketLen = 2 * 3 + frameHeaderSize;
         frameSize = frameHeaderSize + dataLen + metadataLen + 3;
         w = \<lparr>hs_buf = [], hs_maxLen = rsocketLen\<rparr>;
         w = hs_push (writeInt24BE frameSize) w;
         w = hs_push (be_bytes 4 streamId) w;
         w = hs_push (writeFrameTypeAndFlags frameType flags) w;
         w = (case initialRequestN of None \<Rightarrow> w | Some n \<Rightarrow> hs_push (be_bytes 4 n) w);
         w = hs_push (writeInt24BE metadataLen) w in
     hs_buf w @ p_buffer payload)"

subsection \<open>Serialization in fragments\<close>

text \<open>
  \<open>serializeInFragmentsSlowCommon\<close> as the list of the frames it writes.  The parameter \<open>K\<close> is
  \<open>kMaxFragmentedPayloadSize\<close>; \<open>first\<close> serializes the frame itself with the first chunk as its
  payload and the follows flag set.  The chunks are at most \<open>K\<close> bytes, so that the payload frames
  are written by \<open>serializeIntoSingleFrame\<close>.
\<close>

function fragments_loop :: "nat \<Rightarrow> u32 \<Rightarrow> u16 \<Rightarrow> bool \<Rightarrow> nat \<Rightarrow> bytes \<Rightarrow> bytes list" where
  "fragments_loop K streamId flags complete metadataSize queue =
    (let metadataChunk = min metadataSize K;
         chunk = take K queue; queue' = drop K queue; follows = (queue' \<noteq> []);
         flags = flags_set COMPLETE (\<not> follows \<and> complete) (flags_set FOLLOWS follows flags);
         frame = pf_serializeIntoSingleFrame \<lparr>pf_streamId = streamId, pf_flags = flags,
           pf_payload = makeCombined chunk metadataChunk\<rparr> in
     if follows \<and> K > 0 then frame # fragments_loop K streamId flags complete (metadataSize - metadataChunk) queue'
     else [frame])"
  by pat_completeness auto
termination
  by (relation "measure (\<lambda>(K, streamId, flags, complete, metadataSize, queue). length queue)") auto

definition serializeInFragmentsSlowCommon :: "nat \<Rightarrow> (payload \<Rightarrow> bool \<Rightarrow> bytes) \<Rightarrow> u32 \<Rightarrow> u16 \<Rightarrow> payload \<Rightarrow> bytes list" where
  "serializeInFragmentsSlowCommon K first streamId flags payload =
    (let metadataSize = p_metadataSize payload; queue = p_buffer payload; complete = flags_get COMPLETE flags;
         metadataChunk = min metadataSize K;
         chunk = take K queue; queue' = drop K queue; follows = (queue' \<noteq> []);
         frame = first (makeCombined chunk metadataChunk) follows in
     if follows then frame # fragments_loop K streamId flags complete (metadataSize - metadataChunk) queue'
     else [frame])"

definition rr_serializeInFragmentsSlow :: "nat \<Rightarrow> request_response_frame \<Rightarrow> bytes list" where
  "rr_serializeInFragmentsSlow K f = serializeInFragmentsSlowCommon K
     (\<lambda>payload follows. rr_serializeIntoSingleFrame (f\<lparr>rr_payload := payload,
        rr_flags := flags_set FOLLOWS follows (rr_flags f)\<rparr>))
     (rr_streamId f) (flags_set NEXT True 0) (rr_payload f)"

definition rr_serialize :: "nat \<Rightarrow> request_response_frame \<Rightarrow> bytes list" where
  "rr_serialize K f = (if p_metadataAndDataSize (rr_payload f) > K then rr_serializeInFragmentsSlow K f
     else [rr_serializeIntoSingleFrame f])"

definition rf_serializeInFragmentsSlow :: "nat \<Rightarrow> request_fnf_frame \<Rightarrow> bytes list" where
  "rf_serializeInFragmentsSlow K f = serializeInFragmentsSlowCommon K
     (\<lambda>payload follows. rf_serializeIntoSingleFrame (f\<lparr>rf_payload := payload,
        rf_flags := flags_set FOLLOWS follows (rf_flags f)\<rparr>))
     (rf_streamId f) (flags_set NEXT True 0) (rf_payload f)"

definition rf_serialize :: "nat \<Rightarrow> request_fnf_frame \<Rightarrow> bytes list" where
  "rf_serialize K f = (if p_metadataAndDataSize (rf_payload f) > K then rf_serializeInFragmentsSlow K f
     else [rf_serializeIntoSingleFrame f])"

definition rs_serializeInFragmentsSlow :: "nat \<Rightarrow> request_stream_frame \<Rightarrow> bytes list" where
  "rs_serializeInFragmentsSlow K f = serializeInFragmentsSlowCommon K
     (\<lambda>payload follows. rs_serializeIntoSingleFrame (f\<lparr>rs_payload := payload,
        rs_flags := flags_set FOLLOWS follows (rs_flags f)\<rparr>))
     (rs_streamId f) (flags_set NEXT True 0) (rs_payload f)"

definition rs_serialize :: "nat \<Rightarrow> request_stream_frame \<Rightarrow> bytes list" where
  "rs_serialize K f = (if p_metadataAndDataSize (rs_payload f) > K then rs_serializeInFragmentsSlow K f
     else [rs_serializeIntoSingleFrame f])"

definition rc_serializeInFragmentsSlow :: "nat \<Rightarrow> request_channel_frame \<Rightarrow> bytes list" where
  "rc_serializeInFragmentsSlow K f = serializeInFragmentsSlowCommon K
     (\<lambda>payload follows. rc_serializeIntoSingleFrame (f\<lparr>rc_payload := payload,
        rc_flags := flags_set FOLLOWS follows (rc_flags f)\<rparr>))
     (rc_streamId f) (flags_set COMPLETE (flags_get COMPLETE (rc_flags f)) (flags_set NEXT True 0)) (rc_payload f)"

definition rc_serialize :: "nat \<Rightarrow> request_channel_frame \<Rightarrow> bytes list" where
  "rc_serialize K f = (if p_metadataAndDataSize (rc_payload f) > K then rc_serializeInFragmentsSlow K f
     else [rc_serializeIntoSingleFrame f])"

definition pf_serializeInFragmentsSlow :: "nat \<Rightarrow> payload_frame \<Rightarrow> bytes list" where
  "pf_serializeInFragmentsSlow K f = serializeInFragmentsSlowCommon K
     (\<lambda>payload follows. pf_serializeIntoSingleFrame (f\<lparr>pf_payload := payload,
        pf_flags := (let flags = flags_set FOLLOWS follows (pf_flags f) in
           flags_set COMPLETE (\<not> follows \<and> flags_get COMPLETE flags) flags)\<rparr>))
     (pf_streamId f) (flags_set NEXT (flags_get NEXT (pf_flags f)) (flags_set COMPLETE (flags_get COMPLETE (pf_flags f)) 0)) (pf_payload f)"

definition pf_serialize :: "nat \<Rightarrow> payload_frame \<Rightarrow> bytes list" where
  "pf_serialize K f = (if p_metadataAndDataSize (pf_payload f) > K then pf_serializeInFragmentsSlow K f
     else [pf_serializeIntoSingleFrame f])"

text \<open>
  \<open>serialize(IOBufFactory*)\<close>, what a sender puts on the wire: into the headroom of the payload's buffer
  when the buffer is not shared, has the room, and the payload has metadata and needs no
  fragmentation; otherwise through a \<open>Serializer\<close>.
\<close>

definition serializeIntoHeadroomIfPossible ::
    "bool \<Rightarrow> nat \<Rightarrow> byte \<Rightarrow> nat \<Rightarrow> u32 \<Rightarrow> u16 \<Rightarrow> i32 option \<Rightarrow> payload \<Rightarrow> bytes list \<Rightarrow> bytes" where
  "serializeIntoHeadroomIfPossible isShared headroom frameType frameHeaderSize streamId flags initialRequestN payload iobuf =
    (if \<not> isShared \<and> p_metadataAndDataSize payload \<le> kMaxFragmentedPayloadSize \<and> hasNonemptyMetadata payload \<and>
        headroom \<ge> frameHeaderSize + 2 * 3
     then serializeIntoHeadroom frameType frameHeaderSize streamId flags initialRequestN payload
     else concat iobuf)"

definition rr_serialize_buffer :: "bool \<Rightarrow> nat \<Rightarrow> request_response_frame \<Rightarrow> bytes" where
  "rr_serialize_buffer isShared headroom f = serializeIntoHeadroomIfPossible isShared headroom F_REQUEST_RESPONSE 6
     (rr_streamId f) (rr_flags f) None (rr_payload f) (rr_serialize kMaxFragmentedPayloadSize f)"

definition rf_serialize_buffer :: "bool \<Rightarrow> nat \<Rightarrow> request_fnf_frame \<Rightarrow> bytes" where
  "rf_serialize_buffer isShared headroom f = serializeIntoHeadroomIfPossible isShared headroom F_REQUEST_FNF 6
     (rf_streamId f) (rf_flags f) None (rf_payload f) (rf_serialize kMaxFragmentedPayloadSize f)"

definition rs_serialize_buffer :: "bool \<Rightarrow> nat \<Rightarrow> request_stream_frame \<Rightarrow> bytes" where
  "rs_serialize_buffer isShared headroom f = serializeIntoHeadroomIfPossible isShared headroom F_REQUEST_STREAM 10
     (rs_streamId f) (rs_flags f) (Some (rs_initialRequestN f)) (rs_payload f) (rs_serialize kMaxFragmentedPayloadSize f)"

definition rc_serialize_buffer :: "bool \<Rightarrow> nat \<Rightarrow> request_channel_frame \<Rightarrow> bytes" where
  "rc_serialize_buffer isShared headroom f = serializeIntoHeadroomIfPossible isShared headroom F_REQUEST_CHANNEL 10
     (rc_streamId f) (rc_flags f) (Some (rc_initialRequestN f)) (rc_payload f) (rc_serialize kMaxFragmentedPayloadSize f)"

definition pf_serialize_buffer :: "bool \<Rightarrow> nat \<Rightarrow> payload_frame \<Rightarrow> bytes" where
  "pf_serialize_buffer isShared headroom f = serializeIntoHeadroomIfPossible isShared headroom F_PAYLOAD 6
     (pf_streamId f) (pf_flags f) None (pf_payload f) (pf_serialize kMaxFragmentedPayloadSize f)"

subsection \<open>Parsing\<close>

definition read_common :: "'c cursor_api \<Rightarrow> ('c, u32 \<times> byte \<times> u16) st" where
  "read_common C = sbind (readStreamId C) (\<lambda>streamId. sbind (readFrameTypeAndFlags C) (\<lambda>(type, flags).
     sret (streamId, type, flags)))"

definition setup_parse :: "'c cursor_api \<Rightarrow> ('c \<Rightarrow> bytes) \<Rightarrow> ('c, setup_frame) st" where
  "setup_parse C rest = sbind (readStreamId C) (\<lambda>zero.
     sbind (sguard (\<not> zero \<noteq> 0) (NonZeroSetupStreamId zero)) (\<lambda>_.
     sbind (readFrameTypeAndFlags C) (\<lambda>(type, flags).
     sbind (c_readBE C 2) (\<lambda>majorVersion :: u16. sbind (c_readBE C 2) (\<lambda>minorVersion :: u16.
     sbind (sguard (\<not> (majorVersion \<noteq> 1 \<or> minorVersion \<noteq> 0)) (UnsupportedSetupVersion majorVersion minorVersion)) (\<lambda>_.
     sbind (c_skip C 8) (\<lambda>_.
     sbind (if flags_get RESUME_TOKEN flags
            then sbind (c_readBE C 2) (\<lambda>tokenLength :: u16. c_skip C (unat tokenLength)) else sret ()) (\<lambda>_.
     sbind (c_readBE C 1) (\<lambda>metadataMimeLength :: byte. sbind (c_read C (unat metadataMimeLength)) (\<lambda>metadataMimeType.
     sbind (c_readBE C 1) (\<lambda>dataMimeLength :: byte. sbind (c_read C (unat dataMimeLength)) (\<lambda>dataMimeType.
     sbind (readPayload C rest (flags_get METADATA flags)) (\<lambda>payload.
     sret \<lparr>sf_flags = flags, sf_resumeToken = [], sf_payload = payload,
       sf_rocketMimeTypes = (metadataMimeType = kRocketMetadataBinaryMimeType \<or>
         metadataMimeType = kRocketMetadataCompactMimeType) \<and> dataMimeType = kRocketPayloadMimeType,
       sf_encodeMetadataUsingBinary = (metadataMimeType = kRocketMetadataBinaryMimeType)\<rparr>)))))))))))))"

text \<open>The constructors that continue after the stream id, the type and the flags have been read.\<close>

definition rr_parse_rest :: "'c cursor_api \<Rightarrow> ('c \<Rightarrow> bytes) \<Rightarrow> u32 \<Rightarrow> u16 \<Rightarrow> ('c, request_response_frame) st" where
  "rr_parse_rest C rest streamId flags = sbind (readPayload C rest (flags_get METADATA flags)) (\<lambda>payload.
     sret \<lparr>rr_streamId = streamId, rr_flags = flags, rr_payload = payload\<rparr>)"

definition rf_parse_rest :: "'c cursor_api \<Rightarrow> ('c \<Rightarrow> bytes) \<Rightarrow> u32 \<Rightarrow> u16 \<Rightarrow> ('c, request_fnf_frame) st" where
  "rf_parse_rest C rest streamId flags = sbind (readPayload C rest (flags_get METADATA flags)) (\<lambda>payload.
     sret \<lparr>rf_streamId = streamId, rf_flags = flags, rf_payload = payload\<rparr>)"

definition rs_parse_rest :: "'c cursor_api \<Rightarrow> ('c \<Rightarrow> bytes) \<Rightarrow> u32 \<Rightarrow> u16 \<Rightarrow> ('c, request_stream_frame) st" where
  "rs_parse_rest C rest streamId flags = sbind (c_readBE C 4) (\<lambda>n.
     sbind (readPayload C rest (flags_get METADATA flags)) (\<lambda>payload.
     sret \<lparr>rs_streamId = streamId, rs_initialRequestN = n, rs_flags = flags, rs_payload = payload\<rparr>))"

definition rc_parse_rest :: "'c cursor_api \<Rightarrow> ('c \<Rightarrow> bytes) \<Rightarrow> u32 \<Rightarrow> u16 \<Rightarrow> ('c, request_channel_frame) st" where
  "rc_parse_rest C rest streamId flags = sbind (c_readBE C 4) (\<lambda>n.
     sbind (readPayload C rest (flags_get METADATA flags)) (\<lambda>payload.
     sret \<lparr>rc_streamId = streamId, rc_initialRequestN = n, rc_flags = flags, rc_payload = payload\<rparr>))"

definition rn_parse_rest :: "'c cursor_api \<Rightarrow> u32 \<Rightarrow> ('c, request_n_frame) st" where
  "rn_parse_rest C streamId = sbind (c_readBE C 4) (\<lambda>n. sret \<lparr>rn_streamId = streamId, rn_requestN = n\<rparr>)"

definition pf_parse_rest :: "'c cursor_api \<Rightarrow> ('c \<Rightarrow> bytes) \<Rightarrow> u32 \<Rightarrow> u16 \<Rightarrow> ('c, payload_frame) st" where
  "pf_parse_rest C rest streamId flags = sbind (readPayload C rest (flags_get METADATA flags)) (\<lambda>payload.
     sret \<lparr>pf_streamId = streamId, pf_flags = flags, pf_payload = payload\<rparr>)"

definition xf_parse_rest :: "'c cursor_api \<Rightarrow> ('c \<Rightarrow> bytes) \<Rightarrow> u32 \<Rightarrow> u16 \<Rightarrow> ('c, ext_frame) st" where
  "xf_parse_rest C rest streamId flags = sbind (readExtFrameType C) (\<lambda>extFrameType.
     sbind (readPayload C rest (flags_get METADATA flags)) (\<lambda>payload.
     sret \<lparr>xf_streamId = streamId, xf_flags = flags, xf_extFrameType = extFrameType, xf_payload = payload\<rparr>))"

text \<open>The constructors that parse a whole frame.\<close>

definition rr_parse :: "'c cursor_api \<Rightarrow> ('c \<Rightarrow> bytes) \<Rightarrow> ('c, request_response_frame) st" where
  "rr_parse C rest = sbind (read_common C) (\<lambda>(streamId, type, flags). rr_parse_rest C rest streamId flags)"

definition rf_parse :: "'c cursor_api \<Rightarrow> ('c \<Rightarrow> bytes) \<Rightarrow> ('c, request_fnf_frame) st" where
  "rf_parse C rest = sbind (read_common C) (\<lambda>(streamId, type, flags). rf_parse_rest C rest streamId flags)"

definition rs_parse :: "'c cursor_api \<Rightarrow> ('c \<Rightarrow> bytes) \<Rightarrow> ('c, request_stream_frame) st" where
  "rs_parse C rest = sbind (read_common C) (\<lambda>(streamId, type, flags). rs_parse_rest C rest streamId flags)"

definition rc_parse :: "'c cursor_api \<Rightarrow> ('c \<Rightarrow> bytes) \<Rightarrow> ('c, request_channel_frame) st" where
  "rc_parse C rest = sbind (read_common C) (\<lambda>(streamId, type, flags). rc_parse_rest C rest streamId flags)"

definition pf_parse :: "'c cursor_api \<Rightarrow> ('c \<Rightarrow> bytes) \<Rightarrow> ('c, payload_frame) st" where
  "pf_parse C rest = sbind (read_common C) (\<lambda>(streamId, type, flags). pf_parse_rest C rest streamId flags)"

definition xf_parse :: "'c cursor_api \<Rightarrow> ('c \<Rightarrow> bytes) \<Rightarrow> ('c, ext_frame) st" where
  "xf_parse C rest = sbind (read_common C) (\<lambda>(streamId, type, flags). xf_parse_rest C rest streamId flags)"

definition rn_parse :: "'c cursor_api \<Rightarrow> ('c, request_n_frame) st" where
  "rn_parse C = sbind (read_common C) (\<lambda>(streamId, type, flags). rn_parse_rest C streamId)"

definition cf_parse :: "'c cursor_api \<Rightarrow> ('c, cancel_frame) st" where
  "cf_parse C = sbind (read_common C) (\<lambda>(streamId, type, flags). sret \<lparr>cf_streamId = streamId\<rparr>)"

definition ef_parse :: "'c cursor_api \<Rightarrow> ('c \<Rightarrow> bytes) \<Rightarrow> ('c, error_frame) st" where
  "ef_parse C rest = sbind (read_common C) (\<lambda>(streamId, type, flags).
     sbind (c_readBE C 4) (\<lambda>errorCode. sbind (sget rest) (\<lambda>frame.
     sret \<lparr>ef_streamId = streamId, ef_errorCode = errorCode, ef_payload = makeFromData frame\<rparr>)))"

definition mp_parse :: "'c cursor_api \<Rightarrow> ('c \<Rightarrow> bytes) \<Rightarrow> ('c, metadata_push_frame) st" where
  "mp_parse C rest = sbind (read_common C) (\<lambda>(zero, type, flags).
     sbind (sget rest) (\<lambda>frame. sret \<lparr>mp_metadata = frame\<rparr>))"

definition ka_parse :: "'c cursor_api \<Rightarrow> ('c \<Rightarrow> bytes) \<Rightarrow> ('c, keep_alive_frame) st" where
  "ka_parse C rest = sbind (read_common C) (\<lambda>(zero, type, flags).
     sbind (c_skip C 8) (\<lambda>_. sbind (sget rest) (\<lambda>frame. sret \<lparr>ka_streamId = zero, ka_flags = flags, ka_data = frame\<rparr>)))"

subsection \<open>Any frame\<close>

datatype frame =
    Setup_Frame setup_frame
  | RequestResponse_Frame request_response_frame
  | RequestFnf_Frame request_fnf_frame
  | RequestStream_Frame request_stream_frame
  | RequestChannel_Frame request_channel_frame
  | RequestN_Frame request_n_frame
  | Cancel_Frame cancel_frame
  | Payload_Frame payload_frame
  | Error_Frame error_frame
  | MetadataPush_Frame metadata_push_frame
  | KeepAlive_Frame keep_alive_frame
  | Ext_Frame ext_frame

definition as_frame :: "('a \<Rightarrow> frame) \<Rightarrow> thrift_error + ('a \<times> 'c) \<Rightarrow> thrift_error + frame" where
  "as_frame k x = (case x of Inl e \<Rightarrow> Inl e | Inr (f, c) \<Rightarrow> Inr (k f))"

text \<open>
  The frame a receiver builds: the stream id, the type and the flags select the constructor, as in the
  \<open>switch\<close> of \<open>RocketServerConnection::handleFrame\<close>; constructors that take only the buffer start
  over with a cursor of their own.
\<close>

definition parse_frame :: "'c cursor_api \<Rightarrow> ('c \<Rightarrow> bytes) \<Rightarrow> 'c \<Rightarrow> thrift_error + frame" where
  "parse_frame C rest c0 = (case read_common C c0 of
     Inl e \<Rightarrow> Inl e
   | Inr ((streamId, frameType, flags), c) \<Rightarrow>
       if frameType = F_SETUP then as_frame Setup_Frame (setup_parse C rest c0)
       else if frameType = F_REQUEST_RESPONSE then as_frame RequestResponse_Frame (rr_parse_rest C rest streamId flags c)
       else if frameType = F_REQUEST_FNF then as_frame RequestFnf_Frame (rf_parse_rest C rest streamId flags c)
       else if frameType = F_REQUEST_STREAM then as_frame RequestStream_Frame (rs_parse_rest C rest streamId flags c)
       else if frameType = F_REQUEST_CHANNEL then as_frame RequestChannel_Frame (rc_parse_rest C rest streamId flags c)
       else if frameType = F_KEEPALIVE then as_frame KeepAlive_Frame (ka_parse C rest c0)
       else if frameType = F_REQUEST_N then as_frame RequestN_Frame (rn_parse_rest C streamId c)
       else if frameType = F_CANCEL then Inr (Cancel_Frame \<lparr>cf_streamId = streamId\<rparr>)
       else if frameType = F_PAYLOAD then as_frame Payload_Frame (pf_parse_rest C rest streamId flags c)
       else if frameType = F_ERROR then as_frame Error_Frame (ef_parse C rest c0)
       else if frameType = F_METADATA_PUSH then as_frame MetadataPush_Frame (mp_parse C rest c0)
       else as_frame Ext_Frame (xf_parse_rest C rest streamId flags c))"

text \<open>The bytes of a frame that needs no fragmentation.\<close>

fun frame_bytes :: "frame \<Rightarrow> thrift_error + bytes" where
  "frame_bytes (Setup_Frame f) = Inr (setup_serialize f)"
| "frame_bytes (RequestResponse_Frame f) = Inr (rr_serializeIntoSingleFrame f)"
| "frame_bytes (RequestFnf_Frame f) = Inr (rf_serializeIntoSingleFrame f)"
| "frame_bytes (RequestStream_Frame f) = Inr (rs_serializeIntoSingleFrame f)"
| "frame_bytes (RequestChannel_Frame f) = Inr (rc_serializeIntoSingleFrame f)"
| "frame_bytes (RequestN_Frame f) = Inr (rn_serialize f)"
| "frame_bytes (Cancel_Frame f) = Inr (cf_serialize f)"
| "frame_bytes (Payload_Frame f) = Inr (pf_serializeIntoSingleFrame f)"
| "frame_bytes (Error_Frame f) = Inr (ef_serialize f)"
| "frame_bytes (MetadataPush_Frame f) = Inr (mp_serialize f)"
| "frame_bytes (KeepAlive_Frame f) = Inr (ka_serialize f)"
| "frame_bytes (Ext_Frame f) = xf_serialize f"

text \<open>The bytes every class's \<open>serialize(IOBufFactory*)\<close> returns.\<close>

fun frame_serialize :: "bool \<Rightarrow> nat \<Rightarrow> frame \<Rightarrow> thrift_error + bytes" where
  "frame_serialize isShared headroom (RequestResponse_Frame f) = Inr (rr_serialize_buffer isShared headroom f)"
| "frame_serialize isShared headroom (RequestFnf_Frame f) = Inr (rf_serialize_buffer isShared headroom f)"
| "frame_serialize isShared headroom (RequestStream_Frame f) = Inr (rs_serialize_buffer isShared headroom f)"
| "frame_serialize isShared headroom (RequestChannel_Frame f) = Inr (rc_serialize_buffer isShared headroom f)"
| "frame_serialize isShared headroom (Payload_Frame f) = Inr (pf_serialize_buffer isShared headroom f)"
| "frame_serialize isShared headroom (Setup_Frame f) = Inr (setup_serialize f)"
| "frame_serialize isShared headroom (RequestN_Frame f) = Inr (rn_serialize f)"
| "frame_serialize isShared headroom (Cancel_Frame f) = Inr (cf_serialize f)"
| "frame_serialize isShared headroom (Error_Frame f) = Inr (ef_serialize f)"
| "frame_serialize isShared headroom (MetadataPush_Frame f) = Inr (mp_serialize f)"
| "frame_serialize isShared headroom (KeepAlive_Frame f) = Inr (ka_serialize f)"
| "frame_serialize isShared headroom (Ext_Frame f) = xf_serialize f"

declare fragments_loop.simps [simp del]

end
