(* ===== verification/Rocket_Roundtrip.thy ===== *)
theory Rocket_Roundtrip
  imports Rocket_Frames
begin

unbundle bit_operations_syntax

text \<open>
  What one side of a rocket connection serializes the other side parses.  The relation \<open>reads\<close> says
  that a reader consumes exactly a given sequence of bytes and returns a given result, \<open>parses\<close> that
  it does so on the last bytes of a frame; both compose along \<open>sbind\<close>, so that the proof for a frame
  class follows the order in which its constructor reads.
\<close>

section \<open>Flags\<close>

definition flags_ok :: "u16 \<Rightarrow> bool" where
  "flags_ok flags \<longleftrightarrow> flags AND kFlagMask = flags \<and> flags AND kInvalidMask = 0"

lemma flags_ok_consts [simp]: "flags_ok 0" "flags_ok NEXT" "flags_ok COMPLETE" "flags_ok FOLLOWS" "flags_ok METADATA"
  "flags_ok IGNORE" "flags_ok 0xC0" "flags_ok 0xE0"
  by (simp_all add: flags_ok_def kFlagMask_def kInvalidMask_def)

lemma flags_ok_set [simp]: "flags_ok bits \<Longrightarrow> flags_ok flags \<Longrightarrow> flags_ok (flags_set bits on flags)"
proof -
  assume b: "flags_ok bits" and f: "flags_ok flags"
  have "(flags AND NOT bits) AND kFlagMask = flags AND NOT bits"
    using f unfolding flags_ok_def by (metis and.assoc and.commute)
  moreover have "(flags AND NOT bits) AND kInvalidMask = 0"
    using f unfolding flags_ok_def by (metis and.assoc and.commute and_zero_eq)
  ultimately show ?thesis using b f
    by (auto simp: flags_ok_def flags_set_def bit.conj_disj_distrib2)
qed

lemma flags_get_set [simp]: "bits \<noteq> 0 \<Longrightarrow> flags_get bits (flags_set bits on flags) = on"
proof -
  assume "bits \<noteq> 0"
  moreover have "(flags OR bits) AND bits = bits" "(flags AND NOT bits) AND bits = 0"
    by (rule bit_word_eqI; auto simp: bit_simps)+
  ultimately show ?thesis by (simp add: flags_get_def flags_set_def)
qed

lemma flags_get_set_other: "bits AND bits' = 0 \<Longrightarrow> flags_get bits' (flags_set bits on flags) = flags_get bits' flags"
proof -
  assume d: "bits AND bits' = 0"
  then have "\<not> (bit bits n \<and> bit bits' n)" for n by (metis bit_0_eq bit_and_iff bot_apply bot_bool_def)
  then have "(flags OR bits) AND bits' = flags AND bits'" "(flags AND NOT bits) AND bits' = flags AND bits'"
    by (intro bit_word_eqI; auto simp: bit_simps)+
  then show ?thesis by (simp add: flags_get_def flags_set_def)
qed

lemma flags_get_other [simp]:
  "flags_get METADATA (flags_set FOLLOWS on f) = flags_get METADATA f"
  "flags_get METADATA (flags_set COMPLETE on f) = flags_get METADATA f"
  "flags_get METADATA (flags_set NEXT on f) = flags_get METADATA f"
  "flags_get METADATA (flags_set IGNORE on f) = flags_get METADATA f"
  "flags_get FOLLOWS (flags_set METADATA on f) = flags_get FOLLOWS f"
  "flags_get FOLLOWS (flags_set COMPLETE on f) = flags_get FOLLOWS f"
  "flags_get FOLLOWS (flags_set NEXT on f) = flags_get FOLLOWS f"
  "flags_get COMPLETE (flags_set METADATA on f) = flags_get COMPLETE f"
  "flags_get COMPLETE (flags_set FOLLOWS on f) = flags_get COMPLETE f"
  "flags_get COMPLETE (flags_set NEXT on f) = flags_get COMPLETE f"
  "flags_get NEXT (flags_set METADATA on f) = flags_get NEXT f"
  "flags_get NEXT (flags_set FOLLOWS on f) = flags_get NEXT f"
  "flags_get NEXT (flags_set COMPLETE on f) = flags_get NEXT f"
  by (rule flags_get_set_other; simp)+

lemma flags_get_IGNORE [simp]: "flags_get IGNORE (flags_set METADATA on f) = flags_get IGNORE f"
  by (rule flags_get_set_other) simp

lemma flags_get_0 [simp]: "\<not> flags_get bits 0"
  by (simp add: flags_get_def)

section \<open>Reading what was written\<close>

definition reads :: "('c \<Rightarrow> bytes) \<Rightarrow> ('c, 'a) st \<Rightarrow> bytes \<Rightarrow> 'a \<Rightarrow> bool" where
  "reads rem m bs x \<longleftrightarrow> (\<forall>c rest. rem c = bs @ rest \<longrightarrow> (\<exists>c'. m c = Inr (x, c') \<and> rem c' = rest))"

definition parses :: "('c \<Rightarrow> bytes) \<Rightarrow> ('c, 'a) st \<Rightarrow> bytes \<Rightarrow> 'a \<Rightarrow> bool" where
  "parses rem m bs x \<longleftrightarrow> (\<forall>c. rem c = bs \<longrightarrow> (\<exists>c'. m c = Inr (x, c')))"

lemma reads_sbind: "reads rem m bs x \<Longrightarrow> reads rem (k x) bs' y \<Longrightarrow> reads rem (sbind m k) (bs @ bs') y"
  unfolding reads_def by (metis append.assoc sbind_Inr)

lemma parses_sbind: "reads rem m bs x \<Longrightarrow> parses rem (k x) bs' y \<Longrightarrow> parses rem (sbind m k) (bs @ bs') y"
  unfolding reads_def parses_def by (metis sbind_Inr)

lemma reads_sret [simp]: "reads rem (sret x) [] x"
  by (auto simp: reads_def)

lemma reads_parses: "reads rem m bs x \<Longrightarrow> parses rem m bs x"
  unfolding reads_def parses_def by (metis append_Nil2)

definition payload_ok :: "payload \<Rightarrow> bool" where
  "payload_ok p \<longleftrightarrow> p_metadataAndDataSize p = length (p_buffer p) \<and> p_metadataSize p < 2 ^ 24"

lemma unat_u24: "n < 2 ^ 24 \<Longrightarrow> unat (of_nat n :: u64) = n"
  by (simp add: unat_of_nat take_bit_nat_eq_self)

lemma u24_bytes: "writeInt24BE n = writeFrameOrMetadataSize n"
proof -
  have ff: "(w :: u64) AND 0xFF = take_bit 8 w" for w
    by (simp add: take_bit_eq_mask mask_eq_exp_minus_1)
  have "ucast (take_bit 8 w) = (ucast w :: byte)" for w :: u64
    by (rule bit_word_eqI) (auto simp: bit_simps)
  then show ?thesis
    by (simp add: writeInt24BE_def writeFrameOrMetadataSize_def numeral_3_eq_3 ff Let_def)
qed

context cursor begin

lemma reads_BE: "LENGTH('w) \<le> 8 * k \<Longrightarrow> reads rem (c_readBE C k) (be_bytes k w) (w :: 'w::len word)"
  unfolding reads_def using c_readBE_app [of _ "be_bytes k w" _ k w] by (simp add: be_word_be_bytes)

lemma reads_bytes: "length bs = n \<Longrightarrow> reads rem (c_read C n) bs bs"
  unfolding reads_def using c_read_app by blast

lemma reads_skip: "length bs = n \<Longrightarrow> reads rem (c_skip C n) bs ()"
  unfolding reads_def using c_skip_app by blast

lemma reads_size: 
  assumes "n < 2 ^ 24"
  shows "reads rem (readFrameOrMetadataSize C) (writeFrameOrMetadataSize n) n"
  unfolding reads_def
proof (intro allI impI)
  fix c rest assume "rem c = writeFrameOrMetadataSize n @ rest"
  then obtain c' where c': "c_read C 3 c = Inr (writeFrameOrMetadataSize n, c')" "rem c' = rest"
    using c_read_app [of c "writeFrameOrMetadataSize n" rest 3] by (auto simp: writeFrameOrMetadataSize_def)
  let ?w = "of_nat n :: u64"
  have b: "writeFrameOrMetadataSize n = [ucast (drop_bit 8 (drop_bit 8 ?w)), ucast (drop_bit 8 ?w), ucast ?w]"
    by (simp add: writeFrameOrMetadataSize_def numeral_3_eq_3)
  have "push_bit 16 (ucast (ucast (drop_bit 16 ?w) :: byte)) OR push_bit 8 (ucast (ucast (drop_bit 8 ?w) :: byte)) OR
      ucast (ucast ?w :: byte) = take_bit 24 ?w"
    by (rule bit_word_eqI) (auto simp: bit_simps)
  also have "\<dots> = ?w" using assms by (intro unsigned_word_eqI [where 'a = nat]) (simp add: unsigned_take_bit_eq unat_of_nat take_bit_nat_eq_self)
  finally show "\<exists>c'. readFrameOrMetadataSize C c = Inr (n, c') \<and> rem c' = rest"
    using c' assms unat_u24 by (auto simp: readFrameOrMetadataSize_def b)
qed

lemma reads_type_flags:
  assumes "t \<in> set frame_types" and "flags_ok flags"
  shows "reads rem (readFrameTypeAndFlags C) (writeFrameTypeAndFlags t flags) (t, flags)"
proof -
  let ?w = "push_bit kFlagBits (ucast t) OR flags :: u16"
  have m: "kFlagMask = mask 10" by (simp add: kFlagMask_def mask_eq_exp_minus_1)
  have t6: "\<forall>t\<in>set frame_types. take_bit 6 t = t" by code_simp
  then have t: "\<not> bit t n" if "6 \<le> n" for n using that assms(1) by (metis bit_take_bit_iff not_le)
  then have t': "bit t n \<Longrightarrow> n < 6" for n by (meson not_le)
  have f: "\<not> bit flags n" if "10 \<le> n" for n
    using that assms(2) unfolding flags_ok_def m by (metis bit_mask_iff bit_and_iff not_le)
  then have f': "bit flags n \<Longrightarrow> n < 10" for n by (meson not_le)
  have "ucast (drop_bit kFlagBits ?w) = t"
    by (rule bit_word_eqI) (auto simp: bit_simps kFlagBits_def f dest: t')
  moreover have "?w AND kFlagMask = flags"
    unfolding m by (rule bit_word_eqI) (auto simp: bit_simps kFlagBits_def dest: f')
  ultimately have "reads rem (sbind (flags_make (?w AND kFlagMask)) (\<lambda>flags. sret (ucast (drop_bit kFlagBits ?w), flags))) [] (t, flags)"
    using assms(2) by (simp add: reads_def flags_make_def flags_ok_def)
  then have "reads rem (readFrameTypeAndFlagsUnsafe C) (writeFrameTypeAndFlags t flags @ []) (t, flags)"
    unfolding readFrameTypeAndFlagsUnsafe_def writeFrameTypeAndFlags_def by (rule reads_sbind [OF reads_BE, rotated]) simp
  then have "reads rem (readFrameTypeAndFlags C) ((writeFrameTypeAndFlags t flags @ []) @ []) (t, flags)"
    unfolding readFrameTypeAndFlags_def by (rule reads_sbind) (simp add: assms(1) reads_def)
  then show ?thesis by simp
qed

lemma reads_common:
  assumes "t \<in> set frame_types" and "flags_ok flags"
  shows "reads rem (read_common C) (writeStreamId s @ writeFrameTypeAndFlags t flags) (s, t, flags)"
proof -
  have "reads rem (read_common C) (writeStreamId s @ writeFrameTypeAndFlags t flags @ []) (s, t, flags)"
    unfolding read_common_def readStreamId_def writeStreamId_def
    by (rule reads_sbind [OF reads_BE], simp, rule reads_sbind [OF reads_type_flags [OF assms]], simp)
  then show ?thesis by simp
qed

lemma parses_rest: "k bs = x \<Longrightarrow> parses rem (sbind (sget rem) (\<lambda>frame. sret (k frame))) bs x"
  by (simp add: parses_def)

lemma parses_payload:
  assumes "payload_ok p" and "k p = x"
  shows "parses rem (sbind (readPayload C rem (hasNonemptyMetadata p)) (\<lambda>p. sret (k p))) (writePayload p) x"
proof -
  have "parses rem (sbind (sget rem) (\<lambda>b. sret (k (makeCombined b (p_metadataSize p))))) (p_buffer p) x"
    using assms by (cases p) (simp add: parses_def makeCombined_def payload_ok_def)
  note rest = this
  show ?thesis
  proof (cases "hasNonemptyMetadata p")
    case True
    then have "writePayload p = writeFrameOrMetadataSize (p_metadataSize p) @ p_buffer p"
      by (simp add: writePayload_def)
    moreover have "p_metadataSize p < 2 ^ 24" using assms(1) by (simp add: payload_ok_def)
    ultimately show ?thesis
      unfolding readPayload_def sbind_assoc using True rest by (auto intro!: parses_sbind [OF reads_size] simp del: sret_apply)
  next
    case False
    then show ?thesis using rest by (auto simp: parses_def readPayload_def writePayload_def hasNonemptyMetadata_def)
  qed
qed

lemma parses_framed:
  assumes "t \<in> set frame_types" and "flags_ok flags" and "parses rem (k (s, t, flags)) bs x"
  shows "parses rem (sbind (read_common C) k) (writeStreamId s @ writeFrameTypeAndFlags t flags @ bs) x"
  using parses_sbind [of rem "read_common C", OF reads_common [OF assms(1,2), of s], of k, OF assms(3)] by simp

lemma parse_frame_reads:
  assumes "rem c = writeStreamId s @ writeFrameTypeAndFlags t flags @ bs"
    and "t \<in> set frame_types" and "flags_ok flags"
  obtains c' where "read_common C c = Inr ((s, t, flags), c')" and "rem c' = bs"
  using reads_common [OF assms(2,3), of s] assms(1) unfolding reads_def by (metis append.assoc)

end

section \<open>The round trip\<close>

lemma single_flag: "flags AND 2 ^ n = (if flags_get (2 ^ n) flags then 2 ^ n else 0)" if "n < 16"
proof -
  have "flags AND 2 ^ n = 0 \<or> flags AND 2 ^ n = 2 ^ n"
    by (metis (no_types, lifting) and_exp_eq_0_iff_not_bit and.commute bit_and_iff bit_exp_iff bit_word_eqI)
  then show ?thesis by (auto simp: flags_get_def)
qed

lemmas single_flags = single_flag [of 5, simplified] single_flag [of 6, simplified] single_flag [of 7, simplified]
  single_flag [of 8, simplified] single_flag [of 9, simplified]

lemma flags_set_get: "flags_set (2 ^ n) (flags_get (2 ^ n) flags) flags = flags" if "n < 16"
proof (cases "flags_get (2 ^ n) flags")
  case True
  then have "flags AND 2 ^ n = 2 ^ n" using single_flag [OF that, of flags] by simp
  moreover have "flags OR (flags AND 2 ^ n) = flags"
    by (rule bit_word_eqI) (auto simp: bit_or_iff bit_and_iff)
  ultimately show ?thesis using True by (simp add: flags_set_def)
next
  case False
  then have "flags AND 2 ^ n = 0" by (simp add: flags_get_def)
  moreover have "(flags AND 2 ^ n) OR (flags AND NOT (2 ^ n)) = flags"
    by (rule bit_word_eqI) (auto simp: bit_or_iff bit_and_iff bit_not_iff)
  ultimately show ?thesis using False by (simp add: flags_set_def)
qed

text \<open>The flags that reach the wire: those of \<open>keep\<close> the class keeps, and whether there is metadata.\<close>

definition wire_flags :: "u16 \<Rightarrow> u16 \<Rightarrow> payload \<Rightarrow> u16" where
  "wire_flags keep flags p = (flags AND keep) OR (if hasNonemptyMetadata p then METADATA else 0)"

text \<open>What the receiver sees of a frame.\<close>

fun received :: "frame \<Rightarrow> frame" where
  "received (Setup_Frame f) = Setup_Frame \<lparr>sf_flags = wire_flags RESUME_TOKEN (sf_flags f) (sf_payload f),
     sf_resumeToken = [], sf_payload = sf_payload f, sf_rocketMimeTypes = sf_rocketMimeTypes f,
     sf_encodeMetadataUsingBinary = (sf_rocketMimeTypes f \<and> sf_encodeMetadataUsingBinary f)\<rparr>"
| "received (RequestResponse_Frame f) = RequestResponse_Frame (f\<lparr>rr_flags := wire_flags FOLLOWS (rr_flags f) (rr_payload f)\<rparr>)"
| "received (RequestFnf_Frame f) = RequestFnf_Frame (f\<lparr>rf_flags := wire_flags FOLLOWS (rf_flags f) (rf_payload f)\<rparr>)"
| "received (RequestStream_Frame f) = RequestStream_Frame (f\<lparr>rs_flags := wire_flags FOLLOWS (rs_flags f) (rs_payload f)\<rparr>)"
| "received (RequestChannel_Frame f) = RequestChannel_Frame
     (f\<lparr>rc_flags := wire_flags (FOLLOWS OR COMPLETE) (rc_flags f) (rc_payload f)\<rparr>)"
| "received (RequestN_Frame f) = RequestN_Frame f"
| "received (Cancel_Frame f) = Cancel_Frame f"
| "received (Payload_Frame f) = Payload_Frame
     (f\<lparr>pf_flags := wire_flags (FOLLOWS OR COMPLETE OR NEXT) (pf_flags f) (pf_payload f)\<rparr>)"
| "received (Error_Frame f) = Error_Frame f"
| "received (MetadataPush_Frame f) = MetadataPush_Frame f"
| "received (KeepAlive_Frame f) = KeepAlive_Frame (f\<lparr>ka_streamId := 0\<rparr>)"
| "received (Ext_Frame f) = Ext_Frame (f\<lparr>xf_extFrameType := 0,
     xf_flags := flags_set METADATA (hasNonemptyMetadata (xf_payload f)) (xf_flags f)\<rparr>)"

fun frame_ok :: "frame \<Rightarrow> bool" where
  "frame_ok (Setup_Frame f) = (payload_ok (sf_payload f) \<and> length (sf_resumeToken f) < 2 ^ 16)"
| "frame_ok (RequestResponse_Frame f) = payload_ok (rr_payload f)"
| "frame_ok (RequestFnf_Frame f) = payload_ok (rf_payload f)"
| "frame_ok (RequestStream_Frame f) = payload_ok (rs_payload f)"
| "frame_ok (RequestChannel_Frame f) = payload_ok (rc_payload f)"
| "frame_ok (RequestN_Frame f) = True"
| "frame_ok (Cancel_Frame f) = True"
| "frame_ok (Payload_Frame f) = payload_ok (pf_payload f)"
| "frame_ok (Error_Frame f) = (payload_ok (ef_payload f) \<and> p_metadataSize (ef_payload f) = 0)"
| "frame_ok (MetadataPush_Frame f) = True"
| "frame_ok (KeepAlive_Frame f) = flags_ok (ka_flags f)"
| "frame_ok (Ext_Frame f) = (payload_ok (xf_payload f) \<and> flags_ok (xf_flags f))"

lemma wire_flags_simps:
  "flags_set METADATA (hasNonemptyMetadata p) 0 = wire_flags 0 flags p"
  "flags_set FOLLOWS (flags_get FOLLOWS flags) (wire_flags 0 flags p) = wire_flags FOLLOWS flags p"
  "flags_set COMPLETE (flags_get COMPLETE flags) (wire_flags FOLLOWS flags p) = wire_flags (FOLLOWS OR COMPLETE) flags p"
  "flags_set NEXT (flags_get NEXT flags) (wire_flags (FOLLOWS OR COMPLETE) flags p) = wire_flags (FOLLOWS OR COMPLETE OR NEXT) flags p"
proof -
  have two: "flags AND 0xC0 = (flags AND 0x80) OR (flags AND 0x40)"
    using bit.conj_disj_distrib(1) [where x = flags and y = "0x80" and z = "0x40"] by simp
  have three: "flags AND 0xE0 = (flags AND 0xC0) OR (flags AND 0x20)"
    using bit.conj_disj_distrib(1) [where x = flags and y = "0xC0" and z = "0x20"] by simp
  show "flags_set METADATA (hasNonemptyMetadata p) 0 = wire_flags 0 flags p"
    by (simp add: wire_flags_def flags_set_def)
  show "flags_set FOLLOWS (flags_get FOLLOWS flags) (wire_flags 0 flags p) = wire_flags FOLLOWS flags p"
    by (simp add: wire_flags_def flags_set_def single_flags)
  show "flags_set COMPLETE (flags_get COMPLETE flags) (wire_flags FOLLOWS flags p) = wire_flags (FOLLOWS OR COMPLETE) flags p"
    by (simp add: wire_flags_def flags_set_def two) (simp add: single_flags)
  show "flags_set NEXT (flags_get NEXT flags) (wire_flags (FOLLOWS OR COMPLETE) flags p) =
    wire_flags (FOLLOWS OR COMPLETE OR NEXT) flags p"
    by (simp add: wire_flags_def flags_set_def three two) (simp add: single_flags)
qed

lemma flags_ok_or [simp]: "flags_ok a \<Longrightarrow> flags_ok b \<Longrightarrow> flags_ok (a OR b)"
  by (simp add: flags_ok_def word_ao_dist)

lemma flags_ok_and [simp]: "flags_ok b \<Longrightarrow> flags_ok (a AND b)"
  by (simp add: flags_ok_def and.assoc)

lemma wire_flags_ok [simp]: "flags_ok keep \<Longrightarrow> flags_ok (wire_flags keep flags p)"
  by (simp add: wire_flags_def)

lemma wire_flags_metadata [simp]: "keep AND METADATA = 0 \<Longrightarrow> flags_get METADATA (wire_flags keep flags p) \<longleftrightarrow> hasNonemptyMetadata p"
  by (auto simp: wire_flags_def flags_get_def word_ao_dist and.assoc)

lemma length_writePayload: "payload_ok p \<Longrightarrow> length (writePayload p) = serializedSize p"
  by (simp add: writePayload_def serializedSize_def payload_ok_def writeFrameOrMetadataSize_def)

lemma length_header [simp]:
  "length (writeStreamId s) = 4" "length (writeFrameTypeAndFlags t flags) = 2" "length (writeFrameOrMetadataSize n) = 3"
  by (simp_all add: writeStreamId_def writeFrameTypeAndFlags_def writeFrameOrMetadataSize_def)

lemma frame_types_mem [simp]: "t \<in> set frame_types \<longleftrightarrow> t = F_SETUP \<or> t = F_REQUEST_RESPONSE \<or> t = F_REQUEST_FNF \<or>
    t = F_REQUEST_STREAM \<or> t = F_REQUEST_CHANNEL \<or> t = F_REQUEST_N \<or> t = F_CANCEL \<or> t = F_PAYLOAD \<or> t = F_ERROR \<or>
    t = F_METADATA_PUSH \<or> t = F_KEEPALIVE \<or> t = F_EXT"
  by (auto simp: frame_types_def)

definition delivers :: "'c cursor_api \<Rightarrow> ('c \<Rightarrow> bytes) \<Rightarrow> bytes \<Rightarrow> frame \<Rightarrow> bool" where
  "delivers C rem bs f \<longleftrightarrow> (\<exists>body. bs = writeFrameOrMetadataSize (length body) @ body \<and>
     (\<forall>c. rem c = body \<longrightarrow> parse_frame C rem c = Inr f))"

context cursor begin

lemma parses_sguard: "b \<Longrightarrow> parses rem (k ()) bs x \<Longrightarrow> parses rem (sbind (sguard b e) k) bs x"
  by (simp add: parses_def sbind_def)

lemma delivers_rest:
  assumes "t \<in> set frame_types" and "flags_ok flags" and "n = 6 + length tail"
    and "parses rem (p s flags) tail x"
    and "\<And>c c'. read_common C c = Inr ((s, t, flags), c') \<Longrightarrow> parse_frame C rem c = as_frame K (p s flags c')"
  shows "delivers C rem (writeFrameOrMetadataSize n @ writeStreamId s @ writeFrameTypeAndFlags t flags @ tail) (K x)"
  unfolding delivers_def
proof (intro exI conjI allI impI)
  show "writeFrameOrMetadataSize n @ writeStreamId s @ writeFrameTypeAndFlags t flags @ tail =
      writeFrameOrMetadataSize (length (writeStreamId s @ writeFrameTypeAndFlags t flags @ tail)) @
      writeStreamId s @ writeFrameTypeAndFlags t flags @ tail"
    using assms(3) by simp
next
  fix c assume "rem c = writeStreamId s @ writeFrameTypeAndFlags t flags @ tail"
  then obtain c' where c': "read_common C c = Inr ((s, t, flags), c')" "rem c' = tail"
    using parse_frame_reads assms(1,2) by metis
  then obtain c'' where "p s flags c' = Inr (x, c'')" using assms(4) unfolding parses_def by blast
  then show "parse_frame C rem c = Inr (K x)" using assms(5) [OF c'(1)] by (simp add: as_frame_def)
qed

lemma delivers_whole:
  assumes "t \<in> set frame_types" and "flags_ok flags" and "n = 6 + length tail"
    and "parses rem p (writeStreamId s @ writeFrameTypeAndFlags t flags @ tail) x"
    and "\<And>c c'. read_common C c = Inr ((s, t, flags), c') \<Longrightarrow> parse_frame C rem c = as_frame K (p c)"
  shows "delivers C rem (writeFrameOrMetadataSize n @ writeStreamId s @ writeFrameTypeAndFlags t flags @ tail) (K x)"
  unfolding delivers_def
proof (intro exI conjI allI impI)
  show "writeFrameOrMetadataSize n @ writeStreamId s @ writeFrameTypeAndFlags t flags @ tail =
      writeFrameOrMetadataSize (length (writeStreamId s @ writeFrameTypeAndFlags t flags @ tail)) @
      writeStreamId s @ writeFrameTypeAndFlags t flags @ tail"
    using assms(3) by simp
next
  fix c assume c: "rem c = writeStreamId s @ writeFrameTypeAndFlags t flags @ tail"
  then obtain c' where c': "read_common C c = Inr ((s, t, flags), c')" "rem c' = tail"
    using parse_frame_reads assms(1,2) by metis
  from c obtain c'' where "p c = Inr (x, c'')" using assms(4) unfolding parses_def by blast
  then show "parse_frame C rem c = Inr (K x)" using assms(5) [OF c'(1)] by (simp add: as_frame_def)
qed


lemma parses_sret: "x = y \<Longrightarrow> parses rem (sret x) bs y"
  by (simp add: parses_def)


lemma delivers_rr:
  assumes "payload_ok (rr_payload f)"
  shows "delivers C rem (rr_serializeIntoSingleFrame f) (received (RequestResponse_Frame f))"
  unfolding rr_serializeIntoSingleFrame_def Let_def wire_flags_simps(1) [where flags = "rr_flags f"] wire_flags_simps
    received.simps
  by (rule delivers_rest [where K = RequestResponse_Frame and p = "rr_parse_rest C rem"])
   (auto simp: parse_frame_def rr_parse_rest_def length_writePayload assms intro!: parses_payload)

lemma delivers_rf:
  assumes "payload_ok (rf_payload f)"
  shows "delivers C rem (rf_serializeIntoSingleFrame f) (received (RequestFnf_Frame f))"
  unfolding rf_serializeIntoSingleFrame_def Let_def wire_flags_simps(1) [where flags = "rf_flags f"] wire_flags_simps
    received.simps
  by (rule delivers_rest [where K = RequestFnf_Frame and p = "rf_parse_rest C rem"])
   (auto simp: parse_frame_def rf_parse_rest_def length_writePayload assms intro!: parses_payload)

lemma delivers_rs:
  assumes "payload_ok (rs_payload f)"
  shows "delivers C rem (rs_serializeIntoSingleFrame f) (received (RequestStream_Frame f))"
  unfolding rs_serializeIntoSingleFrame_def Let_def wire_flags_simps(1) [where flags = "rs_flags f"] wire_flags_simps
    received.simps
  by (rule delivers_rest [where K = RequestStream_Frame and p = "rs_parse_rest C rem"])
   (auto simp: parse_frame_def rs_parse_rest_def length_writePayload assms intro!: parses_sbind [OF reads_BE] parses_payload)

lemma delivers_rc:
  assumes "payload_ok (rc_payload f)"
  shows "delivers C rem (rc_serializeIntoSingleFrame f) (received (RequestChannel_Frame f))"
  unfolding rc_serializeIntoSingleFrame_def Let_def wire_flags_simps(1) [where flags = "rc_flags f"] wire_flags_simps
    received.simps
  by (rule delivers_rest [where K = RequestChannel_Frame and p = "rc_parse_rest C rem"])
   (auto simp: parse_frame_def rc_parse_rest_def length_writePayload assms intro!: parses_sbind [OF reads_BE] parses_payload)

lemma delivers_pf:
  assumes "payload_ok (pf_payload f)"
  shows "delivers C rem (pf_serializeIntoSingleFrame f) (received (Payload_Frame f))"
  unfolding pf_serializeIntoSingleFrame_def Let_def wire_flags_simps(1) [where flags = "pf_flags f"] wire_flags_simps
    received.simps
  by (rule delivers_rest [where K = Payload_Frame and p = "pf_parse_rest C rem"])
   (auto simp: parse_frame_def pf_parse_rest_def length_writePayload assms intro!: parses_payload)

lemma reads_mime:
  assumes "length m < 256"
  shows "reads rem (sbind (c_readBE C 1) (\<lambda>n :: byte. c_read C (unat n))) (be_bytes 1 (of_nat (length m) :: byte) @ m) m"
  using assms by (intro reads_sbind [OF reads_BE] reads_bytes) (simp_all add: unat_of_nat)

lemma parses_mime:
  assumes "length m < 256" and "parses rem (k m) bs x"
  shows "parses rem (sbind (c_readBE C 1) (\<lambda>n :: byte. sbind (c_read C (unat n)) k))
    (be_bytes 1 (of_nat (length m) :: byte) @ m @ bs) x"
  using parses_sbind [OF reads_mime [OF assms(1)], of k, OF assms(2)] by (simp add: sbind_assoc)

lemma reads_token:
  assumes "length tok < 2 ^ 16"
  shows "reads rem (if b then sbind (c_readBE C 2) (\<lambda>n :: u16. c_skip C (unat n)) else sret ())
    (if b then be_bytes 2 (of_nat (length tok) :: u16) @ tok else []) ()"
  using assms by (auto intro!: reads_sbind [OF reads_BE] reads_skip simp: unat_of_nat take_bit_nat_eq_self)

lemma mime_types:
  "kRocketMetadataBinaryMimeType \<noteq> kRocketMetadataCompactMimeType" "kLegacyMimeType \<noteq> kRocketPayloadMimeType"
  "kLegacyMimeType \<noteq> kRocketMetadataBinaryMimeType"
  "length kRocketMetadataBinaryMimeType = 36" "length kRocketMetadataCompactMimeType = 37"
  "length kLegacyMimeType = 10" "length kRocketPayloadMimeType = 28"
  by code_simp+

lemma delivers_sf:
  assumes "payload_ok (sf_payload f)" and "length (sf_resumeToken f) < 2 ^ 16"
  shows "delivers C rem (setup_serialize f) (received (Setup_Frame f))"
proof -
  let ?flags = "wire_flags RESUME_TOKEN (sf_flags f) (sf_payload f)"
  have tok: "flags_get RESUME_TOKEN (sf_flags f) = flags_get RESUME_TOKEN ?flags"
    by (simp add: wire_flags_def flags_get_def word_ao_dist and.assoc)
  have md: "flags_get METADATA ?flags = hasNonemptyMetadata (sf_payload f)" by simp
  have mime: "length (setup_metadataMimeType f) < 256" "length (setup_payloadMimeType f) < 256"
    by (simp_all add: setup_metadataMimeType_def setup_payloadMimeType_def mime_types)
  have skip: "be_bytes 4 a @ be_bytes 4 b @ bs = (be_bytes 4 a @ be_bytes 4 b) @ bs" for a b :: u32 and bs
    by simp
  let ?tail = "be_bytes 2 (1 :: u16) @ be_bytes 2 (0 :: u16) @ be_bytes 4 (2 ^ 31 - 1 :: u32) @ be_bytes 4 (2 ^ 31 - 1 :: u32) @
     (if flags_get RESUME_TOKEN (sf_flags f) then be_bytes 2 (of_nat (length (sf_resumeToken f)) :: u16) @ sf_resumeToken f else []) @
     be_bytes 1 (of_nat (length (setup_metadataMimeType f)) :: byte) @ setup_metadataMimeType f @
     be_bytes 1 (of_nat (length (setup_payloadMimeType f)) :: byte) @ setup_payloadMimeType f @
     writePayload (sf_payload f)"
  have p: "parses rem (setup_parse C rem) (writeStreamId 0 @ writeFrameTypeAndFlags F_SETUP ?flags @ ?tail)
     \<lparr>sf_flags = ?flags, sf_resumeToken = [], sf_payload = sf_payload f, sf_rocketMimeTypes = sf_rocketMimeTypes f,
       sf_encodeMetadataUsingBinary = (sf_rocketMimeTypes f \<and> sf_encodeMetadataUsingBinary f)\<rparr>"
    unfolding tok
    unfolding setup_parse_def readStreamId_def writeStreamId_def skip
    apply (rule parses_sbind [OF reads_BE], simp, rule parses_sguard, simp)
    apply (rule parses_sbind [OF reads_type_flags], simp, simp, simp only: prod.case)
    apply (rule parses_sbind [OF reads_BE], simp, rule parses_sbind [OF reads_BE], simp, rule parses_sguard, simp)
    apply (rule parses_sbind [OF reads_skip], simp, rule parses_sbind [OF reads_token [OF assms(2)]])
    apply (rule parses_mime [OF mime(1)], rule parses_mime [OF mime(2)])
    apply (simp only: md, rule parses_payload [OF assms(1)])
    using mime_types by (auto simp: setup_metadataMimeType_def setup_payloadMimeType_def)
  have n: "setup_frameHeaderSize f + serializedSize (sf_payload f) = 6 + length ?tail"
    by (simp add: setup_frameHeaderSize_def setup_metadataMimeType_def setup_payloadMimeType_def length_writePayload assms)
  show ?thesis
    unfolding setup_serialize_def Let_def wire_flags_simps(1) [where flags = "sf_flags f"] wire_flags_simps received.simps
    by (rule delivers_whole [where K = Setup_Frame, OF _ _ n p]) (simp_all add: parse_frame_def)
qed

lemma delivers_rn: "delivers C rem (rn_serialize f) (received (RequestN_Frame f))"
  unfolding rn_serialize_def received.simps
  by (rule delivers_rest [where K = RequestN_Frame and p = "\<lambda>s flags. rn_parse_rest C s"])
   (auto simp: parse_frame_def rn_parse_rest_def intro!: parses_sbind [where bs' = "[]", simplified] reads_BE parses_sret)

lemma delivers_cf: "delivers C rem (cf_serialize f) (received (Cancel_Frame f))"
  using delivers_rest [of F_CANCEL 0 6 "[]" "\<lambda>s flags. sret \<lparr>cf_streamId = s\<rparr>" "cf_streamId f" f Cancel_Frame]
  by (simp add: cf_serialize_def parses_sret parse_frame_def as_frame_def)

lemma delivers_ef:
  assumes "payload_ok (ef_payload f)" and "p_metadataSize (ef_payload f) = 0"
  shows "delivers C rem (ef_serialize f) (received (Error_Frame f))"
proof -
  have e: "writePayload (ef_payload f) = p_buffer (ef_payload f)" "makeFromData (p_buffer (ef_payload f)) = ef_payload f"
    using assms by (auto simp: writePayload_def hasNonemptyMetadata_def makeFromData_def payload_ok_def)
  show ?thesis
  unfolding ef_serialize_def Let_def received.simps e
  by (rule delivers_whole [where K = Error_Frame and p = "ef_parse C rem"])
   (auto simp: parse_frame_def ef_parse_def e length_writePayload [OF assms(1), symmetric]
     intro!: parses_framed parses_sbind [OF reads_BE] parses_rest)
qed

lemma delivers_mp: "delivers C rem (mp_serialize f) (received (MetadataPush_Frame f))"
  unfolding mp_serialize_def received.simps
  by (rule delivers_whole [where K = MetadataPush_Frame and p = "mp_parse C rem"])
   (auto simp: parse_frame_def mp_parse_def intro!: parses_framed parses_rest)

lemma delivers_ka:
  assumes "flags_ok (ka_flags f)"
  shows "delivers C rem (ka_serialize f) (received (KeepAlive_Frame f))"
  unfolding ka_serialize_def received.simps
  by (rule delivers_whole [where K = KeepAlive_Frame and p = "ka_parse C rem"])
   (auto simp: parse_frame_def ka_parse_def assms intro!: parses_framed parses_sbind [OF reads_skip] parses_rest)

lemma delivers_xf:
  assumes "payload_ok (xf_payload f)" and "flags_ok (xf_flags f)" and "xf_serialize f = Inr bs"
  shows "delivers C rem bs (received (Ext_Frame f))"
proof -
  let ?flags = "flags_set METADATA (hasNonemptyMetadata (xf_payload f)) (xf_flags f)"
  have ig: "flags_set IGNORE (flags_get IGNORE (xf_flags f)) ?flags = ?flags"
    using flags_set_get [of 9 ?flags] by simp
  have "bs = writeFrameOrMetadataSize (10 + serializedSize (xf_payload f)) @ writeStreamId (xf_streamId f) @
      writeFrameTypeAndFlags F_EXT ?flags @ be_bytes 4 (xf_extFrameType f) @ writePayload (xf_payload f)"
    using assms(3) unfolding xf_serialize_def Let_def ig by (simp split: if_splits)
  moreover have "delivers C rem \<dots> (received (Ext_Frame f))"
    unfolding received.simps
    by (rule delivers_rest [where K = Ext_Frame and p = "xf_parse_rest C rem"])
     (auto simp: parse_frame_def xf_parse_rest_def readExtFrameType_def sbind_assoc length_writePayload assms
       intro!: parses_sbind [OF reads_BE] parses_payload)
  ultimately show ?thesis by simp
qed

lemma frame_delivered:
  assumes "frame_ok f" and "frame_bytes f = Inr bs"
  shows "delivers C rem bs (received f)"
  using assms
  by (cases f)
    (auto intro: delivers_sf delivers_rr delivers_rf delivers_rs delivers_rc delivers_rn delivers_cf delivers_pf
      delivers_ef delivers_mp delivers_ka delivers_xf simp del: received.simps)
end

subsection \<open>The property\<close>


definition sample_frame :: frame where
  "sample_frame = RequestStream_Frame \<lparr>rs_streamId = 5, rs_initialRequestN = 100, rs_flags = FOLLOWS,
     rs_payload = makeFromMetadataAndData [1, 2] [3, 4, 5]\<rparr>"


section \<open>Where the bytes are written does not matter\<close>

text \<open>The flags a frame carries: those its class writes, and the metadata flag.\<close>

fun known_flags :: "frame \<Rightarrow> bool" where
  "known_flags (RequestResponse_Frame f) = (rr_flags f AND (FOLLOWS OR METADATA) = rr_flags f)"
| "known_flags (RequestFnf_Frame f) = (rf_flags f AND (FOLLOWS OR METADATA) = rf_flags f)"
| "known_flags (RequestStream_Frame f) = (rs_flags f AND (FOLLOWS OR METADATA) = rs_flags f)"
| "known_flags (RequestChannel_Frame f) = (rc_flags f AND ((FOLLOWS OR COMPLETE) OR METADATA) = rc_flags f)"
| "known_flags (Payload_Frame f) = (pf_flags f AND ((FOLLOWS OR COMPLETE OR NEXT) OR METADATA) = pf_flags f)"
| "known_flags _ = True"

lemma known_wire_flags:
  assumes "flags AND (keep OR METADATA) = flags" and "hasNonemptyMetadata p"
  shows "flags_set METADATA True flags = wire_flags keep flags p"
proof -
  have "flags OR METADATA = ((flags AND keep) OR (flags AND METADATA)) OR METADATA"
    using assms(1) by (simp add: word_ao_dist2)
  also have "\<dots> = (flags AND keep) OR METADATA"
    by (rule bit_word_eqI) (auto simp: bit_or_iff bit_and_iff)
  finally show ?thesis using assms(2) by (simp add: flags_set_def wire_flags_def)
qed

lemma headroom_size: "(of_nat (h + dataSize p + p_metadataSize p + 3) :: u64) = of_nat (h + (p_metadataAndDataSize p + 3))"
  by (simp add: dataSize_def)

lemma writeFrameOrMetadataSize_cong: "(of_nat m :: u64) = of_nat n \<Longrightarrow> writeFrameOrMetadataSize m = writeFrameOrMetadataSize n"
  by (simp add: writeFrameOrMetadataSize_def)

lemma headroom_bytes:
  assumes "flags AND (keep OR METADATA) = flags" and "hasNonemptyMetadata p" and "h = 6 + (case n of None \<Rightarrow> 0 | Some _ \<Rightarrow> 4)"
  shows "serializeIntoHeadroom t h s flags n p = writeFrameOrMetadataSize (h + serializedSize p) @ writeStreamId s @
     writeFrameTypeAndFlags t (wire_flags keep flags p) @ (case n of None \<Rightarrow> [] | Some n \<Rightarrow> be_bytes 4 n) @ writePayload p"
  using assms writeFrameOrMetadataSize_cong [OF headroom_size [of h p]]
  by (auto simp: serializeIntoHeadroom_def Let_def known_wire_flags [OF assms(1,2)] u24_bytes hs_push_def writePayload_def
      writeStreamId_def [symmetric] serializedSize_def split: option.split)

lemma headroom_rr:
  assumes "hasNonemptyMetadata (rr_payload f)" and "rr_flags f AND (FOLLOWS OR METADATA) = rr_flags f"
  shows "serializeIntoHeadroom F_REQUEST_RESPONSE 6 (rr_streamId f) (rr_flags f) None (rr_payload f) =
    rr_serializeIntoSingleFrame f"
  unfolding rr_serializeIntoSingleFrame_def Let_def wire_flags_simps(1) [where flags = "rr_flags f"] wire_flags_simps
  using headroom_bytes [OF assms(2,1), of 6 None] by simp

lemma headroom_rf:
  assumes "hasNonemptyMetadata (rf_payload f)" and "rf_flags f AND (FOLLOWS OR METADATA) = rf_flags f"
  shows "serializeIntoHeadroom F_REQUEST_FNF 6 (rf_streamId f) (rf_flags f) None (rf_payload f) =
    rf_serializeIntoSingleFrame f"
  unfolding rf_serializeIntoSingleFrame_def Let_def wire_flags_simps(1) [where flags = "rf_flags f"] wire_flags_simps
  using headroom_bytes [OF assms(2,1), of 6 None] by simp

lemma headroom_rs:
  assumes "hasNonemptyMetadata (rs_payload f)" and "rs_flags f AND (FOLLOWS OR METADATA) = rs_flags f"
  shows "serializeIntoHeadroom F_REQUEST_STREAM 10 (rs_streamId f) (rs_flags f) (Some (rs_initialRequestN f)) (rs_payload f) =
    rs_serializeIntoSingleFrame f"
  unfolding rs_serializeIntoSingleFrame_def Let_def wire_flags_simps(1) [where flags = "rs_flags f"] wire_flags_simps
  using headroom_bytes [OF assms(2,1), of 10 "Some (rs_initialRequestN f)"] by simp

lemma headroom_rc:
  assumes "hasNonemptyMetadata (rc_payload f)" and "rc_flags f AND ((FOLLOWS OR COMPLETE) OR METADATA) = rc_flags f"
  shows "serializeIntoHeadroom F_REQUEST_CHANNEL 10 (rc_streamId f) (rc_flags f) (Some (rc_initialRequestN f)) (rc_payload f) =
    rc_serializeIntoSingleFrame f"
  unfolding rc_serializeIntoSingleFrame_def Let_def wire_flags_simps(1) [where flags = "rc_flags f"] wire_flags_simps
  using headroom_bytes [OF assms(2,1), of 10 "Some (rc_initialRequestN f)"] by simp

lemma headroom_pf:
  assumes "hasNonemptyMetadata (pf_payload f)" and "pf_flags f AND ((FOLLOWS OR COMPLETE OR NEXT) OR METADATA) = pf_flags f"
  shows "serializeIntoHeadroom F_PAYLOAD 6 (pf_streamId f) (pf_flags f) None (pf_payload f) =
    pf_serializeIntoSingleFrame f"
  unfolding pf_serializeIntoSingleFrame_def Let_def wire_flags_simps(1) [where flags = "pf_flags f"] wire_flags_simps
  using headroom_bytes [OF assms(2,1), of 6 None] by simp

text \<open>
  C36: for every frame whose flags are ones its class writes, the bytes on the wire do not depend on
  whether the payload's buffer is shared or has headroom: serializing in place writes what the
  \<open>Serializer\<close> writes.
\<close>

theorem rocket_headroom_equivalence:
  assumes "known_flags f"
  shows "frame_serialize isShared headroom f = frame_serialize True 0 f"
  using assms
  by (cases f)
    (auto simp: rr_serialize_buffer_def rf_serialize_buffer_def rs_serialize_buffer_def rc_serialize_buffer_def
      pf_serialize_buffer_def serializeIntoHeadroomIfPossible_def
      rr_serialize_def rf_serialize_def rs_serialize_def rc_serialize_def pf_serialize_def
      headroom_rr headroom_rf headroom_rs headroom_rc headroom_pf)

theorem rocket_headroom_equivalence_witness:
  "known_flags sample_frame \<and> frame_serialize False 64 sample_frame = frame_serialize True 0 sample_frame"
  using rocket_headroom_equivalence [of sample_frame False 64] by (simp add: sample_frame_def)

end
