(* ===== verification/Rocket_Parser.thy ===== *)
theory Rocket_Parser
  imports Rocket_Roundtrip
begin

unbundle bit_operations_syntax

text \<open>
  How a byte stream is cut into frames: the three strategies of \<^verbatim>\<open>framing/parser\<close> and the
  \<open>Parser\<close> that owns one of them.

  The owner (\<open>RocketServerConnection\<close> or \<open>RocketClient\<close>) is the record of the calls a strategy
  makes.  \<open>handleFrame\<close> may throw, and what the strategy's state is then matters, so that an
  operation returns the exception, if any, beside the states of the strategy and of the owner.  The
  buffers are the bytes written into them so far; an \<open>IOBufQueue\<close> is the bytes it holds, and its
  \<open>trimStart\<close> and \<open>split\<close> throw \<open>std::underflow_error\<close> when it holds too few.
\<close>

section \<open>The owner\<close>

record 'o parser_owner =
  o_incMemoryUsage :: "u32 \<Rightarrow> 'o \<Rightarrow> bool \<times> 'o"
  o_decMemoryUsage :: "u32 \<Rightarrow> 'o \<Rightarrow> 'o"
  o_handleFrame :: "bytes \<Rightarrow> 'o \<Rightarrow> thrift_error option \<times> 'o"
  o_close :: "thrift_error \<Rightarrow> 'o \<Rightarrow> 'o"

text \<open>\<open>readFrameOrMetadataSize\<close> of three bytes in memory.\<close>

definition size24 :: "bytes \<Rightarrow> nat" where
  "size24 bytes = unat (push_bit 16 (ucast (bytes ! 0)) OR push_bit 8 (ucast (bytes ! 1)) OR ucast (bytes ! 2) :: u64)"

text \<open>Subtraction of \<open>size_t\<close> values.\<close>

definition usub :: "nat \<Rightarrow> nat \<Rightarrow> nat" where
  "usub a b = unat (of_nat a - of_nat b :: u64)"

section \<open>FrameLengthParserStrategy\<close>

record flp =
  fl_size :: nat
  fl_frameLength :: nat
  fl_frameLengthAndFieldSize :: nat
  fl_queue :: bytes

definition fl_init :: flp where
  "fl_init = \<lparr>fl_size = 0, fl_frameLength = 0, fl_frameLengthAndFieldSize = 0, fl_queue = []\<rparr>"

definition fl_computeFrameLength :: "flp \<Rightarrow> thrift_error + flp" where
  "fl_computeFrameLength p = (if length (fl_queue p) < 3 then Inl OutOfRange
     else let frameLength = size24 (take 3 (fl_queue p)) in
       Inr (p\<lparr>fl_frameLength := frameLength, fl_frameLengthAndFieldSize := frameLength + 3\<rparr>))"

definition fl_resetFrameLength :: "'o parser_owner \<Rightarrow> flp \<Rightarrow> 'o \<Rightarrow> flp \<times> 'o" where
  "fl_resetFrameLength api p own =
    (p\<lparr>fl_size := fl_size p - fl_frameLengthAndFieldSize p, fl_frameLength := 0, fl_frameLengthAndFieldSize := 0\<rparr>,
     o_decMemoryUsage api (of_nat (fl_frameLengthAndFieldSize p)) own)"

text \<open>The first half of the loop's body: the length of the frame, or the state in which the loop returns.\<close>

definition fl_await :: "'o parser_owner \<Rightarrow> flp \<Rightarrow> 'o \<Rightarrow> (thrift_error option \<times> flp \<times> 'o) + (flp \<times> 'o)" where
  "fl_await api p own =
    (let complete = (\<lambda>p own. if fl_size p < fl_frameLengthAndFieldSize p then Inl (None, p, own) else Inr (p, own)) in
     if fl_frameLength p = 0 then
       (case fl_computeFrameLength p of
          Inl e \<Rightarrow> Inl (Some e, p, own)
        | Inr p \<Rightarrow>
            (case o_incMemoryUsage api (of_nat (fl_frameLengthAndFieldSize p)) own of
               (granted, own) \<Rightarrow>
                 if \<not> granted then Inl (None, p\<lparr>fl_frameLengthAndFieldSize := 0\<rparr>, own) else complete p own))
     else complete p own)"

text \<open>The second half: the frame leaves the queue and is handed off; the lengths are reset on every exit.\<close>

definition fl_handoff :: "'o parser_owner \<Rightarrow> flp \<Rightarrow> 'o \<Rightarrow> thrift_error option \<times> flp \<times> 'o" where
  "fl_handoff api p own =
    (if length (fl_queue p) < 3 then (Some QueueUnderflow, p, own)
     else let queue = drop 3 (fl_queue p) in
       if length queue < fl_frameLength p then (Some QueueUnderflow, p\<lparr>fl_queue := queue\<rparr>, own)
       else let frame = take (fl_frameLength p) queue; p = p\<lparr>fl_queue := drop (fl_frameLength p) queue\<rparr>;
           (e, own) = o_handleFrame api frame own; (p, own) = fl_resetFrameLength api p own in
         (e, p, own))"

lemma fl_await_queue: "fl_await api p own = Inr (p', own') \<Longrightarrow> fl_queue p' = fl_queue p"
  by (auto simp: fl_await_def fl_computeFrameLength_def Let_def split: if_splits sum.splits prod.splits)

lemma fl_handoff_queue: "fl_handoff api p own = (None, p', own') \<Longrightarrow> length (fl_queue p') < length (fl_queue p)"
  by (auto simp: fl_handoff_def fl_resetFrameLength_def Let_def split: if_splits prod.splits)

function fl_drainReadBufQueue :: "'o parser_owner \<Rightarrow> flp \<Rightarrow> 'o \<Rightarrow> thrift_error option \<times> flp \<times> 'o" where
  "fl_drainReadBufQueue api p own =
    (if fl_size p \<ge> 3 then
       (case fl_await api p own of
          Inl r \<Rightarrow> r
        | Inr (p, own) \<Rightarrow>
            (case fl_handoff api p own of
               (Some e, p, own) \<Rightarrow> (Some e, p, own)
             | (None, p, own) \<Rightarrow> fl_drainReadBufQueue api p own))
     else (None, p, own))"
  by pat_completeness auto

termination
  by (relation "measure (\<lambda>(api, p, own). length (fl_queue p))") (auto dest!: fl_await_queue dest: fl_handoff_queue [OF sym])

declare fl_drainReadBufQueue.simps [simp del]

definition fl_readDataAvailable :: "'o parser_owner \<Rightarrow> bytes \<Rightarrow> flp \<Rightarrow> 'o \<Rightarrow> thrift_error option \<times> flp \<times> 'o" where
  "fl_readDataAvailable api data p own =
    fl_drainReadBufQueue api (p\<lparr>fl_size := fl_size p + length data, fl_queue := fl_queue p @ data\<rparr>) own"

definition fl_readBufferAvailable :: "'o parser_owner \<Rightarrow> bytes \<Rightarrow> flp \<Rightarrow> 'o \<Rightarrow> thrift_error option \<times> flp \<times> 'o" where
  "fl_readBufferAvailable api buf p own =
    fl_drainReadBufQueue api (p\<lparr>fl_size := fl_size p + length buf, fl_queue := fl_queue p @ buf\<rparr>) own"

definition fl_destroy :: "'o parser_owner \<Rightarrow> flp \<Rightarrow> 'o \<Rightarrow> 'o" where
  "fl_destroy api p own = (if fl_frameLengthAndFieldSize p \<noteq> 0
     then o_decMemoryUsage api (of_nat (fl_frameLengthAndFieldSize p)) own else own)"

section \<open>AllocatingParserStrategy\<close>

text \<open>\<open>al_buffer\<close> holds the \<open>size_\<close> bytes written into the buffer, which has room for \<open>al_currentBufferSize\<close>.\<close>

record alp =
  al_size :: nat
  al_currentBufferSize :: nat
  al_frameLength :: nat
  al_frameLengthAndFieldSize :: nat
  al_minBufferSize :: nat
  al_buffer :: "bytes option"

definition al_init :: "nat \<Rightarrow> alp" where
  "al_init minBufferSize = \<lparr>al_size = 0, al_currentBufferSize = 0, al_frameLength = 0, al_frameLengthAndFieldSize = 0,
     al_minBufferSize = minBufferSize, al_buffer = None\<rparr>"

definition al_getReadBuffer :: "alp \<Rightarrow> nat \<times> alp" where
  "al_getReadBuffer p =
    (let p = (if al_buffer p = None then p\<lparr>al_buffer := Some [], al_currentBufferSize := al_minBufferSize p\<rparr> else p) in
     (al_currentBufferSize p - al_size p, p))"

definition al_bytes :: "alp \<Rightarrow> bytes" where
  "al_bytes p = (case al_buffer p of None \<Rightarrow> [] | Some b \<Rightarrow> b)"

definition al_computeFrameLength :: "nat \<Rightarrow> alp \<Rightarrow> nat" where
  "al_computeFrameLength offset p = size24 (take 3 (drop offset (al_bytes p)))"

definition al_tryResize :: "'o parser_owner \<Rightarrow> alp \<Rightarrow> 'o \<Rightarrow> alp \<times> 'o" where
  "al_tryResize api p own =
    (case o_incMemoryUsage api (of_nat (al_frameLengthAndFieldSize p)) own of
       (granted, own) \<Rightarrow>
         if \<not> granted then (p, own)
         else if al_currentBufferSize p < al_frameLengthAndFieldSize p
         then (p\<lparr>al_currentBufferSize := al_frameLengthAndFieldSize p\<rparr>, own)
         else (p, own))"

definition al_handoff :: "'o parser_owner \<Rightarrow> nat \<Rightarrow> nat \<Rightarrow> alp \<Rightarrow> 'o \<Rightarrow> thrift_error option \<times> alp \<times> 'o" where
  "al_handoff api nextFrameLength nextFrameLengthAndFieldSize p own =
    (let excessByteSize = al_size p - al_frameLengthAndFieldSize p;
         newBufferSize = max (max excessByteSize (al_minBufferSize p)) nextFrameLengthAndFieldSize;
         frame = drop 3 (take (al_frameLengthAndFieldSize p) (al_bytes p));
         staging = al_frameLengthAndFieldSize p;
         p = p\<lparr>al_currentBufferSize := newBufferSize, al_size := excessByteSize, al_frameLength := nextFrameLength,
           al_frameLengthAndFieldSize := nextFrameLengthAndFieldSize, al_buffer := Some (drop staging (al_bytes p))\<rparr> in
     case o_handleFrame api frame own of
       (Some e, own) \<Rightarrow> (Some e, p, own)
     | (None, own) \<Rightarrow> (None, p, o_decMemoryUsage api (of_nat staging) own))"

definition al_awaitLength :: "'o parser_owner \<Rightarrow> alp \<Rightarrow> 'o \<Rightarrow> alp \<times> 'o" where
  "al_awaitLength api p own = (if al_frameLength p = 0 then
     let frameLength = al_computeFrameLength 0 p in
     al_tryResize api (p\<lparr>al_frameLength := frameLength, al_frameLengthAndFieldSize := frameLength + 3\<rparr>) own
   else (p, own))"

text \<open>The length of the next frame, when its field has arrived, and whether the owner grants the memory.\<close>

definition al_nextLength :: "'o parser_owner \<Rightarrow> alp \<Rightarrow> 'o \<Rightarrow> bool \<times> nat \<times> nat \<times> 'o" where
  "al_nextLength api p own =
    (if al_size p - al_frameLengthAndFieldSize p \<ge> 3 then
       let nextFrameLength = al_computeFrameLength (al_frameLengthAndFieldSize p) p;
           nextFrameLengthAndFieldSize = nextFrameLength + 3;
           (granted, own) = o_incMemoryUsage api (of_nat nextFrameLengthAndFieldSize) own in
       (granted, nextFrameLength, nextFrameLengthAndFieldSize, own)
     else (True, 0, 0, own))"

text \<open>One round of the loop: either the state in which it returns, or the one it goes on with.\<close>

definition al_round :: "'o parser_owner \<Rightarrow> alp \<Rightarrow> 'o \<Rightarrow> (thrift_error option \<times> alp \<times> 'o) + (alp \<times> 'o)" where
  "al_round api p own =
    (case al_awaitLength api p own of (p, own) \<Rightarrow>
     if al_size p < al_frameLengthAndFieldSize p then Inl (None, p, own)
     else (case al_nextLength api p own of (granted, nextFrameLength, nextFrameLengthAndFieldSize, own) \<Rightarrow>
       if \<not> granted then Inl (None, p, own)
       else (case al_handoff api nextFrameLength nextFrameLengthAndFieldSize p own of
           (Some e, p, own) \<Rightarrow> Inl (Some e, p, own)
         | (None, p, own) \<Rightarrow> Inr (p, own))))"

lemma al_handoff_state:
  "al_handoff api n m p own = (e, p', own') \<Longrightarrow> al_size p' = al_size p - al_frameLengthAndFieldSize p \<and>
    al_frameLength p' = n \<and> al_frameLengthAndFieldSize p' = m"
  by (simp add: al_handoff_def Let_def split: prod.splits option.splits) auto

lemma al_tryResize_state:
  "al_tryResize api p own = (p', own') \<Longrightarrow> al_size p' = al_size p \<and> al_frameLength p' = al_frameLength p \<and>
    al_frameLengthAndFieldSize p' = al_frameLengthAndFieldSize p \<and> al_bytes p' = al_bytes p \<and>
    al_minBufferSize p' = al_minBufferSize p"
  by (auto simp: al_tryResize_def al_bytes_def split: prod.splits if_splits)

text \<open>The measure of the loop: a round drops a frame, or first repairs a length without its field size.\<close>

definition al_measure :: "alp \<Rightarrow> nat" where
  "al_measure p = 2 * al_size p + (if al_frameLength p \<noteq> 0 \<and> al_frameLengthAndFieldSize p = 0 then 1 else 0)"

lemma al_awaitLength_state:
  assumes "al_awaitLength api p own = (p', own')"
  shows "al_size p' = al_size p" and "al_bytes p' = al_bytes p" and "al_minBufferSize p' = al_minBufferSize p"
    and "al_frameLength p \<noteq> 0 \<Longrightarrow> p' = p"
    and "al_frameLength p = 0 \<Longrightarrow> al_frameLength p' = al_computeFrameLength 0 p \<and>
      al_frameLengthAndFieldSize p' = al_computeFrameLength 0 p + 3"
  using assms al_tryResize_state
  by (fastforce simp: al_awaitLength_def Let_def al_bytes_def split: if_splits)+

lemma al_nextLength_state:
  "al_nextLength api p own = (granted, n, m, own') \<Longrightarrow> n \<noteq> 0 \<Longrightarrow> m \<noteq> 0"
  by (auto simp: al_nextLength_def Let_def split: if_splits prod.splits)

lemma al_round_decreases:
  assumes "al_round api p own = Inr (p', own')" and "al_size p \<ge> 3"
  shows "al_measure p' < al_measure p"
proof -
  obtain p1 own1 where p1: "al_awaitLength api p own = (p1, own1)" by (metis surj_pair)
  obtain granted n m own2 where n: "al_nextLength api p1 own1 = (granted, n, m, own2)" by (metis surj_pair)
  obtain own3 where h: "al_handoff api n m p1 own2 = (None, p', own3)" and le: "al_frameLengthAndFieldSize p1 \<le> al_size p1"
    using assms(1) by (auto simp: al_round_def p1 n split: if_splits option.splits prod.splits)
  show ?thesis
    using al_handoff_state [OF h] al_nextLength_state [OF n] al_awaitLength_state [OF p1] le assms(2)
    by (cases "al_frameLength p = 0") (auto simp: al_measure_def)
qed

function al_loop :: "'o parser_owner \<Rightarrow> alp \<Rightarrow> 'o \<Rightarrow> thrift_error option \<times> alp \<times> 'o" where
  "al_loop api p own =
    (if al_size p \<ge> 3 then
       (case al_round api p own of Inl r \<Rightarrow> r | Inr (p, own) \<Rightarrow> al_loop api p own)
     else (None, p, own))"
  by pat_completeness auto

termination
  by (relation "measure (\<lambda>(api, p, own). al_measure p)") (auto dest: al_round_decreases)

declare al_loop.simps [simp del]

definition al_readDataAvailable :: "'o parser_owner \<Rightarrow> bytes \<Rightarrow> alp \<Rightarrow> 'o \<Rightarrow> thrift_error option \<times> alp \<times> 'o" where
  "al_readDataAvailable api data p own =
    al_loop api (p\<lparr>al_size := al_size p + length data, al_buffer := Some (al_bytes p @ data)\<rparr>) own"

section \<open>AlignedParserStrategy\<close>

datatype aligned_state = AwaitingHeader | AwaitingMetadataLength | AwaitingMetadata | AwaitingData | AwaitingNonAligned

abbreviation kFrameSizeAndHeaderLength :: nat where "kFrameSizeAndHeaderLength \<equiv> 9"
abbreviation kHeaderLength :: nat where "kHeaderLength \<equiv> 6"

record agp =
  ag_state :: aligned_state
  ag_remainingHeader :: nat
  ag_remainingMetadata :: nat
  ag_remainingData :: nat
  ag_frameLength :: nat
  ag_remainingUnaligned :: nat
  ag_frameType :: byte
  ag_flags :: u16
  ag_header :: bytes
  ag_metadata :: "bytes option"
  ag_data :: "bytes option"
  ag_nonAlignedData :: bytes

definition ag_init :: agp where
  "ag_init = \<lparr>ag_state = AwaitingHeader, ag_remainingHeader = kFrameSizeAndHeaderLength, ag_remainingMetadata = 0,
     ag_remainingData = 0, ag_frameLength = 0, ag_remainingUnaligned = 0, ag_frameType = 0, ag_flags = 0,
     ag_header = [], ag_metadata = None, ag_data = None, ag_nonAlignedData = []\<rparr>"

text \<open>The length of the buffer that \<open>getReadBuffer\<close> offers the socket.\<close>

definition ag_getReadBuffer :: "agp \<Rightarrow> nat" where
  "ag_getReadBuffer p = (case ag_state p of
     AwaitingHeader \<Rightarrow> ag_remainingHeader p
   | AwaitingMetadataLength \<Rightarrow> ag_remainingHeader p
   | AwaitingMetadata \<Rightarrow> ag_remainingMetadata p
   | AwaitingData \<Rightarrow> ag_remainingData p
   | AwaitingNonAligned \<Rightarrow> ag_remainingUnaligned p)"

definition ag_parseHeader :: "agp \<Rightarrow> thrift_error + agp" where
  "ag_parseHeader p =
    (case sbind (readFrameOrMetadataSize chain_api) (\<lambda>frameLength. sbind (c_skip chain_api 4) (\<lambda>_.
          sbind (readFrameTypeAndFlagsUnsafe chain_api) (\<lambda>(frameType, flags). sret (frameLength, frameType, flags))))
        [ag_header p] of
       Inl e \<Rightarrow> Inl e
     | Inr ((frameLength, frameType, flags), _) \<Rightarrow>
         Inr (p\<lparr>ag_frameLength := frameLength, ag_frameType := frameType, ag_flags := flags\<rparr>))"

definition ag_resetToInitialState :: "agp \<Rightarrow> agp" where
  "ag_resetToInitialState p = p\<lparr>ag_state := AwaitingHeader, ag_remainingHeader := kFrameSizeAndHeaderLength,
     ag_remainingMetadata := 0, ag_remainingData := 0, ag_frameLength := 0, ag_remainingUnaligned := 0\<rparr>"

definition ag_submitFrame :: "'o parser_owner \<Rightarrow> agp \<Rightarrow> 'o \<Rightarrow> thrift_error option \<times> agp \<times> 'o" where
  "ag_submitFrame api p own =
    (let old = ag_header p @ (case ag_metadata p of None \<Rightarrow> [] | Some m \<Rightarrow> m) @ (case ag_data p of None \<Rightarrow> [] | Some d \<Rightarrow> d);
         p = p\<lparr>ag_header := [], ag_metadata := None, ag_data := None\<rparr> in
     case o_handleFrame api (drop 3 old) own of
       (Some e, own) \<Rightarrow> (Some e, p, own)
     | (None, own) \<Rightarrow> (None, ag_resetToInitialState p, own))"

definition ag_submitIOBufQueueFrame :: "'o parser_owner \<Rightarrow> agp \<Rightarrow> 'o \<Rightarrow> thrift_error option \<times> agp \<times> 'o" where
  "ag_submitIOBufQueueFrame api p own =
    (if length (ag_nonAlignedData p) < 3 then (Some QueueUnderflow, p, own)
     else let queue = drop 3 (ag_nonAlignedData p) in
       if length queue < ag_frameLength p then (Some QueueUnderflow, p\<lparr>ag_nonAlignedData := queue\<rparr>, own)
       else let frame = take (ag_frameLength p) queue; p = p\<lparr>ag_nonAlignedData := drop (ag_frameLength p) queue\<rparr> in
         case o_handleFrame api frame own of
           (Some e, own) \<Rightarrow> (Some e, p, own)
         | (None, own) \<Rightarrow> (None, ag_resetToInitialState p, own))"

definition ag_configureAligned :: "agp \<Rightarrow> agp" where
  "ag_configureAligned p = (if flags_get METADATA (ag_flags p)
     then p\<lparr>ag_remainingHeader := ag_remainingHeader p + 3, ag_state := AwaitingMetadataLength\<rparr>
     else p\<lparr>ag_remainingData := usub (ag_frameLength p) kHeaderLength, ag_data := Some [], ag_state := AwaitingData\<rparr>)"

definition ag_configuredNonAligned :: "agp \<Rightarrow> agp" where
  "ag_configuredNonAligned p = p\<lparr>ag_state := AwaitingNonAligned, ag_nonAlignedData := ag_header p, ag_header := [],
     ag_remainingUnaligned := usub (ag_frameLength p) kHeaderLength\<rparr>"

definition ag_handleAwaitingHeader :: "'o parser_owner \<Rightarrow> bytes \<Rightarrow> agp \<Rightarrow> 'o \<Rightarrow> thrift_error option \<times> agp \<times> 'o" where
  "ag_handleAwaitingHeader api data p own =
    (let p = p\<lparr>ag_header := ag_header p @ data, ag_remainingHeader := usub (ag_remainingHeader p) (length data)\<rparr> in
     if ag_remainingHeader p = 0 then
       (case ag_parseHeader p of
          Inl e \<Rightarrow> (Some e, p, own)
        | Inr p \<Rightarrow>
            if ag_frameType p = F_PAYLOAD \<or> ag_frameType p = F_REQUEST_RESPONSE then (None, ag_configureAligned p, own)
            else if ag_frameType p = F_CANCEL then ag_submitFrame api p own
            else if ag_frameType p = 0 \<or> ag_frameType p \<in> set frame_types then (None, ag_configuredNonAligned p, own)
            else (None, p, own))
     else (None, p, own))"

definition ag_handleAwaitingMetadataLength :: "bytes \<Rightarrow> agp \<Rightarrow> agp" where
  "ag_handleAwaitingMetadataLength data p =
    (let p = p\<lparr>ag_header := ag_header p @ data, ag_remainingHeader := usub (ag_remainingHeader p) (length data)\<rparr> in
     if ag_remainingHeader p = 0 then
       let remainingMetadata = size24 (take 3 (drop kFrameSizeAndHeaderLength (ag_header p))) in
       p\<lparr>ag_state := AwaitingMetadata, ag_remainingMetadata := remainingMetadata,
         ag_remainingData := usub (usub (usub (ag_frameLength p) kHeaderLength) 3) remainingMetadata,
         ag_metadata := Some []\<rparr>
     else p)"

definition appended :: "bytes option \<Rightarrow> bytes \<Rightarrow> bytes option" where
  "appended b data = (case b of None \<Rightarrow> Some data | Some bs \<Rightarrow> Some (bs @ data))"

definition ag_handleAwaitingMetadata :: "'o parser_owner \<Rightarrow> bytes \<Rightarrow> agp \<Rightarrow> 'o \<Rightarrow> thrift_error option \<times> agp \<times> 'o" where
  "ag_handleAwaitingMetadata api data p own =
    (let p = p\<lparr>ag_metadata := appended (ag_metadata p) data,
               ag_remainingMetadata := usub (ag_remainingMetadata p) (length data)\<rparr> in
     if ag_remainingMetadata p = 0 then
       if ag_remainingData p > 0 then (None, p\<lparr>ag_state := AwaitingData, ag_data := Some []\<rparr>, own)
       else ag_submitFrame api p own
     else (None, p, own))"

definition ag_handleAwaitingData :: "'o parser_owner \<Rightarrow> bytes \<Rightarrow> agp \<Rightarrow> 'o \<Rightarrow> thrift_error option \<times> agp \<times> 'o" where
  "ag_handleAwaitingData api data p own =
    (let p = p\<lparr>ag_data := appended (ag_data p) data, ag_remainingData := usub (ag_remainingData p) (length data)\<rparr> in
     if ag_remainingData p = 0 then ag_submitFrame api p own else (None, p, own))"

definition ag_handleNonAligned :: "'o parser_owner \<Rightarrow> bytes \<Rightarrow> agp \<Rightarrow> 'o \<Rightarrow> thrift_error option \<times> agp \<times> 'o" where
  "ag_handleNonAligned api data p own =
    (let p = p\<lparr>ag_nonAlignedData := ag_nonAlignedData p @ data,
               ag_remainingUnaligned := usub (ag_remainingUnaligned p) (length data)\<rparr> in
     if ag_remainingUnaligned p = 0 then ag_submitIOBufQueueFrame api p own else (None, p, own))"

definition ag_readDataAvailable :: "'o parser_owner \<Rightarrow> bytes \<Rightarrow> agp \<Rightarrow> 'o \<Rightarrow> thrift_error option \<times> agp \<times> 'o" where
  "ag_readDataAvailable api data p own = (case ag_state p of
     AwaitingHeader \<Rightarrow> ag_handleAwaitingHeader api data p own
   | AwaitingMetadataLength \<Rightarrow> (None, ag_handleAwaitingMetadataLength data p, own)
   | AwaitingMetadata \<Rightarrow> ag_handleAwaitingMetadata api data p own
   | AwaitingData \<Rightarrow> ag_handleAwaitingData api data p own
   | AwaitingNonAligned \<Rightarrow> ag_handleNonAligned api data p own)"

section \<open>Parser\<close>

datatype parser_variant = FrameLengthParser flp | AllocatingParser alp | AlignedParser agp

datatype parser_mode = STRATEGY | ALLOCATING | ALIGNED

definition stringToMode :: "string \<Rightarrow> parser_mode" where
  "stringToMode modeStr = (if modeStr = ''strategy'' then STRATEGY
     else if modeStr = ''allocating'' then ALLOCATING
     else if modeStr = ''aligned'' then ALIGNED
     else STRATEGY)"

definition parser_make :: "nat \<Rightarrow> string \<Rightarrow> parser_variant" where
  "parser_make minBufferSize mode = (case stringToMode mode of
     STRATEGY \<Rightarrow> FrameLengthParser fl_init
   | ALLOCATING \<Rightarrow> AllocatingParser (al_init minBufferSize)
   | ALIGNED \<Rightarrow> AlignedParser ag_init)"

definition parser_visit :: "'o parser_owner \<Rightarrow> bytes \<Rightarrow> parser_variant \<Rightarrow> 'o \<Rightarrow> thrift_error option \<times> parser_variant \<times> 'o" where
  "parser_visit api data parser own = (case parser of
     FrameLengthParser p \<Rightarrow> (case fl_readDataAvailable api data p own of (e, p, own) \<Rightarrow> (e, FrameLengthParser p, own))
   | AllocatingParser p \<Rightarrow> (case al_readDataAvailable api data p own of (e, p, own) \<Rightarrow> (e, AllocatingParser p, own))
   | AlignedParser p \<Rightarrow> (case ag_readDataAvailable api data p own of (e, p, own) \<Rightarrow> (e, AlignedParser p, own)))"

definition parser_readDataAvailable :: "'o parser_owner \<Rightarrow> bytes \<Rightarrow> parser_variant \<Rightarrow> 'o \<Rightarrow> parser_variant \<times> 'o" where
  "parser_readDataAvailable api data parser own = (case parser_visit api data parser own of
     (None, parser, own) \<Rightarrow> (parser, own)
   | (Some e, parser, own) \<Rightarrow> (parser, o_close api e own))"

end
