(* ===== verification/Rocket_Fragments.thy ===== *)
theory Rocket_Fragments
  imports Rocket_Roundtrip
begin

unbundle bit_operations_syntax

text \<open>
  Fragmentation of large payloads and their reassembly.  The sender is
  \<open>serializeInFragmentsSlowCommon\<close>; the receivers are \<open>RocketClient::bufferOrGetFullPayload\<close> for
  payload frames and, on the server, \<open>partialRequestFrames_\<close> for requests.
\<close>

section \<open>The client's buffer of fragments\<close>

definition bufferOrGetFullPayload :: "payload_frame \<Rightarrow> (u32 \<rightharpoonup> payload) \<Rightarrow> payload option \<times> (u32 \<rightharpoonup> payload)" where
  "bufferOrGetFullPayload payloadFrame bufferedFragments =
    (let streamId = pf_streamId payloadFrame; hasFollows = flags_get FOLLOWS (pf_flags payloadFrame);
         it = bufferedFragments streamId in
     if hasFollows then
       (case it of
          Some firstFragments \<Rightarrow>
            (None, bufferedFragments(streamId \<mapsto> payload_append firstFragments (pf_payload payloadFrame)))
        | None \<Rightarrow> (None, bufferedFragments(streamId \<mapsto> pf_payload payloadFrame)))
     else
       (case it of
          Some firstFragments \<Rightarrow>
            (Some (payload_append firstFragments (pf_payload payloadFrame)), bufferedFragments(streamId := None))
        | None \<Rightarrow> (Some (pf_payload payloadFrame), bufferedFragments)))"

fun receive_payloads :: "payload_frame list \<Rightarrow> (u32 \<rightharpoonup> payload) \<Rightarrow> payload option list \<times> (u32 \<rightharpoonup> payload)" where
  "receive_payloads [] m = ([], m)"
| "receive_payloads (f # fs) m =
    (let (r, m) = bufferOrGetFullPayload f m; (rs, m) = receive_payloads fs m in (r # rs, m))"

section \<open>What the sender cuts\<close>

text \<open>The chunks of a buffer, with the part of the metadata size each of them carries.\<close>

function chunks :: "nat \<Rightarrow> nat \<Rightarrow> bytes \<Rightarrow> payload list" where
  "chunks K metadataSize queue = makeCombined (take K queue) (min metadataSize K) #
     (if drop K queue \<noteq> [] \<and> K > 0 then chunks K (metadataSize - min metadataSize K) (drop K queue) else [])"
  by pat_completeness auto
termination by (relation "measure (\<lambda>(K, metadataSize, queue). length queue)") auto

declare chunks.simps [simp del]

fun joined :: "payload \<Rightarrow> payload list \<Rightarrow> payload" where
  "joined p [] = p"
| "joined p (q # qs) = joined (payload_append p q) qs"

lemma payload_append_assoc: "payload_append (payload_append p q) r = payload_append p (payload_append q r)"
  by (simp add: payload_append_def)

lemma joined_append: "joined (payload_append p q) qs = payload_append p (joined q qs)"
  by (induction qs arbitrary: q) (simp_all add: payload_append_assoc)

definition chunk_ok :: "nat \<Rightarrow> payload \<Rightarrow> bool" where
  "chunk_ok K p \<longleftrightarrow> p_metadataAndDataSize p = length (p_buffer p) \<and> length (p_buffer p) \<le> K \<and> p_metadataSize p \<le> length (p_buffer p)"

lemma chunks_not_Nil [simp]: "chunks K n q \<noteq> []"
  by (simp add: chunks.simps [of K n q])

lemma chunks_ok:
  assumes "0 < K" and "n \<le> length q"
  shows "list_all (chunk_ok K) (chunks K n q)"
  using assms
proof (induction K n q rule: chunks.induct)
  case (1 K n q)
  have "chunk_ok K (makeCombined (take K q) (min n K))"
    using "1.prems" by (auto simp: chunk_ok_def makeCombined_def)
  moreover have "list_all (chunk_ok K) (chunks K (n - min n K) (drop K q))" if "drop K q \<noteq> []"
    using that 1 by simp
  ultimately show ?case by (subst chunks.simps) simp
qed

lemma chunks_joined:
  assumes "0 < K" and "n \<le> length q"
  shows "joined p (chunks K n q) = payload_append p (makeCombined q n)"
  using assms
proof (induction K n q arbitrary: p rule: chunks.induct)
  case (1 K n q)
  have e: "payload_append (makeCombined (take K q) (min n K)) (makeCombined (drop K q) (n - min n K)) = makeCombined q n"
    by (auto simp: makeCombined_def payload_append_def)
  show ?case
  proof (cases "drop K q = []")
    case True
    then have "take K q = q" "min n K = n" using "1.prems" by auto
    then show ?thesis using True by (subst chunks.simps) simp
  next
    case False
    then have "joined (payload_append p (makeCombined (take K q) (min n K))) (chunks K (n - min n K) (drop K q)) =
        payload_append (payload_append p (makeCombined (take K q) (min n K))) (makeCombined (drop K q) (n - min n K))"
      using 1 by simp
    then show ?thesis using False 1(2) by (subst chunks.simps) (simp add: payload_append_assoc e)
  qed
qed

text \<open>The payload frames that carry the chunks: all but the last follow, only the last completes.\<close>

definition fragment_flags :: "u16 \<Rightarrow> bool \<Rightarrow> bool \<Rightarrow> u16" where
  "fragment_flags flags complete follows = flags_set COMPLETE (\<not> follows \<and> complete) (flags_set FOLLOWS follows flags)"

fun labelled :: "u32 \<Rightarrow> u16 \<Rightarrow> bool \<Rightarrow> payload list \<Rightarrow> payload_frame list" where
  "labelled sid flags complete [] = []"
| "labelled sid flags complete (p # ps) =
    (let flags = fragment_flags flags complete (ps \<noteq> []) in
     \<lparr>pf_streamId = sid, pf_flags = flags, pf_payload = p\<rparr> # labelled sid flags complete ps)"

lemma length_labelled [simp]: "length (labelled sid flags complete ps) = length ps"
  by (induction ps arbitrary: flags) (simp_all add: Let_def)

lemma fragments_loop_labelled:
  assumes "0 < K"
  shows "fragments_loop K sid flags complete n q = map pf_serializeIntoSingleFrame (labelled sid flags complete (chunks K n q))"
  using assms
proof (induction K n q arbitrary: flags rule: chunks.induct)
  case (1 K n q)
  show ?case
  proof (cases "drop K q = []")
    case True
    then show ?thesis
      by (subst fragments_loop.simps, subst chunks.simps) (simp add: Let_def fragment_flags_def)
  next
    case False
    let ?flags = "fragment_flags flags complete True"
    have "fragments_loop K sid ?flags complete (n - min n K) (drop K q) =
        map pf_serializeIntoSingleFrame (labelled sid ?flags complete (chunks K (n - min n K) (drop K q)))"
      using 1 False by simp
    then show ?thesis using False 1(2)
      by (subst fragments_loop.simps, subst chunks.simps) (simp add: Let_def fragment_flags_def)
  qed
qed

section \<open>What the receiver puts together\<close>

definition received_payload :: "payload_frame \<Rightarrow> payload_frame" where
  "received_payload f = f\<lparr>pf_flags := wire_flags (FOLLOWS OR COMPLETE OR NEXT) (pf_flags f) (pf_payload f)\<rparr>"

lemma wire_flags_get:
  assumes "bits AND keep = bits" and "bits AND METADATA = 0"
  shows "flags_get bits (wire_flags keep flags p) \<longleftrightarrow> flags_get bits flags"
proof -
  have "(flags AND keep) AND bits = flags AND bits" using assms(1) by (metis and.assoc and.commute)
  moreover have "METADATA AND bits = 0" using assms(2) by (metis and.commute)
  ultimately show ?thesis by (simp add: wire_flags_def flags_get_def word_ao_dist)
qed

lemma received_payload_simps [simp]:
  "pf_streamId (received_payload f) = pf_streamId f" "pf_payload (received_payload f) = pf_payload f"
  "flags_get FOLLOWS (pf_flags (received_payload f)) = flags_get FOLLOWS (pf_flags f)"
  "flags_get COMPLETE (pf_flags (received_payload f)) = flags_get COMPLETE (pf_flags f)"
  "flags_get NEXT (pf_flags (received_payload f)) = flags_get NEXT (pf_flags f)"
  by (simp_all add: received_payload_def wire_flags_get)

lemma fragment_flags_get [simp]:
  "flags_get FOLLOWS (fragment_flags flags complete follows) = follows"
  "flags_get COMPLETE (fragment_flags flags complete follows) = (\<not> follows \<and> complete)"
  "flags_get NEXT (fragment_flags flags complete follows) = flags_get NEXT flags"
  by (simp_all add: fragment_flags_def)

lemma receive_labelled:
  assumes "m sid = Some p" and "ps \<noteq> []"
  shows "receive_payloads (map received_payload (labelled sid flags complete ps)) m =
    (replicate (length ps - 1) None @ [Some (joined p ps)], m(sid := None))"
  using assms
proof (induction ps arbitrary: p m flags)
  case (Cons q qs)
  show ?case
  proof (cases "qs = []")
    case True
    then show ?thesis using Cons.prems by (simp add: Let_def bufferOrGetFullPayload_def fun_upd_def)
  next
    case False
    let ?flags = "fragment_flags flags complete True" and ?m = "m(sid \<mapsto> payload_append p q)"
    have "receive_payloads (map received_payload (labelled sid ?flags complete qs)) ?m =
        (replicate (length qs - 1) None @ [Some (joined p (q # qs))], ?m(sid := None))"
      by (simp only: joined.simps) (rule Cons.IH [OF fun_upd_same False])
    moreover have "replicate (length qs) None = None # replicate (length qs - 1) (None :: payload option)"
      using False by (cases qs) simp_all
    moreover have "?m(sid := None) = m(sid := None)" by (simp add: fun_upd_def fun_eq_iff)
    moreover have "bufferOrGetFullPayload (received_payload \<lparr>pf_streamId = sid, pf_flags = ?flags, pf_payload = q\<rparr>) m = (None, ?m)"
      using Cons.prems by (simp add: bufferOrGetFullPayload_def)
    ultimately show ?thesis using False by (simp add: Let_def del: fun_upd_apply)
  qed
qed simp

lemma labelled_Nil [simp]: "labelled sid flags complete ps = [] \<longleftrightarrow> ps = []"
  by (cases ps) (simp_all add: Let_def)

lemma labelled_NEXT: "\<forall>pf\<in>set (labelled sid flags complete ps). flags_get NEXT (pf_flags pf) = flags_get NEXT flags"
  by (induction ps arbitrary: flags) (simp_all add: Let_def)

lemma labelled_not_complete: "\<forall>pf\<in>set (butlast (labelled sid flags complete ps)). \<not> flags_get COMPLETE (pf_flags pf)"
  by (induction ps arbitrary: flags) (simp_all add: Let_def)

lemma labelled_complete: "ps \<noteq> [] \<Longrightarrow> flags_get COMPLETE (pf_flags (last (labelled sid flags complete ps))) = complete"
  by (induction ps arbitrary: flags) (simp_all add: Let_def)

lemma chunk_ok_payload: "chunk_ok K p \<Longrightarrow> K + 9 < 2 ^ 24 \<Longrightarrow> payload_ok p"
  by (simp add: chunk_ok_def payload_ok_def)

lemma length_pf: "payload_ok (pf_payload f) \<Longrightarrow> length (pf_serializeIntoSingleFrame f) \<le> 12 + length (p_buffer (pf_payload f))"
  by (simp add: pf_serializeIntoSingleFrame_def Let_def length_writePayload) (simp add: serializedSize_def payload_ok_def)

text \<open>A frame of the list on the wire, read as the payload frame it was.\<close>

definition on_wire :: "'c cursor_api \<Rightarrow> ('c \<Rightarrow> bytes) \<Rightarrow> bytes \<Rightarrow> frame \<Rightarrow> bool" where
  "on_wire C rem bs f \<longleftrightarrow> delivers C rem bs f \<and> length bs < 2 ^ 24 + 3"

context cursor begin

lemma pf_on_wire:
  assumes "chunk_ok K (pf_payload f)" and "K + 9 < 2 ^ 24"
  shows "on_wire C rem (pf_serializeIntoSingleFrame f) (Payload_Frame (received_payload f))"
  using delivers_pf [OF chunk_ok_payload [OF assms]] length_pf [OF chunk_ok_payload [OF assms]] assms
  by (simp add: on_wire_def received_payload_def chunk_ok_def)

lemma labelled_on_wire:
  assumes "list_all (chunk_ok K) ps" and "K + 9 < 2 ^ 24"
  shows "list_all2 (\<lambda>bs pf. on_wire C rem bs (Payload_Frame pf)) (map pf_serializeIntoSingleFrame (labelled sid flags complete ps))
    (map received_payload (labelled sid flags complete ps))"
  using assms by (induction ps arbitrary: flags) (simp_all add: Let_def pf_on_wire [of K])

end

definition payload_consistent :: "payload \<Rightarrow> bool" where
  "payload_consistent p \<longleftrightarrow> p_metadataAndDataSize p = length (p_buffer p) \<and> p_metadataSize p \<le> length (p_buffer p)"

text \<open>A payload that needs fragmentation: the first chunk, the others, and what they join to.\<close>

lemma fragments_common:
  assumes "0 < K" and "K < p_metadataAndDataSize p" and "payload_consistent p"
  obtains c cs where "cs \<noteq> []" and "chunk_ok K c" and "list_all (chunk_ok K) cs" and "joined c cs = p"
    and "\<And>first sid flags. serializeInFragmentsSlowCommon K first sid flags p = first c True #
      map pf_serializeIntoSingleFrame (labelled sid flags (flags_get COMPLETE flags) cs)"
proof -
  let ?c = "makeCombined (take K (p_buffer p)) (min (p_metadataSize p) K)"
  let ?cs = "chunks K (p_metadataSize p - min (p_metadataSize p) K) (drop K (p_buffer p))"
  have len: "K < length (p_buffer p)" "p_metadataSize p \<le> length (p_buffer p)"
    and p: "payload_append (makeCombined [] 0) (makeCombined (p_buffer p) (p_metadataSize p)) = p"
    using assms(2,3) by (simp_all add: makeCombined_def payload_append_def payload_consistent_def)
  have cs: "chunks K (p_metadataSize p) (p_buffer p) = ?c # ?cs"
    using assms(1) len(1) by (subst chunks.simps) simp
  have "joined (payload_append (makeCombined [] 0) ?c) ?cs = p"
    using chunks_joined [OF assms(1) len(2), of "makeCombined [] 0"] cs p by simp
  then have "joined ?c ?cs = p" by (simp add: makeCombined_def payload_append_def)
  moreover have "serializeInFragmentsSlowCommon K first sid flags p = first ?c True #
      map pf_serializeIntoSingleFrame (labelled sid flags (flags_get COMPLETE flags) ?cs)" for first sid flags
    using len(1) fragments_loop_labelled [OF assms(1)] by (simp add: serializeInFragmentsSlowCommon_def Let_def)
  moreover have "chunk_ok K ?c" "list_all (chunk_ok K) ?cs"
    using chunks_ok [OF assms(1) len(2)] cs by simp_all
  ultimately show thesis using that [of ?cs ?c] by simp
qed

lemma payload_reassembly:
  assumes "cursor C rem" and "0 < K" and "K + 9 < 2 ^ 24"
    and "payload_consistent (pf_payload f)" and "\<not> flags_get FOLLOWS (pf_flags f)" and "m (pf_streamId f) = None"
  shows "\<exists>pfs. list_all2 (\<lambda>bs pf. on_wire C rem bs (Payload_Frame pf)) (pf_serialize K f) pfs \<and>
    receive_payloads pfs m = (replicate (length pfs - 1) None @ [Some (pf_payload f)], m) \<and>
    (\<forall>pf\<in>set pfs. flags_get NEXT (pf_flags pf) = flags_get NEXT (pf_flags f)) \<and>
    (\<forall>pf\<in>set (butlast pfs). \<not> flags_get COMPLETE (pf_flags pf)) \<and>
    flags_get COMPLETE (pf_flags (last pfs)) = flags_get COMPLETE (pf_flags f)"
proof (cases "p_metadataAndDataSize (pf_payload f) > K")
  case False
  then have "chunk_ok K (pf_payload f)" using assms(4) by (simp add: chunk_ok_def payload_consistent_def)
  then show ?thesis
    using cursor.pf_on_wire [OF assms(1) _ assms(3)] False assms(5,6)
    by (intro exI [of _ "[received_payload f]"]) (simp add: pf_serialize_def Let_def bufferOrGetFullPayload_def)
next
  case True
  define complete where "complete = flags_get COMPLETE (pf_flags f)"
  from fragments_common [OF assms(2) True assms(4)] obtain c cs
    where cs: "cs \<noteq> []" and ok: "chunk_ok K c" "list_all (chunk_ok K) cs" and p: "joined c cs = pf_payload f"
      and common: "\<And>first sid flags. serializeInFragmentsSlowCommon K first sid flags (pf_payload f) = first c True #
        map pf_serializeIntoSingleFrame (labelled sid flags (flags_get COMPLETE flags) cs)" by metis
  let ?sid = "pf_streamId f" and ?flags = "flags_set NEXT (flags_get NEXT (pf_flags f)) (flags_set COMPLETE complete 0)"
  let ?first = "f\<lparr>pf_payload := c, pf_flags := flags_set COMPLETE False (flags_set FOLLOWS True (pf_flags f))\<rparr>"
  have frames: "pf_serialize K f = pf_serializeIntoSingleFrame ?first #
      map pf_serializeIntoSingleFrame (labelled ?sid ?flags complete cs)"
    using True by (simp add: pf_serialize_def pf_serializeInFragmentsSlow_def common complete_def Let_def)
  let ?fs = "?first # labelled ?sid ?flags complete cs"
  have r: "receive_payloads (map received_payload ?fs) m = (None # replicate (length cs - 1) None @ [Some (pf_payload f)], m)"
    using receive_labelled [of "m(?sid \<mapsto> c)" ?sid c cs] cs assms(6) p
    by (simp add: Let_def bufferOrGetFullPayload_def fun_upd_idem)
  have rep: "None # replicate (length cs - 1) None = replicate (length (map received_payload ?fs) - 1) (None :: payload option)"
    using cs by (cases cs) (simp_all add: Let_def)
  have b: "butlast (map received_payload ?fs) = map received_payload (butlast ?fs)" by (simp add: map_butlast)
  have l: "last (map received_payload ?fs) = received_payload (last ?fs)" by (simp add: last_map)
  show ?thesis
  proof (intro exI [of _ "map received_payload ?fs"] conjI)
    show "list_all2 (\<lambda>bs pf. on_wire C rem bs (Payload_Frame pf)) (pf_serialize K f) (map received_payload ?fs)"
      unfolding frames using cursor.labelled_on_wire [OF assms(1) ok(2) assms(3)] cursor.pf_on_wire [OF assms(1) _ assms(3)] ok(1)
      by simp
    show "receive_payloads (map received_payload ?fs) m = (replicate (length (map received_payload ?fs) - 1) None @ [Some (pf_payload f)], m)"
      unfolding r rep [symmetric] by simp
    show "\<forall>pf\<in>set (map received_payload ?fs). flags_get NEXT (pf_flags pf) = flags_get NEXT (pf_flags f)"
      using labelled_NEXT [of ?sid ?flags complete cs] by simp
    show "\<forall>pf\<in>set (butlast (map received_payload ?fs)). \<not> flags_get COMPLETE (pf_flags pf)"
      unfolding b using labelled_not_complete [of ?sid ?flags complete cs] cs by simp
    show "flags_get COMPLETE (pf_flags (last (map received_payload ?fs))) = flags_get COMPLETE (pf_flags f)"
      unfolding l complete_def [symmetric] using labelled_complete [OF cs, of ?sid ?flags complete] cs by simp
  qed
qed

text \<open>
  C23: whatever the size of its payload, a payload frame is written as frames whose lengths fit the
  three-byte length field; the client parses each of them, buffers all but the last and with the last
  one returns the payload that was sent, leaving its buffer of fragments as it was.  Every fragment
  keeps the \<open>next\<close> flag, and only the last one carries the \<open>complete\<close> flag.
\<close>

theorem client_reassembles_payload:
  assumes "cursor C rem" and "0 < K" and "K + 9 < 2 ^ 24"
    and "payload_consistent (pf_payload f)" and "\<not> flags_get FOLLOWS (pf_flags f)" and "m (pf_streamId f) = None"
  shows "\<exists>pfs. list_all2 (\<lambda>bs pf. on_wire C rem bs (Payload_Frame pf)) (pf_serialize K f) pfs \<and>
    receive_payloads pfs m = (replicate (length pfs - 1) None @ [Some (pf_payload f)], m) \<and>
    (\<forall>pf\<in>set pfs. flags_get NEXT (pf_flags pf) = flags_get NEXT (pf_flags f)) \<and>
    (\<forall>pf\<in>set (butlast pfs). \<not> flags_get COMPLETE (pf_flags pf)) \<and>
    flags_get COMPLETE (pf_flags (last pfs)) = flags_get COMPLETE (pf_flags f)"
  using assms by (rule payload_reassembly)

definition sample_payload_frame :: payload_frame where
  "sample_payload_frame = \<lparr>pf_streamId = 7, pf_flags = NEXT OR COMPLETE,
     pf_payload = makeFromMetadataAndData [1, 2, 3] [4, 5, 6, 7]\<rparr>"

theorem client_reassembles_payload_witness:
  "length (pf_serialize 2 sample_payload_frame) = 4 \<and>
    (\<exists>pfs. list_all2 (\<lambda>bs pf. on_wire chain_api concat bs (Payload_Frame pf)) (pf_serialize 2 sample_payload_frame) pfs \<and>
      receive_payloads pfs (\<lambda>_. None) = (replicate (length pfs - 1) None @ [Some (pf_payload sample_payload_frame)], \<lambda>_. None))"
proof -
  have "payload_consistent (pf_payload sample_payload_frame)" "\<not> flags_get FOLLOWS (pf_flags sample_payload_frame)"
    by (simp_all add: sample_payload_frame_def payload_consistent_def makeFromMetadataAndData_def flags_get_def)
  moreover have "length (pf_serialize 2 sample_payload_frame) = 4" by code_simp
  ultimately show ?thesis
    using client_reassembles_payload [OF chain_cursor.cursor_axioms, of 2 sample_payload_frame "\<lambda>_. None"] by auto
qed

end
