(* ===== verification/Rocket_Split.thy ===== *)
theory Rocket_Split
  imports Rocket_Parser Rocket_Fragments "HOL-Library.Sublist"
begin

unbundle bit_operations_syntax

text \<open>
  What the parser strategies have in common: the reference \<open>split_frames\<close> cuts a byte stream at its
  length fields, and the locale \<open>frame_strategy\<close> states that a strategy hands its owner these frames,
  in this order, and keeps the rest, whatever the reads it is fed.
\<close>

section \<open>The reference\<close>

function split_frames :: "bytes \<Rightarrow> bytes list \<times> bytes" where
  "split_frames bs =
    (if length bs < 3 then ([], bs)
     else let n = size24 (take 3 bs) in
       if length bs < n + 3 then ([], bs)
       else let (fs, rest) = split_frames (drop (n + 3) bs) in (take n (drop 3 bs) # fs, rest))"
  by pat_completeness auto
termination by (relation "measure length") auto

declare split_frames.simps [simp del]

lemma split_frames_short: "length bs < 3 \<Longrightarrow> split_frames bs = ([], bs)"
  by (simp add: split_frames.simps)

lemma split_frames_partial: "length bs < size24 (take 3 bs) + 3 \<Longrightarrow> split_frames bs = ([], bs)"
  by (cases "length bs < 3") (simp_all add: split_frames.simps Let_def)

lemma split_frames_frame:
  assumes "3 \<le> length bs" and "n = size24 (take 3 bs)" and "n + 3 \<le> length bs"
  shows "split_frames bs = (take n (drop 3 bs) # fst (split_frames (drop (n + 3) bs)), snd (split_frames (drop (n + 3) bs)))"
  using assms by (subst split_frames.simps) (simp add: Let_def split: prod.split)

lemma split_frames_append:
  "split_frames (bs @ cs) = (fst (split_frames bs) @ fst (split_frames (snd (split_frames bs) @ cs)),
     snd (split_frames (snd (split_frames bs) @ cs)))"
proof (induction bs rule: split_frames.induct)
  case (1 bs)
  let ?n = "size24 (take 3 bs)"
  consider "length bs < 3" | "3 \<le> length bs" "length bs < ?n + 3" | "3 \<le> length bs" "?n + 3 \<le> length bs" by linarith
  then show ?case
  proof cases
    case 3
    then have "split_frames (bs @ cs) = (take ?n (drop 3 bs) # fst (split_frames (drop (?n + 3) bs @ cs)),
        snd (split_frames (drop (?n + 3) bs @ cs)))"
      by (subst split_frames_frame [of "bs @ cs" ?n]) auto
    moreover have "split_frames bs = (take ?n (drop 3 bs) # fst (split_frames (drop (?n + 3) bs)),
        snd (split_frames (drop (?n + 3) bs)))"
      using 3 by (intro split_frames_frame) simp_all
    ultimately show ?thesis using 1 [OF _ refl] 3 by simp
  qed (simp_all add: split_frames_short split_frames_partial)
qed

lemma split_frames_rest: "split_frames (snd (split_frames bs)) = ([], snd (split_frames bs))"
  using split_frames_append [of bs "[]"] by (simp add: prod_eq_iff)

lemma size24_written: "n < 2 ^ 24 \<Longrightarrow> size24 (writeFrameOrMetadataSize n) = n"
proof -
  assume n: "n < 2 ^ 24"
  let ?bs = "writeFrameOrMetadataSize n"
  have "readFrameOrMetadataSize chain_api [?bs] = Inr (size24 ?bs, [[]])"
    by (simp add: readFrameOrMetadataSize_def size24_def c_read_def chain_api_def)
  then show ?thesis using chain_cursor.reads_size [OF n, unfolded reads_def, rule_format, of "[?bs]" "[]"] by simp
qed

definition framed :: "bytes \<Rightarrow> bytes" where
  "framed f = writeFrameOrMetadataSize (length f) @ f"

lemma split_frames_framed:
  assumes "\<forall>f\<in>set fs. length f < 2 ^ 24"
  shows "split_frames (concat (map framed fs) @ bs) = (fs @ fst (split_frames bs), snd (split_frames bs))"
  using assms
proof (induction fs)
  case (Cons f fs)
  let ?bs = "framed f @ concat (map framed fs) @ bs"
  have "take (length f) (drop 3 ?bs) = f" "drop (length f + 3) ?bs = concat (map framed fs) @ bs"
    "size24 (take 3 ?bs) = length f" "length f + 3 \<le> length ?bs"
    using Cons.prems by (simp_all add: framed_def size24_written)
  then show ?case using split_frames_frame [of ?bs "length f"] Cons by simp
qed simp

text \<open>Frames written to the wire are split off again.\<close>

lemma on_wire_framed: "on_wire C rem bs f \<Longrightarrow> \<exists>body. bs = framed body \<and> length body < 2 ^ 24 \<and>
    (\<forall>c. rem c = body \<longrightarrow> parse_frame C rem c = Inr f)"
  by (auto simp: on_wire_def delivers_def framed_def)

section \<open>The interface of a strategy\<close>

text \<open>
  An owner that records the frames it is handed; every owner can be made one.
\<close>

locale logged_owner =
  fixes api :: "'o parser_owner" and log :: "'o \<Rightarrow> bytes list"
  assumes log_inc: "log (snd (o_incMemoryUsage api n own)) = log own"
    and log_dec: "log (o_decMemoryUsage api n own) = log own"
    and log_handle: "log (snd (o_handleFrame api f own)) = log own @ [f]"

definition log_api :: "'o parser_owner \<Rightarrow> ('o \<times> bytes list) parser_owner" where
  "log_api api = \<lparr>
     o_incMemoryUsage = (\<lambda>n (own, l). case o_incMemoryUsage api n own of (granted, own) \<Rightarrow> (granted, (own, l))),
     o_decMemoryUsage = (\<lambda>n (own, l). (o_decMemoryUsage api n own, l)),
     o_handleFrame = (\<lambda>f (own, l). case o_handleFrame api f own of (e, own) \<Rightarrow> (e, (own, l @ [f]))),
     o_close = (\<lambda>e (own, l). (o_close api e own, l))\<rparr>"

interpretation log_api: logged_owner "log_api api" snd
  by unfold_locales (auto simp: log_api_def split: prod.splits)

inductive fed :: "(bytes \<Rightarrow> 'p \<Rightarrow> 'o \<Rightarrow> thrift_error option \<times> 'p \<times> 'o) \<Rightarrow> ('p \<Rightarrow> bytes \<Rightarrow> bool) \<Rightarrow> ('p \<Rightarrow> bool) \<Rightarrow>
    'p \<Rightarrow> 'o \<Rightarrow> bytes list \<Rightarrow> 'p \<Rightarrow> 'o \<Rightarrow> bool" for read admissible waiting where
  fed_Nil: "fed read admissible waiting p own [] p own"
| fed_Cons: "admissible p d \<Longrightarrow> read d p own = (None, p', own') \<Longrightarrow> waiting p' \<Longrightarrow> fed read admissible waiting p' own' ds p'' own'' \<Longrightarrow>
    fed read admissible waiting p own (d # ds) p'' own''"

text \<open>The same as a function, for concrete streams.\<close>

fun feed :: "(bytes \<Rightarrow> 'p \<Rightarrow> 'o \<Rightarrow> thrift_error option \<times> 'p \<times> 'o) \<Rightarrow> ('p \<Rightarrow> bytes \<Rightarrow> bool) \<Rightarrow> ('p \<Rightarrow> bool) \<Rightarrow>
    bytes list \<Rightarrow> 'p \<Rightarrow> 'o \<Rightarrow> ('p \<times> 'o) option" where
  "feed read admissible waiting [] p own = Some (p, own)"
| "feed read admissible waiting (d # ds) p own =
    (if admissible p d then
       (case read d p own of
          (None, p', own') \<Rightarrow> if waiting p' then feed read admissible waiting ds p' own' else None
        | (Some e, p', own') \<Rightarrow> None)
     else None)"

lemma feed_fed: "feed read admissible waiting ds p own = Some (p', own') \<Longrightarrow> fed read admissible waiting p own ds p' own'"
  by (induction read admissible waiting ds p own rule: feed.induct)
    (auto split: if_splits prod.splits option.splits intro: fed.intros)

text \<open>
  What a read that ends in \<open>(e, p', own')\<close> has handed to the owner of the stream \<open>bs\<close>: always a
  prefix of its frames, and all of them when the strategy is waiting again for the rest of the last one.
\<close>

definition handed :: "('p \<Rightarrow> bool) \<Rightarrow> ('p \<Rightarrow> bytes) \<Rightarrow> ('o \<Rightarrow> bytes list) \<Rightarrow> bytes \<Rightarrow> 'o \<Rightarrow> thrift_error option \<times> 'p \<times> 'o \<Rightarrow> bool" where
  "handed waiting pending log bs own r \<longleftrightarrow> (case r of (e, p', own') \<Rightarrow>
     \<exists>fs. prefix fs (fst (split_frames bs)) \<and> log own' = log own @ fs \<and>
       (e = None \<and> waiting p' \<longrightarrow> split_frames bs = (fs, pending p')))"

lemma handed_stop:
  assumes "log own' = log own" and "e = None \<Longrightarrow> waiting p' \<Longrightarrow> split_frames bs = ([], pending p')"
  shows "handed waiting pending log bs own (e, p', own')"
  using assms by (auto simp: handed_def)

lemma handed_frame:
  assumes "n = size24 (take 3 bs)" and "n + 3 \<le> length bs" and "log own1 = log own @ [take n (drop 3 bs)]"
    and "handed waiting pending log (drop (n + 3) bs) own1 r"
  shows "handed waiting pending log bs own r"
proof -
  obtain e p' own' where r: "r = (e, p', own')" by (cases r)
  obtain fs where "prefix fs (fst (split_frames (drop (n + 3) bs)))" "log own' = log own1 @ fs"
    "e = None \<and> waiting p' \<longrightarrow> split_frames (drop (n + 3) bs) = (fs, pending p')"
    using assms(4) r by (auto simp: handed_def)
  then show ?thesis
    using split_frames_frame [OF _ assms(1,2)] assms(2,3) r
    by (auto simp: handed_def intro!: exI [of _ "take n (drop 3 bs) # fs"])
qed

lemma handed_last_frame:
  assumes "n = size24 (take 3 bs)" and "n + 3 \<le> length bs" and "log own1 = log own @ [take n (drop 3 bs)]"
  shows "handed waiting pending log bs own (Some e, p', own1)"
  using assms by (intro handed_frame [where log = log and ?own1.0 = own1 and own = own, OF assms] handed_stop) simp_all

text \<open>
  \<open>waiting\<close> describes the states in which a strategy waits for more bytes of an incomplete frame,
  \<open>pending\<close> the bytes of that frame, and \<open>admissible\<close> the reads the strategy allows.
\<close>

locale frame_strategy =
  fixes read :: "bytes \<Rightarrow> 'p \<Rightarrow> 'o \<Rightarrow> thrift_error option \<times> 'p \<times> 'o"
    and admissible :: "'p \<Rightarrow> bytes \<Rightarrow> bool"
    and waiting :: "'p \<Rightarrow> bool"
    and pending :: "'p \<Rightarrow> bytes"
    and log :: "'o \<Rightarrow> bytes list"
  assumes read_frames: "waiting p \<Longrightarrow> admissible p d \<Longrightarrow> handed waiting pending log (pending p @ d) own (read d p own)"
    and pending_incomplete: "waiting p \<Longrightarrow> split_frames (pending p) = ([], pending p)"
begin

lemma fed_frames:
  assumes "fed read admissible waiting p own ds p' own'" and "waiting p"
  shows "waiting p' \<and> log own' = log own @ fst (split_frames (pending p @ concat ds)) \<and>
    pending p' = snd (split_frames (pending p @ concat ds))"
  using assms
proof (induction rule: fed.induct)
  case (fed_Nil p own)
  then show ?case using pending_incomplete by simp
next
  case (fed_Cons p d own p' own' ds p'' own'')
  then have "log own' = log own @ fst (split_frames (pending p @ d))" "pending p' = snd (split_frames (pending p @ d))"
    using read_frames [of p d own] by (auto simp: handed_def)
  then show ?case using fed_Cons split_frames_append [of "pending p @ d" "concat ds"] by simp
qed

end

section \<open>FrameLengthParserStrategy\<close>

definition fl_wf :: "flp \<Rightarrow> bool" where
  "fl_wf p \<longleftrightarrow> fl_size p = length (fl_queue p) \<and>
    (if fl_frameLength p = 0 then fl_frameLengthAndFieldSize p = 0
     else fl_frameLengthAndFieldSize p = fl_frameLength p + 3 \<and> 3 \<le> fl_size p \<and>
       fl_frameLength p = size24 (take 3 (fl_queue p)))"

definition fl_inv :: "flp \<Rightarrow> bool" where
  "fl_inv p \<longleftrightarrow> fl_wf p \<and> (if fl_frameLength p = 0 then fl_size p < 3 else fl_size p < fl_frameLengthAndFieldSize p)"

lemma fl_inv_incomplete: "fl_inv p \<Longrightarrow> split_frames (fl_queue p) = ([], fl_queue p)"
  by (auto simp: fl_inv_def fl_wf_def split: if_splits intro: split_frames_short split_frames_partial)

context logged_owner begin

lemma fl_await_state:
  assumes "fl_wf p" and "3 \<le> fl_size p"
  shows "case fl_await api p own of
      Inl (e, p', own') \<Rightarrow> log own' = log own \<and> (e = None \<and> fl_inv p' \<longrightarrow> split_frames (fl_queue p) = ([], fl_queue p'))
    | Inr (p', own') \<Rightarrow> log own' = log own \<and> fl_queue p' = fl_queue p \<and> fl_size p' = length (fl_queue p) \<and>
        fl_frameLength p' = size24 (take 3 (fl_queue p)) \<and> fl_frameLengthAndFieldSize p' = fl_frameLength p' + 3 \<and>
        fl_frameLengthAndFieldSize p' \<le> length (fl_queue p)"
  using assms log_inc
  by (auto simp: fl_await_def fl_computeFrameLength_def Let_def fl_wf_def split: prod.splits sum.splits if_splits
      dest: fl_inv_incomplete) (metis snd_conv)+

lemma fl_handoff_state:
  assumes "fl_size p = length (fl_queue p)" and "fl_frameLengthAndFieldSize p = fl_frameLength p + 3"
    and "fl_frameLengthAndFieldSize p \<le> length (fl_queue p)" and "fl_handoff api p own = (e, p', own')"
  shows "log own' = log own @ [take (fl_frameLength p) (drop 3 (fl_queue p))] \<and>
    fl_queue p' = drop (fl_frameLength p + 3) (fl_queue p) \<and> fl_wf p'"
proof -
  let ?f = "take (fl_frameLength p) (drop 3 (fl_queue p))"
  obtain e1 own1 where h: "o_handleFrame api ?f own = (e1, own1)" by (metis surj_pair)
  then have "log own1 = log own @ [?f]" using log_handle [of ?f own] by simp
  then show ?thesis
    using assms h log_dec
    by (auto simp: fl_handoff_def Let_def fl_resetFrameLength_def fl_wf_def add.commute split: if_splits)
qed

lemma fl_drain_frames: "fl_wf p \<Longrightarrow> handed fl_inv fl_queue log (fl_queue p) own (fl_drainReadBufQueue api p own)"
proof (induction "length (fl_queue p)" arbitrary: p own rule: less_induct)
  case less
  show ?case
  proof (cases "3 \<le> fl_size p")
    case False
    then show ?thesis using less.prems
      by (auto simp: fl_wf_def split_frames_short fl_drainReadBufQueue.simps [of api p] intro!: handed_stop)
  next
    case True
    note await = fl_await_state [OF less.prems True, of own]
    show ?thesis
    proof (cases "fl_await api p own")
      case (Inl r)
      then show ?thesis using await True
        by (auto simp: fl_drainReadBufQueue.simps [of api p] intro!: handed_stop)
    next
      case (Inr q)
      obtain p1 own1 where q: "q = (p1, own1)" by (cases q)
      let ?n = "size24 (take 3 (fl_queue p))"
      have p1: "log own1 = log own" "fl_queue p1 = fl_queue p" "fl_size p1 = length (fl_queue p1)" "fl_frameLength p1 = ?n"
        "fl_frameLengthAndFieldSize p1 = fl_frameLength p1 + 3" "?n + 3 \<le> length (fl_queue p)"
        using await Inr q by auto
      obtain e2 p2 own2 where h: "fl_handoff api p1 own1 = (e2, p2, own2)" by (metis surj_pair)
      have p2: "log own2 = log own @ [take ?n (drop 3 (fl_queue p))]" "fl_queue p2 = drop (?n + 3) (fl_queue p)" "fl_wf p2"
        using fl_handoff_state [OF p1(3,5) _ h] p1 by simp_all
      have "handed fl_inv fl_queue log (drop (?n + 3) (fl_queue p)) own2 (fl_drainReadBufQueue api p2 own2)"
        using less.hyps [of p2 own2] p1(6) p2(2,3) by simp
      then show ?thesis
        using True Inr q h handed_last_frame [where log = log and ?own1.0 = own2 and own = own, OF refl p1(6) p2(1)] handed_frame [where log = log and ?own1.0 = own2 and own = own, OF refl p1(6) p2(1)]
        by (cases e2) (simp_all add: fl_drainReadBufQueue.simps [of api p])
    qed
  qed
qed

end

text \<open>Every owner, with a record of what it is handed, sees the strategy behave as the interface says.\<close>

interpretation fl: frame_strategy "fl_readDataAvailable (log_api api)" "\<lambda>_ _. True" fl_inv fl_queue snd
proof
  fix p :: flp and d and own :: "'a \<times> bytes list"
  assume "fl_inv p"
  then have "fl_wf (p\<lparr>fl_size := fl_size p + length d, fl_queue := fl_queue p @ d\<rparr>)"
    by (auto simp: fl_inv_def fl_wf_def split: if_splits)
  then show "handed fl_inv fl_queue snd (fl_queue p @ d) own (fl_readDataAvailable (log_api api) d p own)"
    using log_api.fl_drain_frames by (fastforce simp: fl_readDataAvailable_def)
qed (rule fl_inv_incomplete)

section \<open>AllocatingParserStrategy\<close>

definition al_wf :: "alp \<Rightarrow> bool" where
  "al_wf p \<longleftrightarrow> al_size p = length (al_bytes p) \<and>
    (al_frameLength p \<noteq> 0 \<longrightarrow> al_frameLengthAndFieldSize p = al_frameLength p + 3 \<and> 3 \<le> al_size p \<and>
       al_frameLength p = size24 (take 3 (al_bytes p)))"

definition al_inv :: "alp \<Rightarrow> bool" where
  "al_inv p \<longleftrightarrow> al_wf p \<and> (al_size p < 3 \<or> al_frameLength p \<noteq> 0 \<and> al_size p < al_frameLengthAndFieldSize p)"

lemma al_inv_incomplete: "al_inv p \<Longrightarrow> split_frames (al_bytes p) = ([], al_bytes p)"
  by (auto simp: al_inv_def al_wf_def split: if_splits intro: split_frames_short split_frames_partial)

context logged_owner begin

lemma log_tryResize: "al_tryResize api p own = (p', own') \<Longrightarrow> log own' = log own"
  using log_inc [of "of_nat (al_frameLengthAndFieldSize p)" own] by (auto simp: al_tryResize_def split: prod.splits if_splits)

lemma al_awaitLength_frames:
  assumes "al_wf p" and "3 \<le> al_size p" and "al_awaitLength api p own = (p', own')"
  shows "log own' = log own" and "al_bytes p' = al_bytes p" and "al_size p' = length (al_bytes p)"
    and "al_frameLength p' = size24 (take 3 (al_bytes p))" and "al_frameLengthAndFieldSize p' = al_frameLength p' + 3"
proof -
  note st = al_awaitLength_state [OF assms(3)]
  show "log own' = log own" using assms(3) log_tryResize by (auto simp: al_awaitLength_def Let_def split: if_splits)
  show "al_bytes p' = al_bytes p" by (rule st)
  show "al_size p' = length (al_bytes p)" using st assms(1) by (simp add: al_wf_def)
  show "al_frameLength p' = size24 (take 3 (al_bytes p))" "al_frameLengthAndFieldSize p' = al_frameLength p' + 3"
    using st assms(1) by (cases "al_frameLength p = 0"; simp add: al_wf_def al_computeFrameLength_def)+
qed

lemma al_nextLength_frames:
  assumes "al_nextLength api p own = (granted, n, m, own')" and "al_size p = length (al_bytes p)"
  shows "log own' = log own"
    and "n \<noteq> 0 \<longrightarrow> m = n + 3 \<and> 3 \<le> length (drop (al_frameLengthAndFieldSize p) (al_bytes p)) \<and>
      n = size24 (take 3 (drop (al_frameLengthAndFieldSize p) (al_bytes p)))"
  using assms log_inc
  by (auto simp: al_nextLength_def al_computeFrameLength_def Let_def split: if_splits prod.splits) (metis snd_conv)

lemma al_handoff_frames:
  assumes "al_handoff api n m p own = (e, p', own')" and "al_frameLengthAndFieldSize p = k + 3"
    and "al_size p = length (al_bytes p)"
  shows "log own' = log own @ [take k (drop 3 (al_bytes p))]" and "al_bytes p' = drop (k + 3) (al_bytes p)"
proof -
  have f: "drop 3 (take (k + 3) (al_bytes p)) = take k (drop 3 (al_bytes p))"
    by (simp add: drop_take)
  obtain e1 own1 where h: "o_handleFrame api (take k (drop 3 (al_bytes p))) own = (e1, own1)" by (metis surj_pair)
  then have "log own1 = log own @ [take k (drop 3 (al_bytes p))]"
    using log_handle [of "take k (drop 3 (al_bytes p))" own] by simp
  then show "log own' = log own @ [take k (drop 3 (al_bytes p))]" and "al_bytes p' = drop (k + 3) (al_bytes p)"
    using assms f h log_dec by (auto simp: al_handoff_def Let_def al_bytes_def split: option.splits)
qed

lemma al_loop_frames: "al_wf p \<Longrightarrow> handed al_inv al_bytes log (al_bytes p) own (al_loop api p own)"
proof (induction "length (al_bytes p)" arbitrary: p own rule: less_induct)
  case less
  show ?case
  proof (cases "3 \<le> al_size p")
    case False
    then show ?thesis using less.prems
      by (auto simp: al_wf_def split_frames_short al_loop.simps [of api p] intro!: handed_stop)
  next
    case True
    let ?n = "size24 (take 3 (al_bytes p))"
    obtain p1 own1 where a: "al_awaitLength api p own = (p1, own1)" by (metis surj_pair)
    note p1 = al_awaitLength_frames [OF less.prems True a]
    obtain granted n m own2 where b: "al_nextLength api p1 own1 = (granted, n, m, own2)" by (metis surj_pair)
    note own2 = al_nextLength_frames [OF b p1(3) [folded p1(2)]]
    obtain e3 p3 own3 where h: "al_handoff api n m p1 own2 = (e3, p3, own3)" by (metis surj_pair)
    have p3: "log own3 = log own @ [take ?n (drop 3 (al_bytes p))]" "al_bytes p3 = drop (?n + 3) (al_bytes p)"
      using al_handoff_frames [OF h p1(5)] p1 own2(1) by simp_all
    show ?thesis
    proof (cases "al_size p1 < al_frameLengthAndFieldSize p1 \<or> \<not> granted")
      case True
      moreover have "al_inv p1 \<Longrightarrow> split_frames (al_bytes p) = ([], al_bytes p1)"
        using al_inv_incomplete [of p1] p1(2) by simp
      ultimately show ?thesis
        using \<open>3 \<le> al_size p\<close> a b p1(1) own2(1)
        by (auto simp: al_loop.simps [of api p] al_round_def intro!: handed_stop split: if_splits)
    next
      case False
      then have le: "?n + 3 \<le> length (al_bytes p)" using p1 by simp
      have "al_wf p3" using al_handoff_state [OF h] own2(2) p1 p3(2) by (auto simp: al_wf_def)
      then have "handed al_inv al_bytes log (drop (?n + 3) (al_bytes p)) own3 (al_loop api p3 own3)"
        using less.hyps [of p3 own3] le p3(2) by simp
      then show ?thesis
        using \<open>3 \<le> al_size p\<close> False a b h handed_last_frame [where log = log and ?own1.0 = own3 and own = own, OF refl le p3(1)] handed_frame [where log = log and ?own1.0 = own3 and own = own, OF refl le p3(1)]
        by (cases e3) (simp_all add: al_loop.simps [of api p] al_round_def)
    qed
  qed
qed

end

text \<open>A read as the socket does it: it asks for the buffer first.\<close>

definition al_read :: "'o parser_owner \<Rightarrow> bytes \<Rightarrow> alp \<Rightarrow> 'o \<Rightarrow> thrift_error option \<times> alp \<times> 'o" where
  "al_read api d p own = al_readDataAvailable api d (snd (al_getReadBuffer p)) own"

interpretation al: frame_strategy "al_read (log_api api)" "\<lambda>p d. length d \<le> fst (al_getReadBuffer p)" al_inv al_bytes snd
proof
  fix p :: alp and d and own :: "'a \<times> bytes list"
  let ?p = "snd (al_getReadBuffer p)"
  assume "al_inv p"
  moreover have "al_bytes ?p = al_bytes p" "al_size ?p = al_size p" "al_frameLength ?p = al_frameLength p"
      "al_frameLengthAndFieldSize ?p = al_frameLengthAndFieldSize p"
    by (simp_all add: al_getReadBuffer_def al_bytes_def Let_def)
  ultimately have "al_wf (?p\<lparr>al_size := al_size ?p + length d, al_buffer := Some (al_bytes ?p @ d)\<rparr>)"
    by (auto simp: al_inv_def al_wf_def al_bytes_def split: if_splits option.splits)
  then show "handed al_inv al_bytes snd (al_bytes p @ d) own (al_read (log_api api) d p own)"
    using log_api.al_loop_frames \<open>al_bytes ?p = al_bytes p\<close> by (fastforce simp: al_read_def al_readDataAvailable_def al_bytes_def)
qed (rule al_inv_incomplete)

end
