(* ===== verification/Rocket_Aligned.thy ===== *)
theory Rocket_Aligned
  imports Rocket_Split
begin

unbundle bit_operations_syntax

text \<open>
  The third strategy, \<open>AlignedParserStrategy\<close>: a state machine that asks the socket for exactly the
  bytes of the part it is waiting for.  It satisfies the interface of the others on reads that
  fill at most the buffer it offered and on streams whose cancel frames have no body; what it does
  on frames that have nothing after the header, or after the metadata length, is stated at the end.
\<close>

lemma size24_less: "size24 bs < 2 ^ 24"
proof -
  have "push_bit 16 (ucast a) OR push_bit 8 (ucast b) OR ucast c = take_bit 24 (push_bit 16 (ucast a) OR push_bit 8 (ucast b) OR ucast c :: u64)"
    for a b c :: byte
    by (rule bit_word_eqI) (auto simp: bit_simps dest: bit_imp_le_length)
  then have "size24 bs = unat (take_bit 24 (push_bit 16 (ucast (bs ! 0)) OR push_bit 8 (ucast (bs ! 1)) OR ucast (bs ! 2) :: u64))"
    unfolding size24_def by metis
  then show ?thesis by (simp only: unsigned_take_bit_eq take_bit_nat_less_exp)
qed

lemma usub_eq: "b \<le> a \<Longrightarrow> a < 2 ^ 64 \<Longrightarrow> usub a b = a - b"
  unfolding usub_def by (simp add: of_nat_diff [symmetric] unat_of_nat take_bit_nat_eq_self del: of_nat_diff)

definition header_word :: "bytes \<Rightarrow> u16" where
  "header_word h = be_word (take 2 (drop 7 h))"

definition header_type :: "bytes \<Rightarrow> byte" where
  "header_type h = ucast (drop_bit kFlagBits (header_word h))"

lemma ag_parseHeader_eq:
  assumes "length (ag_header p) = 9"
  shows "ag_parseHeader p = (if header_word (ag_header p) AND kFlagMask AND kInvalidMask \<noteq> 0
      then Inl (InvalidFlags (header_word (ag_header p) AND kFlagMask))
      else Inr (p\<lparr>ag_frameLength := size24 (take 3 (ag_header p)), ag_frameType := header_type (ag_header p),
        ag_flags := header_word (ag_header p) AND kFlagMask\<rparr>))"
  using assms
  by (simp add: ag_parseHeader_def readFrameOrMetadataSize_def readFrameTypeAndFlagsUnsafe_def flags_make_def
      c_readBE_def c_read_def c_skip_def chain_api_def sbind_def size24_def header_type_def header_word_def and.assoc)

definition ag_pending :: "agp \<Rightarrow> bytes" where
  "ag_pending p = (if ag_state p = AwaitingNonAligned then ag_nonAlignedData p
     else ag_header p @ (case ag_metadata p of None \<Rightarrow> [] | Some m \<Rightarrow> m) @ (case ag_data p of None \<Rightarrow> [] | Some d \<Rightarrow> d))"

fun ag_waiting :: "agp \<Rightarrow> bool" where
  "ag_waiting p = (case ag_state p of
     AwaitingHeader \<Rightarrow> ag_metadata p = None \<and> ag_data p = None \<and> length (ag_header p) < 9 \<and>
       ag_remainingHeader p + length (ag_header p) = 9 \<and> split_frames (ag_header p) = ([], ag_header p)
   | AwaitingMetadataLength \<Rightarrow> ag_metadata p = None \<and> ag_data p = None \<and> 9 \<le> length (ag_header p) \<and> length (ag_header p) < 12 \<and>
       ag_remainingHeader p + length (ag_header p) = 12 \<and> ag_frameLength p = size24 (take 3 (ag_header p)) \<and> 9 \<le> ag_frameLength p
   | AwaitingMetadata \<Rightarrow> ag_data p = None \<and> length (ag_header p) = 12 \<and> ag_frameLength p = size24 (take 3 (ag_header p)) \<and>
       (case ag_metadata p of None \<Rightarrow> False | Some m \<Rightarrow> 0 < ag_remainingMetadata p \<and>
         12 + length m + ag_remainingMetadata p + ag_remainingData p = ag_frameLength p + 3)
   | AwaitingData \<Rightarrow> ag_data p \<noteq> None \<and> 9 \<le> length (ag_header p) \<and> ag_frameLength p = size24 (take 3 (ag_header p)) \<and>
       0 < ag_remainingData p \<and> length (ag_pending p) + ag_remainingData p = ag_frameLength p + 3
   | AwaitingNonAligned \<Rightarrow> ag_header p = [] \<and> ag_metadata p = None \<and> ag_data p = None \<and> 9 \<le> length (ag_nonAlignedData p) \<and>
       ag_frameLength p = size24 (take 3 (ag_nonAlignedData p)) \<and> 0 < ag_remainingUnaligned p \<and>
       length (ag_nonAlignedData p) + ag_remainingUnaligned p = ag_frameLength p + 3)"

declare ag_waiting.simps [simp del]

lemma ag_waiting_incomplete:
  assumes "ag_waiting p"
  shows "split_frames (ag_pending p) = ([], ag_pending p)"
proof (cases "ag_state p = AwaitingHeader")
  case True
  then show ?thesis using assms by (simp add: ag_waiting.simps ag_pending_def)
next
  case False
  then show ?thesis using assms
    by (intro split_frames_partial)
      (auto simp: ag_waiting.simps ag_pending_def split: aligned_state.splits option.splits)
qed

text \<open>The reads the machine allows: into the buffer it offers, and only cancel frames without a body.\<close>

definition ag_admissible :: "agp \<Rightarrow> bytes \<Rightarrow> bool" where
  "ag_admissible p d \<longleftrightarrow> length d \<le> ag_getReadBuffer p \<and>
     (ag_state p = AwaitingHeader \<and> length (ag_pending p @ d) = 9 \<and> header_type (ag_pending p @ d) = F_CANCEL \<longrightarrow>
       size24 (take 3 (ag_pending p @ d)) = 6)"

lemma ag_stop:
  assumes "ag_pending p' = bs" and "log own' = log own"
  shows "handed ag_waiting ag_pending log bs own (e, p', own')"
  using assms ag_waiting_incomplete [of p'] by (auto intro!: handed_stop)

context logged_owner begin

lemma ag_submitFrame_handed:
  assumes "ag_pending p = bs" and "ag_state p \<noteq> AwaitingNonAligned" and "length bs = size24 (take 3 bs) + 3"
  shows "handed ag_waiting ag_pending log bs own (ag_submitFrame api p own)"
proof -
  obtain e own1 where h: "o_handleFrame api (drop 3 bs) own = (e, own1)" by (metis surj_pair)
  then have l: "log own1 = log own @ [take (size24 (take 3 bs)) (drop 3 bs)]"
    using log_handle [of "drop 3 bs" own] assms(3) by simp
  let ?p = "ag_resetToInitialState (p\<lparr>ag_header := [], ag_metadata := None, ag_data := None\<rparr>)"
  have "handed ag_waiting ag_pending log [] own1 (None, ?p, own1)"
    by (rule ag_stop) (simp_all add: ag_pending_def ag_resetToInitialState_def)
  then have "handed ag_waiting ag_pending log bs own (None, ?p, own1)"
    using assms(3) by (intro handed_frame [where log = log and ?own1.0 = own1 and own = own, OF refl _ l]) simp_all
  moreover have "handed ag_waiting ag_pending log bs own (Some e', p', own1)" for e' p'
    using assms(3) by (intro handed_last_frame [where log = log and ?own1.0 = own1 and own = own, OF refl _ l]) simp
  ultimately show ?thesis
    using h assms(1,2) by (cases e) (simp_all add: ag_submitFrame_def ag_pending_def Let_def)
qed

lemma ag_submitIOBufQueueFrame_handed:
  assumes "ag_nonAlignedData p = bs" and "ag_frameLength p = size24 (take 3 bs)" and "length bs = ag_frameLength p + 3"
    and "ag_header p = []" and "ag_metadata p = None" and "ag_data p = None"
  shows "handed ag_waiting ag_pending log bs own (ag_submitIOBufQueueFrame api p own)"
proof -
  obtain e own1 where h: "o_handleFrame api (drop 3 bs) own = (e, own1)" by (metis surj_pair)
  then have l: "log own1 = log own @ [take (size24 (take 3 bs)) (drop 3 bs)]"
    using log_handle [of "drop 3 bs" own] assms(2,3) by simp
  let ?p = "ag_resetToInitialState (p\<lparr>ag_nonAlignedData := []\<rparr>)"
  have "handed ag_waiting ag_pending log [] own1 (None, ?p, own1)"
    by (rule ag_stop) (simp_all add: ag_pending_def ag_resetToInitialState_def assms)
  then have "handed ag_waiting ag_pending log bs own (None, ?p, own1)"
    using assms(2,3) by (intro handed_frame [where log = log and ?own1.0 = own1 and own = own, OF refl _ l]) simp_all
  moreover have "handed ag_waiting ag_pending log bs own (Some e', p', own1)" for e' p'
    using assms(2,3) by (intro handed_last_frame [where log = log and ?own1.0 = own1 and own = own, OF refl _ l]) simp
  ultimately show ?thesis
    using h assms(1,2,3) by (cases e) (simp_all add: ag_submitIOBufQueueFrame_def Let_def)
qed

lemma ag_header_handed:
  assumes "ag_waiting p" and "ag_admissible p d" and "ag_state p = AwaitingHeader"
  shows "handed ag_waiting ag_pending log (ag_pending p @ d) own (ag_handleAwaitingHeader api d p own)"
proof -
  have p: "ag_metadata p = None" "ag_data p = None" "ag_remainingHeader p + length (ag_header p) = 9" "length d \<le> ag_remainingHeader p"
    using assms by (auto simp: ag_waiting.simps ag_admissible_def ag_getReadBuffer_def)
  have pend: "ag_pending p @ d = ag_header p @ d" using p assms(3) by (simp add: ag_pending_def)
  define p1 where "p1 = p\<lparr>ag_header := ag_header p @ d, ag_remainingHeader := usub (ag_remainingHeader p) (length d)\<rparr>"
  have r: "ag_remainingHeader p1 = 9 - length (ag_header p @ d)" using p by (simp add: p1_def usub_eq)
  show ?thesis
  proof (cases "ag_remainingHeader p1 = 0")
    case False
    then show ?thesis using p assms(3) pend unfolding ag_handleAwaitingHeader_def p1_def [symmetric] Let_def
      by (auto intro!: ag_stop simp: ag_pending_def p1_def)
  next
    case True
    then have 9: "length (ag_header p1) = 9" using r p by (simp add: p1_def)
    have h: "ag_header p1 = ag_pending p @ d" using pend by (simp add: p1_def)
    have cancel: "header_type (ag_header p @ d) = F_CANCEL \<Longrightarrow>
        length (ag_header p @ d) = size24 (take 3 (ag_header p @ d)) + 3"
      using assms(2,3) 9 pend by (simp add: ag_admissible_def p1_def)
    show ?thesis
      using True p assms(3) h cancel ag_parseHeader_eq [OF 9]
      unfolding ag_handleAwaitingHeader_def p1_def [symmetric] Let_def
      by (auto intro!: ag_stop ag_submitFrame_handed
          simp: ag_pending_def p1_def ag_configureAligned_def ag_configuredNonAligned_def)
  qed
qed

lemma ag_metadataLength_handed:
  assumes "ag_waiting p" and "ag_state p = AwaitingMetadataLength"
  shows "handed ag_waiting ag_pending log (ag_pending p @ d) own (None, ag_handleAwaitingMetadataLength d p, own)"
  using assms by (intro ag_stop) (auto simp: ag_waiting.simps ag_pending_def ag_handleAwaitingMetadataLength_def Let_def)

lemma ag_metadata_handed:
  assumes "ag_waiting p" and "ag_admissible p d" and "ag_state p = AwaitingMetadata"
  shows "handed ag_waiting ag_pending log (ag_pending p @ d) own (ag_handleAwaitingMetadata api d p own)"
proof -
  obtain m where p: "ag_metadata p = Some m" "ag_data p = None" "length (ag_header p) = 12"
      "ag_frameLength p = size24 (take 3 (ag_header p))" "length d \<le> ag_remainingMetadata p"
      "12 + length m + ag_remainingMetadata p + ag_remainingData p = ag_frameLength p + 3"
    using assms by (auto simp: ag_waiting.simps ag_admissible_def ag_getReadBuffer_def split: option.splits)
  then have "usub (ag_remainingMetadata p) (length d) = ag_remainingMetadata p - length d"
    using size24_less [of "take 3 (ag_header p)"] by (intro usub_eq) simp_all
  then show ?thesis
    using p assms(3) unfolding ag_handleAwaitingMetadata_def Let_def
    by (auto intro!: ag_stop ag_submitFrame_handed simp: ag_pending_def appended_def)
qed

lemma ag_data_handed:
  assumes "ag_waiting p" and "ag_admissible p d" and "ag_state p = AwaitingData"
  shows "handed ag_waiting ag_pending log (ag_pending p @ d) own (ag_handleAwaitingData api d p own)"
proof -
  obtain b where p: "ag_data p = Some b" "9 \<le> length (ag_header p)"
      "ag_frameLength p = size24 (take 3 (ag_header p))" "length d \<le> ag_remainingData p"
      "length (ag_pending p) + ag_remainingData p = ag_frameLength p + 3"
    using assms by (auto simp: ag_waiting.simps ag_admissible_def ag_getReadBuffer_def)
  then have "usub (ag_remainingData p) (length d) = ag_remainingData p - length d"
    using size24_less [of "take 3 (ag_header p)"] by (intro usub_eq) simp_all
  then show ?thesis
    using p assms(3) unfolding ag_handleAwaitingData_def Let_def
    by (auto intro!: ag_stop ag_submitFrame_handed simp: ag_pending_def appended_def)
qed

lemma ag_nonAligned_handed:
  assumes "ag_waiting p" and "ag_admissible p d" and "ag_state p = AwaitingNonAligned"
  shows "handed ag_waiting ag_pending log (ag_pending p @ d) own (ag_handleNonAligned api d p own)"
proof -
  have p: "ag_header p = []" "ag_metadata p = None" "ag_data p = None" "9 \<le> length (ag_nonAlignedData p)"
      "ag_frameLength p = size24 (take 3 (ag_nonAlignedData p))" "length d \<le> ag_remainingUnaligned p"
      "length (ag_nonAlignedData p) + ag_remainingUnaligned p = ag_frameLength p + 3"
    using assms by (auto simp: ag_waiting.simps ag_admissible_def ag_getReadBuffer_def)
  then have "usub (ag_remainingUnaligned p) (length d) = ag_remainingUnaligned p - length d"
    using size24_less [of "take 3 (ag_nonAlignedData p)"] by (intro usub_eq) simp_all
  then show ?thesis
    using p assms(3) unfolding ag_handleNonAligned_def Let_def
    by (auto intro!: ag_stop ag_submitIOBufQueueFrame_handed simp: ag_pending_def)
qed

end

interpretation ag: frame_strategy "ag_readDataAvailable (log_api api)" ag_admissible ag_waiting ag_pending snd
proof
  fix p :: agp and d and own :: "'a \<times> bytes list"
  assume "ag_waiting p" and "ag_admissible p d"
  then show "handed ag_waiting ag_pending snd (ag_pending p @ d) own (ag_readDataAvailable (log_api api) d p own)"
    by (cases "ag_state p")
      (simp_all add: ag_readDataAvailable_def log_api.ag_header_handed log_api.ag_metadataLength_handed
        log_api.ag_metadata_handed log_api.ag_data_handed log_api.ag_nonAligned_handed)
qed (rule ag_waiting_incomplete)

end
