(* ===== verification/Rocket_Stream.thy ===== *)
theory Rocket_Stream
  imports Rocket_Aligned
begin

unbundle bit_operations_syntax

text \<open>
  The properties of the parser strategies: they agree with each other and with the reference, they
  make progress when the owner grants memory and accepts the frames, and
  \<open>FrameLengthParserStrategy\<close> returns exactly the memory it was granted.
\<close>

section \<open>The strategies agree\<close>


definition counting_owner :: "nat parser_owner" where
  "counting_owner = \<lparr>o_incMemoryUsage = (\<lambda>n u. (True, u + unat n)), o_decMemoryUsage = (\<lambda>n u. u - unat n),
     o_handleFrame = (\<lambda>f u. (None, u)), o_close = (\<lambda>e u. u)\<rparr>"

definition sample_body :: bytes where
  "sample_body = [0, 0, 0, 1, 0x28, 0x20, 42]"

lemma sample_feeds:
  "feed (fl_readDataAvailable (log_api counting_owner)) (\<lambda>_ _. True) fl_inv
     [[0, 0], [7, 0, 0, 0, 1, 0x28], [0x20, 42]] fl_init (0, []) = Some (fl_init, (0, [sample_body]))"
  "feed (al_read (log_api counting_owner)) (\<lambda>p d. length d \<le> fst (al_getReadBuffer p)) al_inv
     [[0, 0, 7], [0, 0, 0, 1, 0x28], [0x20, 42]] (al_init 8) (0, []) =
     Some (al_init 8\<lparr>al_currentBufferSize := 8, al_buffer := Some []\<rparr>, (0, [sample_body]))"
  "feed (ag_readDataAvailable (log_api counting_owner)) ag_admissible ag_waiting
     [[0, 0, 7, 0, 0, 0, 1, 0x28, 0x20], [42]] ag_init (0, []) =
     Some (ag_init\<lparr>ag_frameType := F_PAYLOAD, ag_flags := NEXT\<rparr>, (0, [sample_body]))"
  by code_simp+


section \<open>Progress\<close>

definition accepting :: "'o parser_owner \<Rightarrow> bool" where
  "accepting api \<longleftrightarrow> (\<forall>n own. fst (o_incMemoryUsage api n own)) \<and> (\<forall>f own. fst (o_handleFrame api f own) = None)"

lemma accepting_inc: "accepting api \<Longrightarrow> \<exists>own'. o_incMemoryUsage api n own = (True, own')"
  by (metis (full_types) accepting_def prod.collapse)

lemma accepting_handle: "accepting api \<Longrightarrow> \<exists>own'. o_handleFrame api f own = (None, own')"
  by (metis accepting_def prod.collapse)

lemma accepting_log: "accepting api \<Longrightarrow> accepting (log_api api)"
proof -
  have "fst (o_incMemoryUsage (log_api api) n (own, l)) = fst (o_incMemoryUsage api n own)"
    "fst (o_handleFrame (log_api api) f (own, l)) = fst (o_handleFrame api f own)" for n f own l
    by (simp_all add: log_api_def split: prod.split)
  then show "accepting api \<Longrightarrow> accepting (log_api api)" by (simp add: accepting_def)
qed

lemma fl_drain_serves:
  assumes "accepting api" and "fl_wf p"
  shows "\<exists>p' own'. fl_drainReadBufQueue api p own = (None, p', own') \<and> fl_inv p'"
  using assms(2)
proof (induction "length (fl_queue p)" arbitrary: p own rule: less_induct)
  case less
  let ?n = "size24 (take 3 (fl_queue p))"
  let ?p = "p\<lparr>fl_frameLength := ?n, fl_frameLengthAndFieldSize := ?n + 3\<rparr>"
  show ?case
  proof (cases "3 \<le> fl_size p \<and> ?n + 3 \<le> fl_size p")
    case False
    obtain own1 where "o_incMemoryUsage api (of_nat (?n + 3)) own = (True, own1)" using accepting_inc [OF assms(1)] by metis
    then show ?thesis using False less.prems
      by (auto simp: fl_drainReadBufQueue.simps [of api p] fl_await_def fl_computeFrameLength_def Let_def fl_inv_def fl_wf_def
          split: if_splits)
  next
    case True
    have "\<exists>own1. fl_await api p own = Inr (?p, own1)"
      using True less.prems accepting_inc [OF assms(1), of "of_nat (?n + 3)" own]
      by (auto simp: fl_await_def fl_computeFrameLength_def Let_def fl_wf_def split: if_splits)
    then obtain own1 where a: "fl_await api p own = Inr (?p, own1)" by blast
    obtain own2 where h: "o_handleFrame api (take ?n (drop 3 (fl_queue p))) own1 = (None, own2)"
      using accepting_handle [OF assms(1)] by metis
    let ?q = "\<lparr>fl_size = fl_size p - (?n + 3), fl_frameLength = 0, fl_frameLengthAndFieldSize = 0, fl_queue = drop ?n (drop 3 (fl_queue p))\<rparr>"
    have "fl_handoff api ?p own1 = (None, ?q, o_decMemoryUsage api (of_nat (?n + 3)) own2)"
      using True less.prems h by (auto simp: fl_handoff_def fl_resetFrameLength_def Let_def fl_wf_def)
    moreover have "\<exists>p' own'. fl_drainReadBufQueue api ?q own3 = (None, p', own') \<and> fl_inv p'" for own3
      using True less.prems by (intro less.hyps) (auto simp: fl_wf_def)
    ultimately show ?thesis using True a by (simp add: fl_drainReadBufQueue.simps [of api p])
  qed
qed

lemma fl_serves:
  assumes "accepting api"
  shows "\<exists>p' own'. fed (fl_readDataAvailable (log_api api)) (\<lambda>_ _. True) fl_inv fl_init (own, []) ds p'
      (own', fst (split_frames (concat ds))) \<and> fl_queue p' = snd (split_frames (concat ds))"
proof -
  have step: "\<exists>p' own'. fl_readDataAvailable (log_api api) d p own = (None, p', own') \<and> fl_inv p'" if "fl_inv p" for d p own
  proof -
    have "fl_wf (p\<lparr>fl_size := fl_size p + length d, fl_queue := fl_queue p @ d\<rparr>)"
      using that by (auto simp: fl_inv_def fl_wf_def split: if_splits)
    then show ?thesis using assms fl_drain_serves unfolding fl_readDataAvailable_def by (metis accepting_log)
  qed
  have "\<exists>p' own'. fed (fl_readDataAvailable (log_api api)) (\<lambda>_ _. True) fl_inv p own ds p' own'" if "fl_inv p" for p own
    using that
  proof (induction ds arbitrary: p own)
    case (Cons d ds)
    obtain p1 own1 where "fl_readDataAvailable (log_api api) d p own = (None, p1, own1)" "fl_inv p1"
      using step [OF Cons.prems] by blast
    then show ?case using Cons.IH [of p1 own1] by (blast intro: fed_Cons)
  qed (blast intro: fed_Nil)
  moreover have init: "fl_inv fl_init" "fl_queue fl_init = []" by (simp_all add: fl_inv_def fl_wf_def fl_init_def)
  ultimately obtain p' o' where f: "fed (fl_readDataAvailable (log_api api)) (\<lambda>_ _. True) fl_inv fl_init (own, []) ds p' o'"
    by blast
  then show ?thesis using fl.fed_frames [OF f init(1)] init(2) by (metis append_Nil prod.collapse snd_conv)
qed


text \<open>
  With an owner that grants memory and accepts every frame, \<open>FrameLengthParserStrategy\<close> serves any
  sequence of reads: it returns from each of them, has handed over every complete frame, and holds
  the bytes of the incomplete one.
\<close>

theorem frame_length_parser_serves:
  assumes "accepting api"
  shows "\<exists>p' own'. fed (fl_readDataAvailable (log_api api)) (\<lambda>_ _. True) fl_inv fl_init (own, []) ds p'
      (own', fst (split_frames (concat ds))) \<and> fl_queue p' = snd (split_frames (concat ds))"
  using fl_serves [OF assms] .

lemma accepting_counting: "accepting counting_owner"
  by (simp add: accepting_def counting_owner_def)

theorem frame_length_parser_serves_witness:
  "\<exists>p' own'. fed (fl_readDataAvailable (log_api counting_owner)) (\<lambda>_ _. True) fl_inv fl_init (0, [])
      [[0, 0], [7, 0, 0, 0, 1, 0x28], [0x20, 42, 0]] p' (own', [sample_body]) \<and> fl_queue p' = [0]"
proof -
  have "split_frames (concat [[0, 0], [7, 0, 0, 0, 1, 0x28], [0x20, 42, 0]]) = ([sample_body], [0])" by code_simp
  then show ?thesis
    using frame_length_parser_serves [OF accepting_counting, of 0 "[[0, 0], [7, 0, 0, 0, 1, 0x28], [0x20, 42, 0]]"] by simp
qed

section \<open>Memory safety and progress of the allocating strategy\<close>

definition al_fits :: "alp \<Rightarrow> bool" where
  "al_fits p \<longleftrightarrow> al_size p = length (al_bytes p) \<and> al_size p \<le> al_currentBufferSize p"

lemma accepting_never_refuses [simp]: "accepting api \<Longrightarrow> o_incMemoryUsage api n own \<noteq> (False, own')"
  by (metis accepting_def fst_conv)

lemma al_tryResize_buffer:
  assumes "al_tryResize api p own = (p', own')"
  shows "al_currentBufferSize p \<le> al_currentBufferSize p'" and "al_buffer p' = al_buffer p"
    and "accepting api \<Longrightarrow> al_frameLengthAndFieldSize p' \<le> al_currentBufferSize p'"
  using assms by (auto simp: al_tryResize_def split: prod.splits if_splits)

lemma al_round_eq:
  assumes "al_awaitLength api p own = (p1, own1)" and "al_nextLength api p1 own1 = (granted, n, m, own2)"
    and "al_handoff api n m p1 own2 = (e, p2, own3)"
  shows "al_round api p own = (if al_size p1 < al_frameLengthAndFieldSize p1 then Inl (None, p1, own1)
    else if \<not> granted then Inl (None, p1, own2) else case e of Some x \<Rightarrow> Inl (Some x, p2, own3) | None \<Rightarrow> Inr (p2, own3))"
  using assms by (simp add: al_round_def split: option.split)

lemma al_nextLength_accepting: "accepting api \<Longrightarrow> \<exists>n m own2. al_nextLength api p own = (True, n, m, own2)"
  using accepting_inc [of api "of_nat (al_computeFrameLength (al_frameLengthAndFieldSize p) p + 3)" own]
  by (auto simp: al_nextLength_def Let_def)

lemma al_handoff_accepting: "accepting api \<Longrightarrow> \<exists>p3 own3. al_handoff api n m p own = (None, p3, own3)"
  using accepting_handle [of api "drop 3 (take (al_frameLengthAndFieldSize p) (al_bytes p))" own]
  by (auto simp: al_handoff_def Let_def)

text \<open>An invariant of the loop is one that measuring a frame and handing it off preserve.\<close>

lemma al_loop_invariant:
  assumes "J p"
    and await: "\<And>p own p1 own1. J p \<Longrightarrow> 3 \<le> al_size p \<Longrightarrow> al_awaitLength api p own = (p1, own1) \<Longrightarrow> J p1"
    and handoff: "\<And>p own g n m own2 own3. J p \<Longrightarrow> al_frameLengthAndFieldSize p \<le> al_size p \<Longrightarrow>
      al_nextLength api p own = (g, n, m, own2) \<Longrightarrow> J (fst (snd (al_handoff api n m p own3)))"
  shows "J (fst (snd (al_loop api p own)))"
  using assms(1)
proof (induction "al_measure p" arbitrary: p own rule: less_induct)
  case less
  show ?case
  proof (cases "3 \<le> al_size p")
    case False
    then show ?thesis using less.prems by (simp add: al_loop.simps [of api p])
  next
    case True
    obtain p1 own1 where a: "al_awaitLength api p own = (p1, own1)" by (metis surj_pair)
    note p1 = await [OF less.prems True a]
    obtain granted n m own2 where b: "al_nextLength api p1 own1 = (granted, n, m, own2)" by (metis surj_pair)
    obtain e p2 own3 where c: "al_handoff api n m p1 own2 = (e, p2, own3)" by (metis surj_pair)
    have p2: "J p2" if "al_frameLengthAndFieldSize p1 \<le> al_size p1" using handoff [OF p1 that b, of own2] c by simp
    show ?thesis
    proof (cases "al_size p1 < al_frameLengthAndFieldSize p1 \<or> \<not> granted \<or> e \<noteq> None")
      case stops: True
      then show ?thesis using p1 p2 True by (auto simp: al_loop.simps [of api p] al_round_eq [OF a b c] split: option.splits)
    next
      case False
      then have r: "al_round api p own = Inr (p2, own3)" by (simp add: al_round_eq [OF a b c])
      then show ?thesis using less.hyps [OF al_round_decreases [OF r True]] p2 False True
        by (simp add: al_loop.simps [of api p])
    qed
  qed
qed

lemma al_awaitLength_buffer:
  assumes "al_awaitLength api p own = (p', own')"
  shows "al_currentBufferSize p \<le> al_currentBufferSize p'" and "al_buffer p' = al_buffer p"
    and "accepting api \<Longrightarrow> al_frameLength p = 0 \<Longrightarrow> al_frameLengthAndFieldSize p' \<le> al_currentBufferSize p'"
  using assms al_tryResize_buffer [of api _ own p' own']
  by (fastforce simp: al_awaitLength_def Let_def split: if_splits)+

lemma al_handoff_buffer:
  "al_buffer (fst (snd (al_handoff api n m p own))) = Some (drop (al_frameLengthAndFieldSize p) (al_bytes p))"
  "al_currentBufferSize (fst (snd (al_handoff api n m p own))) =
    max (max (al_size p - al_frameLengthAndFieldSize p) (al_minBufferSize p)) m"
  "al_size (fst (snd (al_handoff api n m p own))) = al_size p - al_frameLengthAndFieldSize p"
  "al_minBufferSize (fst (snd (al_handoff api n m p own))) = al_minBufferSize p"
  "al_frameLength (fst (snd (al_handoff api n m p own))) = n"
  "al_frameLengthAndFieldSize (fst (snd (al_handoff api n m p own))) = m"
  by (simp_all add: al_handoff_def Let_def split: prod.split option.split)

text \<open>
  C28: whatever the owner answers, throws or refuses, a read that fits the buffer that
  \<open>getReadBuffer\<close> offered leaves \<open>AllocatingParserStrategy\<close> with its data inside its buffer, so that
  neither the next read nor the copying into a new buffer goes beyond the allocation.
\<close>

theorem allocating_parser_memory_safe:
  assumes "al_fits p" and "al_getReadBuffer p = (room, p1)" and "length data \<le> room"
    and "al_readDataAvailable api data p1 own = (e, p', own')"
  shows "al_fits p'"
proof -
  let ?p = "p1\<lparr>al_size := al_size p1 + length data, al_buffer := Some (al_bytes p1 @ data)\<rparr>"
  have "al_fits ?p" using assms(1-3)
    by (auto simp: al_fits_def al_getReadBuffer_def al_bytes_def Let_def split: if_splits option.splits)
  then have "al_fits (fst (snd (al_loop api ?p own)))"
  proof (rule al_loop_invariant)
    fix p1 p2 :: alp and own1 own2 assume "al_fits p1" and a: "al_awaitLength api p1 own1 = (p2, own2)"
    then show "al_fits p2" using al_awaitLength_state [OF a] al_awaitLength_buffer(1) [OF a] by (simp add: al_fits_def)
  next
    fix p1 n m own1 assume "al_fits p1" and "al_frameLengthAndFieldSize p1 \<le> al_size p1"
    then show "al_fits (fst (snd (al_handoff api n m p1 own1)))"
      by (simp add: al_fits_def al_handoff_buffer al_bytes_def [of "fst (snd (al_handoff api n m p1 own1))"])
  qed
  then show ?thesis using assms(4) by (simp add: al_readDataAvailable_def)
qed

lemma al_loop_serves:
  assumes "accepting api" and "al_wf p"
  shows "\<exists>p' own'. al_loop api p own = (None, p', own') \<and> al_inv p'"
  using assms(2)
proof (induction "length (al_bytes p)" arbitrary: p own rule: less_induct)
  case less
  show ?case
  proof (cases "3 \<le> al_size p")
    case False
    then show ?thesis using less.prems by (simp add: al_loop.simps [of api p] al_inv_def)
  next
    case True
    obtain p1 own1 where a: "al_awaitLength api p own = (p1, own1)" by (metis surj_pair)
    have p1: "al_bytes p1 = al_bytes p" "al_size p1 = length (al_bytes p)" "al_frameLength p1 = size24 (take 3 (al_bytes p))"
        "al_frameLengthAndFieldSize p1 = al_frameLength p1 + 3"
      using al_awaitLength_state [OF a] less.prems
      by (cases "al_frameLength p = 0"; simp add: al_wf_def al_computeFrameLength_def)+
    show ?thesis
    proof (cases "al_size p1 < al_frameLengthAndFieldSize p1")
      case short: True
      then show ?thesis using \<open>3 \<le> al_size p\<close> a p1 less.prems
        by (auto simp: al_loop.simps [of api p] al_round_def al_inv_def al_wf_def)
    next
      case False
      obtain n m own2 where b: "al_nextLength api p1 own1 = (True, n, m, own2)"
        using al_nextLength_accepting [OF assms(1)] by metis
      obtain p3 own3 where h: "al_handoff api n m p1 own2 = (None, p3, own3)"
        using al_handoff_accepting [OF assms(1)] by metis
      have "al_wf p3" "length (al_bytes p3) < length (al_bytes p)"
        using al_handoff_buffer [of api n m p1 own2] h b p1 False
        by (auto simp: al_wf_def al_bytes_def [of p3] al_nextLength_def al_computeFrameLength_def Let_def split: if_splits prod.splits)
      then show ?thesis using less.hyps [of p3 own3] \<open>3 \<le> al_size p\<close> False a b h
        by (simp add: al_loop.simps [of api p] al_round_def)
    qed
  qed
qed

text \<open>The states in which the strategy can take more bytes.\<close>

definition al_ready :: "alp \<Rightarrow> bool" where
  "al_ready p \<longleftrightarrow> 3 \<le> al_minBufferSize p \<and> (al_buffer p \<noteq> None \<longrightarrow> 3 \<le> al_currentBufferSize p \<and>
     (al_frameLength p \<noteq> 0 \<longrightarrow> al_frameLengthAndFieldSize p \<le> al_currentBufferSize p))"

lemma al_loop_ready:
  assumes "accepting api" and "al_ready p"
  shows "al_ready (fst (snd (al_loop api p own)))"
  using assms(2)
proof (rule al_loop_invariant)
  fix p1 p2 own1 own2 assume "al_ready p1" and a: "al_awaitLength api p1 own1 = (p2, own2)"
  then show "al_ready p2"
    using al_awaitLength_state [OF a] al_awaitLength_buffer [OF a] assms(1)
    by (cases "al_frameLength p1 = 0") (auto simp: al_ready_def)
next
  fix p1 n m own1 assume "al_ready p1"
  then show "al_ready (fst (snd (al_handoff api n m p1 own1)))"
    by (auto simp: al_ready_def al_handoff_buffer)
qed

text \<open>
  With an owner that grants memory and accepts every frame, \<open>AllocatingParserStrategy\<close> never
  offers the socket an empty buffer, serves every read into the buffer it offers, and is then ready
  for the next one.
\<close>

theorem allocating_parser_progress:
  assumes "accepting api" and "al_inv p" and "al_ready p" and "al_getReadBuffer p = (room, p1)"
  shows "0 < room \<and> (\<forall>data own. length data \<le> room \<longrightarrow>
    (\<exists>p' own'. al_readDataAvailable api data p1 own = (None, p', own') \<and> al_inv p' \<and> al_ready p'))"
proof (intro conjI allI impI)
  have p1: "al_inv p1" "al_ready p1" "al_buffer p1 \<noteq> None" "room = al_currentBufferSize p1 - al_size p1"
    using assms(2-4) by (auto simp: al_getReadBuffer_def al_inv_def al_wf_def al_ready_def al_bytes_def Let_def split: if_splits)
  then show "0 < room" by (auto simp: al_inv_def al_ready_def)
  fix data :: bytes and own assume "length data \<le> room"
  let ?p = "p1\<lparr>al_size := al_size p1 + length data, al_buffer := Some (al_bytes p1 @ data)\<rparr>"
  have "al_wf ?p" "al_ready ?p"
    using p1 by (auto simp: al_inv_def al_wf_def al_ready_def al_bytes_def split: if_splits)
  then show "\<exists>p' own'. al_readDataAvailable api data p1 own = (None, p', own') \<and> al_inv p' \<and> al_ready p'"
    using al_loop_serves [OF assms(1), of ?p own] al_loop_ready [OF assms(1), of ?p own] by (auto simp: al_readDataAvailable_def)
qed

theorem allocating_parser_memory_safe_witness:
  "al_fits (al_init 8) \<and> al_fits (fst (snd (al_read counting_owner [0, 0, 7, 0, 0] (al_init 8) 0)))"
proof -
  have i: "al_fits (al_init 8)" by (simp add: al_fits_def al_init_def al_bytes_def)
  obtain room p1 where g: "al_getReadBuffer (al_init 8) = (room, p1)" by (metis surj_pair)
  then have "5 \<le> room" by (auto simp: al_getReadBuffer_def al_init_def)
  moreover obtain e p' own' where "al_readDataAvailable counting_owner [0, 0, 7, 0, 0] p1 0 = (e, p', own')" by (metis surj_pair)
  ultimately show ?thesis using allocating_parser_memory_safe [OF i g, of "[0, 0, 7, 0, 0]"] i g by (simp add: al_read_def)
qed

theorem allocating_parser_progress_witness:
  "0 < fst (al_getReadBuffer (al_init 8)) \<and>
    (\<exists>p' own'. al_read counting_owner [0, 0, 7] (al_init 8) 0 = (None, p', own') \<and> al_inv p' \<and> al_ready p')"
proof -
  have "al_inv (al_init 8)" "al_ready (al_init 8)"
    by (simp_all add: al_inv_def al_wf_def al_ready_def al_init_def al_bytes_def)
  moreover have "al_getReadBuffer (al_init 8) = (8, snd (al_getReadBuffer (al_init 8)))"
    by (simp add: al_getReadBuffer_def al_init_def)
  ultimately show ?thesis
    using allocating_parser_progress [OF accepting_counting, of "al_init 8" 8 "snd (al_getReadBuffer (al_init 8))"]
    by (simp add: al_read_def) (metis fst_conv zero_less_numeral)
qed

section \<open>Memory accounting\<close>

text \<open>\<open>B\<close> is the usage of others; the strategy accounts for the frame it is waiting for.\<close>

definition fl_accounted :: "('o \<Rightarrow> nat) \<Rightarrow> nat \<Rightarrow> flp \<Rightarrow> 'o \<Rightarrow> bool" where
  "fl_accounted usage B p own \<longleftrightarrow> usage own = B + fl_frameLengthAndFieldSize p \<and>
     (fl_frameLength p = 0 \<longrightarrow> fl_frameLengthAndFieldSize p = 0) \<and> fl_frameLengthAndFieldSize p < 2 ^ 32"

text \<open>The reads of a connection's life, whether or not they throw.\<close>

fun fl_reads :: "'o parser_owner \<Rightarrow> bytes list \<Rightarrow> flp \<Rightarrow> 'o \<Rightarrow> flp \<times> 'o" where
  "fl_reads api [] p own = (p, own)"
| "fl_reads api (d # ds) p own = (case fl_readDataAvailable api d p own of (e, p, own) \<Rightarrow> fl_reads api ds p own)"

text \<open>
  The owner's memory accounting: a granted request adds to the usage, a refused one does not, and
  handling a frame does not change it.
\<close>

locale metered_owner =
  fixes api :: "'o parser_owner" and usage :: "'o \<Rightarrow> nat"
  assumes inc_granted: "o_incMemoryUsage api n own = (True, own') \<Longrightarrow> usage own' = usage own + unat n"
    and inc_refused: "o_incMemoryUsage api n own = (False, own') \<Longrightarrow> usage own' = usage own"
    and dec_usage: "unat n \<le> usage own \<Longrightarrow> usage (o_decMemoryUsage api n own) = usage own - unat n"
    and handle_usage: "usage (snd (o_handleFrame api f own)) = usage own"
begin

lemma inc_usage: "o_incMemoryUsage api n own = (granted, own') \<Longrightarrow> usage own' = usage own + (if granted then unat n else 0)"
  using inc_granted inc_refused by (cases granted) auto

lemma unat_size24: "unat (of_nat (size24 bs + 3) :: u32) = size24 bs + 3"
  using size24_less [of bs] by (simp only: unat_of_nat) (simp add: take_bit_nat_eq_self)

lemma fl_await_usage:
  assumes "fl_accounted usage B p own" and "3 \<le> fl_size p"
  shows "case fl_await api p own of
      Inl (e, p', own') \<Rightarrow> fl_accounted usage B p' own'
    | Inr (p', own') \<Rightarrow> usage own' = B + fl_frameLengthAndFieldSize p' \<and> fl_frameLengthAndFieldSize p' < 2 ^ 32 \<and>
       (fl_frameLength p' = 0 \<longrightarrow> 3 \<le> length (fl_queue p'))"
proof (cases "fl_frameLength p = 0")
  case True
  let ?n = "size24 (take 3 (fl_queue p))"
  obtain granted own1 where i: "o_incMemoryUsage api (of_nat (?n + 3)) own = (granted, own1)" by (metis surj_pair)
  have u: "usage own1 = B + (if granted then ?n + 3 else 0)"
    using inc_usage [OF i] assms(1) True unat_size24 [of "take 3 (fl_queue p)"] by (cases granted) (simp_all add: fl_accounted_def)
  show ?thesis
    using True assms i u size24_less [of "take 3 (fl_queue p)"]
    by (auto simp: fl_await_def fl_computeFrameLength_def fl_accounted_def Let_def)
next
  case False
  then show ?thesis using assms by (auto simp: fl_await_def fl_accounted_def Let_def)
qed

lemma fl_handoff_usage:
  assumes "usage own = B + fl_frameLengthAndFieldSize p" and "fl_frameLengthAndFieldSize p < 2 ^ 32"
    and "fl_frameLength p = 0 \<longrightarrow> 3 \<le> length (fl_queue p)" and "fl_handoff api p own = (e, p', own')"
  shows "fl_accounted usage B p' own'"
proof -
  have "unat (of_nat (fl_frameLengthAndFieldSize p) :: u32) = fl_frameLengthAndFieldSize p"
    using assms(2) by (simp only: unat_of_nat) (simp add: take_bit_nat_eq_self)
  moreover have "usage own1 = usage own" if "o_handleFrame api f own = (e1, own1)" for f e1 own1
    using handle_usage [of f own] that by simp
  ultimately show ?thesis
    using assms dec_usage
    by (auto simp: fl_handoff_def fl_resetFrameLength_def fl_accounted_def Let_def split: if_splits prod.splits)
qed

lemma fl_drain_usage:
  "fl_accounted usage B p own \<Longrightarrow> case fl_drainReadBufQueue api p own of (e, p', own') \<Rightarrow> fl_accounted usage B p' own'"
proof (induction "length (fl_queue p)" arbitrary: p own rule: less_induct)
  case less
  show ?case
  proof (cases "fl_size p \<ge> 3")
    case True
    note await = fl_await_usage [OF less.prems True]
    show ?thesis
    proof (cases "fl_await api p own")
      case (Inl r)
      then show ?thesis using await True by (auto simp: fl_drainReadBufQueue.simps [of api p])
    next
      case (Inr q)
      obtain p1 own1 where q: "q = (p1, own1)" by (cases q)
      obtain e p2 own2 where h: "fl_handoff api p1 own1 = (e, p2, own2)" by (metis surj_pair)
      have "fl_accounted usage B p2 own2" using fl_handoff_usage [OF _ _ _ h] await Inr q by auto
      moreover have "e = None \<Longrightarrow> length (fl_queue p2) < length (fl_queue p)"
        using fl_handoff_queue h fl_await_queue Inr q by metis
      ultimately show ?thesis using less.hyps [of p2 own2] True Inr q h
        by (cases e) (simp_all add: fl_drainReadBufQueue.simps [of api p])
    qed
  qed (use less.prems in \<open>simp add: fl_drainReadBufQueue.simps [of api p]\<close>)
qed

lemma fl_read_usage:
  "fl_accounted usage B p own \<Longrightarrow> fl_readDataAvailable api data p own = (e, p', own') \<Longrightarrow> fl_accounted usage B p' own'"
  using fl_drain_usage [of B "p\<lparr>fl_size := fl_size p + length data, fl_queue := fl_queue p @ data\<rparr>" own]
  by (simp add: fl_readDataAvailable_def fl_accounted_def)

lemma fl_destroy_usage: "fl_accounted usage B p own \<Longrightarrow> usage (fl_destroy api p own) = B"
proof -
  assume a: "fl_accounted usage B p own"
  then have "unat (of_nat (fl_frameLengthAndFieldSize p) :: u32) = fl_frameLengthAndFieldSize p"
    by (simp only: unat_of_nat fl_accounted_def) (simp add: take_bit_nat_eq_self)
  then show ?thesis using a dec_usage [of "of_nat (fl_frameLengthAndFieldSize p)" own]
    by (auto simp: fl_destroy_def fl_accounted_def)
qed

lemma fl_reads_usage: "fl_accounted usage B p own \<Longrightarrow> fl_reads api ds p own = (p', own') \<Longrightarrow> fl_accounted usage B p' own'"
  by (induction ds arbitrary: p own) (auto split: prod.splits dest: fl_read_usage)

end

interpretation counting: metered_owner counting_owner id
  by unfold_locales (auto simp: counting_owner_def)

text \<open>
  After any reads, whether the owner granted or refused the memory and whether it accepted the
  frames or threw, \<open>FrameLengthParserStrategy\<close> accounts for exactly the frame it waits for, and its
  destruction returns the owner's usage to what it was.
\<close>

theorem frame_length_parser_accounts:
  assumes "metered_owner api usage" and "fl_reads api ds fl_init own = (p', own')"
  shows "usage own' = usage own + fl_frameLengthAndFieldSize p' \<and> usage (fl_destroy api p' own') = usage own"
proof -
  have "fl_accounted usage (usage own) fl_init own" by (simp add: fl_accounted_def fl_init_def)
  then have "fl_accounted usage (usage own) p' own'" using metered_owner.fl_reads_usage [OF assms(1)] assms(2) by metis
  then show ?thesis using metered_owner.fl_destroy_usage [OF assms(1)] by (auto simp: fl_accounted_def)
qed

theorem frame_length_parser_accounts_witness:
  "\<exists>p' u. fl_reads counting_owner [[0, 0, 7, 0], [0, 0]] fl_init 5 = (p', u) \<and> u = 5 + fl_frameLengthAndFieldSize p' \<and>
    fl_destroy counting_owner p' u = 5"
proof -
  obtain p' u where r: "fl_reads counting_owner [[0, 0, 7, 0], [0, 0]] fl_init 5 = (p', u)" by (metis surj_pair)
  then show ?thesis using frame_length_parser_accounts [OF counting.metered_owner_axioms r] by auto
qed

text \<open>An owner whose \<open>handleFrame\<close> throws, as the server's does on a frame that is too short.\<close>

definition throwing_owner :: "nat parser_owner" where
  "throwing_owner = counting_owner\<lparr>o_handleFrame := (\<lambda>f u. (Some OutOfRange, u))\<rparr>"


section \<open>Frames without a body in the aligned strategy\<close>

lemma ag_header_only:
  assumes "length bs = 9" and "header_type bs = F_PAYLOAD" and "header_word bs AND kFlagMask AND kInvalidMask = 0"
    and "\<not> flags_get METADATA (header_word bs AND kFlagMask)" and "size24 (take 3 bs) = 6"
  shows "\<exists>p'. ag_readDataAvailable api bs ag_init own = (None, p', own) \<and> ag_getReadBuffer p' = 0"
proof -
  have "usub 9 9 = 0" "usub 6 6 = 0" by (simp_all add: usub_eq)
  then show ?thesis
    using assms ag_parseHeader_eq [of "ag_init\<lparr>ag_header := bs, ag_remainingHeader := 0\<rparr>"]
    by (simp add: ag_readDataAvailable_def ag_handleAwaitingHeader_def ag_init_def Let_def ag_configureAligned_def ag_getReadBuffer_def)
qed

text \<open>
  C38: the frame with which a server completes a stream, a payload frame without payload, is never
  handed over by \<open>AlignedParserStrategy\<close>: after its nine bytes the strategy waits for data of length 0
  and offers the socket an empty buffer, while the frame is complete.
\<close>

theorem aligned_parser_stalls:
  "\<exists>p'. ag_readDataAvailable api (pf_serializeIntoSingleFrame \<lparr>pf_streamId = s, pf_flags = COMPLETE, pf_payload = makeFromData []\<rparr>)
      ag_init own = (None, p', own) \<and> ag_getReadBuffer p' = 0 \<and>
    (\<exists>body. split_frames (pf_serializeIntoSingleFrame \<lparr>pf_streamId = s, pf_flags = COMPLETE, pf_payload = makeFromData []\<rparr>) = ([body], []))"
proof -
  let ?bs = "pf_serializeIntoSingleFrame \<lparr>pf_streamId = s, pf_flags = COMPLETE, pf_payload = makeFromData []\<rparr>"
  have flags: "flags_set NEXT (flags_get NEXT COMPLETE) (flags_set COMPLETE (flags_get COMPLETE COMPLETE)
      (flags_set FOLLOWS (flags_get FOLLOWS COMPLETE) (flags_set METADATA False 0))) = COMPLETE"
    and word: "writeFrameTypeAndFlags F_PAYLOAD COMPLETE = [0x28, 0x40]" by code_simp+
  have bs: "?bs = writeFrameOrMetadataSize 6 @ be_bytes 4 s @ [0x28, 0x40]"
    using flags word
    by (simp add: pf_serializeIntoSingleFrame_def Let_def makeFromData_def writePayload_def serializedSize_def
        hasNonemptyMetadata_def writeStreamId_def)
  have h: "header_word ?bs = be_word [0x28, 0x40]" unfolding bs header_word_def by simp
  have f: "header_type ?bs = F_PAYLOAD" "header_word ?bs AND kFlagMask AND kInvalidMask = 0"
      "\<not> flags_get METADATA (header_word ?bs AND kFlagMask)"
    unfolding header_type_def h by code_simp+
  have n: "size24 (take 3 ?bs) = 6" unfolding bs by (simp add: size24_written)
  have "split_frames ?bs = ([take 6 (drop 3 ?bs)], [])"
    using split_frames_frame [of ?bs 6, OF _ n [symmetric]] by (simp add: bs split_frames_short)
  moreover have "length ?bs = 9" by (simp add: bs)
  ultimately show ?thesis using ag_header_only [OF _ f n] by metis
qed

section \<open>From the sender's frames to the receiver's\<close>

lemma on_wire_frames:
  assumes "list_all2 (on_wire C rem) wires frames"
  shows "\<exists>bodies. concat wires = concat (map framed bodies) \<and> (\<forall>b\<in>set bodies. length b < 2 ^ 24) \<and>
    list_all2 (\<lambda>body f. \<forall>c. rem c = body \<longrightarrow> parse_frame C rem c = Inr f) bodies frames"
  using assms
proof (induction rule: list_all2_induct)
  case Nil
  then show ?case by (intro exI [of _ "[]"]) simp
next
  case (Cons w ws f fs)
  obtain body where b: "w = framed body" "length body < 2 ^ 24" "\<forall>c. rem c = body \<longrightarrow> parse_frame C rem c = Inr f"
    using on_wire_framed [OF Cons.hyps(1)] by blast
  obtain bodies where "concat ws = concat (map framed bodies)" "\<forall>b\<in>set bodies. length b < 2 ^ 24"
      "list_all2 (\<lambda>body f. \<forall>c. rem c = body \<longrightarrow> parse_frame C rem c = Inr f) bodies fs"
    using Cons.IH by blast
  with b show ?case by (intro exI [of _ "body # bodies"]) simp
qed

lemma delivered_frames:
  assumes "accepting api" and "list_all2 (on_wire C rem) wires frames" and "concat ds = concat wires"
  obtains bodies p' own' where "fed (fl_readDataAvailable (log_api api)) (\<lambda>_ _. True) fl_inv fl_init (own, []) ds p' (own', bodies)"
    and "list_all2 (\<lambda>body f. \<forall>c. rem c = body \<longrightarrow> parse_frame C rem c = Inr f) bodies frames" and "fl_queue p' = []"
proof -
  have "fl_inv fl_init" "fl_queue fl_init = []" by (simp_all add: fl_inv_def fl_wf_def fl_init_def)
  obtain bodies where b: "concat ds = concat (map framed bodies)" "\<forall>b\<in>set bodies. length b < 2 ^ 24"
      "list_all2 (\<lambda>body f. \<forall>c. rem c = body \<longrightarrow> parse_frame C rem c = Inr f) bodies frames"
    using on_wire_frames [OF assms(2)] assms(3) by auto
  have s: "split_frames (concat ds) = (bodies, [])"
    using split_frames_framed [OF b(2), of "[]"] b(1) by (simp add: split_frames_short)
  show thesis using fl_serves [OF assms(1), of own ds] that b(3) s by auto
qed

end
