(* ===== verification/Rocket_Connection.thy ===== *)
theory Rocket_Connection
  imports Rocket_Stream
begin

unbundle bit_operations_syntax

text \<open>
  The server's side of a rocket connection (\<^verbatim>\<open>server/RocketServerConnection.{h,cpp}\<close>,
  \<^verbatim>\<open>server/RocketServerFrameContext.cpp\<close>, \<^verbatim>\<open>MemoryTracker.h\<close>): dispatch of frames, reassembly of
  requests, write batching, draining and closing, and the accounting of memory.

  The state of the object is the record \<open>conn\<close>.  Calls to other objects (the frame handler, the
  callbacks of streams, the socket, the connection manager) are recorded in order in \<open>cn_trace\<close>; what such an
  object calls on the connection in turn is another operation on the resulting state.  What the
  code reads from other objects is a parameter: the state of the socket (\<open>good()\<close>, \<open>error()\<close>) as
  fields of \<open>conn\<close>, and the configuration with the serializers of metadata as the record \<open>conn_cfg\<close>.
\<close>

section \<open>MemoryTracker\<close>

record memory_tracker =
  mt_usage :: nat
  mt_limit :: nat
  mt_min :: nat

definition mt_increment :: "nat \<Rightarrow> memory_tracker \<Rightarrow> bool \<times> memory_tracker" where
  "mt_increment sz t = (let t = t\<lparr>mt_usage := mt_usage t + sz\<rparr> in
     (mt_limit t = 0 \<or> sz < mt_min t \<or> mt_usage t \<le> mt_limit t, t))"

definition mt_decrement :: "nat \<Rightarrow> memory_tracker \<Rightarrow> memory_tracker" where
  "mt_decrement sz t = t\<lparr>mt_usage := mt_usage t - min sz (mt_usage t)\<rparr>"

section \<open>The state of a connection\<close>

datatype conn_state = ALIVE | DRAINING | CLOSING | CLOSED

text \<open>Send callbacks and sets of file descriptors are identified by numbers.\<close>

record write_context =
  wc_requestCompleteCount :: nat
  wc_sendCallbacks :: "nat list"

definition wc_empty :: write_context where
  "wc_empty = \<lparr>wc_requestCompleteCount = 0, wc_sendCallbacks = []\<rparr>"

record write_batcher =
  wb_bufferedWrites :: "bytes option"
  wb_bufferedWritesCount :: nat
  wb_totalBytesBuffered :: nat
  wb_earlyFlushRequested :: bool
  wb_context :: write_context
  wb_fdsAndOffsets :: "(nat \<times> nat) list"
  wb_timeout :: bool
  wb_loopCallback :: bool

datatype rocket_exception = RocketException u32 bytes
datatype close_reason = Close_Rocket rocket_exception | Close_Other bytes | Close_None

datatype client_push = InteractionTerminate i64 | StreamHeadersPush u32 bytes | TransportMetadataPush | OtherPush

datatype event =
    OnBeforeHandleFrame
  | HandleSetupFrame setup_frame
  | HandleRequest frame
  | StreamHandleFrame u32 frame
  | StreamHeaders u32 bytes
  | TerminateInteraction i64
  | LogTransportMetadata
  | ConnectionClosing
  | HandlerRequestComplete
  | StreamConnectionClose u32
  | StreamPaused u32
  | StreamResumed u32
  | OnIdleTimeout
  | OnWriteQuiescence
  | SendQueued nat
  | MessageSent nat
  | MessageSendError nat
  | WriteChain bytes "nat option"
  | CheckFailed
  | RemoveConnection
  | Destroyed

record conn =
  cn_state :: conn_state
  cn_setupFrameReceived :: bool
  cn_decodeMetadataUsingBinary :: "bool option"
  cn_partialRequestFrames :: "u32 \<rightharpoonup> frame"
  cn_inflightRequests :: nat
  cn_inflightWritesQueue :: "write_context list"
  cn_inflightSinkFinalResponses :: nat
  cn_egressBufferSize :: nat
  cn_drainCompleteCode :: "nat option"
  cn_streams :: "u32 list"
  cn_streamsPaused :: bool
  cn_writeBatcher :: write_batcher
  cn_drainComplete :: bool
  cn_drainTimer :: bool
  cn_activePausedHandlers :: nat
  cn_onWriteQuiescence :: bool
  cn_ingress :: memory_tracker
  cn_egress :: memory_tracker
  cn_readCB :: bool
  cn_socketGood :: bool
  cn_socketError :: bool
  cn_trace :: "event list"

record conn_cfg =
  cfg_batchingInterval :: nat
  cfg_batchingSize :: nat
  cfg_batchingByteSize :: nat
  cfg_hasObservers :: bool
  cfg_backpressureThreshold :: nat
  cfg_recoverySize :: nat
  cfg_packDrainComplete :: "nat \<Rightarrow> bytes"
  cfg_unpackClientPush :: "bytes \<Rightarrow> client_push option"
  cfg_what :: "thrift_error \<Rightarrow> bytes"

definition wb_init :: write_batcher where
  "wb_init = \<lparr>wb_bufferedWrites = None, wb_bufferedWritesCount = 0, wb_totalBytesBuffered = 0, wb_earlyFlushRequested = False,
     wb_context = wc_empty, wb_fdsAndOffsets = [], wb_timeout = False, wb_loopCallback = False\<rparr>"

definition conn_init :: "memory_tracker \<Rightarrow> memory_tracker \<Rightarrow> conn" where
  "conn_init ingress egress = \<lparr>cn_state = ALIVE, cn_setupFrameReceived = False, cn_decodeMetadataUsingBinary = None,
     cn_partialRequestFrames = (\<lambda>_. None), cn_inflightRequests = 0, cn_inflightWritesQueue = [],
     cn_inflightSinkFinalResponses = 0, cn_egressBufferSize = 0, cn_drainCompleteCode = None, cn_streams = [],
     cn_streamsPaused = False, cn_writeBatcher = wb_init, cn_drainComplete = False, cn_drainTimer = False,
     cn_activePausedHandlers = 0, cn_onWriteQuiescence = False, cn_ingress = ingress, cn_egress = egress, cn_readCB = True, cn_socketGood = True,
     cn_socketError = False, cn_trace = []\<rparr>"

text \<open>\<open>fmt::format\<close> of an unsigned number.\<close>

fun decimal :: "nat \<Rightarrow> string" where
  "decimal n = (if n < 10 then [char_of (48 + n)] else decimal (n div 10) @ [char_of (48 + n mod 10)])"

declare decimal.simps [simp del]

definition notify :: "event \<Rightarrow> conn \<Rightarrow> conn" where
  "notify ev c = c\<lparr>cn_trace := cn_trace c @ [ev]\<rparr>"

section \<open>Writing\<close>

definition wb_empty :: "write_batcher \<Rightarrow> bool" where
  "wb_empty b \<longleftrightarrow> wb_bufferedWrites b = None"

definition isBusy :: "conn \<Rightarrow> bool" where
  "isBusy c \<longleftrightarrow> cn_inflightRequests c \<noteq> 0 \<or> cn_inflightWritesQueue c \<noteq> [] \<or> cn_inflightSinkFinalResponses c \<noteq> 0 \<or>
     \<not> wb_empty (cn_writeBatcher c) \<or> cn_activePausedHandlers c \<noteq> 0"

definition wb_enqueueWrite :: "conn_cfg \<Rightarrow> bytes \<Rightarrow> nat option \<Rightarrow> nat option \<Rightarrow> write_batcher \<Rightarrow> write_batcher" where
  "wb_enqueueWrite cfg data cb fds b =
    (let b = (case cb of None \<Rightarrow> b | Some k \<Rightarrow>
           b\<lparr>wb_context := (wb_context b)\<lparr>wc_sendCallbacks := wc_sendCallbacks (wb_context b) @ [k]\<rparr>\<rparr>);
         b = (if cfg_batchingByteSize cfg \<noteq> 0 \<or> cfg_hasObservers cfg
           then b\<lparr>wb_totalBytesBuffered := wb_totalBytesBuffered b + length data\<rparr> else b);
         b = (case wb_bufferedWrites b of
             None \<Rightarrow> (let b = b\<lparr>wb_bufferedWrites := Some data\<rparr> in
               if cfg_batchingInterval cfg \<noteq> 0 then b\<lparr>wb_timeout := True\<rparr> else b\<lparr>wb_loopCallback := True\<rparr>)
           | Some buffered \<Rightarrow> b\<lparr>wb_bufferedWrites := Some (buffered @ data)\<rparr>);
         b = (case fds of None \<Rightarrow> b | Some k \<Rightarrow>
           b\<lparr>wb_fdsAndOffsets := wb_fdsAndOffsets b @ [(k, length (the (wb_bufferedWrites b)))]\<rparr>);
         b = b\<lparr>wb_bufferedWritesCount := wb_bufferedWritesCount b + 1\<rparr> in
     if cfg_batchingInterval cfg \<noteq> 0 \<and> (wb_bufferedWritesCount b = cfg_batchingSize cfg \<or>
          cfg_batchingByteSize cfg \<noteq> 0 \<and> wb_totalBytesBuffered b \<ge> cfg_batchingByteSize cfg \<and> \<not> wb_earlyFlushRequested b)
     then b\<lparr>wb_earlyFlushRequested := True, wb_timeout := False, wb_loopCallback := True\<rparr>
     else b)"

definition wb_enqueueRequestComplete :: "write_batcher \<Rightarrow> write_batcher" where
  "wb_enqueueRequestComplete b =
    b\<lparr>wb_context := (wb_context b)\<lparr>wc_requestCompleteCount := wc_requestCompleteCount (wb_context b) + 1\<rparr>\<rparr>"

definition flushWrites :: "bytes \<Rightarrow> write_context \<Rightarrow> conn \<Rightarrow> conn" where
  "flushWrites writes ctx c = notify (WriteChain writes None)
     (c\<lparr>cn_inflightWritesQueue := cn_inflightWritesQueue c @ [ctx]\<rparr>)"

text \<open>
  The unbatching of writes that carry file descriptors.  The \<open>CHECK_GT\<close> on the offsets ends the
  process, which is recorded as \<open>CheckFailed\<close>.
\<close>

fun flushWritesWithFds :: "nat \<Rightarrow> (nat \<times> nat) list \<Rightarrow> bytes \<Rightarrow> write_context \<Rightarrow> conn \<Rightarrow> conn" where
  "flushWritesWithFds prevOffset [] writesQ ctx c =
    (if writesQ \<noteq> [] then flushWrites writesQ ctx c else c)"
| "flushWritesWithFds prevOffset ((fds, fdsOffset) # rest) writesQ ctx c =
    (if \<not> fdsOffset > prevOffset then notify CheckFailed c
     else let n = fdsOffset - prevOffset; write = take n writesQ; writesQ = drop n writesQ in
       if writesQ = [] then
         notify (WriteChain write (Some fds)) (c\<lparr>cn_inflightWritesQueue := cn_inflightWritesQueue c @ [ctx]\<rparr>)
       else flushWritesWithFds fdsOffset rest writesQ ctx
         (notify (WriteChain write (Some fds)) (c\<lparr>cn_inflightWritesQueue := cn_inflightWritesQueue c @ [wc_empty]\<rparr>)))"

definition flushPendingWrites :: "conn \<Rightarrow> conn" where
  "flushPendingWrites c =
    (let b = cn_writeBatcher c; writes = the (wb_bufferedWrites b); ctx = wb_context b; fds = wb_fdsAndOffsets b;
         c = c\<lparr>cn_writeBatcher := b\<lparr>wb_bufferedWritesCount := 0, wb_totalBytesBuffered := 0, wb_earlyFlushRequested := False,
           wb_bufferedWrites := None, wb_context := wc_empty, wb_fdsAndOffsets := []\<rparr>\<rparr> in
     if fds = [] then flushWrites writes ctx c else flushWritesWithFds 0 fds writes ctx c)"

definition wb_runLoopCallback :: "conn \<Rightarrow> conn" where
  "wb_runLoopCallback c = flushPendingWrites (c\<lparr>cn_writeBatcher := (cn_writeBatcher c)\<lparr>wb_loopCallback := False\<rparr>\<rparr>)"

definition wb_timeoutExpired :: "conn \<Rightarrow> conn" where
  "wb_timeoutExpired c = flushPendingWrites (c\<lparr>cn_writeBatcher := (cn_writeBatcher c)\<lparr>wb_timeout := False\<rparr>\<rparr>)"

definition wb_drain :: "conn \<Rightarrow> conn" where
  "wb_drain c = (if wb_empty (cn_writeBatcher c) then c
     else flushPendingWrites (c\<lparr>cn_writeBatcher := (cn_writeBatcher c)\<lparr>wb_loopCallback := False, wb_timeout := False\<rparr>\<rparr>))"

definition conn_send :: "conn_cfg \<Rightarrow> bytes \<Rightarrow> nat option \<Rightarrow> nat option \<Rightarrow> conn \<Rightarrow> conn" where
  "conn_send cfg data cb fds c =
    (let c = (case cb of None \<Rightarrow> c | Some k \<Rightarrow> notify (SendQueued k) c) in
     c\<lparr>cn_writeBatcher := wb_enqueueWrite cfg data cb fds (cn_writeBatcher c)\<rparr>)"

definition error_frame_make :: "u32 \<Rightarrow> rocket_exception \<Rightarrow> error_frame" where
  "error_frame_make streamId rex = (case rex of RocketException code data \<Rightarrow>
     \<lparr>ef_streamId = streamId, ef_errorCode = code, ef_payload = makeFromData data\<rparr>)"

definition sendError :: "conn_cfg \<Rightarrow> u32 \<Rightarrow> rocket_exception \<Rightarrow> nat option \<Rightarrow> conn \<Rightarrow> conn" where
  "sendError cfg streamId rex cb c = conn_send cfg (ef_serialize (error_frame_make streamId rex)) cb None c"

definition sendErrorAfterDrain :: "conn_cfg \<Rightarrow> u32 \<Rightarrow> rocket_exception \<Rightarrow> conn \<Rightarrow> conn" where
  "sendErrorAfterDrain cfg streamId rex c = conn_send cfg (ef_serialize (error_frame_make streamId rex)) None None c"

definition sendPayload :: "conn_cfg \<Rightarrow> bool \<Rightarrow> nat \<Rightarrow> u32 \<Rightarrow> payload \<Rightarrow> u16 \<Rightarrow> nat option \<Rightarrow> nat option \<Rightarrow> conn \<Rightarrow> conn" where
  "sendPayload cfg isShared headroom streamId payload flags cb fds c = conn_send cfg
     (pf_serialize_buffer isShared headroom \<lparr>pf_streamId = streamId, pf_flags = flags, pf_payload = payload\<rparr>) cb fds c"

definition sendRequestN :: "conn_cfg \<Rightarrow> u32 \<Rightarrow> i32 \<Rightarrow> conn \<Rightarrow> thrift_error + conn" where
  "sendRequestN cfg streamId n c = (case rn_make streamId n of Inl e \<Rightarrow> Inl e
     | Inr f \<Rightarrow> Inr (conn_send cfg (rn_serialize f) None None c))"

definition sendCancel :: "conn_cfg \<Rightarrow> u32 \<Rightarrow> conn \<Rightarrow> conn" where
  "sendCancel cfg streamId c = conn_send cfg (cf_serialize \<lparr>cf_streamId = streamId\<rparr>) None None c"

definition sendMetadataPush :: "conn_cfg \<Rightarrow> bytes \<Rightarrow> conn \<Rightarrow> conn" where
  "sendMetadataPush cfg metadata c = conn_send cfg (mp_serialize \<lparr>mp_metadata = metadata\<rparr>) None None c"

section \<open>Completion of requests, draining and closing\<close>

definition requestComplete :: "conn \<Rightarrow> conn" where
  "requestComplete c =
    (if \<not> wb_empty (cn_writeBatcher c) then c\<lparr>cn_writeBatcher := wb_enqueueRequestComplete (cn_writeBatcher c)\<rparr>
     else if cn_inflightWritesQueue c \<noteq> [] then
       let ctx = last (cn_inflightWritesQueue c) in
       c\<lparr>cn_inflightWritesQueue := butlast (cn_inflightWritesQueue c) @
         [ctx\<lparr>wc_requestCompleteCount := wc_requestCompleteCount ctx + 1\<rparr>]\<rparr>
     else notify HandlerRequestComplete c)"

definition sd_activate :: "conn \<Rightarrow> conn" where
  "sd_activate c = (if \<not> cn_drainComplete c then c\<lparr>cn_drainTimer := True\<rparr> else c)"

definition sd_drainComplete :: "conn \<Rightarrow> conn" where
  "sd_drainComplete c = (if \<not> cn_drainComplete c
     then c\<lparr>cn_drainTimer := False, cn_readCB := False, cn_drainComplete := True\<rparr> else c)"

fun closeStreams :: "u32 list \<Rightarrow> conn \<Rightarrow> conn" where
  "closeStreams [] c = c\<lparr>cn_streams := []\<rparr>"
| "closeStreams (s # ss) c = closeStreams ss (requestComplete (notify (StreamConnectionClose s) (c\<lparr>cn_streams := ss\<rparr>)))"

text \<open>\<open>closeIfNeeded\<close>: its second part, for a connection that is closing, and its first, which may lead there.\<close>

definition closeIfClosing :: "conn \<Rightarrow> conn" where
  "closeIfClosing c =
    (if cn_state c \<noteq> CLOSING then c
     else let c = (if \<not> cn_socketGood c then sd_drainComplete c else c) in
       if isBusy c \<or> \<not> cn_drainComplete c then c
       else let c = notify RemoveConnection (c\<lparr>cn_state := CLOSED\<rparr>) in
         notify Destroyed (wb_drain (closeStreams (cn_streams c) c)))"

definition closeIfNeeded :: "conn_cfg \<Rightarrow> conn \<Rightarrow> conn" where
  "closeIfNeeded cfg c =
    (if cn_state c = DRAINING \<and> cn_inflightRequests c = 0 \<and> cn_inflightSinkFinalResponses c = 0 then
       let c = sd_activate c;
           c = (case cn_drainCompleteCode c of None \<Rightarrow> c | Some code \<Rightarrow>
             sendError cfg 0 (RocketException 0x101 []) None (sendMetadataPush cfg (cfg_packDrainComplete cfg code) c)) in
       closeIfClosing (notify ConnectionClosing (c\<lparr>cn_state := CLOSING\<rparr>))
     else closeIfClosing c)"

definition conn_close :: "conn_cfg \<Rightarrow> close_reason \<Rightarrow> conn \<Rightarrow> conn" where
  "conn_close cfg ew c =
    (if cn_state c = CLOSING \<or> cn_state c = CLOSED then closeIfNeeded cfg c
     else let c = sd_activate c;
         c = (if \<not> cn_socketError c then
             sendError cfg 0 (case ew of
                 Close_Rocket rex \<Rightarrow> rex
               | Close_Other what \<Rightarrow> RocketException 0x101 what
               | Close_None \<Rightarrow> RocketException 0x102 (ascii ''Closing connection'')) None c
           else c) in
       closeIfNeeded cfg (notify ConnectionClosing (c\<lparr>cn_state := CLOSING\<rparr>)))"

definition startDrain :: "conn_cfg \<Rightarrow> nat option \<Rightarrow> conn \<Rightarrow> conn" where
  "startDrain cfg drainCompleteCode c =
    (if cn_state c \<noteq> ALIVE then c
     else closeIfNeeded cfg (sendError cfg 0 (RocketException 0x102 []) None
       (c\<lparr>cn_state := DRAINING, cn_drainCompleteCode := drainCompleteCode\<rparr>)))"

definition notifyPendingShutdown :: "conn_cfg \<Rightarrow> conn \<Rightarrow> conn" where
  "notifyPendingShutdown cfg c = startDrain cfg None c"

definition sd_timeoutExpired :: "conn_cfg \<Rightarrow> conn \<Rightarrow> conn" where
  "sd_timeoutExpired cfg c = closeIfNeeded cfg (sd_drainComplete (c\<lparr>cn_drainTimer := False\<rparr>))"

definition closeWhenIdle :: "conn_cfg \<Rightarrow> conn \<Rightarrow> conn" where
  "closeWhenIdle cfg c = conn_close cfg (Close_Other (ascii ''Closing due to imminent shutdown'')) (sd_drainComplete c)"

definition conn_timeoutExpired :: "conn_cfg \<Rightarrow> conn \<Rightarrow> conn" where
  "conn_timeoutExpired cfg c = (if \<not> isBusy c then closeWhenIdle cfg (notify OnIdleTimeout c) else c)"

definition incInflightRequests :: "conn \<Rightarrow> conn" where
  "incInflightRequests c = c\<lparr>cn_inflightRequests := cn_inflightRequests c + 1\<rparr>"

definition decInflightRequests :: "conn_cfg \<Rightarrow> conn \<Rightarrow> conn" where
  "decInflightRequests cfg c = closeIfNeeded cfg (c\<lparr>cn_inflightRequests := cn_inflightRequests c - 1\<rparr>)"

definition incInflightFinalResponse :: "conn \<Rightarrow> conn" where
  "incInflightFinalResponse c = c\<lparr>cn_inflightSinkFinalResponses := cn_inflightSinkFinalResponses c + 1\<rparr>"

definition decInflightFinalResponse :: "conn_cfg \<Rightarrow> conn \<Rightarrow> conn" where
  "decInflightFinalResponse cfg c = closeIfNeeded cfg (c\<lparr>cn_inflightSinkFinalResponses := cn_inflightSinkFinalResponses c - 1\<rparr>)"

definition freeStream :: "u32 \<Rightarrow> bool \<Rightarrow> conn \<Rightarrow> conn" where
  "freeStream streamId markRequestComplete c =
    (if streamId \<in> set (cn_streams c) then
       let c = c\<lparr>cn_streams := removeAll streamId (cn_streams c)\<rparr> in
       if markRequestComplete then requestComplete c else c
     else c)"

definition createClientCallback :: "u32 \<Rightarrow> conn \<Rightarrow> bool \<times> conn" where
  "createClientCallback streamId c = (if streamId \<in> set (cn_streams c) then (False, c)
     else (True, c\<lparr>cn_streams := cn_streams c @ [streamId]\<rparr>))"

subsection \<open>Callbacks of the socket\<close>

definition tryResumeSocketReading :: "conn \<Rightarrow> conn" where
  "tryResumeSocketReading c = (if cn_state c = ALIVE \<or> cn_state c = DRAINING then c\<lparr>cn_readCB := True\<rparr> else c)"

definition pauseSocketReading :: "conn \<Rightarrow> conn" where
  "pauseSocketReading c = c\<lparr>cn_readCB := False\<rparr>"

definition incrementActivePauseHandlers :: "conn \<Rightarrow> conn" where
  "incrementActivePauseHandlers c = c\<lparr>cn_activePausedHandlers := cn_activePausedHandlers c + 1\<rparr>"

definition decrementActivePauseHandlers :: "conn \<Rightarrow> conn" where
  "decrementActivePauseHandlers c = c\<lparr>cn_activePausedHandlers := cn_activePausedHandlers c - 1\<rparr>"

text \<open>The handles that pause and resume reading: destruction, \<open>pause()\<close> and \<open>resume()\<close>.\<close>

definition pausable_destroyed :: "conn_cfg \<Rightarrow> conn \<Rightarrow> conn" where
  "pausable_destroyed cfg c = closeIfNeeded cfg (decrementActivePauseHandlers c)"

definition pausable_pause :: "conn \<Rightarrow> conn" where
  "pausable_pause c = pauseSocketReading c"

definition resumable_resume :: "conn_cfg \<Rightarrow> conn \<Rightarrow> conn" where
  "resumable_resume cfg c = closeIfNeeded cfg (tryResumeSocketReading (decrementActivePauseHandlers c))"

definition completeRequests :: "nat \<Rightarrow> conn \<Rightarrow> conn" where
  "completeRequests n c = (notify HandlerRequestComplete ^^ n) c"

definition writeSuccess :: "conn_cfg \<Rightarrow> conn \<Rightarrow> conn" where
  "writeSuccess cfg c = (case cn_inflightWritesQueue c of
     [] \<Rightarrow> c
   | ctx # rest \<Rightarrow>
       let c = completeRequests (wc_requestCompleteCount ctx) c;
           c = fold (\<lambda>cb. notify (MessageSent cb)) (wc_sendCallbacks ctx) c in
       let c = c\<lparr>cn_inflightWritesQueue := rest\<rparr> in
       if cn_onWriteQuiescence c \<and> wb_empty (cn_writeBatcher c) \<and> cn_inflightWritesQueue c = []
       then notify OnWriteQuiescence (incrementActivePauseHandlers c)
       else closeIfNeeded cfg c)"

definition writeErr :: "conn_cfg \<Rightarrow> bytes \<Rightarrow> conn \<Rightarrow> conn" where
  "writeErr cfg what c = (case cn_inflightWritesQueue c of
     [] \<Rightarrow> c
   | ctx # rest \<Rightarrow>
       let c = completeRequests (wc_requestCompleteCount ctx) c;
           c = fold (\<lambda>cb. notify (MessageSendError cb)) (wc_sendCallbacks ctx) c in
       conn_close cfg (Close_Other what) (c\<lparr>cn_inflightWritesQueue := rest\<rparr>))"

text \<open>\<open>AsyncSocket::closeNow\<close> fails every outstanding write.\<close>

definition socket_closeNow :: "conn_cfg \<Rightarrow> bytes \<Rightarrow> conn \<Rightarrow> conn" where
  "socket_closeNow cfg what c =
    (let c = c\<lparr>cn_socketGood := False, cn_readCB := False\<rparr> in
     (writeErr cfg what ^^ length (cn_inflightWritesQueue c)) c)"

definition dropConnection :: "conn_cfg \<Rightarrow> bytes \<Rightarrow> conn \<Rightarrow> conn" where
  "dropConnection cfg what c = conn_close cfg (Close_Other (ascii ''Dropping connection''))
     (socket_closeNow cfg what (wb_drain (sd_drainComplete c)))"

definition pauseStreams :: "conn \<Rightarrow> conn" where
  "pauseStreams c = fold (\<lambda>s. notify (StreamPaused s)) (cn_streams c) (c\<lparr>cn_streamsPaused := True\<rparr>)"

definition resumeStreams :: "conn \<Rightarrow> conn" where
  "resumeStreams c = fold (\<lambda>s. notify (StreamResumed s)) (cn_streams c) (c\<lparr>cn_streamsPaused := False\<rparr>)"

definition backpressure :: "conn_cfg \<Rightarrow> nat \<Rightarrow> conn \<Rightarrow> conn" where
  "backpressure cfg buffered c =
    (if cfg_backpressureThreshold cfg = 0 then c
     else if buffered > cfg_backpressureThreshold cfg \<and> \<not> cn_streamsPaused c then pauseStreams c
     else if cn_streamsPaused c \<and> buffered < cfg_recoverySize cfg then resumeStreams c
     else c)"

definition onEgressBuffered :: "conn_cfg \<Rightarrow> nat \<Rightarrow> bytes \<Rightarrow> conn \<Rightarrow> conn" where
  "onEgressBuffered cfg buffered what c =
    (let oldBuffered = cn_egressBufferSize c; c = c\<lparr>cn_egressBufferSize := buffered\<rparr> in
     if buffered < oldBuffered then
       backpressure cfg buffered (c\<lparr>cn_egress := mt_decrement (oldBuffered - buffered) (cn_egress c)\<rparr>)
     else
       (case mt_increment (buffered - oldBuffered) (cn_egress c) of
          (granted, egress) \<Rightarrow>
            let c = c\<lparr>cn_egress := egress\<rparr> in
            if \<not> granted \<and> cn_socketGood c then socket_closeNow cfg what c
            else backpressure cfg buffered c))"

definition onEgressBufferCleared :: "conn \<Rightarrow> conn" where
  "onEgressBufferCleared c =
    (let c = (if cn_egressBufferSize c \<noteq> 0
         then c\<lparr>cn_egress := mt_decrement (cn_egressBufferSize c) (cn_egress c), cn_egressBufferSize := 0\<rparr> else c) in
     if cn_streamsPaused c then resumeStreams c else c)"

subsection \<open>Ingress memory\<close>

definition incMemoryUsage :: "conn_cfg \<Rightarrow> u32 \<Rightarrow> conn \<Rightarrow> bool \<times> conn" where
  "incMemoryUsage cfg memSize c = (case mt_increment (unat memSize) (cn_ingress c) of
     (granted, t) \<Rightarrow>
       if \<not> granted then (False, startDrain cfg (Some 1) (c\<lparr>cn_ingress := mt_decrement (unat memSize) t, cn_readCB := False\<rparr>))
       else (True, c\<lparr>cn_ingress := t\<rparr>))"

definition decMemoryUsage :: "u32 \<Rightarrow> conn \<Rightarrow> conn" where
  "decMemoryUsage memSize c = c\<lparr>cn_ingress := mt_decrement (unat memSize) (cn_ingress c)\<rparr>"

section \<open>Frames\<close>

text \<open>
  \<open>RocketServerFrameContext\<close>: its construction counts the request; the destruction of a context that
  was not moved away completes it.  A context that is handed to the frame handler is destroyed by it
  later (\<open>frame_context_destroyed\<close>).
\<close>

definition frame_context_destroyed :: "conn_cfg \<Rightarrow> bool \<Rightarrow> conn \<Rightarrow> conn" where
  "frame_context_destroyed cfg markRequestComplete c =
    decInflightRequests cfg (if markRequestComplete then requestComplete c else c)"

definition onFullFrame :: "conn_cfg \<Rightarrow> frame \<Rightarrow> conn \<Rightarrow> conn" where
  "onFullFrame cfg fullFrame c0 =
    (let c = incInflightRequests c0;
         violation = (\<lambda>msg c. frame_context_destroyed cfg True (conn_close cfg (Close_Other msg) c)) in
     case fullFrame of
       RequestStream_Frame f \<Rightarrow>
         (case createClientCallback (rs_streamId f) c of
            (True, c) \<Rightarrow> notify (HandleRequest fullFrame) c
          | (False, c) \<Rightarrow> violation (ascii (''Received stream request frame with already in use stream id '' @ decimal (unat (rs_streamId f)))) c)
     | RequestChannel_Frame f \<Rightarrow>
         if sint (rc_initialRequestN f) < 2
         then violation (ascii ''initialRequestN of Sink must be 2 or greater'') c
         else (case createClientCallback (rc_streamId f) c of
            (True, c) \<Rightarrow> notify (HandleRequest fullFrame) c
          | (False, c) \<Rightarrow> violation (ascii (''Received sink request frame with already in use stream id '' @ decimal (unat (rc_streamId f)))) c)
     | _ \<Rightarrow> notify (HandleRequest fullFrame) c)"

fun frame_streamId :: "frame \<Rightarrow> u32" where
  "frame_streamId (RequestResponse_Frame f) = rr_streamId f"
| "frame_streamId (RequestFnf_Frame f) = rf_streamId f"
| "frame_streamId (RequestStream_Frame f) = rs_streamId f"
| "frame_streamId (RequestChannel_Frame f) = rc_streamId f"
| "frame_streamId _ = 0"

fun frame_hasFollows :: "frame \<Rightarrow> bool" where
  "frame_hasFollows (RequestResponse_Frame f) = flags_get FOLLOWS (rr_flags f)"
| "frame_hasFollows (RequestFnf_Frame f) = flags_get FOLLOWS (rf_flags f)"
| "frame_hasFollows (RequestStream_Frame f) = flags_get FOLLOWS (rs_flags f)"
| "frame_hasFollows (RequestChannel_Frame f) = flags_get FOLLOWS (rc_flags f)"
| "frame_hasFollows _ = False"

fun frame_append :: "payload \<Rightarrow> frame \<Rightarrow> frame" where
  "frame_append p (RequestResponse_Frame f) = RequestResponse_Frame (f\<lparr>rr_payload := payload_append (rr_payload f) p\<rparr>)"
| "frame_append p (RequestFnf_Frame f) = RequestFnf_Frame (f\<lparr>rf_payload := payload_append (rf_payload f) p\<rparr>)"
| "frame_append p (RequestStream_Frame f) = RequestStream_Frame (f\<lparr>rs_payload := payload_append (rs_payload f) p\<rparr>)"
| "frame_append p (RequestChannel_Frame f) = RequestChannel_Frame (f\<lparr>rc_payload := payload_append (rc_payload f) p\<rparr>)"
| "frame_append p f = f"

text \<open>\<open>emplace\<close> keeps an entry that is already there.\<close>

definition handleRequestFrame :: "conn_cfg \<Rightarrow> frame \<Rightarrow> conn \<Rightarrow> conn" where
  "handleRequestFrame cfg f c =
    (if frame_hasFollows f then
       (case cn_partialRequestFrames c (frame_streamId f) of
          None \<Rightarrow> c\<lparr>cn_partialRequestFrames := (cn_partialRequestFrames c)(frame_streamId f \<mapsto> f)\<rparr>
        | Some _ \<Rightarrow> c)
     else onFullFrame cfg f c)"

definition handlePartialPayload :: "conn_cfg \<Rightarrow> u32 \<Rightarrow> frame \<Rightarrow> payload_frame \<Rightarrow> conn \<Rightarrow> conn" where
  "handlePartialPayload cfg streamId requestFrame payloadFrame c =
    (let requestFrame = frame_append (pf_payload payloadFrame) requestFrame;
         c = c\<lparr>cn_partialRequestFrames := (cn_partialRequestFrames c)(streamId \<mapsto> requestFrame)\<rparr> in
     if \<not> flags_get FOLLOWS (pf_flags payloadFrame) then
       let c = onFullFrame cfg requestFrame c in
       c\<lparr>cn_partialRequestFrames := (cn_partialRequestFrames c)(streamId := None)\<rparr>
     else c)"

definition unhandleable :: "conn_cfg \<Rightarrow> string \<Rightarrow> conn \<Rightarrow> conn" where
  "unhandleable cfg msg c = conn_close cfg (Close_Rocket (RocketException 0x204 (ascii msg))) c"

definition handleClientPush :: "client_push \<Rightarrow> conn \<Rightarrow> conn" where
  "handleClientPush clientMeta c = (case clientMeta of
     InteractionTerminate i \<Rightarrow> notify (TerminateInteraction i) c
   | StreamHeadersPush sid content \<Rightarrow> if sid \<in> set (cn_streams c) then notify (StreamHeaders sid content) c else c
   | TransportMetadataPush \<Rightarrow> notify LogTransportMetadata c
   | OtherPush \<Rightarrow> c)"

definition lift_frame :: "thrift_error + ('a \<times> chain) \<Rightarrow> ('a \<Rightarrow> conn \<Rightarrow> conn) \<Rightarrow> conn \<Rightarrow> thrift_error option \<times> conn" where
  "lift_frame r k c = (case r of Inl e \<Rightarrow> (Some e, c) | Inr (f, _) \<Rightarrow> (None, k f c))"

definition handleUntrackedFrame ::
    "conn_cfg \<Rightarrow> bytes \<Rightarrow> u32 \<Rightarrow> byte \<Rightarrow> u16 \<Rightarrow> chain \<Rightarrow> conn \<Rightarrow> thrift_error option \<times> conn" where
  "handleUntrackedFrame cfg frame streamId frameType flags cur c =
    (if frameType = F_PAYLOAD then
       (case cn_partialRequestFrames c streamId of
          None \<Rightarrow> (None, c)
        | Some requestFrame \<Rightarrow>
            lift_frame (pf_parse_rest chain_api concat streamId flags cur) (handlePartialPayload cfg streamId requestFrame) c)
     else if frameType = F_CANCEL \<or> frameType = F_REQUEST_N \<or> frameType = F_ERROR then (None, c)
     else if frameType = F_EXT then
       lift_frame (xf_parse_rest chain_api concat streamId flags cur)
         (\<lambda>extFrame c. if \<not> flags_get IGNORE (xf_flags extFrame)
            then unhandleable cfg (''Received unhandleable ext frame type ('' @ decimal (unat (xf_extFrameType extFrame)) @ '') without ignore flag'') c else c) c
     else if frameType = F_METADATA_PUSH then
       lift_frame (mp_parse chain_api concat [frame])
         (\<lambda>metadataFrame c. case cfg_unpackClientPush cfg (mp_metadata metadataFrame) of
            None \<Rightarrow> unhandleable cfg ''Failed to deserialize metadata push frame'' c
          | Some clientMeta \<Rightarrow> handleClientPush clientMeta c) c
     else (None, unhandleable cfg (''Received unhandleable frame type ('' @ decimal (unat frameType) @ '')'') c))"

definition handleTrackedFrame ::
    "conn_cfg \<Rightarrow> bytes \<Rightarrow> u32 \<Rightarrow> byte \<Rightarrow> u16 \<Rightarrow> chain \<Rightarrow> conn \<Rightarrow> thrift_error option \<times> conn" where
  "handleTrackedFrame cfg frame streamId frameType flags cur c =
    (if frameType = F_REQUEST_N then
       lift_frame (rn_parse_rest chain_api streamId cur) (\<lambda>f. notify (StreamHandleFrame streamId (RequestN_Frame f))) c
     else if frameType = F_CANCEL then (None, notify (StreamHandleFrame streamId (Cancel_Frame \<lparr>cf_streamId = streamId\<rparr>)) c)
     else if frameType = F_PAYLOAD then
       lift_frame (pf_parse_rest chain_api concat streamId flags cur) (\<lambda>f. notify (StreamHandleFrame streamId (Payload_Frame f))) c
     else if frameType = F_ERROR then
       lift_frame (ef_parse chain_api concat [frame]) (\<lambda>f. notify (StreamHandleFrame streamId (Error_Frame f))) c
     else if frameType = F_EXT then
       lift_frame (xf_parse_rest chain_api concat streamId flags cur) (\<lambda>f. notify (StreamHandleFrame streamId (Ext_Frame f))) c
     else (None, unhandleable cfg (''Received unhandleable frame type ('' @ decimal (unat frameType) @ '')'') c))"

definition dispatchFrame :: "conn_cfg \<Rightarrow> bytes \<Rightarrow> u32 \<Rightarrow> byte \<Rightarrow> u16 \<Rightarrow> chain \<Rightarrow> conn \<Rightarrow> thrift_error option \<times> conn" where
  "dispatchFrame cfg frame streamId frameType flags cur c =
    (if frameType = F_SETUP then
       lift_frame (setup_parse chain_api concat [frame])
         (\<lambda>setupFrame c. notify (HandleSetupFrame setupFrame)
            (c\<lparr>cn_decodeMetadataUsingBinary := Some (sf_encodeMetadataUsingBinary setupFrame)\<rparr>)) c
     else if frameType = F_REQUEST_RESPONSE then
       lift_frame (rr_parse_rest chain_api concat streamId flags cur) (\<lambda>f. handleRequestFrame cfg (RequestResponse_Frame f)) c
     else if frameType = F_REQUEST_FNF then
       lift_frame (rf_parse_rest chain_api concat streamId flags cur) (\<lambda>f. handleRequestFrame cfg (RequestFnf_Frame f)) c
     else if frameType = F_REQUEST_STREAM then
       lift_frame (rs_parse_rest chain_api concat streamId flags cur) (\<lambda>f. handleRequestFrame cfg (RequestStream_Frame f)) c
     else if frameType = F_REQUEST_CHANNEL then
       lift_frame (rc_parse_rest chain_api concat streamId flags cur) (\<lambda>f. handleRequestFrame cfg (RequestChannel_Frame f)) c
     else if frameType = F_KEEPALIVE then
       (if streamId = 0 then
          lift_frame (ka_parse chain_api concat [frame])
            (\<lambda>keepAliveFrame c. if flags_get RESPOND (ka_flags keepAliveFrame)
               then conn_send cfg (ka_serialize \<lparr>ka_streamId = 0, ka_flags = 0, ka_data = ka_data keepAliveFrame\<rparr>) None None c
               else c) c
        else (None, conn_close cfg
          (Close_Rocket (RocketException 0x101 (ascii (''Received keepalive frame with non-zero stream ID '' @ decimal (unat streamId))))) c))
     else if streamId \<in> set (cn_streams c) then handleTrackedFrame cfg frame streamId frameType flags cur c
     else handleUntrackedFrame cfg frame streamId frameType flags cur c)"

definition handleFrame :: "conn_cfg \<Rightarrow> bytes \<Rightarrow> conn \<Rightarrow> thrift_error option \<times> conn" where
  "handleFrame cfg frame c =
    (if cn_state c \<noteq> ALIVE \<and> cn_state c \<noteq> DRAINING then (None, c)
     else let c = notify OnBeforeHandleFrame c in
       case read_common chain_api [frame] of
         Inl e \<Rightarrow> (Some e, c)
       | Inr ((streamId, frameType, flags), cur) \<Rightarrow>
           if \<not> cn_setupFrameReceived c then
             if frameType \<noteq> F_SETUP
             then (None, conn_close cfg (Close_Rocket (RocketException 1 (ascii ''First frame must be SETUP frame''))) c)
             else dispatchFrame cfg frame streamId frameType flags cur (c\<lparr>cn_setupFrameReceived := True\<rparr>)
           else if frameType = F_SETUP
           then (None, conn_close cfg (Close_Rocket (RocketException 1 (ascii ''More than one SETUP frame received''))) c)
           else dispatchFrame cfg frame streamId frameType flags cur c)"

text \<open>The connection as the owner of its parser.\<close>

definition conn_owner :: "conn_cfg \<Rightarrow> conn parser_owner" where
  "conn_owner cfg = \<lparr>o_incMemoryUsage = incMemoryUsage cfg, o_decMemoryUsage = decMemoryUsage,
     o_handleFrame = handleFrame cfg, o_close = (\<lambda>e. conn_close cfg (Close_Other (cfg_what cfg e)))\<rparr>"

end
