(* ===== verification/Rocket_Steps.thy ===== *)
theory Rocket_Steps
  imports Rocket_Connection
begin

unbundle bit_operations_syntax

text \<open>
  The server's connection as a transition system: the operations that other objects call on it are
  the rules of \<open>conn_step\<close>, and the states that sequences of them lead to are \<open>reachable\<close>.  What all
  operations share is a contract on the primitive steps they are made of: the locale \<open>conn_preorder\<close> states it
  for a relation between states, and \<open>frame_preorder\<close> extends it to the operations that handle frames.
\<close>

section \<open>The operations as steps\<close>

text \<open>
  A frame from the parser: an exception of \<open>handleFrame\<close> ends in \<open>Parser::readDataAvailable\<close>, which
  closes the connection.
\<close>

definition receiveFrame :: "conn_cfg \<Rightarrow> bytes \<Rightarrow> conn \<Rightarrow> conn" where
  "receiveFrame cfg frame c = (case handleFrame cfg frame c of
     (None, c) \<Rightarrow> c
   | (Some e, c) \<Rightarrow> conn_close cfg (Close_Other (cfg_what cfg e)) c)"

text \<open>
  The steps of a connection: every operation that other objects can call, where the code asserts a
  precondition only under it.  File descriptors go with a message, which is not empty.
\<close>

inductive conn_step :: "conn_cfg \<Rightarrow> conn \<Rightarrow> conn \<Rightarrow> bool" for cfg where
  Frame: "conn_step cfg c (receiveFrame cfg frame c)"
| IncMemory: "conn_step cfg c (snd (incMemoryUsage cfg n c))"
| DecMemory: "conn_step cfg c (decMemoryUsage n c)"
| Close: "conn_step cfg c (conn_close cfg reason c)"
| Drain: "conn_step cfg c (startDrain cfg code c)"
| CloseWhenIdle: "conn_step cfg c (closeWhenIdle cfg c)"
| Drop: "conn_step cfg c (dropConnection cfg what c)"
| IdleTimeout: "conn_step cfg c (conn_timeoutExpired cfg c)"
| DrainTimeout: "cn_drainTimer c \<Longrightarrow> conn_step cfg c (sd_timeoutExpired cfg c)"
| Send: "(fds \<noteq> None \<Longrightarrow> data \<noteq> []) \<Longrightarrow> conn_step cfg c (conn_send cfg data cb fds c)"
| RunLoop: "wb_loopCallback (cn_writeBatcher c) \<Longrightarrow> conn_step cfg c (wb_runLoopCallback c)"
| BatchTimeout: "wb_timeout (cn_writeBatcher c) \<Longrightarrow> conn_step cfg c (wb_timeoutExpired c)"
| WriteSuccess: "cn_inflightWritesQueue c \<noteq> [] \<Longrightarrow> conn_step cfg c (writeSuccess cfg c)"
| WriteErr: "cn_inflightWritesQueue c \<noteq> [] \<Longrightarrow> conn_step cfg c (writeErr cfg what c)"
| ContextDestroyed: "cn_inflightRequests c \<noteq> 0 \<Longrightarrow> conn_step cfg c (frame_context_destroyed cfg mark c)"
| FinalResponseBegins: "conn_step cfg c (incInflightFinalResponse c)"
| FinalResponseEnds: "cn_inflightSinkFinalResponses c \<noteq> 0 \<Longrightarrow> conn_step cfg c (decInflightFinalResponse cfg c)"
| FreeStream: "conn_step cfg c (freeStream s mark c)"
| EgressBuffered: "conn_step cfg c (onEgressBuffered cfg n what c)"
| EgressCleared: "conn_step cfg c (onEgressBufferCleared c)"
| PausableDestroyed: "cn_activePausedHandlers c \<noteq> 0 \<Longrightarrow> conn_step cfg c (pausable_destroyed cfg c)"
| PausablePause: "conn_step cfg c (pausable_pause c)"
| ResumableResume: "cn_activePausedHandlers c \<noteq> 0 \<Longrightarrow> conn_step cfg c (resumable_resume cfg c)"
| SetQuiescenceCallback: "conn_step cfg c (c\<lparr>cn_onWriteQuiescence := True\<rparr>)"
| SocketFails: "conn_step cfg c (c\<lparr>cn_socketGood := False, cn_socketError := e\<rparr>)"

definition reachable :: "conn_cfg \<Rightarrow> conn \<Rightarrow> bool" where
  "reachable cfg c \<longleftrightarrow> (\<exists>ingress egress. (conn_step cfg)\<^sup>*\<^sup>* (conn_init ingress egress) c)"

lemma reachable_invariant:
  assumes "reachable cfg c" and "\<And>i e. P (conn_init i e)" and "\<And>c c'. P c \<Longrightarrow> conn_step cfg c c' \<Longrightarrow> P c'"
  shows "P c"
proof -
  obtain i e where "(conn_step cfg)\<^sup>*\<^sup>* (conn_init i e) c" using assms(1) by (auto simp: reachable_def)
  then show ?thesis by (induction rule: rtranclp_induct) (use assms(2,3) in auto)
qed

text \<open>A configuration without batching and without limits, for examples.\<close>

definition sample_cfg :: conn_cfg where
  "sample_cfg = \<lparr>cfg_batchingInterval = 0, cfg_batchingSize = 0, cfg_batchingByteSize = 0, cfg_hasObservers = False,
     cfg_backpressureThreshold = 0, cfg_recoverySize = 0, cfg_packDrainComplete = (\<lambda>_. []), cfg_unpackClientPush = (\<lambda>_. None),
     cfg_what = (\<lambda>_. [])\<rparr>"

definition sample_memory :: memory_tracker where
  "sample_memory = \<lparr>mt_usage = 0, mt_limit = 0, mt_min = 0\<rparr>"

section \<open>The primitive steps\<close>

fun is_protocol :: "event \<Rightarrow> bool" where
  "is_protocol (HandleSetupFrame f) = True"
| "is_protocol (HandleRequest f) = True"
| "is_protocol (StreamHandleFrame s f) = True"
| "is_protocol _ = False"

fun is_request :: "event \<Rightarrow> bool" where
  "is_request (HandleRequest f) = True"
| "is_request (StreamHandleFrame s f) = True"
| "is_request _ = False"

text \<open>The events that no property counts.\<close>

fun is_plain :: "event \<Rightarrow> bool" where
  "is_plain HandlerRequestComplete = False"
| "is_plain (StreamConnectionClose s) = False"
| "is_plain (WriteChain data fds) = False"
| "is_plain CheckFailed = False"
| "is_plain RemoveConnection = False"
| "is_plain Destroyed = False"
| "is_plain ev = (\<not> is_protocol ev)"

text \<open>The fields that the relations are about; the others are free.\<close>

definition core :: "conn \<Rightarrow> conn_state \<times> bool \<times> bool option \<times> write_context list \<times> write_batcher \<times> event list \<times> nat \<times> memory_tracker \<times> memory_tracker" where
  "core c = (cn_state c, cn_setupFrameReceived c, cn_decodeMetadataUsingBinary c, cn_inflightWritesQueue c,
     cn_writeBatcher c, cn_trace c, cn_egressBufferSize c, cn_egress c, cn_ingress c)"

text \<open>What \<open>writeSuccess\<close> and \<open>writeErr\<close> have in common: the context of the first write is used up.\<close>

definition settle :: "(nat \<Rightarrow> event) \<Rightarrow> write_context \<Rightarrow> write_context list \<Rightarrow> conn \<Rightarrow> conn" where
  "settle ev ctx rest c = (fold (\<lambda>cb. notify (ev cb)) (wc_sendCallbacks ctx) (completeRequests (wc_requestCompleteCount ctx) c))
     \<lparr>cn_inflightWritesQueue := rest\<rparr>"

named_theorems rels \<open>operations that stay within the relation\<close>
named_theorems keeps_state \<open>operations that do not change the state\<close>

locale conn_preorder =
  fixes cfg :: conn_cfg and rel :: "conn \<Rightarrow> conn \<Rightarrow> bool"
  assumes rel_trans: "rel c d \<Longrightarrow> rel d e \<Longrightarrow> rel c e"
    and rel_core: "core d = core c \<Longrightarrow> rel c d"
    and rel_notify: "is_plain ev \<Longrightarrow> rel c (notify ev c)"
    and rel_send: "(fds \<noteq> None \<Longrightarrow> data \<noteq> []) \<Longrightarrow> rel c (conn_send cfg data cb fds c)"
    and rel_runLoop: "wb_loopCallback (cn_writeBatcher c) \<Longrightarrow> rel c (wb_runLoopCallback c)"
    and rel_batchTimeout: "wb_timeout (cn_writeBatcher c) \<Longrightarrow> rel c (wb_timeoutExpired c)"
    and rel_drain: "rel c (wb_drain c)"
    and rel_settle: "cn_inflightWritesQueue c = ctx # rest \<Longrightarrow> (\<And>k. is_plain (note_of k)) \<Longrightarrow> rel c (settle note_of ctx rest c)"
    and rel_draining: "cn_state c = ALIVE \<Longrightarrow> rel c (c\<lparr>cn_state := DRAINING\<rparr>)"
    and rel_closing: "cn_state c = ALIVE \<or> cn_state c = DRAINING \<Longrightarrow> rel c (c\<lparr>cn_state := CLOSING\<rparr>)"
    and rel_stream_closed: "rel c (requestComplete (notify (StreamConnectionClose s) c))"
    and rel_closed: "cn_state c = CLOSING \<Longrightarrow> rel (notify RemoveConnection (c\<lparr>cn_state := CLOSED\<rparr>)) d \<Longrightarrow> rel c (notify Destroyed d)"
    and rel_egress_less: "n < cn_egressBufferSize c \<Longrightarrow>
      rel c (c\<lparr>cn_egressBufferSize := n, cn_egress := mt_decrement (cn_egressBufferSize c - n) (cn_egress c)\<rparr>)"
    and rel_egress_more: "cn_egressBufferSize c \<le> n \<Longrightarrow>
      rel c (c\<lparr>cn_egressBufferSize := n, cn_egress := snd (mt_increment (n - cn_egressBufferSize c) (cn_egress c))\<rparr>)"

lemma notify_state [keeps_state]: "cn_state (notify ev c) = cn_state c"
  by (simp add: notify_def)

lemma send_state [keeps_state]: "cn_state (conn_send cfg data cb fds c) = cn_state c"
  "cn_state (sendError cfg s rex cb c) = cn_state c" "cn_state (sendMetadataPush cfg m c) = cn_state c"
  by (simp_all add: conn_send_def sendError_def sendMetadataPush_def notify_def Let_def split: option.split)

lemma requestComplete_state [keeps_state]: "cn_state (requestComplete c) = cn_state c"
  by (simp add: requestComplete_def notify_def Let_def)

lemma drainer_state [keeps_state]: "cn_state (sd_activate c) = cn_state c" "cn_state (sd_drainComplete c) = cn_state c"
  by (simp_all add: sd_activate_def sd_drainComplete_def)

context conn_preorder
begin

lemma rel_refl [rels]: "rel c c"
  by (simp add: rel_core)

lemma rel_fields [rels]:
  assumes "rel x c"
  shows "rel x (c\<lparr>cn_partialRequestFrames := a1\<rparr>)" "rel x (c\<lparr>cn_inflightRequests := a2\<rparr>)"
    "rel x (c\<lparr>cn_inflightSinkFinalResponses := a2\<rparr>)" "rel x (c\<lparr>cn_drainCompleteCode := a3\<rparr>)" "rel x (c\<lparr>cn_streams := a4\<rparr>)"
    "rel x (c\<lparr>cn_streamsPaused := b\<rparr>)" "rel x (c\<lparr>cn_drainComplete := b\<rparr>)" "rel x (c\<lparr>cn_drainTimer := b\<rparr>)"
    "rel x (c\<lparr>cn_activePausedHandlers := a2\<rparr>)" "rel x (c\<lparr>cn_onWriteQuiescence := b\<rparr>)" 
    "rel x (c\<lparr>cn_readCB := b\<rparr>)" "rel x (c\<lparr>cn_socketGood := b\<rparr>)" "rel x (c\<lparr>cn_socketError := b\<rparr>)"
  by (rule rel_trans [OF assms rel_core], simp add: core_def)+

lemma rel_notify' [rels]: "rel x c \<Longrightarrow> is_plain ev \<Longrightarrow> rel x (notify ev c)"
  using rel_trans rel_notify by blast

lemma rel_send' [rels]: "rel x c \<Longrightarrow> rel x (conn_send cfg data cb None c)"
  using rel_trans rel_send by blast

lemma rel_drain' [rels]: "rel x c \<Longrightarrow> rel x (wb_drain c)"
  using rel_trans rel_drain by blast

lemma rel_send_frames [rels]: "rel x c \<Longrightarrow> rel x (sendError cfg s rex cb c)" "rel x c \<Longrightarrow> rel x (sendMetadataPush cfg m c)"
  by (simp_all add: sendError_def sendMetadataPush_def rels)

lemma rel_drainer [rels]: "rel x c \<Longrightarrow> rel x (sd_activate c)" "rel x c \<Longrightarrow> rel x (sd_drainComplete c)"
  by (simp_all add: sd_activate_def sd_drainComplete_def rels)

lemma rel_closeStreams [rels]: "rel x c \<Longrightarrow> rel x (closeStreams ss c)"
proof (induction ss arbitrary: c)
  case (Cons s ss)
  have "rel x (requestComplete (notify (StreamConnectionClose s) (c\<lparr>cn_streams := ss\<rparr>)))"
    using rel_trans [OF rel_fields(5) [OF Cons.prems] rel_stream_closed] .
  then show ?case using Cons.IH by simp
qed (simp add: rels)

lemma rel_closeIfClosing [rels]: "rel x c \<Longrightarrow> rel x (closeIfClosing c)"
proof -
  assume x: "rel x c"
  define c1 where "c1 = (if \<not> cn_socketGood c then sd_drainComplete c else c)"
  have c1: "rel x c1" "cn_state c1 = cn_state c" using x by (simp_all add: c1_def rels keeps_state)
  then have "rel x (notify Destroyed (wb_drain (closeStreams (cn_streams d) (notify RemoveConnection (c1\<lparr>cn_state := CLOSED\<rparr>)))))"
    if "cn_state c = CLOSING" for d
    using that by (metis rel_trans rel_closed rel_refl rel_drain' rel_closeStreams)
  then show ?thesis using x c1 by (auto simp: closeIfClosing_def Let_def c1_def [symmetric])
qed

lemma rel_to_closing: "rel x c \<Longrightarrow> cn_state c = ALIVE \<or> cn_state c = DRAINING \<Longrightarrow>
    rel x (notify ConnectionClosing (c\<lparr>cn_state := CLOSING\<rparr>))"
  by (rule rel_notify' [OF rel_trans [OF _ rel_closing]]) simp_all

lemma rel_closeIfNeeded [rels]: "rel x c \<Longrightarrow> rel x (closeIfNeeded cfg c)"
  by (auto simp: closeIfNeeded_def Let_def keeps_state intro!: rels rel_to_closing split: option.split)

lemma not_closing: "cn_state c \<noteq> CLOSING \<Longrightarrow> cn_state c \<noteq> CLOSED \<Longrightarrow> cn_state c = ALIVE \<or> cn_state c = DRAINING"
  by (cases "cn_state c") simp_all

lemma rel_close [rels]: "rel x c \<Longrightarrow> rel x (conn_close cfg r c)"
  using not_closing [of c] by (auto simp: conn_close_def Let_def keeps_state intro!: rels rel_to_closing)

lemma rel_startDrain [rels]: "rel x c \<Longrightarrow> rel x (startDrain cfg code c)"
proof -
  assume x: "rel x c"
  have "rel x ((c\<lparr>cn_state := DRAINING\<rparr>)\<lparr>cn_drainCompleteCode := code\<rparr>)" if "cn_state c = ALIVE"
    using rel_fields(4) [OF rel_trans [OF x rel_draining [OF that]]] .
  then show ?thesis using x by (auto simp: startDrain_def intro!: rel_closeIfNeeded rel_send_frames)
qed

lemma rel_closeWhenIdle [rels]: "rel x c \<Longrightarrow> rel x (closeWhenIdle cfg c)"
  by (simp add: closeWhenIdle_def rels)

lemma rel_timeouts [rels]: "rel x c \<Longrightarrow> rel x (conn_timeoutExpired cfg c)" "rel x c \<Longrightarrow> rel x (sd_timeoutExpired cfg c)"
  by (simp_all add: conn_timeoutExpired_def sd_timeoutExpired_def rels)

lemma rel_counters [rels]: "rel x c \<Longrightarrow> rel x (incInflightRequests c)" "rel x c \<Longrightarrow> rel x (decInflightRequests cfg c)"
  "rel x c \<Longrightarrow> rel x (incInflightFinalResponse c)" "rel x c \<Longrightarrow> rel x (decInflightFinalResponse cfg c)"
  by (simp_all add: incInflightRequests_def decInflightRequests_def incInflightFinalResponse_def decInflightFinalResponse_def rels)

lemma rel_handles [rels]: "rel x c \<Longrightarrow> rel x (pausable_destroyed cfg c)" "rel x c \<Longrightarrow> rel x (pausable_pause c)"
  "rel x c \<Longrightarrow> rel x (resumable_resume cfg c)" "rel x c \<Longrightarrow> rel x (incrementActivePauseHandlers c)"
  by (simp_all add: pausable_destroyed_def pausable_pause_def resumable_resume_def pauseSocketReading_def
      tryResumeSocketReading_def incrementActivePauseHandlers_def decrementActivePauseHandlers_def rels)

lemma rel_settle' [rels]: "rel x c \<Longrightarrow> cn_inflightWritesQueue c = ctx # rest \<Longrightarrow> (\<And>k. is_plain (ev k)) \<Longrightarrow> rel x (settle ev ctx rest c)"
  using rel_trans rel_settle by blast

lemma rel_writeSuccess [rels]: "rel x c \<Longrightarrow> rel x (writeSuccess cfg c)"
  by (auto simp: writeSuccess_def Let_def settle_def [symmetric] intro!: rels split: list.split)

lemma rel_writeErr [rels]: "rel x c \<Longrightarrow> rel x (writeErr cfg what c)"
  by (auto simp: writeErr_def Let_def settle_def [symmetric] intro!: rels split: list.split)

lemma rel_writeErrs [rels]: "rel x c \<Longrightarrow> rel x ((writeErr cfg what ^^ n) c)"
  by (induction n) (simp_all add: rels)

lemma rel_drop [rels]: "rel x c \<Longrightarrow> rel x (socket_closeNow cfg what c)" "rel x c \<Longrightarrow> rel x (dropConnection cfg what c)"
  by (simp_all add: socket_closeNow_def dropConnection_def Let_def rels)

lemma rel_fold_notify [rels]: "rel x c \<Longrightarrow> (\<And>y. is_plain (f y)) \<Longrightarrow> rel x (fold (\<lambda>y. notify (f y)) ys c)"
  by (induction ys arbitrary: c) (simp_all add: rels)

lemma rel_streams [rels]: "rel x c \<Longrightarrow> rel x (pauseStreams c)" "rel x c \<Longrightarrow> rel x (resumeStreams c)" "rel x c \<Longrightarrow> rel x (backpressure cfg n c)"
  by (simp_all add: pauseStreams_def resumeStreams_def backpressure_def rels)

lemma rel_onEgressBuffered [rels]: "rel x c \<Longrightarrow> rel x (onEgressBuffered cfg n what c)"
proof -
  assume x: "rel x c"
  let ?less = "c\<lparr>cn_egressBufferSize := n, cn_egress := mt_decrement (cn_egressBufferSize c - n) (cn_egress c)\<rparr>"
  let ?more = "c\<lparr>cn_egressBufferSize := n, cn_egress := snd (mt_increment (n - cn_egressBufferSize c) (cn_egress c))\<rparr>"
  have "rel x ?less" if "n < cn_egressBufferSize c" using rel_trans [OF x rel_egress_less [OF that]] .
  moreover have "rel x ?more" if "\<not> n < cn_egressBufferSize c" using rel_trans [OF x rel_egress_more] that by simp
  ultimately show ?thesis by (auto simp: onEgressBuffered_def Let_def split_def intro!: rels)
qed

lemma rel_onEgressBufferCleared [rels]: "rel x c \<Longrightarrow> rel x (onEgressBufferCleared c)"
proof -
  assume x: "rel x c"
  have eq: "c\<lparr>cn_egress := t, cn_egressBufferSize := n\<rparr> = c\<lparr>cn_egressBufferSize := n, cn_egress := t\<rparr>" for t n by simp
  have "rel x (c\<lparr>cn_egress := mt_decrement (cn_egressBufferSize c) (cn_egress c), cn_egressBufferSize := 0\<rparr>)"
    if "cn_egressBufferSize c \<noteq> 0" unfolding eq using rel_trans [OF x rel_egress_less [of 0 c]] that by simp
  then show ?thesis using x by (auto simp: onEgressBufferCleared_def Let_def intro!: rel_streams)
qed

end

text \<open>The operations on the ingress memory, and with them all steps but those that complete requests and those that handle frames.\<close>

locale metered_preorder = conn_preorder +
  assumes rel_ingress: "rel c (c\<lparr>cn_ingress := m\<rparr>)"

context metered_preorder
begin

lemma rel_ingress' [rels]: "rel x c \<Longrightarrow> rel x (c\<lparr>cn_ingress := m\<rparr>)"
  using rel_trans rel_ingress by blast

lemma rel_memory [rels]: "rel x c \<Longrightarrow> rel x (snd (incMemoryUsage cfg n c))" "rel x c \<Longrightarrow> rel x (decMemoryUsage n c)"
  by (simp_all add: incMemoryUsage_def decMemoryUsage_def split_def rels)

lemma rel_conn_step:
  assumes "conn_step cfg c d"
  shows "rel c d \<or> (\<exists>frame. d = receiveFrame cfg frame c) \<or> (\<exists>mark. d = frame_context_destroyed cfg mark c) \<or>
    (\<exists>s mark. d = freeStream s mark c)"
  using assms
proof cases
  case (Send fds data cb)
  then show ?thesis using rel_send by blast
next
  case RunLoop
  then show ?thesis using rel_runLoop by blast
next
  case BatchTimeout
  then show ?thesis using rel_batchTimeout by blast
qed (simp_all add: rels, blast+)

end

section \<open>The operations that complete requests and handle frames\<close>

locale request_preorder = conn_preorder +
  assumes rel_complete: "rel c (requestComplete c)"
    and rel_request: "is_request ev \<Longrightarrow> rel c (notify ev c)"

context request_preorder
begin

lemma rel_complete' [rels]: "rel x c \<Longrightarrow> rel x (requestComplete c)"
  using rel_trans rel_complete by blast

lemma rel_request' [rels]: "rel x c \<Longrightarrow> is_request ev \<Longrightarrow> rel x (notify ev c)"
  using rel_trans rel_request by blast

lemma rel_freeStream [rels]: "rel x c \<Longrightarrow> rel x (freeStream s mark c)"
  by (simp add: freeStream_def Let_def rels)

lemma rel_context_destroyed [rels]: "rel x c \<Longrightarrow> rel x (frame_context_destroyed cfg mark c)"
  by (simp add: frame_context_destroyed_def rels)

lemma rel_onFullFrame [rels]: "rel x c \<Longrightarrow> rel x (onFullFrame cfg f c)"
  by (simp add: onFullFrame_def createClientCallback_def Let_def rels split: frame.split)

lemma rel_handleRequestFrame [rels]: "rel x c \<Longrightarrow> rel x (handleRequestFrame cfg f c)"
  by (simp add: handleRequestFrame_def rels split: option.split)

lemma rel_handlePartialPayload [rels]: "rel x c \<Longrightarrow> rel x (handlePartialPayload cfg s f p c)"
  by (simp add: handlePartialPayload_def Let_def rels)

lemma rel_unhandleable [rels]: "rel x c \<Longrightarrow> rel x (unhandleable cfg msg c)"
  by (simp add: unhandleable_def rels)

lemma rel_lift_frame: "rel x c \<Longrightarrow> (\<And>f. rel x (k f c)) \<Longrightarrow> rel x (snd (lift_frame r k c))"
  by (simp add: lift_frame_def split: sum.split prod.split)

lemma rel_handleUntrackedFrame: "rel x c \<Longrightarrow> rel x (snd (handleUntrackedFrame cfg frame s t fl cur c))"
  by (simp add: handleUntrackedFrame_def handleClientPush_def rels rel_lift_frame split: option.split client_push.split)

lemma rel_handleTrackedFrame: "rel x c \<Longrightarrow> rel x (snd (handleTrackedFrame cfg frame s t fl cur c))"
  by (simp add: handleTrackedFrame_def rels rel_lift_frame)

lemma rel_dispatchFrame: "t \<noteq> F_SETUP \<Longrightarrow> rel x c \<Longrightarrow> rel x (snd (dispatchFrame cfg frame s t fl cur c))"
  by (simp add: dispatchFrame_def rels rel_lift_frame rel_handleTrackedFrame rel_handleUntrackedFrame)

end

locale frame_preorder = request_preorder +
  assumes rel_setup: "rel c (c\<lparr>cn_setupFrameReceived := b, cn_decodeMetadataUsingBinary := dec\<rparr>)"
    and rel_setup_frame: "rel c (notify (HandleSetupFrame f) c)"

context frame_preorder
begin

lemma rel_setup' [rels]: "rel x c \<Longrightarrow> rel x (c\<lparr>cn_setupFrameReceived := b\<rparr>)" "rel x c \<Longrightarrow> rel x (c\<lparr>cn_decodeMetadataUsingBinary := d\<rparr>)"
  "rel x c \<Longrightarrow> rel x (notify (HandleSetupFrame f) c)"
  using rel_trans [OF _ rel_setup [of c "cn_decodeMetadataUsingBinary c" b]] rel_trans [OF _ rel_setup [of c d "cn_setupFrameReceived c"]]
    rel_trans [OF _ rel_setup_frame]
  by simp_all

lemma rel_handleFrame: "rel x c \<Longrightarrow> rel x (snd (handleFrame cfg frame c))"
proof -
  assume x: "rel x c"
  have "rel x (snd (dispatchFrame cfg frame s t fl cur d))" if "rel x d" for s t fl cur d
    using rel_dispatchFrame [OF _ that] that
    by (cases "t = F_SETUP") (simp_all add: dispatchFrame_def rel_lift_frame rels)
  then show ?thesis using x by (simp add: handleFrame_def Let_def rels split: sum.split prod.split)
qed

lemma rel_receiveFrame [rels]: "rel x c \<Longrightarrow> rel x (receiveFrame cfg frame c)"
  using rel_handleFrame [of x c frame] by (auto simp: receiveFrame_def intro!: rels split: prod.split option.split)

end

locale step_preorder = frame_preorder cfg rel + metered_preorder cfg rel for cfg rel

context step_preorder
begin

lemma rel_step: "conn_step cfg c d \<Longrightarrow> rel c d"
  using rel_conn_step [of c d] rel_receiveFrame [OF rel_refl] rel_context_destroyed [OF rel_refl] rel_freeStream [OF rel_refl] by blast

lemma rel_steps: "(conn_step cfg)\<^sup>*\<^sup>* c d \<Longrightarrow> rel c d"
  by (induction rule: rtranclp_induct) (auto intro: rel_refl rel_trans rel_step)

end

end
