(* ===== verification/Rocket_Requests.thy ===== *)
theory Rocket_Requests
  imports Rocket_Steps
begin

unbundle bit_operations_syntax

text \<open>
  Requests of any size: a client serializes a request in fragments, and the server's connection, given
  the frames one after the other, puts them together and hands the frame handler the request that was sent.
\<close>

section \<open>Requests of all four kinds\<close>

fun is_request_frame :: "frame \<Rightarrow> bool" where
  "is_request_frame (RequestResponse_Frame f) = True"
| "is_request_frame (RequestFnf_Frame f) = True"
| "is_request_frame (RequestStream_Frame f) = True"
| "is_request_frame (RequestChannel_Frame f) = True"
| "is_request_frame _ = False"

fun opens_stream :: "frame \<Rightarrow> bool" where
  "opens_stream (RequestStream_Frame f) = True"
| "opens_stream (RequestChannel_Frame f) = True"
| "opens_stream _ = False"

fun request_payload :: "frame \<Rightarrow> payload" where
  "request_payload (RequestResponse_Frame f) = rr_payload f"
| "request_payload (RequestFnf_Frame f) = rf_payload f"
| "request_payload (RequestStream_Frame f) = rs_payload f"
| "request_payload (RequestChannel_Frame f) = rc_payload f"
| "request_payload _ = makeFromData []"

text \<open>The request with other flags and another payload.\<close>

fun reframed :: "u16 \<Rightarrow> payload \<Rightarrow> frame \<Rightarrow> frame" where
  "reframed fl p (RequestResponse_Frame f) = RequestResponse_Frame (f\<lparr>rr_flags := fl, rr_payload := p\<rparr>)"
| "reframed fl p (RequestFnf_Frame f) = RequestFnf_Frame (f\<lparr>rf_flags := fl, rf_payload := p\<rparr>)"
| "reframed fl p (RequestStream_Frame f) = RequestStream_Frame (f\<lparr>rs_flags := fl, rs_payload := p\<rparr>)"
| "reframed fl p (RequestChannel_Frame f) = RequestChannel_Frame (f\<lparr>rc_flags := fl, rc_payload := p\<rparr>)"
| "reframed fl p f = f"

fun request_serialize :: "nat \<Rightarrow> frame \<Rightarrow> bytes list" where
  "request_serialize K (RequestResponse_Frame f) = rr_serialize K f"
| "request_serialize K (RequestFnf_Frame f) = rf_serialize K f"
| "request_serialize K (RequestStream_Frame f) = rs_serialize K f"
| "request_serialize K (RequestChannel_Frame f) = rc_serialize K f"
| "request_serialize K _ = []"

text \<open>The conditions under which \<open>onFullFrame\<close> accepts a request.\<close>

fun acceptable :: "frame \<Rightarrow> conn \<Rightarrow> bool" where
  "acceptable (RequestStream_Frame f) c = (rs_streamId f \<notin> set (cn_streams c))"
| "acceptable (RequestChannel_Frame f) c = (rc_streamId f \<notin> set (cn_streams c) \<and> 2 \<le> sint (rc_initialRequestN f))"
| "acceptable _ c = True"

lemma reframed_simps [simp]:
  "frame_streamId (reframed fl p f) = frame_streamId f" "is_request_frame (reframed fl p f) = is_request_frame f"
  "opens_stream (reframed fl p f) = opens_stream f" "acceptable (reframed fl p f) c = acceptable f c"
  "is_request_frame f \<Longrightarrow> frame_hasFollows (reframed fl p f) = flags_get FOLLOWS fl"
  "frame_append q (reframed fl p f) = reframed fl (payload_append p q) f"
  by (cases f; simp)+

section \<open>One frame\<close>

abbreviation serving :: "conn \<Rightarrow> bool" where
  "serving c \<equiv> (cn_state c = ALIVE \<or> cn_state c = DRAINING) \<and> cn_setupFrameReceived c"

lemma as_frame_Inr: "as_frame k x = Inr f \<longleftrightarrow> (\<exists>y c. x = Inr (y, c) \<and> f = k y)"
  by (auto simp: as_frame_def split: sum.splits)

text \<open>Frames handed to the connection one after the other, each of them handled without an exception.\<close>

fun frames_handled :: "conn_cfg \<Rightarrow> bytes list \<Rightarrow> conn \<Rightarrow> conn option" where
  "frames_handled cfg [] c = Some c"
| "frames_handled cfg (b # bs) c = (case handleFrame cfg b c of (None, c) \<Rightarrow> frames_handled cfg bs c | (Some e, c) \<Rightarrow> None)"

lemma receive_request:
  assumes "parse_frame chain_api concat [body] = Inr f" and "is_request_frame f" and "serving c"
  shows "handleFrame cfg body c = (None, handleRequestFrame cfg f (notify OnBeforeHandleFrame c))"
proof -
  let ?c = "notify OnBeforeHandleFrame c"
  have s: "cn_setupFrameReceived ?c" using assms(3) by (simp add: notify_def)
  obtain sid t fl cur where r: "read_common chain_api [body] = Inr ((sid, t, fl), cur)"
    using assms(1) by (auto simp: parse_frame_def split: sum.splits)
  have t: "t \<noteq> F_SETUP" using assms(1,2) r by (auto simp: parse_frame_def as_frame_Inr)
  have "dispatchFrame cfg body sid t fl cur ?c = (None, handleRequestFrame cfg f ?c)"
  proof -
    consider "t = F_REQUEST_RESPONSE" | "t = F_REQUEST_FNF" | "t = F_REQUEST_STREAM" | "t = F_REQUEST_CHANNEL"
      using assms(1,2) r t by (auto simp: parse_frame_def as_frame_Inr split: if_splits)
    then show ?thesis
      by cases (use assms(1) r in \<open>auto simp: parse_frame_def as_frame_Inr dispatchFrame_def lift_frame_def\<close>)
  qed
  then show ?thesis using assms(3) s r t by (auto simp: handleFrame_def Let_def)
qed

lemma receive_fragment:
  assumes "parse_frame chain_api concat [body] = Inr (Payload_Frame pf)" and "serving c" and "pf_streamId pf \<notin> set (cn_streams c)"
    and "cn_partialRequestFrames c (pf_streamId pf) = Some r"
  shows "handleFrame cfg body c = (None, handlePartialPayload cfg (pf_streamId pf) r pf (notify OnBeforeHandleFrame c))"
proof -
  have s: "cn_setupFrameReceived (notify OnBeforeHandleFrame c)" "cn_streams (notify OnBeforeHandleFrame c) = cn_streams c"
    "cn_partialRequestFrames (notify OnBeforeHandleFrame c) = cn_partialRequestFrames c" using assms(2) by (simp_all add: notify_def)
  obtain sid t fl cur where r: "read_common chain_api [body] = Inr ((sid, t, fl), cur)"
    using assms(1) by (auto simp: parse_frame_def split: sum.splits)
  then obtain cur' where t: "t = F_PAYLOAD" and p: "pf_parse_rest chain_api concat sid fl cur = Inr (pf, cur')"
    using assms(1) by (auto simp: parse_frame_def as_frame_Inr split: if_splits)
  have sid: "pf_streamId pf = sid" using p by (auto simp: pf_parse_rest_def elim!: sbind_eq_InrD)
  show ?thesis using assms s r t p
    by (auto simp: handleFrame_def dispatchFrame_def handleUntrackedFrame_def lift_frame_def sid Let_def split: if_splits)
qed

definition accepted :: "frame \<Rightarrow> conn \<Rightarrow> conn" where
  "accepted f c = notify (HandleRequest f) (c\<lparr>cn_inflightRequests := cn_inflightRequests c + 1,
     cn_streams := (if opens_stream f then cn_streams c @ [frame_streamId f] else cn_streams c)\<rparr>)"

lemma onFullFrame_accepted: "is_request_frame f \<Longrightarrow> acceptable f c \<Longrightarrow> onFullFrame cfg f c = accepted f c"
  by (cases f) (simp_all add: onFullFrame_def accepted_def incInflightRequests_def createClientCallback_def)

section \<open>The fragments of a request\<close>

definition trailed :: "nat \<Rightarrow> conn \<Rightarrow> conn" where
  "trailed n c = c\<lparr>cn_trace := cn_trace c @ replicate n OnBeforeHandleFrame\<rparr>"

lemma trailed_Suc: "trailed n (notify OnBeforeHandleFrame c) = trailed (Suc n) c"
  by (simp add: trailed_def notify_def)

lemma last_fragment:
  assumes "is_request_frame f" and "acceptable f c" and "\<not> flags_get FOLLOWS (pf_flags pf)" and "m sid = None"
  shows "handlePartialPayload cfg sid (reframed fl p f) pf (c\<lparr>cn_partialRequestFrames := m(sid \<mapsto> r)\<rparr>) =
    accepted (reframed fl (payload_append p (pf_payload pf)) f) (c\<lparr>cn_partialRequestFrames := m\<rparr>)"
proof -
  have "acceptable f (c\<lparr>cn_partialRequestFrames := m'\<rparr>)" for m' using assms(2) by (cases f) simp_all
  then show ?thesis using assms
    by (simp add: handlePartialPayload_def Let_def onFullFrame_accepted)
      (simp add: accepted_def notify_def fun_upd_idem)
qed

lemma receive_fragments:
  assumes "list_all2 (\<lambda>body pf. parse_frame chain_api concat [body] = Inr (Payload_Frame pf)) bodies (map received_payload (labelled sid flags complete ps))"
    and "ps \<noteq> []" and "serving c" and "is_request_frame f" and "acceptable f c" and "frame_streamId f = sid" and "sid \<notin> set (cn_streams c)"
    and "cn_partialRequestFrames c = m(sid \<mapsto> reframed fl p f)" and "m sid = None"
  shows "frames_handled cfg bodies c = Some (accepted (reframed fl (joined p ps) f) (trailed (length bodies) (c\<lparr>cn_partialRequestFrames := m\<rparr>)))"
  using assms
proof (induction ps arbitrary: bodies flags p c)
  case (Cons q qs)
  let ?pf = "received_payload \<lparr>pf_streamId = sid, pf_flags = fragment_flags flags complete (qs \<noteq> []), pf_payload = q\<rparr>"
  obtain b bs where bs: "bodies = b # bs" and b: "parse_frame chain_api concat [b] = Inr (Payload_Frame ?pf)"
    and rest: "list_all2 (\<lambda>body pf. parse_frame chain_api concat [body] = Inr (Payload_Frame pf)) bs
      (map received_payload (labelled sid (fragment_flags flags complete (qs \<noteq> [])) complete qs))"
    using Cons.prems(1) by (auto simp: Let_def list_all2_Cons2)
  let ?n = "notify OnBeforeHandleFrame c"
  have one: "handleFrame cfg b c = (None, handlePartialPayload cfg sid (reframed fl p f) ?pf ?n)"
    using receive_fragment [OF b Cons.prems(3)] Cons.prems(7,8) by simp
  have acc: "acceptable f (d\<lparr>cn_partialRequestFrames := m'\<rparr>)" "acceptable f (notify ev d)" if "acceptable f d" for d m' ev
    using that by (cases f; simp add: notify_def)+
  show ?case
  proof (cases "qs = []")
    case True
    have "?n\<lparr>cn_partialRequestFrames := m(sid \<mapsto> reframed fl p f)\<rparr> = ?n" unfolding Cons.prems(8) [symmetric] by (simp add: notify_def)
    then have "handlePartialPayload cfg sid (reframed fl p f) ?pf ?n = accepted (reframed fl (payload_append p q) f) (?n\<lparr>cn_partialRequestFrames := m\<rparr>)"
      using last_fragment [of f ?n ?pf m sid cfg fl p "reframed fl p f"] Cons.prems(4,9) acc(2) [OF Cons.prems(5)] True by simp
    moreover have "?n\<lparr>cn_partialRequestFrames := m\<rparr> = trailed 1 (c\<lparr>cn_partialRequestFrames := m\<rparr>)" by (simp add: trailed_def notify_def)
    ultimately show ?thesis using True rest one by (simp add: bs)
  next
    case False
    define c1 where "c1 = ?n\<lparr>cn_partialRequestFrames := m(sid \<mapsto> reframed fl (payload_append p q) f)\<rparr>"
    have step: "handleFrame cfg b c = (None, c1)"
      using one False Cons.prems(8) by (simp add: handlePartialPayload_def c1_def notify_def Let_def del: fun_upd_apply)
    have "frames_handled cfg bs c1 = Some (accepted (reframed fl (joined (payload_append p q) qs) f) (trailed (length bs) (c1\<lparr>cn_partialRequestFrames := m\<rparr>)))"
    proof (rule Cons.IH [OF _ False])
      show "list_all2 (\<lambda>body pf. parse_frame chain_api concat [body] = Inr (Payload_Frame pf)) bs
        (map received_payload (labelled sid (fragment_flags flags complete True) complete qs))" using rest False by simp
      show "serving c1" "sid \<notin> set (cn_streams c1)" "cn_partialRequestFrames c1 = m(sid \<mapsto> reframed fl (payload_append p q) f)"
        using Cons.prems(3,7) by (simp_all add: c1_def notify_def)
      show "acceptable f c1" unfolding c1_def by (intro acc Cons.prems(5))
    qed (fact Cons.prems)+
    moreover have "c1\<lparr>cn_partialRequestFrames := m\<rparr> = notify OnBeforeHandleFrame (c\<lparr>cn_partialRequestFrames := m\<rparr>)"
      by (simp add: c1_def notify_def)
    ultimately show ?thesis by (simp add: bs step trailed_Suc)
  qed
qed simp

fun request_flags :: "frame \<Rightarrow> u16" where
  "request_flags (RequestResponse_Frame f) = rr_flags f"
| "request_flags (RequestFnf_Frame f) = rf_flags f"
| "request_flags (RequestStream_Frame f) = rs_flags f"
| "request_flags (RequestChannel_Frame f) = rc_flags f"
| "request_flags _ = 0"

fun request_single :: "frame \<Rightarrow> bytes" where
  "request_single (RequestResponse_Frame f) = rr_serializeIntoSingleFrame f"
| "request_single (RequestFnf_Frame f) = rf_serializeIntoSingleFrame f"
| "request_single (RequestStream_Frame f) = rs_serializeIntoSingleFrame f"
| "request_single (RequestChannel_Frame f) = rc_serializeIntoSingleFrame f"
| "request_single _ = []"

fun continuation_flags :: "frame \<Rightarrow> u16" where
  "continuation_flags (RequestChannel_Frame f) = flags_set COMPLETE (flags_get COMPLETE (rc_flags f)) (flags_set NEXT True 0)"
| "continuation_flags _ = flags_set NEXT True 0"

lemma request_serialize_eq:
  assumes "is_request_frame f"
  shows "request_serialize K f = (if p_metadataAndDataSize (request_payload f) > K
    then serializeInFragmentsSlowCommon K (\<lambda>p follows. request_single (reframed (flags_set FOLLOWS follows (request_flags f)) p f))
      (frame_streamId f) (continuation_flags f) (request_payload f)
    else [request_single f])"
proof -
  have upd: "\<And>f. f\<lparr>rr_payload := p, rr_flags := fl\<rparr> = f\<lparr>rr_flags := fl, rr_payload := p\<rparr>"
    "\<And>f. f\<lparr>rf_payload := p, rf_flags := fl\<rparr> = f\<lparr>rf_flags := fl, rf_payload := p\<rparr>"
    "\<And>f. f\<lparr>rs_payload := p, rs_flags := fl\<rparr> = f\<lparr>rs_flags := fl, rs_payload := p\<rparr>"
    "\<And>f. f\<lparr>rc_payload := p, rc_flags := fl\<rparr> = f\<lparr>rc_flags := fl, rc_payload := p\<rparr>" for p fl by simp_all
  show ?thesis
    using assms
    by (cases f) (simp_all add: rr_serialize_def rr_serializeInFragmentsSlow_def rf_serialize_def rf_serializeInFragmentsSlow_def
        rs_serialize_def rs_serializeInFragmentsSlow_def rc_serialize_def rc_serializeInFragmentsSlow_def upd)
qed

lemma request_delivered:
  assumes "is_request_frame f" and "payload_ok (request_payload f)" and "length (p_buffer (request_payload f)) + 13 < 2 ^ 24"
  obtains fl where "on_wire chain_api concat (request_single f) (reframed fl (request_payload f) f)"
    and "flags_get FOLLOWS fl \<longleftrightarrow> frame_hasFollows f"
proof -
  have len: "length (request_single f) < 2 ^ 24 + 3"
    using assms length_writePayload [OF assms(2)]
    by (cases f) (simp_all add: rr_serializeIntoSingleFrame_def rf_serializeIntoSingleFrame_def rs_serializeIntoSingleFrame_def
        rc_serializeIntoSingleFrame_def Let_def serializedSize_def payload_ok_def)
  have "\<exists>fl. delivers chain_api concat (request_single f) (reframed fl (request_payload f) f) \<and> (flags_get FOLLOWS fl \<longleftrightarrow> frame_hasFollows f)"
    using assms(1,2) chain_cursor.delivers_rr chain_cursor.delivers_rf chain_cursor.delivers_rs chain_cursor.delivers_rc
    by (cases f) (fastforce simp: wire_flags_get)+
  then show thesis using that len by (auto simp: on_wire_def)
qed

text \<open>The wire form of a request: a first frame of its kind, and payload frames for the rest of a large payload.\<close>

lemma request_wires:
  assumes "0 < K" and "K + 13 < 2 ^ 24" and "is_request_frame f" and "payload_consistent (request_payload f)" and "\<not> frame_hasFollows f"
  obtains w fl p ps flags complete where "request_serialize K f = w # map pf_serializeIntoSingleFrame (labelled (frame_streamId f) flags complete ps)"
    and "on_wire chain_api concat w (reframed fl p f)" and "flags_get FOLLOWS fl \<longleftrightarrow> ps \<noteq> []" and "list_all (chunk_ok K) ps" and "joined p ps = request_payload f"
proof -
  note ser = request_serialize_eq [OF assms(3), of K]
  have rp: "request_payload (reframed fl p f) = p" "reframed fl q (reframed fl' p f) = reframed fl q f" for fl fl' p q using assms(3) by (cases f; simp)+
  show thesis
  proof (cases "p_metadataAndDataSize (request_payload f) > K")
    case True
    obtain q qs where qs: "qs \<noteq> []" and ok: "chunk_ok K q" "list_all (chunk_ok K) qs" and p: "joined q qs = request_payload f"
      and common: "\<And>first sid flags. serializeInFragmentsSlowCommon K first sid flags (request_payload f) = first q True #
          map pf_serializeIntoSingleFrame (labelled sid flags (flags_get COMPLETE flags) qs)"
      using fragments_common [OF assms(1) True assms(4)] by metis
    let ?f = "reframed (flags_set FOLLOWS True (request_flags f)) q f"
    have "payload_ok q" "length (p_buffer q) + 13 < 2 ^ 24" using ok(1) assms(2) by (simp_all add: chunk_ok_def payload_ok_def)
    then obtain fl where "on_wire chain_api concat (request_single ?f) (reframed fl q f)" "flags_get FOLLOWS fl"
      using request_delivered [of ?f] assms(3) rp by auto
    then show thesis using that [OF _ _ _ ok(2) p] qs True ser common by simp
  next
    case False
    then have "payload_ok (request_payload f)" "length (p_buffer (request_payload f)) + 13 < 2 ^ 24"
      using assms(2,4) by (simp_all add: payload_consistent_def payload_ok_def)
    then obtain fl where "on_wire chain_api concat (request_single f) (reframed fl (request_payload f) f)" "\<not> flags_get FOLLOWS fl"
      using request_delivered [OF assms(3)] assms(5) by blast
    then show thesis using that [where ps = "[]"] ser False by simp
  qed
qed

lemma framed_payloads:
  assumes "list_all2 (\<lambda>bs pf. on_wire chain_api concat bs (Payload_Frame pf)) ws pfs"
  obtains bodies where "ws = map framed bodies" and "\<forall>b\<in>set bodies. length b < 2 ^ 24"
    and "list_all2 (\<lambda>body pf. parse_frame chain_api concat [body] = Inr (Payload_Frame pf)) bodies pfs"
proof -
  have "\<exists>bodies. ws = map framed bodies \<and> (\<forall>b\<in>set bodies. length b < 2 ^ 24) \<and>
      list_all2 (\<lambda>body pf. parse_frame chain_api concat [body] = Inr (Payload_Frame pf)) bodies pfs"
    using assms
  proof (induction rule: list_all2_induct)
    case (Cons w ws pf pfs)
    then obtain bodies where "ws = map framed bodies" "\<forall>b\<in>set bodies. length b < 2 ^ 24"
      "list_all2 (\<lambda>body pf. parse_frame chain_api concat [body] = Inr (Payload_Frame pf)) bodies pfs" by blast
    moreover obtain body where "w = framed body" "length body < 2 ^ 24" "parse_frame chain_api concat [body] = Inr (Payload_Frame pf)"
      using on_wire_framed [OF Cons.hyps(1)] by force
    ultimately show ?case by (intro exI [of _ "body # bodies"]) simp
  qed simp
  then show thesis using that by blast
qed

text \<open>
  The connection keeps the first parts and, with the last frame, hands the handler the request with its whole payload (and the flags
  of its first frame), counts it once, opens its stream if it has one, and forgets the parts.
\<close>

lemma request_reassembly:
  assumes "0 < K" and "K + 13 < 2 ^ 24" and "is_request_frame f" and "payload_consistent (request_payload f)" and "\<not> frame_hasFollows f"
    and "serving c" and "acceptable f c" and "frame_streamId f \<notin> set (cn_streams c)" and "cn_partialRequestFrames c (frame_streamId f) = None"
  shows "\<exists>bodies fl. request_serialize K f = map framed bodies \<and> (\<forall>b\<in>set bodies. length b < 2 ^ 24) \<and>
    frames_handled cfg bodies c = Some (accepted (reframed fl (request_payload f) f) (trailed (length bodies) c))"
proof -
  obtain w fl p ps flags complete where ws: "request_serialize K f = w # map pf_serializeIntoSingleFrame (labelled (frame_streamId f) flags complete ps)"
    and w: "on_wire chain_api concat w (reframed fl p f)" and fl: "flags_get FOLLOWS fl \<longleftrightarrow> ps \<noteq> []" and ok: "list_all (chunk_ok K) ps"
    and p: "joined p ps = request_payload f" by (rule request_wires [OF assms(1-5)])
  obtain body where b: "w = framed body" "length body < 2 ^ 24" "parse_frame chain_api concat [body] = Inr (reframed fl p f)"
    using on_wire_framed [OF w] by force
  obtain bodies where bs: "map pf_serializeIntoSingleFrame (labelled (frame_streamId f) flags complete ps) = map framed bodies" "\<forall>b\<in>set bodies. length b < 2 ^ 24"
    "list_all2 (\<lambda>body pf. parse_frame chain_api concat [body] = Inr (Payload_Frame pf)) bodies (map received_payload (labelled (frame_streamId f) flags complete ps))"
    by (rule framed_payloads [OF chain_cursor.labelled_on_wire [OF ok]]) (use assms(2) in simp)
  let ?n = "notify OnBeforeHandleFrame c" and ?g = "reframed fl p f"
  have first: "handleFrame cfg body c = (None, handleRequestFrame cfg ?g ?n)" using receive_request [OF b(3) _ assms(6)] assms(3) by simp
  have acc: "acceptable f (c\<lparr>cn_trace := t, cn_partialRequestFrames := m\<rparr>)" "acceptable f (c\<lparr>cn_trace := t\<rparr>)" for t m using assms(7) by (cases f; simp)+
  have "frames_handled cfg (body # bodies) c = Some (accepted (reframed fl (request_payload f) f) (trailed (length (body # bodies)) c))"
  proof (cases "ps = []")
    case True
    then have "bodies = []" using bs(3) by simp
    moreover have "handleRequestFrame cfg ?g ?n = accepted ?g (trailed 1 c)"
      using fl True assms(3) acc(2) by (simp add: handleRequestFrame_def onFullFrame_accepted notify_def trailed_def)
    ultimately show ?thesis using first True p by simp
  next
    case False
    define c1 where "c1 = ?n\<lparr>cn_partialRequestFrames := (cn_partialRequestFrames c)(frame_streamId f \<mapsto> ?g)\<rparr>"
    have "handleFrame cfg body c = (None, c1)"
      using first fl False assms(3,9) by (simp add: handleRequestFrame_def c1_def notify_def)
    moreover have "frames_handled cfg bodies c1 = Some (accepted (reframed fl (joined p ps) f) (trailed (length bodies) (c1\<lparr>cn_partialRequestFrames := cn_partialRequestFrames c\<rparr>)))"
    proof (rule receive_fragments [OF bs(3) False])
      show "serving c1" "frame_streamId f \<notin> set (cn_streams c1)" using assms(6,8) by (simp_all add: c1_def notify_def)
      show "cn_partialRequestFrames c1 = (cn_partialRequestFrames c)(frame_streamId f \<mapsto> ?g)" by (simp add: c1_def)
      show "acceptable f c1" using acc(1) by (simp add: c1_def notify_def)
    qed (use assms(3,9) in simp_all)
    moreover have "c1\<lparr>cn_partialRequestFrames := cn_partialRequestFrames c\<rparr> = notify OnBeforeHandleFrame c" by (simp add: c1_def notify_def)
    ultimately show ?thesis using p by (simp add: trailed_Suc)
  qed
  then show ?thesis using ws b(1,2) bs(1,2) by (intro exI [of _ "body # bodies"] exI [of _ fl]) simp
qed

end
