(* ===== verification/Rocket_Writes.thy ===== *)
theory Rocket_Writes
  imports Rocket_Steps "HOL-Library.Sublist"
begin

text \<open>
  Writing: what the connection buffers, hands to the socket and completes.  Bytes are neither lost
  nor reordered, file descriptors stay with the bytes they belong to, and every completed request is reported once.
\<close>

section \<open>The write batcher\<close>

text \<open>
  The offsets at which file descriptors are due increase within the buffered bytes, and a callback is
  scheduled iff there are buffered writes.
\<close>

fun offsets_ok :: "nat \<Rightarrow> (nat \<times> nat) list \<Rightarrow> nat \<Rightarrow> bool" where
  "offsets_ok p [] n = (p \<le> n)"
| "offsets_ok p ((k, off) # fds) n = (p < off \<and> offsets_ok off fds n)"

definition buffered :: "write_batcher \<Rightarrow> bytes" where
  "buffered b = (case wb_bufferedWrites b of None \<Rightarrow> [] | Some w \<Rightarrow> w)"

definition wb_ok :: "write_batcher \<Rightarrow> bool" where
  "wb_ok b \<longleftrightarrow> (wb_empty b \<longleftrightarrow> \<not> wb_timeout b \<and> \<not> wb_loopCallback b) \<and> \<not> (wb_timeout b \<and> wb_loopCallback b) \<and>
     (wb_empty b \<longrightarrow> wb_fdsAndOffsets b = [] \<and> wb_context b = wc_empty) \<and>
     offsets_ok 0 (wb_fdsAndOffsets b) (length (buffered b))"

lemma offsets_ok_mono: "offsets_ok p fds n \<Longrightarrow> n \<le> m \<Longrightarrow> offsets_ok p fds m"
  by (induction p fds n rule: offsets_ok.induct) auto

lemma offsets_ok_snoc: "offsets_ok p fds n \<Longrightarrow> n < m \<Longrightarrow> offsets_ok p (fds @ [(k, m)]) m"
  by (induction p fds n rule: offsets_ok.induct) auto

lemma offsets_ok_le: "offsets_ok p fds n \<Longrightarrow> p \<le> n"
  by (induction p fds n rule: offsets_ok.induct) auto

lemma enqueueWrite_ok:
  assumes "wb_ok b" and "fds \<noteq> None \<Longrightarrow> data \<noteq> []"
  shows "wb_ok (wb_enqueueWrite cfg data cb fds b)"
proof -
  define b' where "b' = wb_enqueueWrite cfg data cb fds b"
  have buf: "wb_bufferedWrites b' = Some (buffered b @ data)"
    by (simp add: b'_def wb_enqueueWrite_def Let_def buffered_def split: option.split)
  have fds: "wb_fdsAndOffsets b' = wb_fdsAndOffsets b @ (case fds of None \<Rightarrow> [] | Some k \<Rightarrow> [(k, length (buffered b @ data))])"
    by (simp add: b'_def wb_enqueueWrite_def Let_def buffered_def split: option.split)
  have "offsets_ok 0 (wb_fdsAndOffsets b') (length (buffered b @ data))"
  proof (cases fds)
    case None
    then show ?thesis using assms(1) offsets_ok_mono [of 0 "wb_fdsAndOffsets b" "length (buffered b)"] by (simp add: fds wb_ok_def)
  next
    case (Some k)
    then show ?thesis using assms offsets_ok_snoc [of 0 "wb_fdsAndOffsets b" "length (buffered b)" "length (buffered b @ data)"]
      by (simp add: fds wb_ok_def)
  qed
  moreover have "(wb_timeout b' \<or> wb_loopCallback b') \<and> \<not> (wb_timeout b' \<and> wb_loopCallback b')"
    using assms(1) by (auto simp: b'_def wb_enqueueWrite_def Let_def wb_ok_def wb_empty_def split: option.splits if_splits)
  ultimately show ?thesis using buf by (auto simp: b'_def [symmetric] wb_ok_def wb_empty_def buffered_def)
qed

section \<open>What has been written\<close>

fun event_bytes :: "event \<Rightarrow> bytes" where
  "event_bytes (WriteChain data fds) = data"
| "event_bytes _ = []"

definition written :: "conn \<Rightarrow> bytes" where
  "written c = concat (map event_bytes (cn_trace c)) @ buffered (cn_writeBatcher c)"

definition occurs :: "(event \<Rightarrow> bool) \<Rightarrow> conn \<Rightarrow> nat" where
  "occurs P c = length (filter P (cn_trace c))"

lemma occurs_notify [simp]: "occurs P (notify ev c) = occurs P c + (if P ev then 1 else 0)"
  by (simp add: occurs_def notify_def)

text \<open>The requests that were completed: those the handler was told of and those whose writes are outstanding.\<close>

definition completed :: "conn \<Rightarrow> nat" where
  "completed c = occurs ((=) HandlerRequestComplete) c + wc_requestCompleteCount (wb_context (cn_writeBatcher c)) +
     sum_list (map wc_requestCompleteCount (cn_inflightWritesQueue c))"

fun is_stream_close :: "event \<Rightarrow> bool" where
  "is_stream_close (StreamConnectionClose s) = True"
| "is_stream_close _ = False"

section \<open>Flushing\<close>

text \<open>Where, in the bytes of a sequence of writes that starts at offset p, the writes with file descriptors end.\<close>

fun fds_ends :: "nat \<Rightarrow> event list \<Rightarrow> (nat \<times> nat) list" where
  "fds_ends p [] = []"
| "fds_ends p (WriteChain data (Some k) # evs) = (k, p + length data) # fds_ends (p + length data) evs"
| "fds_ends p (ev # evs) = fds_ends (p + length (event_bytes ev)) evs"

fun is_write :: "event \<Rightarrow> bool" where
  "is_write (WriteChain data fds) = True"
| "is_write _ = False"

text \<open>A flush, as a list of writes: nothing is lost, and each set of descriptors goes with the bytes that end at its offset.\<close>

definition flushes :: "nat \<Rightarrow> (nat \<times> nat) list \<Rightarrow> bytes \<Rightarrow> write_context \<Rightarrow> conn \<Rightarrow> conn \<Rightarrow> bool" where
  "flushes p fds w ctx c d \<longleftrightarrow> (\<exists>evs. cn_trace d = cn_trace c @ evs \<and> evs \<noteq> [] \<and> list_all is_write evs \<and>
     concat (map event_bytes evs) = w \<and> fds_ends p evs = fds \<and>
     cn_inflightWritesQueue d = cn_inflightWritesQueue c @ replicate (length evs - 1) wc_empty @ [ctx] \<and>
     d\<lparr>cn_trace := [], cn_inflightWritesQueue := []\<rparr> = c\<lparr>cn_trace := [], cn_inflightWritesQueue := []\<rparr>)"

lemma flushWrites_flushes: "flushes p [] w ctx c (flushWrites w ctx c)"
  unfolding flushes_def by (rule exI [of _ "[WriteChain w None]"]) (simp add: flushWrites_def notify_def)

lemma flushWithFds_flushes:
  "offsets_ok p fds (p + length w) \<Longrightarrow> fds \<noteq> [] \<or> w \<noteq> [] \<Longrightarrow> flushes p fds w ctx c (flushWritesWithFds p fds w ctx c)"
proof (induction p fds w ctx c rule: flushWritesWithFds.induct)
  case (1 p w ctx c)
  then show ?case using flushWrites_flushes by simp
next
  case (2 p k off rest w ctx c)
  let ?n = "off - p"
  have off: "p < off" "offsets_ok off rest (p + length w)" "off \<le> p + length w" using "2.prems"(1) offsets_ok_le by auto
  show ?case
  proof (cases "drop ?n w = []")
    case True
    then have "length w = ?n" using off by simp
    moreover from this have "rest = []" using off offsets_ok_le [of _ _ off] by (cases rest) fastforce+
    ultimately show ?thesis using off unfolding flushes_def
      by (intro exI [of _ "[WriteChain w (Some k)]"]) (simp add: notify_def)
  next
    case False
    let ?c = "notify (WriteChain (take ?n w) (Some k)) (c\<lparr>cn_inflightWritesQueue := cn_inflightWritesQueue c @ [wc_empty]\<rparr>)"
    have "flushes off rest (drop ?n w) ctx ?c (flushWritesWithFds off rest (drop ?n w) ctx ?c)"
      using "2.IH" [OF _ refl refl refl False] off False by (simp add: add.commute)
    then obtain evs where evs: "cn_trace (flushWritesWithFds off rest (drop ?n w) ctx ?c) = cn_trace ?c @ evs" "evs \<noteq> []" "list_all is_write evs"
      "concat (map event_bytes evs) = drop ?n w" "fds_ends off evs = rest"
      "cn_inflightWritesQueue (flushWritesWithFds off rest (drop ?n w) ctx ?c) = cn_inflightWritesQueue ?c @ replicate (length evs - 1) wc_empty @ [ctx]"
      "(flushWritesWithFds off rest (drop ?n w) ctx ?c)\<lparr>cn_trace := [], cn_inflightWritesQueue := []\<rparr> = ?c\<lparr>cn_trace := [], cn_inflightWritesQueue := []\<rparr>"
      unfolding flushes_def by blast
    have "p + length (take ?n w) = off" using off by simp
    moreover have "wc_empty # replicate (length evs - 1) wc_empty = replicate (length evs) wc_empty"
      using evs(2) by (cases evs) simp_all
    ultimately show ?thesis using off False evs unfolding flushes_def
      by (intro exI [of _ "WriteChain (take ?n w) (Some k) # evs"]) (simp add: notify_def Let_def)
  qed
qed

abbreviation flushed :: "write_batcher \<Rightarrow> write_batcher" where
  "flushed b \<equiv> b\<lparr>wb_bufferedWritesCount := 0, wb_totalBytesBuffered := 0, wb_earlyFlushRequested := False,
     wb_bufferedWrites := None, wb_context := wc_empty, wb_fdsAndOffsets := []\<rparr>"

definition same_pending :: "write_batcher \<Rightarrow> write_batcher \<Rightarrow> bool" where
  "same_pending b b' \<longleftrightarrow> wb_fdsAndOffsets b = wb_fdsAndOffsets b' \<and> wb_bufferedWrites b = wb_bufferedWrites b' \<and> wb_context b = wb_context b'"

lemma flushPendingWrites_flushes:
  assumes "wb_ok (cn_writeBatcher c)" and "\<not> wb_empty (cn_writeBatcher c)" and "same_pending b (cn_writeBatcher c)"
  shows "flushes 0 (wb_fdsAndOffsets (cn_writeBatcher c)) (buffered (cn_writeBatcher c)) (wb_context (cn_writeBatcher c))
    (c\<lparr>cn_writeBatcher := flushed b\<rparr>) (flushPendingWrites (c\<lparr>cn_writeBatcher := b\<rparr>))"
proof -
  have w: "the (wb_bufferedWrites (cn_writeBatcher c)) = buffered (cn_writeBatcher c)"
    using assms(2) by (auto simp: wb_empty_def buffered_def)
  have "offsets_ok 0 (wb_fdsAndOffsets b) (0 + length (buffered (cn_writeBatcher c)))"
    using assms(1,3) by (simp add: wb_ok_def same_pending_def)
  then show ?thesis
    using flushWrites_flushes flushWithFds_flushes assms(3) by (simp add: flushPendingWrites_def Let_def w same_pending_def)
qed

section \<open>Nothing is lost\<close>

text \<open>The relation between a state and one that operations lead to; \<open>R\<close> compares the numbers of completed requests.\<close>

definition writes :: "(nat \<Rightarrow> nat \<Rightarrow> bool) \<Rightarrow> conn \<Rightarrow> conn \<Rightarrow> bool" where
  "writes R c d \<longleftrightarrow> (wb_ok (cn_writeBatcher c) \<longrightarrow> wb_ok (cn_writeBatcher d) \<and> prefix (written c) (written d) \<and>
     (CheckFailed \<in> set (cn_trace d) \<longrightarrow> CheckFailed \<in> set (cn_trace c)) \<and>
     R (completed c + occurs is_stream_close d) (completed d + occurs is_stream_close c))"

lemma is_write_quiet:
  assumes "list_all is_write evs"
  shows "filter ((=) HandlerRequestComplete) evs = []" and "filter is_stream_close evs = []" and "CheckFailed \<notin> set evs"
  using assms by (induction evs) (auto elim: is_write.elims)

lemma flushes_writes:
  assumes f: "flushes p fds (buffered (cn_writeBatcher c)) (wb_context (cn_writeBatcher c)) (c\<lparr>cn_writeBatcher := flushed b\<rparr>) d"
    and "\<not> wb_timeout b" and "\<not> wb_loopCallback b" and "reflp R"
  shows "writes R c d"
proof -
  obtain evs where evs: "cn_trace d = cn_trace c @ evs" "list_all is_write evs" "concat (map event_bytes evs) = buffered (cn_writeBatcher c)"
    "cn_inflightWritesQueue d = cn_inflightWritesQueue c @ replicate (length evs - 1) wc_empty @ [wb_context (cn_writeBatcher c)]"
    "d\<lparr>cn_trace := [], cn_inflightWritesQueue := []\<rparr> = c\<lparr>cn_writeBatcher := flushed b\<rparr>\<lparr>cn_trace := [], cn_inflightWritesQueue := []\<rparr>"
    using f unfolding flushes_def by auto
  have b: "cn_writeBatcher d = flushed b" using arg_cong [OF evs(5), of cn_writeBatcher] by simp
  have "wb_ok (flushed b)" using assms(2,3) by (simp add: wb_ok_def wb_empty_def buffered_def)
  moreover have "written d = written c" by (simp add: written_def evs(1,3) b buffered_def)
  moreover have "completed d = completed c" "occurs is_stream_close d = occurs is_stream_close c"
    by (simp_all add: completed_def occurs_def evs(1,4) b is_write_quiet [OF evs(2)] wc_empty_def sum_list_replicate)
  ultimately show ?thesis using is_write_quiet(3) [OF evs(2)] assms(4) by (simp add: writes_def b evs(1) reflpD)
qed

lemma writes_flush:
  assumes "same_pending b (cn_writeBatcher c)" and "reflp R"
    and "wb_ok (cn_writeBatcher c) \<Longrightarrow> \<not> wb_empty (cn_writeBatcher c) \<and> \<not> wb_timeout b \<and> \<not> wb_loopCallback b"
  shows "writes R c (flushPendingWrites (c\<lparr>cn_writeBatcher := b\<rparr>))"
proof (cases "wb_ok (cn_writeBatcher c)")
  case True
  then show ?thesis using flushes_writes [OF flushPendingWrites_flushes [OF True _ assms(1)]] assms(2,3) by blast
qed (simp add: writes_def)

lemma writes_refl: "reflp R \<Longrightarrow> writes R c c"
  by (simp add: writes_def reflpD)

lemma writes_batcher:
  assumes "reflp R"
  shows "wb_loopCallback (cn_writeBatcher c) \<Longrightarrow> writes R c (wb_runLoopCallback c)"
    and "wb_timeout (cn_writeBatcher c) \<Longrightarrow> writes R c (wb_timeoutExpired c)" and "writes R c (wb_drain c)"
  using assms writes_refl [of R c]
  by (auto simp: wb_runLoopCallback_def wb_timeoutExpired_def wb_drain_def same_pending_def wb_ok_def intro!: writes_flush)

lemma written_send: "written (conn_send cfg data cb fds c) = written c @ data"
  by (simp add: written_def conn_send_def wb_enqueueWrite_def buffered_def notify_def Let_def split: option.split)

lemma writes_send:
  assumes "reflp R" and "fds \<noteq> None \<Longrightarrow> data \<noteq> []"
  shows "writes R c (conn_send cfg data cb fds c)"
proof -
  have "cn_writeBatcher (conn_send cfg data cb fds c) = wb_enqueueWrite cfg data cb fds (cn_writeBatcher c)"
    by (simp add: conn_send_def notify_def split: option.split)
  moreover have "wb_ok (wb_enqueueWrite cfg data cb fds (cn_writeBatcher c))" if "wb_ok (cn_writeBatcher c)"
    using enqueueWrite_ok [OF that] assms(2) by blast
  moreover have "wc_requestCompleteCount (wb_context (wb_enqueueWrite cfg data cb fds b)) = wc_requestCompleteCount (wb_context b)" for b
    by (simp add: wb_enqueueWrite_def Let_def split: option.split)
  moreover have "cn_inflightWritesQueue (conn_send cfg data cb fds c) = cn_inflightWritesQueue c"
    "cn_trace (conn_send cfg data cb fds c) = cn_trace c @ (case cb of None \<Rightarrow> [] | Some k \<Rightarrow> [SendQueued k])"
    by (simp_all add: conn_send_def notify_def split: option.split)
  ultimately show ?thesis using assms(1)
    by (auto simp: writes_def written_send completed_def occurs_def reflpD split: option.split)
qed

lemma completed_requestComplete: "completed (requestComplete c) = completed c + 1"
proof -
  have "sum_list (map wc_requestCompleteCount (butlast q @ [last q\<lparr>wc_requestCompleteCount := wc_requestCompleteCount (last q) + 1\<rparr>])) =
      sum_list (map wc_requestCompleteCount q) + 1" if "q \<noteq> []" for q
    using that by (induction q) auto
  then show ?thesis by (auto simp: completed_def requestComplete_def wb_enqueueRequestComplete_def Let_def occurs_def notify_def)
qed

lemma requestComplete_fields: "written (requestComplete c) = written c" "occurs is_stream_close (requestComplete c) = occurs is_stream_close c"
  "CheckFailed \<in> set (cn_trace (requestComplete c)) \<longleftrightarrow> CheckFailed \<in> set (cn_trace c)" 
  "wb_ok (cn_writeBatcher c) \<Longrightarrow> wb_ok (cn_writeBatcher (requestComplete c))"
  by (simp_all add: requestComplete_def wb_enqueueRequestComplete_def written_def occurs_def notify_def Let_def buffered_def wb_ok_def wb_empty_def)

lemma completeRequests_trace: "completeRequests n c = c\<lparr>cn_trace := cn_trace c @ replicate n HandlerRequestComplete\<rparr>"
  by (induction n) (simp_all add: completeRequests_def notify_def replicate_append_same)

lemma fold_notify_trace: "fold (\<lambda>k. notify (ev k)) ks c = c\<lparr>cn_trace := cn_trace c @ map ev ks\<rparr>"
  by (induction ks arbitrary: c) (simp_all add: notify_def)

lemma plain_events:
  assumes "\<And>k. is_plain (ev k)"
  shows "filter ((=) HandlerRequestComplete) (map ev ks) = []" "filter is_stream_close (map ev ks) = []"
    "concat (map event_bytes (map ev ks)) = []" "CheckFailed \<notin> set (map ev ks)"
proof -
  have "ev k \<noteq> HandlerRequestComplete" "\<not> is_stream_close (ev k)" "event_bytes (ev k) = []" "ev k \<noteq> CheckFailed" for k
    using assms [of k] by (cases "ev k", simp_all)+
  then show "filter ((=) HandlerRequestComplete) (map ev ks) = []" "filter is_stream_close (map ev ks) = []"
    "concat (map event_bytes (map ev ks)) = []" "CheckFailed \<notin> set (map ev ks)" by (auto simp: filter_empty_conv) metis+
qed

lemma writes_settle:
  assumes "reflp R" and "cn_inflightWritesQueue c = ctx # rest" and "\<And>k. is_plain (ev k)"
  shows "writes R c (settle ev ctx rest c)"
proof -
  define evs where "evs = map ev (wc_sendCallbacks ctx)"
  have e: "filter ((=) HandlerRequestComplete) evs = []" "filter is_stream_close evs = []" "concat (map event_bytes evs) = []" "CheckFailed \<notin> set evs"
    using plain_events [of ev "wc_sendCallbacks ctx"] assms(3) unfolding evs_def by blast+
  have "settle ev ctx rest c = c\<lparr>cn_trace := cn_trace c @ replicate (wc_requestCompleteCount ctx) HandlerRequestComplete @ evs, cn_inflightWritesQueue := rest\<rparr>"
    by (simp add: settle_def completeRequests_trace fold_notify_trace evs_def)
  moreover have "concat (map event_bytes (replicate n HandlerRequestComplete)) = []" for n by (induction n) simp_all
  ultimately show ?thesis using assms(1,2) e
    by (simp add: writes_def completed_def occurs_def written_def reflpD add_ac del: concat_eq_Nil_conv)
qed

definition additive :: "(nat \<Rightarrow> nat \<Rightarrow> bool) \<Rightarrow> bool" where
  "additive R \<longleftrightarrow> reflp R \<and> (\<forall>a b c d e f. R (a + d) (b + e) \<longrightarrow> R (b + f) (c + d) \<longrightarrow> R (a + f) (c + e))"

lemma additive_eq: "additive (=)" and additive_le: "additive (\<le>)"
  by (auto simp: additive_def reflp_def)

lemma writes_trans: "additive R \<Longrightarrow> writes R c d \<Longrightarrow> writes R d e \<Longrightarrow> writes R c e"
  unfolding writes_def additive_def by (metis (no_types, lifting) prefix_order.trans)

lemma writes_trace:
  assumes "cn_writeBatcher d = cn_writeBatcher c" and "cn_inflightWritesQueue d = cn_inflightWritesQueue c" and "cn_trace d = cn_trace c @ evs"
    and "filter ((=) HandlerRequestComplete) evs = []" and "filter is_stream_close evs = []" and "concat (map event_bytes evs) = []" and "CheckFailed \<notin> set evs"
    and "reflp R"
  shows "writes R c d"
  using assms by (simp add: writes_def completed_def occurs_def written_def reflpD del: concat_eq_Nil_conv)

lemma writes_plain: "reflp R \<Longrightarrow> is_plain ev \<Longrightarrow> writes R c (notify ev c)"
  using plain_events [of "\<lambda>_::nat. ev" "[0]"] by (intro writes_trace [where evs = "[ev]"]) (simp_all add: notify_def)

lemma writes_stream_closed: "reflp R \<Longrightarrow> writes R c (requestComplete (notify (StreamConnectionClose s) c))"
proof -
  have "written (notify (StreamConnectionClose s) c) = written c" "completed (notify (StreamConnectionClose s) c) = completed c"
    "cn_writeBatcher (notify (StreamConnectionClose s) c) = cn_writeBatcher c" "set (cn_trace (notify (StreamConnectionClose s) c)) = insert (StreamConnectionClose s) (set (cn_trace c))"
    by (simp_all add: written_def completed_def notify_def occurs_def)
  then show "reflp R \<Longrightarrow> ?thesis" using requestComplete_fields(4) [of "notify (StreamConnectionClose s) c"]
    by (simp add: writes_def requestComplete_fields completed_requestComplete reflpD)
qed

lemma writes_closed: "additive R \<Longrightarrow> writes R (notify RemoveConnection (c\<lparr>cn_state := CLOSED\<rparr>)) d \<Longrightarrow> writes R c (notify Destroyed d)"
proof -
  assume R: "additive R" and d: "writes R (notify RemoveConnection (c\<lparr>cn_state := CLOSED\<rparr>)) d"
  have "reflp R" using R by (simp add: additive_def)
  then have "writes R c (notify RemoveConnection (c\<lparr>cn_state := CLOSED\<rparr>))" "writes R d (notify Destroyed d)"
    by (auto intro: writes_trace [where evs = "[RemoveConnection]"] writes_trace [where evs = "[Destroyed]"] simp: notify_def)
  then show ?thesis using writes_trans [OF R] d by blast
qed

lemma writes_preorder: "additive R \<Longrightarrow> conn_preorder cfg (writes R)"
proof
  assume R: "additive R"
  then have r: "reflp R" by (simp add: additive_def)
  have same: "writes R c d" if "cn_writeBatcher d = cn_writeBatcher c" "cn_inflightWritesQueue d = cn_inflightWritesQueue c" "cn_trace d = cn_trace c" for c d
    using that r by (intro writes_trace [where evs = "[]"]) simp_all
  show "writes R c e" if "writes R c d" "writes R d e" for c d e using writes_trans [OF R that] .
  show "writes R c d" if "core d = core c" for c d using that by (intro same) (simp_all add: core_def)
  show "writes R c (notify ev c)" if "is_plain ev" for ev c using writes_plain [OF r that] .
  show "writes R c (conn_send cfg data cb fds c)" if "fds \<noteq> None \<Longrightarrow> data \<noteq> []" for fds data c cb using writes_send [OF r] that by blast
  show "writes R c (wb_runLoopCallback c)" if "wb_loopCallback (cn_writeBatcher c)" for c using writes_batcher(1) [OF r that] .
  show "writes R c (wb_timeoutExpired c)" if "wb_timeout (cn_writeBatcher c)" for c using writes_batcher(2) [OF r that] .
  show "writes R c (wb_drain c)" for c using writes_batcher(3) [OF r] .
  show "writes R c (settle ev ctx rest c)" if "cn_inflightWritesQueue c = ctx # rest" "\<And>k. is_plain (ev k)" for c ctx rest ev
    using writes_settle [OF r that] .
  show "writes R c (requestComplete (notify (StreamConnectionClose s) c))" for c s using writes_stream_closed [OF r] .
  show "writes R c (notify Destroyed d)" if "writes R (notify RemoveConnection (c\<lparr>cn_state := CLOSED\<rparr>)) d" for c d
    using writes_closed [OF R that] .
qed (rule writes_trace [where evs = "[]"]; simp add: additive_def)+

lemma writes_ingress: "additive R \<Longrightarrow> writes R c (c\<lparr>cn_ingress := m\<rparr>)"
  by (rule writes_trace [where evs = "[]"]) (simp_all add: additive_def)

interpretation exact: metered_preorder cfg "writes (=)" for cfg
  by (intro metered_preorder.intro metered_preorder_axioms.intro writes_preorder writes_ingress additive_eq)

lemma writes_le_frames:
  "writes (\<le>) c (requestComplete c)" "is_request ev \<Longrightarrow> writes (\<le>) c (notify ev c)" "writes (\<le>) c (notify (HandleSetupFrame f) c)"
  "writes (\<le>) c (c\<lparr>cn_setupFrameReceived := b, cn_decodeMetadataUsingBinary := dec\<rparr>)"
proof -
  show "writes (\<le>) c (requestComplete c)" by (simp add: writes_def requestComplete_fields completed_requestComplete)
  show "writes (\<le>) c (notify ev c)" if "is_request ev"
    using that by (intro writes_trace [where evs = "[ev]"]; cases ev) (simp_all add: notify_def additive_le [unfolded additive_def])
  show "writes (\<le>) c (notify (HandleSetupFrame f) c)" "writes (\<le>) c (c\<lparr>cn_setupFrameReceived := b, cn_decodeMetadataUsingBinary := dec\<rparr>)"
    by (auto intro: writes_trace [where evs = "[HandleSetupFrame f]"] writes_trace [where evs = "[]"] simp: notify_def additive_le [unfolded additive_def])
qed

interpretation atleast: step_preorder cfg "writes (\<le>)" for cfg
  by (intro step_preorder.intro metered_preorder.intro metered_preorder_axioms.intro frame_preorder.intro request_preorder.intro
      writes_preorder additive_le request_preorder_axioms.intro frame_preorder_axioms.intro writes_le_frames writes_ingress)

lemma wb_ok_init: "wb_ok (cn_writeBatcher (conn_init i e))"
  by (simp add: wb_ok_def conn_init_def wb_init_def wb_empty_def buffered_def)

lemma wb_ok_reachable: "reachable cfg c \<Longrightarrow> wb_ok (cn_writeBatcher c)"
  by (erule reachable_invariant) (use wb_ok_init atleast.rel_step in \<open>auto simp: writes_def\<close>)

section \<open>Properties\<close>

text \<open>
  C26: the comment on \<open>WriteBatcher\<close> holds: between any two operations exactly one callback, the loop callback or the timeout, is
  scheduled when there are buffered writes, and none otherwise; the offsets of file descriptors increase strictly within the buffered bytes,
  so the check in \<open>flushWritesWithFds\<close> never fails.
\<close>

theorem write_callback_scheduled:
  assumes "reachable cfg c"
  shows "(wb_empty (cn_writeBatcher c) \<longleftrightarrow> \<not> wb_timeout (cn_writeBatcher c) \<and> \<not> wb_loopCallback (cn_writeBatcher c)) \<and>
    \<not> (wb_timeout (cn_writeBatcher c) \<and> wb_loopCallback (cn_writeBatcher c)) \<and>
    offsets_ok 0 (wb_fdsAndOffsets (cn_writeBatcher c)) (length (buffered (cn_writeBatcher c))) \<and> CheckFailed \<notin> set (cn_trace c)"
proof -
  obtain i e where "(conn_step cfg)\<^sup>*\<^sup>* (conn_init i e) c" using assms by (auto simp: reachable_def)
  then have "writes (\<le>) (conn_init i e) c" by (rule atleast.rel_steps)
  then have "CheckFailed \<notin> set (cn_trace c)" using wb_ok_init [of i e] by (auto simp: writes_def conn_init_def)
  then show ?thesis using wb_ok_reachable [OF assms] by (simp add: wb_ok_def)
qed

text \<open>
  C18: the bytes given to the connection reach the socket in order and without loss: a message that is sent is appended to
  what was written or is waiting in the batch, and no later sequence of operations, flushes, write callbacks or closing among them,
  drops or reorders any of it.
\<close>

theorem no_bytes_lost:
  assumes "reachable cfg c" and "(conn_step cfg)\<^sup>*\<^sup>* (conn_send cfg data cb None c) d"
  shows "prefix (written c @ data) (written d)"
proof -
  have "wb_ok (cn_writeBatcher (conn_send cfg data cb None c))"
    using atleast.rel_send [of None data c cfg cb] wb_ok_reachable [OF assms(1)] by (simp add: writes_def)
  then show ?thesis using atleast.rel_steps [OF assms(2)] by (simp add: writes_def written_send)
qed

text \<open>
  C32: a flush writes the whole batch, and each set of file descriptors with the bytes that end at the offset at which it
  was enqueued; every write has its entry in the queue of outstanding writes, of which the last one carries the callbacks and completions
  of the batch.
\<close>

theorem flush_keeps_descriptors:
  assumes "reachable cfg c" and "wb_loopCallback (cn_writeBatcher c)"
  shows "\<exists>evs. cn_trace (wb_runLoopCallback c) = cn_trace c @ evs \<and> list_all is_write evs \<and>
    concat (map event_bytes evs) = buffered (cn_writeBatcher c) \<and> fds_ends 0 evs = wb_fdsAndOffsets (cn_writeBatcher c) \<and>
    cn_inflightWritesQueue (wb_runLoopCallback c) =
      cn_inflightWritesQueue c @ replicate (length evs - 1) wc_empty @ [wb_context (cn_writeBatcher c)] \<and>
    wb_empty (cn_writeBatcher (wb_runLoopCallback c))"
proof -
  let ?b = "(cn_writeBatcher c)\<lparr>wb_loopCallback := False\<rparr>"
  have ok: "wb_ok (cn_writeBatcher c)" by (rule wb_ok_reachable [OF assms(1)])
  then have "\<not> wb_empty (cn_writeBatcher c)" using assms(2) by (simp add: wb_ok_def)
  then have f: "flushes 0 (wb_fdsAndOffsets (cn_writeBatcher c)) (buffered (cn_writeBatcher c)) (wb_context (cn_writeBatcher c))
      (c\<lparr>cn_writeBatcher := flushed ?b\<rparr>) (wb_runLoopCallback c)"
    unfolding wb_runLoopCallback_def by (rule flushPendingWrites_flushes [OF ok]) (simp add: same_pending_def)
  then have "cn_writeBatcher (wb_runLoopCallback c) = flushed ?b"
    unfolding flushes_def by (auto dest!: arg_cong [where f = cn_writeBatcher])
  then have "wb_empty (cn_writeBatcher (wb_runLoopCallback c))" by (simp add: wb_empty_def)
  then show ?thesis using f unfolding flushes_def by auto
qed

text \<open>\<open>completes c d n\<close>: between the states n requests were completed beside those of streams that were closed.\<close>

definition completes :: "conn \<Rightarrow> conn \<Rightarrow> nat \<Rightarrow> bool" where
  "completes c d n \<longleftrightarrow> completed d + occurs is_stream_close c = completed c + n + occurs is_stream_close d"

lemma completes_exact: "wb_ok (cn_writeBatcher c) \<Longrightarrow> writes (=) c d \<Longrightarrow> completes c d 0"
  by (simp add: writes_def completes_def)

lemma completes_context_destroyed:
  assumes "wb_ok (cn_writeBatcher c)"
  shows "completes c (frame_context_destroyed cfg mark c) (of_bool mark)"
proof -
  let ?c = "if mark then requestComplete c else c"
  have "completes ?c (decInflightRequests cfg ?c) 0"
    using assms requestComplete_fields(4) exact.rel_counters(2) [OF exact.rel_refl] by (intro completes_exact) auto
  then show ?thesis by (auto simp: completes_def frame_context_destroyed_def completed_requestComplete requestComplete_fields split: if_splits)
qed

lemma completes_freeStream: "completes c (freeStream s mark c) (of_bool (mark \<and> s \<in> set (cn_streams c)))"
proof -
  have "completed (c\<lparr>cn_streams := ss\<rparr>) = completed c" "occurs P (c\<lparr>cn_streams := ss\<rparr>) = occurs P c" for ss P
    by (simp_all add: completed_def occurs_def)
  then show ?thesis by (simp add: completes_def freeStream_def Let_def completed_requestComplete requestComplete_fields)
qed

text \<open>
  C25: completed requests are counted exactly once.  Counting those the frame handler was told of and those that wait for a
  write, the destruction of a request's context adds one if it is to be marked, freeing an open stream likewise, and closing the connection
  one for every stream it closes; every other operation but the handling of a frame leaves the count as it is, and no operation lowers it.
\<close>

theorem completions_conserved:
  assumes "reachable cfg c" and "conn_step cfg c d"
  shows "completes c (frame_context_destroyed cfg mark c) (of_bool mark) \<and>
    completes c (freeStream s mark c) (of_bool (mark \<and> s \<in> set (cn_streams c))) \<and> (\<exists>n. completes c d n) \<and>
    (completes c d 0 \<or> (\<exists>frame. d = receiveFrame cfg frame c) \<or> (\<exists>mark. d = frame_context_destroyed cfg mark c) \<or>
     (\<exists>s mark. d = freeStream s mark c))"
proof -
  have ok: "wb_ok (cn_writeBatcher c)" by (rule wb_ok_reachable [OF assms(1)])
  have "completed c + occurs is_stream_close d \<le> completed d + occurs is_stream_close c"
    using atleast.rel_step [OF assms(2)] ok by (simp add: writes_def)
  then have "\<exists>n. completes c d n" unfolding completes_def by presburger
  moreover have "completes c d 0 \<or> (\<exists>frame. d = receiveFrame cfg frame c) \<or> (\<exists>mark. d = frame_context_destroyed cfg mark c) \<or>
      (\<exists>s mark. d = freeStream s mark c)"
    using exact.rel_conn_step [OF assms(2)] completes_exact [OF ok] by blast
  ultimately show ?thesis using completes_context_destroyed [OF ok] completes_freeStream by blast
qed

section \<open>Witnesses\<close>

text \<open>A connection on which a message with file descriptors and one without are sent.\<close>

definition sample_conn :: conn where
  "sample_conn = conn_send sample_cfg [3] None None (conn_send sample_cfg [1, 2] (Some 7) (Some 9) (conn_init sample_memory sample_memory))"

lemma sample_reachable: "reachable sample_cfg sample_conn"
proof -
  let ?i = "conn_init sample_memory sample_memory"
  have "conn_step sample_cfg ?i (conn_send sample_cfg [1, 2] (Some 7) (Some 9) ?i)" by (rule conn_step.Send) simp
  moreover have "conn_step sample_cfg (conn_send sample_cfg [1, 2] (Some 7) (Some 9) ?i) sample_conn"
    unfolding sample_conn_def by (rule conn_step.Send) simp
  ultimately show ?thesis unfolding reachable_def by (meson rtranclp.simps)
qed

theorem write_callback_scheduled_witness:
  "\<not> wb_empty (cn_writeBatcher sample_conn) \<and> wb_loopCallback (cn_writeBatcher sample_conn) \<and>
    offsets_ok 0 [(9, 2)] 3 \<and> CheckFailed \<notin> set (cn_trace sample_conn)"
proof -
  have "\<not> wb_empty (cn_writeBatcher sample_conn)" "\<not> wb_timeout (cn_writeBatcher sample_conn)"
    "wb_fdsAndOffsets (cn_writeBatcher sample_conn) = [(9, 2)]" "buffered (cn_writeBatcher sample_conn) = [1, 2, 3]" by code_simp+
  then show ?thesis using write_callback_scheduled [OF sample_reachable] by simp
qed

theorem no_bytes_lost_witness: "prefix [1, 2, 3, 4] (written (wb_runLoopCallback (conn_send sample_cfg [4] None None sample_conn)))"
proof -
  have "wb_loopCallback (cn_writeBatcher (conn_send sample_cfg [4] None None sample_conn))" by code_simp
  then have "(conn_step sample_cfg)\<^sup>*\<^sup>* (conn_send sample_cfg [4] None None sample_conn) (wb_runLoopCallback (conn_send sample_cfg [4] None None sample_conn))"
    by (intro r_into_rtranclp conn_step.RunLoop)
  moreover have "written sample_conn = [1, 2, 3]" by code_simp
  ultimately show ?thesis using no_bytes_lost [OF sample_reachable] by fastforce
qed

theorem flush_keeps_descriptors_witness:
  "\<exists>evs. cn_trace (wb_runLoopCallback sample_conn) = [SendQueued 7] @ evs \<and> concat (map event_bytes evs) = [1, 2, 3] \<and> fds_ends 0 evs = [(9, 2)]"
proof -
  have "wb_loopCallback (cn_writeBatcher sample_conn)" "cn_trace sample_conn = [SendQueued 7]"
    "wb_fdsAndOffsets (cn_writeBatcher sample_conn) = [(9, 2)]" "buffered (cn_writeBatcher sample_conn) = [1, 2, 3]" by code_simp+
  then show ?thesis using flush_keeps_descriptors [OF sample_reachable] by auto
qed

theorem completions_conserved_witness:
  "completes sample_conn (frame_context_destroyed sample_cfg True sample_conn) 1 \<and> completes sample_conn (wb_runLoopCallback sample_conn) 0"
proof -
  have "wb_loopCallback (cn_writeBatcher sample_conn)" by code_simp
  then have step: "conn_step sample_cfg sample_conn (wb_runLoopCallback sample_conn)" by (rule conn_step.RunLoop)
  have "completed sample_conn = 0" "completed (wb_runLoopCallback sample_conn) = 0" "occurs is_stream_close sample_conn = 0"
    "occurs is_stream_close (wb_runLoopCallback sample_conn) = 0" by code_simp+
  then show ?thesis using completions_conserved [OF sample_reachable step, of True] by (simp add: completes_def)
qed

end
