(* ===== verification/Rocket_Server.thy ===== *)
theory Rocket_Server
  imports Rocket_Writes
begin

text \<open>
  The properties of a server connection over all sequences of operations, each from an interpretation
  of the contracts in \<open>Rocket_Steps\<close>: the state only advances and the connection is destroyed once, the setup
  frame comes first, no byte and no completed request is lost between the connection and the socket,
  and a connection that is closing is never stuck.
\<close>

section \<open>The state only advances\<close>

fun rank :: "conn_state \<Rightarrow> nat" where
  "rank ALIVE = 0"
| "rank DRAINING = 1"
| "rank CLOSING = 2"
| "rank CLOSED = 3"

abbreviation conn_rank :: "conn \<Rightarrow> nat" where "conn_rank c \<equiv> rank (cn_state c)"

lemma occurs_trace: "cn_trace d = cn_trace c \<Longrightarrow> occurs P d = occurs P c"
  by (simp add: occurs_def)

text \<open>The events that only two places of the code raise.\<close>

definition silent :: "(event \<Rightarrow> bool) \<Rightarrow> bool" where
  "silent P \<longleftrightarrow> (\<forall>ev. is_plain ev \<longrightarrow> \<not> P ev) \<and> \<not> P HandlerRequestComplete \<and> (\<forall>w fds. \<not> P (WriteChain w fds)) \<and>
     \<not> P CheckFailed \<and> (\<forall>s. \<not> P (StreamConnectionClose s))"

definition same_events :: "(event \<Rightarrow> bool) \<Rightarrow> conn \<Rightarrow> conn \<Rightarrow> bool" where
  "same_events P c d \<longleftrightarrow> filter P (cn_trace d) = filter P (cn_trace c) \<and> cn_state d = cn_state c \<and>
     cn_setupFrameReceived d = cn_setupFrameReceived c \<and> cn_decodeMetadataUsingBinary d = cn_decodeMetadataUsingBinary c"

lemma same_events_trans: "same_events P c d \<Longrightarrow> same_events P d e \<Longrightarrow> same_events P c e"
  by (simp add: same_events_def)

lemma same_events_notify: "\<not> P ev \<Longrightarrow> same_events P c (notify ev c)"
  by (simp add: same_events_def notify_def)

lemma same_events_send: "silent P \<Longrightarrow> same_events P c (conn_send cfg data cb fds c)"
  by (cases cb) (simp_all add: silent_def same_events_def conn_send_def notify_def)

lemma same_events_complete: "silent P \<Longrightarrow> same_events P c (requestComplete c)"
  by (simp add: silent_def same_events_def requestComplete_def notify_def Let_def)

lemma same_events_withFds: "silent P \<Longrightarrow> same_events P c (flushWritesWithFds n fds w ctx c)"
  by (induction n fds w ctx c rule: flushWritesWithFds.induct)
    (auto simp: silent_def same_events_def flushWrites_def notify_def Let_def)

lemma same_events_flush: "silent P \<Longrightarrow> same_events P c (flushPendingWrites (c\<lparr>cn_writeBatcher := b\<rparr>))"
  using same_events_withFds [of P "c\<lparr>cn_writeBatcher := _\<rparr>"]
  by (auto simp: flushPendingWrites_def Let_def same_events_def flushWrites_def notify_def silent_def)

lemma same_events_batcher: "silent P \<Longrightarrow> same_events P c (wb_runLoopCallback c)" "silent P \<Longrightarrow> same_events P c (wb_timeoutExpired c)"
  "silent P \<Longrightarrow> same_events P c (wb_drain c)"
  by (simp_all add: wb_runLoopCallback_def wb_timeoutExpired_def wb_drain_def same_events_flush) (simp add: same_events_def)

lemma same_events_fold: "(\<And>k. \<not> P (ev k)) \<Longrightarrow> same_events P c (fold (\<lambda>k. notify (ev k)) ks c)"
  by (induction ks arbitrary: c) (auto simp: same_events_def notify_def)

lemma same_events_completes: "silent P \<Longrightarrow> same_events P c (completeRequests n c)"
  by (induction n) (auto simp: silent_def same_events_def completeRequests_def notify_def)

lemma same_events_settle:
  assumes "silent P" and "\<And>k. is_plain (ev k)"
  shows "same_events P c (settle ev ctx rest c)"
proof -
  have "\<not> P (ev k)" for k using assms by (simp add: silent_def)
  then have "same_events P c (fold (\<lambda>cb. notify (ev cb)) (wc_sendCallbacks ctx) (completeRequests (wc_requestCompleteCount ctx) c))"
    using same_events_trans [OF same_events_completes [OF assms(1)] same_events_fold] by blast
  then show ?thesis by (simp add: settle_def same_events_def)
qed

definition quiet :: "conn \<Rightarrow> conn \<Rightarrow> bool" where
  "quiet c d \<longleftrightarrow> conn_rank c \<le> conn_rank d \<and> cn_setupFrameReceived d = cn_setupFrameReceived c \<and>
     cn_decodeMetadataUsingBinary d = cn_decodeMetadataUsingBinary c \<and> filter is_protocol (cn_trace d) = filter is_protocol (cn_trace c)"

lemma silent_protocol: "silent is_protocol"
  unfolding silent_def by (auto elim: is_plain.elims)

lemma same_events_quiet: "same_events is_protocol c d \<Longrightarrow> quiet c d"
  by (simp add: same_events_def quiet_def)

interpretation quiet: metered_preorder cfg quiet for cfg
proof
  show "quiet c d \<Longrightarrow> quiet d e \<Longrightarrow> quiet c e" for c d e by (simp add: quiet_def)
  show "core d = core c \<Longrightarrow> quiet c d" for c d by (simp add: quiet_def core_def)
  show "is_plain ev \<Longrightarrow> quiet c (notify ev c)" for ev c
    using silent_protocol by (simp add: same_events_quiet same_events_notify silent_def)
  show "quiet c (conn_send cfg data cb fds c)" for fds data c cb by (simp add: same_events_quiet same_events_send silent_protocol)
  show "quiet c (wb_runLoopCallback c)" "quiet c (wb_timeoutExpired c)" "quiet c (wb_drain c)" for c
    by (simp_all add: same_events_quiet same_events_batcher silent_protocol)
  show "(\<And>k. is_plain (ev k)) \<Longrightarrow> quiet c (settle ev ctx rest c)" for ev c ctx rest
    by (simp add: same_events_quiet same_events_settle silent_protocol)
  show "cn_state c = ALIVE \<Longrightarrow> quiet c (c\<lparr>cn_state := DRAINING\<rparr>)" for c by (simp add: quiet_def)
  show "cn_state c = ALIVE \<or> cn_state c = DRAINING \<Longrightarrow> quiet c (c\<lparr>cn_state := CLOSING\<rparr>)" for c by (auto simp: quiet_def)
  show "quiet c (requestComplete (notify (StreamConnectionClose s) c))" for c s
    using same_events_trans [OF same_events_notify same_events_complete] by (simp add: same_events_quiet silent_protocol)
  show "cn_state c = CLOSING \<Longrightarrow> quiet (notify RemoveConnection (c\<lparr>cn_state := CLOSED\<rparr>)) d \<Longrightarrow> quiet c (notify Destroyed d)" for c d
    by (simp add: quiet_def notify_def)
  show "quiet c (c\<lparr>cn_egressBufferSize := n, cn_egress := t\<rparr>)" for c n t by (simp add: quiet_def)
qed (simp_all add: quiet_def)

lemma quiet_complete [rels]: "quiet x c \<Longrightarrow> quiet x (requestComplete c)"
  using quiet.rel_trans same_events_quiet [OF same_events_complete [OF silent_protocol]] by blast

lemma quiet_completions: "quiet c (frame_context_destroyed cfg mark c)" "quiet c (freeStream s mark c)"
  by (simp_all add: frame_context_destroyed_def freeStream_def Let_def rels)

text \<open>What the operations of the connection share when they do handle frames: no setup frame among them.\<close>

definition requests_only :: "conn \<Rightarrow> conn \<Rightarrow> bool" where
  "requests_only c d \<longleftrightarrow> conn_rank c \<le> conn_rank d \<and> cn_setupFrameReceived d = cn_setupFrameReceived c \<and>
     cn_decodeMetadataUsingBinary d = cn_decodeMetadataUsingBinary c \<and>
     (\<exists>evs. filter is_protocol (cn_trace d) = filter is_protocol (cn_trace c) @ evs \<and> list_all is_request evs)"

lemma quiet_requests_only: "quiet c d \<Longrightarrow> requests_only c d"
  by (simp add: quiet_def requests_only_def)

lemma requests_only_trans: "requests_only c d \<Longrightarrow> requests_only d e \<Longrightarrow> requests_only c e"
  by (auto simp: requests_only_def)

lemma is_request_protocol: "is_request ev \<Longrightarrow> is_protocol ev"
  by (cases ev) simp_all

interpretation requests: request_preorder cfg requests_only for cfg
proof
  show "requests_only c d \<Longrightarrow> requests_only d e \<Longrightarrow> requests_only c e" for c d e by (rule requests_only_trans)
  show "cn_state c = CLOSING \<Longrightarrow> requests_only (notify RemoveConnection (c\<lparr>cn_state := CLOSED\<rparr>)) d \<Longrightarrow> requests_only c (notify Destroyed d)" for c d
    by (simp add: requests_only_def notify_def)
  show "is_request ev \<Longrightarrow> requests_only c (notify ev c)" for ev c
    by (simp add: requests_only_def notify_def is_request_protocol)
  show "requests_only c (conn_send cfg data cb fds c)" for fds data c cb
    by (simp add: quiet_requests_only same_events_quiet same_events_send silent_protocol)
  show "requests_only c (requestComplete c)" for c
    by (simp add: quiet_requests_only same_events_quiet same_events_complete silent_protocol)
qed (simp_all add: quiet_requests_only quiet.rel_core quiet.rel_notify quiet.rel_send quiet.rel_runLoop quiet.rel_batchTimeout
    quiet.rel_drain quiet.rel_settle quiet.rel_draining quiet.rel_closing quiet.rel_stream_closed quiet.rel_egress_less quiet.rel_egress_more)

definition setup_ok :: "conn \<Rightarrow> bool" where
  "setup_ok c \<longleftrightarrow> (case cn_decodeMetadataUsingBinary c of
     None \<Rightarrow> filter is_protocol (cn_trace c) = [] \<and> (cn_setupFrameReceived c \<longrightarrow> 2 \<le> conn_rank c)
   | Some b \<Rightarrow> cn_setupFrameReceived c \<and>
       (\<exists>f evs. filter is_protocol (cn_trace c) = HandleSetupFrame f # evs \<and> b = sf_encodeMetadataUsingBinary f \<and> list_all is_request evs))"

lemma setup_ok_quiet: "setup_ok c \<Longrightarrow> quiet c d \<Longrightarrow> setup_ok d"
  by (auto simp: setup_ok_def quiet_def split: option.splits)

lemma setup_ok_requests: "setup_ok c \<Longrightarrow> cn_decodeMetadataUsingBinary c \<noteq> None \<Longrightarrow> requests_only c d \<Longrightarrow> setup_ok d"
  by (auto simp: setup_ok_def requests_only_def split: option.splits)

lemma conn_close_closes: "2 \<le> conn_rank (conn_close cfg r c)"
proof -
  have "2 \<le> conn_rank (closeIfNeeded cfg d)" if "2 \<le> conn_rank d" for d
    using quiet.rel_closeIfNeeded [OF quiet.rel_refl, of d cfg] that by (simp add: quiet_def)
  moreover have "2 \<le> conn_rank c" if "cn_state c = CLOSING \<or> cn_state c = CLOSED" using that by auto
  ultimately show ?thesis by (auto simp: conn_close_def Let_def keeps_state)
qed

lemma setup_ok_alive: "setup_ok c \<Longrightarrow> cn_setupFrameReceived c \<Longrightarrow> cn_state c = ALIVE \<or> cn_state c = DRAINING \<Longrightarrow>
    cn_decodeMetadataUsingBinary c \<noteq> None"
  by (auto simp: setup_ok_def split: option.splits)

lemma setup_ok_setup_frame:
  assumes "setup_ok c" and "\<not> cn_setupFrameReceived c"
  shows "setup_ok (notify (HandleSetupFrame f) (c\<lparr>cn_setupFrameReceived := True, cn_decodeMetadataUsingBinary := Some (sf_encodeMetadataUsingBinary f)\<rparr>))"
    and "setup_ok (conn_close cfg r (c\<lparr>cn_setupFrameReceived := True\<rparr>))"
proof -
  have n: "cn_decodeMetadataUsingBinary c = None" "filter is_protocol (cn_trace c) = []"
    using assms by (auto simp: setup_ok_def split: option.splits)
  then show "setup_ok (notify (HandleSetupFrame f) (c\<lparr>cn_setupFrameReceived := True, cn_decodeMetadataUsingBinary := Some (sf_encodeMetadataUsingBinary f)\<rparr>))"
    by (simp add: setup_ok_def notify_def)
  have "quiet (c\<lparr>cn_setupFrameReceived := True\<rparr>) (conn_close cfg r (c\<lparr>cn_setupFrameReceived := True\<rparr>))" by (simp add: rels)
  then show "setup_ok (conn_close cfg r (c\<lparr>cn_setupFrameReceived := True\<rparr>))"
    using n conn_close_closes by (simp add: setup_ok_def quiet_def)
qed

lemma receiveFrame_setup:
  assumes "setup_ok c"
  shows "setup_ok (receiveFrame cfg frame c)"
proof -
  let ?c = "notify OnBeforeHandleFrame c"
  have c: "setup_ok ?c" "cn_setupFrameReceived ?c = cn_setupFrameReceived c" "cn_state ?c = cn_state c"
    using setup_ok_quiet [OF assms quiet.rel_notify] by (simp_all add: notify_def)
  have closed: "setup_ok (conn_close cfg r ?c)" for r using setup_ok_quiet [OF c(1)] by (simp add: rels)
  have requests: "setup_ok (case dispatchFrame cfg frame s t fl cur ?c of (None, d) \<Rightarrow> d | (Some e, d) \<Rightarrow> conn_close cfg (Close_Other (cfg_what cfg e)) d)"
    if "t \<noteq> F_SETUP" "cn_decodeMetadataUsingBinary ?c \<noteq> None" for s t fl cur
  proof -
    have "requests_only ?c (snd (dispatchFrame cfg frame s t fl cur ?c))" using requests.rel_dispatchFrame [OF that(1)] by (simp add: rels)
    then have "requests_only ?c (case dispatchFrame cfg frame s t fl cur ?c of (None, d) \<Rightarrow> d | (Some e, d) \<Rightarrow> conn_close cfg (Close_Other (cfg_what cfg e)) d)"
      by (auto simp: rels split: prod.split option.split)
    then show ?thesis using setup_ok_requests [OF c(1) that(2)] by blast
  qed
  show ?thesis
    using assms c closed requests setup_ok_alive [OF c(1)] setup_ok_setup_frame [OF c(1)]
    by (auto simp: receiveFrame_def handleFrame_def Let_def lift_frame_def dispatchFrame_def [where frameType = F_SETUP]
        split: sum.splits if_splits)
qed

lemma setup_ok_reachable: "reachable cfg c \<Longrightarrow> setup_ok c"
proof (erule reachable_invariant)
  show "setup_ok (conn_init i e)" for i e by (simp add: setup_ok_def conn_init_def)
  fix c d assume c: "setup_ok c" "conn_step cfg c d"
  have "quiet c d \<or> (\<exists>frame. d = receiveFrame cfg frame c)"
    using quiet.rel_conn_step [OF c(2)] quiet_completions by metis
  then show "setup_ok d" using c(1) setup_ok_quiet receiveFrame_setup by blast
qed

text \<open>
  C4: on every connection, whatever frames and calls arrive in whatever order, the frame handler sees no
  request and no stream sees a frame before a setup frame was handed to it, the handler gets exactly one setup frame, and whether metadata
  is decoded as Binary or Compact is what that frame asked for.  So \<open>isDecodingMetadataUsingBinaryProtocol\<close>
  never reads an empty optional while a request is being handled.
\<close>

theorem setup_frame_first:
  assumes "reachable cfg c"
  shows "case filter is_protocol (cn_trace c) of
      [] \<Rightarrow> cn_decodeMetadataUsingBinary c = None
    | ev # evs \<Rightarrow> (\<exists>f. ev = HandleSetupFrame f \<and> cn_decodeMetadataUsingBinary c = Some (sf_encodeMetadataUsingBinary f)) \<and>
        list_all is_request evs"
  using setup_ok_reachable [OF assms] by (auto simp: setup_ok_def split: option.splits list.splits)

section \<open>The connection is destroyed once\<close>

definition advance :: "conn \<Rightarrow> conn \<Rightarrow> bool" where
  "advance c d \<longleftrightarrow> conn_rank c \<le> conn_rank d \<and>
     occurs ((=) Destroyed) d + of_bool (cn_state c = CLOSED) = occurs ((=) Destroyed) c + of_bool (cn_state d = CLOSED)"

lemma silent_destroyed: "silent ((=) Destroyed)"
  by (auto simp: silent_def)

lemma same_events_advance: "same_events ((=) Destroyed) c d \<Longrightarrow> advance c d"
  by (simp add: same_events_def advance_def occurs_def)

interpretation advance: step_preorder cfg advance for cfg
proof
  show "advance c d \<Longrightarrow> advance d e \<Longrightarrow> advance c e" for c d e by (simp add: advance_def)
  show "core d = core c \<Longrightarrow> advance c d" for c d by (simp add: advance_def core_def occurs_def)
  show "is_plain ev \<Longrightarrow> advance c (notify ev c)" for ev c
    using silent_destroyed by (simp add: same_events_advance same_events_notify silent_def)
  show "advance c (conn_send cfg data cb fds c)" for fds data c cb by (simp add: same_events_advance same_events_send silent_destroyed)
  show "advance c (wb_runLoopCallback c)" "advance c (wb_timeoutExpired c)" "advance c (wb_drain c)" for c
    by (simp_all add: same_events_advance same_events_batcher silent_destroyed)
  show "(\<And>k. is_plain (ev k)) \<Longrightarrow> advance c (settle ev ctx rest c)" for ev c ctx rest
    by (simp add: same_events_advance same_events_settle silent_destroyed)
  show "cn_state c = ALIVE \<Longrightarrow> advance c (c\<lparr>cn_state := DRAINING\<rparr>)" for c by (simp add: advance_def occurs_def)
  show "cn_state c = ALIVE \<or> cn_state c = DRAINING \<Longrightarrow> advance c (c\<lparr>cn_state := CLOSING\<rparr>)" for c by (auto simp: advance_def occurs_def)
  show "advance c (requestComplete (notify (StreamConnectionClose s) c))" for c s
    using same_events_trans [OF same_events_notify same_events_complete] by (simp add: same_events_advance silent_destroyed)
  show "cn_state c = CLOSING \<Longrightarrow> advance (notify RemoveConnection (c\<lparr>cn_state := CLOSED\<rparr>)) d \<Longrightarrow> advance c (notify Destroyed d)" for c d
    by (cases "cn_state d") (auto simp: advance_def notify_def occurs_def)
  show "advance c (c\<lparr>cn_egressBufferSize := n, cn_egress := t\<rparr>)" for c n t by (simp add: advance_def occurs_def)
  show "advance c (requestComplete c)" for c by (simp add: same_events_advance same_events_complete silent_destroyed)
  show "is_request ev \<Longrightarrow> advance c (notify ev c)" for ev c
    by (cases ev) (simp_all add: same_events_advance same_events_notify)
qed (simp_all add: advance_def occurs_def notify_def)

text \<open>
  C27: the state of a connection only moves forward, from \<open>ALIVE\<close> over \<open>DRAINING\<close> and \<open>CLOSING\<close> to \<open>CLOSED\<close>, through any
  further operations, and the object is destroyed exactly once, when it is closed.
\<close>

theorem connection_advances:
  assumes "reachable cfg c" and "(conn_step cfg)\<^sup>*\<^sup>* c d"
  shows "conn_rank c \<le> conn_rank d \<and> occurs ((=) Destroyed) d = of_bool (cn_state d = CLOSED)"
proof -
  obtain i e where "(conn_step cfg)\<^sup>*\<^sup>* (conn_init i e) c" using assms(1) by (auto simp: reachable_def)
  then have "advance (conn_init i e) d" using advance.rel_steps assms(2) rtranclp_trans by metis
  moreover have "advance c d" using advance.rel_steps assms(2) by blast
  ultimately show ?thesis by (simp add: advance_def occurs_def conn_init_def)
qed

fun stream_closed :: "u32 \<Rightarrow> event list" where
  "stream_closed s = [StreamConnectionClose s, HandlerRequestComplete]"

lemma closeStreams_idle:
  assumes "wb_empty (cn_writeBatcher c)" and "cn_inflightWritesQueue c = []"
  shows "closeStreams ss c = c\<lparr>cn_streams := [], cn_trace := cn_trace c @ concat (map stream_closed ss)\<rparr>"
  using assms by (induction ss arbitrary: c) (simp_all add: requestComplete_def notify_def)

lemma closeIfClosing_cases:
  "closeIfClosing c =
    (if cn_state c = CLOSING \<and> \<not> isBusy c \<and> (cn_drainComplete c \<or> \<not> cn_socketGood c) then
       (if cn_socketGood c then c else sd_drainComplete c)
         \<lparr>cn_state := CLOSED, cn_streams := [],
           cn_trace := cn_trace c @ RemoveConnection # concat (map stream_closed (cn_streams c)) @ [Destroyed]\<rparr>
     else if cn_state c = CLOSING \<and> \<not> cn_socketGood c then sd_drainComplete c else c)"
proof -
  have "wb_drain d = d" if "wb_empty (cn_writeBatcher d)" for d using that by (simp add: wb_drain_def)
  then show ?thesis
    by (auto simp: closeIfClosing_def Let_def sd_drainComplete_def isBusy_def closeStreams_idle notify_def)
qed

text \<open>The first part of \<open>closeIfNeeded\<close>: a draining connection without requests starts closing.\<close>

definition drained :: "conn_cfg \<Rightarrow> conn \<Rightarrow> conn" where
  "drained cfg c = (if cn_state c = DRAINING \<and> cn_inflightRequests c = 0 \<and> cn_inflightSinkFinalResponses c = 0 then
     notify ConnectionClosing ((case cn_drainCompleteCode (sd_activate c) of None \<Rightarrow> sd_activate c | Some code \<Rightarrow>
         sendError cfg 0 (RocketException 0x101 []) None (sendMetadataPush cfg (cfg_packDrainComplete cfg code) (sd_activate c)))
       \<lparr>cn_state := CLOSING\<rparr>) else c)"

lemma closeIfNeeded_eq: "closeIfNeeded cfg c = closeIfClosing (drained cfg c)"
  by (simp add: closeIfNeeded_def drained_def Let_def)

lemma drained_fields: "cn_streams (drained cfg c) = cn_streams c" "cn_inflightRequests (drained cfg c) = cn_inflightRequests c"
  "cn_inflightSinkFinalResponses (drained cfg c) = cn_inflightSinkFinalResponses c" "cn_drainComplete (drained cfg c) = cn_drainComplete c"
  "cn_state (drained cfg c) = (if cn_state c = DRAINING \<and> cn_inflightRequests c = 0 \<and> cn_inflightSinkFinalResponses c = 0 then CLOSING else cn_state c)"
  "cn_drainTimer (drained cfg c) \<longleftrightarrow> cn_drainTimer c \<or> cn_state c = DRAINING \<and> cn_inflightRequests c = 0 \<and> cn_inflightSinkFinalResponses c = 0 \<and> \<not> cn_drainComplete c"
  by (auto simp: drained_def sd_activate_def notify_def sendError_def sendMetadataPush_def conn_send_def split: option.split)

text \<open>
  C24: \<open>closeIfNeeded\<close> destroys the connection only when the assertions of its destructor hold: no request, write,
  final response of a sink or pause handle is outstanding and nothing is buffered; reading has stopped, the connection manager forgets the
  connection first, and then every stream that was open is told once and completed.
\<close>

theorem closes_only_when_idle:
  assumes "cn_state c \<noteq> CLOSED" and "cn_state (closeIfNeeded cfg c) = CLOSED"
  shows "\<not> isBusy (closeIfNeeded cfg c) \<and> cn_streams (closeIfNeeded cfg c) = [] \<and> cn_drainComplete (closeIfNeeded cfg c) \<and>
    (\<exists>pre. cn_trace (closeIfNeeded cfg c) = pre @ RemoveConnection # concat (map stream_closed (cn_streams c)) @ [Destroyed])"
proof -
  have "cn_state (drained cfg c) \<noteq> CLOSED" using assms(1) by (simp add: drained_fields)
  moreover have "cn_state (closeIfClosing (drained cfg c)) = CLOSED" using assms(2) by (simp add: closeIfNeeded_eq)
  ultimately have "\<not> isBusy (closeIfClosing (drained cfg c)) \<and> cn_streams (closeIfClosing (drained cfg c)) = [] \<and>
      cn_drainComplete (closeIfClosing (drained cfg c)) \<and>
      (\<exists>pre. cn_trace (closeIfClosing (drained cfg c)) = pre @ RemoveConnection # concat (map stream_closed (cn_streams c)) @ [Destroyed])"
    by (auto simp: closeIfClosing_cases isBusy_def sd_drainComplete_def drained_fields split: if_splits)
  then show ?thesis by (simp add: closeIfNeeded_eq)
qed

section \<open>A connection that is closing is never stuck\<close>

text \<open>What a connection waits for: in each state there is something outstanding that will close it.\<close>

definition timer_ok :: "conn \<Rightarrow> bool" where
  "timer_ok c \<longleftrightarrow> (cn_state c = CLOSING \<and> \<not> cn_drainComplete c \<longrightarrow> cn_drainTimer c)"

definition waits :: "conn \<Rightarrow> bool" where
  "waits c \<longleftrightarrow> (cn_state c = DRAINING \<longrightarrow> cn_inflightRequests c \<noteq> 0 \<or> cn_inflightSinkFinalResponses c \<noteq> 0) \<and>
     (cn_state c = CLOSING \<longrightarrow> isBusy c \<or> \<not> cn_drainComplete c) \<and> timer_ok c"

lemma closeIfClosing_waits:
  assumes "timer_ok c" and "cn_state c = DRAINING \<Longrightarrow> cn_inflightRequests c \<noteq> 0 \<or> cn_inflightSinkFinalResponses c \<noteq> 0"
  shows "waits (closeIfClosing c)"
  using assms by (auto simp: waits_def timer_ok_def closeIfClosing_cases sd_drainComplete_def isBusy_def)

lemma closeIfNeeded_waits:
  assumes "timer_ok c"
  shows "waits (closeIfNeeded cfg c)"
proof -
  have "timer_ok (drained cfg c)" using assms by (auto simp: timer_ok_def drained_fields split: if_splits)
  then show ?thesis unfolding closeIfNeeded_eq by (rule closeIfClosing_waits) (auto simp: drained_fields split: if_splits)
qed

text \<open>The fields this depends on.\<close>

definition life :: "conn \<Rightarrow> conn_state \<times> bool \<times> bool \<times> nat \<times> nat \<times> nat" where
  "life c = (cn_state c, cn_drainComplete c, cn_drainTimer c, cn_inflightRequests c, cn_inflightSinkFinalResponses c, cn_activePausedHandlers c)"

definition outstanding :: "conn \<Rightarrow> bool" where
  "outstanding c \<longleftrightarrow> cn_inflightWritesQueue c \<noteq> [] \<or> \<not> wb_empty (cn_writeBatcher c)"

named_theorems alive \<open>operations that keep the fields of \<open>life\<close>\<close>
named_theorems waiting \<open>operations that keep \<open>waits\<close>\<close>

lemma waits_same: "waits c \<Longrightarrow> life d = life c \<Longrightarrow> (outstanding c \<Longrightarrow> outstanding d) \<Longrightarrow> waits d"
  by (auto simp: waits_def timer_ok_def life_def outstanding_def isBusy_def)

lemma timer_ok_life: "life d = life c \<Longrightarrow> timer_ok c \<Longrightarrow> timer_ok d"
  by (simp add: life_def timer_ok_def)

lemma waits_timer_ok: "waits c \<Longrightarrow> timer_ok c"
  by (simp add: waits_def)

lemma life_notify [alive]: "life (notify ev c) = life c" "outstanding (notify ev c) = outstanding c"
  by (simp_all add: life_def outstanding_def notify_def)

lemma life_send [alive]: "life (conn_send cfg data cb fds c) = life c" "outstanding (conn_send cfg data cb fds c)"
  by (simp_all add: life_def outstanding_def conn_send_def notify_def wb_enqueueWrite_def wb_empty_def Let_def split: option.split)

lemma life_sendError [alive]: "life (sendError cfg s rex cb c) = life c" "outstanding (sendError cfg s rex cb c)"
  by (simp_all add: sendError_def alive)

lemma life_complete [alive]: "life (requestComplete c) = life c" "outstanding (requestComplete c) = outstanding c"
  by (simp_all add: life_def outstanding_def requestComplete_def notify_def wb_enqueueRequestComplete_def wb_empty_def Let_def)

lemma life_fields [alive]:
  "life (c\<lparr>cn_partialRequestFrames := a1\<rparr>) = life c" "life (c\<lparr>cn_streams := a4\<rparr>) = life c" "life (c\<lparr>cn_setupFrameReceived := b\<rparr>) = life c"
  "life (c\<lparr>cn_decodeMetadataUsingBinary := o1\<rparr>) = life c" "life (c\<lparr>cn_streamsPaused := b\<rparr>) = life c" "life (c\<lparr>cn_ingress := m\<rparr>) = life c"
  "life (c\<lparr>cn_egress := m\<rparr>) = life c" "life (c\<lparr>cn_egressBufferSize := n\<rparr>) = life c" "life (c\<lparr>cn_readCB := b\<rparr>) = life c"
  "life (c\<lparr>cn_socketGood := b\<rparr>) = life c" "life (c\<lparr>cn_socketError := b\<rparr>) = life c" "life (c\<lparr>cn_onWriteQuiescence := b\<rparr>) = life c"
  by (simp_all add: life_def)

lemma outstanding_fields [alive]:
  "outstanding (c\<lparr>cn_partialRequestFrames := a1\<rparr>) = outstanding c" "outstanding (c\<lparr>cn_streams := a4\<rparr>) = outstanding c" "outstanding (c\<lparr>cn_setupFrameReceived := b\<rparr>) = outstanding c"
  "outstanding (c\<lparr>cn_decodeMetadataUsingBinary := o1\<rparr>) = outstanding c" "outstanding (c\<lparr>cn_streamsPaused := b\<rparr>) = outstanding c" "outstanding (c\<lparr>cn_ingress := m\<rparr>) = outstanding c"
  "outstanding (c\<lparr>cn_egress := m\<rparr>) = outstanding c" "outstanding (c\<lparr>cn_egressBufferSize := n\<rparr>) = outstanding c" "outstanding (c\<lparr>cn_readCB := b\<rparr>) = outstanding c"
  "outstanding (c\<lparr>cn_socketGood := b\<rparr>) = outstanding c" "outstanding (c\<lparr>cn_socketError := b\<rparr>) = outstanding c" "outstanding (c\<lparr>cn_onWriteQuiescence := b\<rparr>) = outstanding c"
  by (simp_all add: outstanding_def)

lemma life_fold [alive]: "life (fold (\<lambda>y. notify (f y)) ys c) = life c" "outstanding (fold (\<lambda>y. notify (f y)) ys c) = outstanding c"
  by (induction ys arbitrary: c) (simp_all add: alive)

lemma life_streams [alive]: "life (pauseStreams c) = life c" "life (resumeStreams c) = life c" "life (backpressure cfg n c) = life c"
  "outstanding (pauseStreams c) = outstanding c" "outstanding (resumeStreams c) = outstanding c" "outstanding (backpressure cfg n c) = outstanding c"
  "life (freeStream s mark c) = life c" "outstanding (freeStream s mark c) = outstanding c"
  by (simp_all add: pauseStreams_def resumeStreams_def backpressure_def freeStream_def Let_def alive)

lemma life_settle [alive]: "life (settle ev ctx rest c) = life c"
  by (simp add: settle_def completeRequests_trace fold_notify_trace life_def)

lemma waits_keep [waiting]:
  assumes "waits c"
  shows "waits (notify ev c)" "waits (conn_send cfg data cb fds c)" "waits (requestComplete c)" "waits (freeStream s mark c)"
    "waits (c\<lparr>cn_partialRequestFrames := a1\<rparr>)" "waits (c\<lparr>cn_streams := a4\<rparr>)" "waits (c\<lparr>cn_setupFrameReceived := b\<rparr>)"
    "waits (c\<lparr>cn_decodeMetadataUsingBinary := o1\<rparr>)" "waits (c\<lparr>cn_ingress := m\<rparr>)" "waits (c\<lparr>cn_egress := m\<rparr>)" "waits (c\<lparr>cn_egressBufferSize := n\<rparr>)"
    "waits (c\<lparr>cn_readCB := b\<rparr>)" "waits (c\<lparr>cn_socketGood := b\<rparr>)" "waits (c\<lparr>cn_socketError := b\<rparr>)" "waits (c\<lparr>cn_onWriteQuiescence := b\<rparr>)"
    "waits (backpressure cfg n c)" "waits (resumeStreams c)"
  by (rule waits_same [OF assms]; simp add: alive)+

lemma waits_close [waiting]:
  assumes "timer_ok c"
  shows "waits (conn_close cfg r c)"
proof (cases "cn_state c = CLOSING \<or> cn_state c = CLOSED")
  case True
  then show ?thesis using closeIfNeeded_waits [OF assms] by (simp add: conn_close_def)
next
  case False
  have "timer_ok (notify ConnectionClosing (d\<lparr>cn_state := CLOSING\<rparr>))" if "life d = life (sd_activate c)" for d
    using that by (auto simp: timer_ok_def notify_def life_def sd_activate_def split: if_splits)
  then show ?thesis using False by (simp add: conn_close_def Let_def closeIfNeeded_waits alive)
qed

lemma waits_startDrain [waiting]: "waits c \<Longrightarrow> waits (startDrain cfg code c)"
proof -
  have "timer_ok (sendError cfg s rex cb (c\<lparr>cn_state := DRAINING, cn_drainCompleteCode := code\<rparr>))" for s rex cb
    using life_sendError(1) [of cfg s rex cb "c\<lparr>cn_state := DRAINING, cn_drainCompleteCode := code\<rparr>"] by (simp add: timer_ok_def life_def)
  then show "waits c \<Longrightarrow> ?thesis" by (simp add: startDrain_def closeIfNeeded_waits)
qed

lemma waits_drainComplete: "timer_ok (sd_drainComplete c)"
  by (simp add: timer_ok_def sd_drainComplete_def)

lemma waits_timeouts [waiting]: "waits (closeWhenIdle cfg c)" "waits c \<Longrightarrow> waits (conn_timeoutExpired cfg c)" "waits (sd_timeoutExpired cfg c)"
  by (simp_all add: closeWhenIdle_def conn_timeoutExpired_def sd_timeoutExpired_def waits_close waits_drainComplete closeIfNeeded_waits)

lemma timer_ok_counters: "timer_ok c \<Longrightarrow> timer_ok (c\<lparr>cn_inflightRequests := n\<rparr>)" "timer_ok c \<Longrightarrow> timer_ok (c\<lparr>cn_inflightSinkFinalResponses := n\<rparr>)"
  "timer_ok c \<Longrightarrow> timer_ok (c\<lparr>cn_activePausedHandlers := n\<rparr>)" "timer_ok c \<Longrightarrow> timer_ok (c\<lparr>cn_readCB := b\<rparr>)" "timer_ok c \<Longrightarrow> timer_ok (requestComplete c)"
  using life_complete(1) [of c] by (simp_all add: timer_ok_def life_def)

lemma waits_counters [waiting]:
  assumes "waits c"
  shows "waits (decInflightRequests cfg c)" "waits (decInflightFinalResponse cfg c)" "waits (incInflightFinalResponse c)" "waits (incInflightRequests c)"
    "waits (pausable_destroyed cfg c)" "waits (resumable_resume cfg c)" "waits (frame_context_destroyed cfg mark c)"
  using assms waits_timer_ok [OF assms]
  by (auto simp: decInflightRequests_def decInflightFinalResponse_def incInflightFinalResponse_def incInflightRequests_def
      pausable_destroyed_def resumable_resume_def frame_context_destroyed_def decrementActivePauseHandlers_def tryResumeSocketReading_def
      timer_ok_counters waits_def [where c = "c\<lparr>cn_inflightSinkFinalResponses := n\<rparr>" for n] waits_def [where c = "c\<lparr>cn_inflightRequests := n\<rparr>" for n]
      isBusy_def intro!: closeIfNeeded_waits)

lemma waits_writeSuccess [waiting]: "waits c \<Longrightarrow> waits (writeSuccess cfg c)"
proof -
  assume c: "waits c"
  have t: "timer_ok (settle ev ctx rest c)" for ev ctx rest using timer_ok_life [OF life_settle waits_timer_ok [OF c]] .
  have "waits (incrementActivePauseHandlers (settle ev ctx rest c))" for ev ctx rest
    using c life_settle [of ev ctx rest c] by (auto simp: waits_def timer_ok_def life_def incrementActivePauseHandlers_def isBusy_def)
  then show ?thesis using c t by (simp add: writeSuccess_def Let_def settle_def [symmetric] closeIfNeeded_waits waits_keep split: list.split)
qed

lemma waits_writeErr [waiting]: "waits c \<Longrightarrow> waits (writeErr cfg what c)"
proof -
  assume c: "waits c"
  have "timer_ok (settle ev ctx rest c)" for ev ctx rest using timer_ok_life [OF life_settle waits_timer_ok [OF c]] .
  then show ?thesis using c by (simp add: writeErr_def Let_def settle_def [symmetric] waits_close split: list.split)
qed

lemma timer_ok_writeErrs: "timer_ok c \<Longrightarrow> timer_ok ((writeErr cfg what ^^ n) c)"
proof (induction n)
  case (Suc n)
  have "timer_ok (writeErr cfg what d)" if "timer_ok d" for d
    using that timer_ok_life [OF life_settle that]
    by (simp add: writeErr_def Let_def settle_def [symmetric] waits_close waits_timer_ok split: list.split)
  then show ?case using Suc by simp
qed simp

lemma waits_closeNow [waiting]: "waits c \<Longrightarrow> waits (socket_closeNow cfg what c)"
proof -
  assume "waits c"
  then have "waits (c\<lparr>cn_socketGood := False, cn_readCB := False\<rparr>)" by (simp add: waits_keep)
  then have "waits ((writeErr cfg what ^^ n) (c\<lparr>cn_socketGood := False, cn_readCB := False\<rparr>))" for n
    by (induction n) (simp_all add: waits_writeErr)
  then show ?thesis by (simp add: socket_closeNow_def Let_def)
qed

lemma life_withFds: "life (flushWritesWithFds n fds w ctx c) = life c"
  by (induction n fds w ctx c rule: flushWritesWithFds.induct) (simp_all add: flushWrites_def life_def notify_def Let_def)

lemma life_flush: "life (flushPendingWrites (c\<lparr>cn_writeBatcher := b\<rparr>)) = life c"
  by (simp add: flushPendingWrites_def Let_def life_withFds flushWrites_def notify_def) (simp add: life_def)

lemma waits_flush:
  assumes "wb_ok (cn_writeBatcher c)" and "\<not> wb_empty (cn_writeBatcher c)" and "same_pending b (cn_writeBatcher c)" and "waits c"
  shows "waits (flushPendingWrites (c\<lparr>cn_writeBatcher := b\<rparr>))"
proof (rule waits_same [OF assms(4) life_flush])
  show "outstanding (flushPendingWrites (c\<lparr>cn_writeBatcher := b\<rparr>))"
    using flushPendingWrites_flushes [OF assms(1-3)] by (auto simp: outstanding_def flushes_def)
qed

lemma waits_drop [waiting]: "waits (dropConnection cfg what c)"
proof -
  have "timer_ok (c\<lparr>cn_socketGood := False, cn_readCB := False\<rparr>)" if "timer_ok c" for c using that by (simp add: timer_ok_def)
  moreover have "timer_ok (wb_drain (sd_drainComplete c))"
    using timer_ok_life [OF life_flush waits_drainComplete] waits_drainComplete by (simp add: wb_drain_def)
  ultimately have "timer_ok (socket_closeNow cfg what (wb_drain (sd_drainComplete c)))"
    by (simp add: socket_closeNow_def Let_def timer_ok_writeErrs)
  then show ?thesis by (simp add: dropConnection_def waits_close)
qed

lemma waits_memory [waiting]: "waits c \<Longrightarrow> waits (snd (incMemoryUsage cfg n c))" "waits c \<Longrightarrow> waits (decMemoryUsage n c)"
  "waits c \<Longrightarrow> waits (onEgressBuffered cfg k what c)" "waits c \<Longrightarrow> waits (onEgressBufferCleared c)"
  by (simp_all add: incMemoryUsage_def decMemoryUsage_def onEgressBuffered_def onEgressBufferCleared_def Let_def split_def
      waits_keep waits_startDrain waits_closeNow)

lemma waits_onFullFrame [waiting]: "waits c \<Longrightarrow> waits (onFullFrame cfg f c)"
proof -
  assume "waits c"
  then have "waits (incInflightRequests c)" by (rule waits_counters)
  then show ?thesis
    by (simp add: onFullFrame_def createClientCallback_def Let_def waits_keep waits_counters waits_close waits_timer_ok split: frame.split)
qed

lemma waits_frames [waiting]:
  assumes "waits c"
  shows "waits (handleRequestFrame cfg f c)" "waits (handlePartialPayload cfg s f p c)" "waits (unhandleable cfg msg c)" "waits (handleClientPush m c)"
  using assms by (simp_all add: handleRequestFrame_def handlePartialPayload_def unhandleable_def handleClientPush_def Let_def waits_onFullFrame waits_keep
      waits_close waits_timer_ok split: option.split client_push.split)

lemma waits_lift_frame: "waits c \<Longrightarrow> (\<And>f. waits (k f c)) \<Longrightarrow> waits (snd (lift_frame r k c))"
  by (simp add: lift_frame_def split: sum.split prod.split)

lemma waits_streamed: "waits c \<Longrightarrow> waits (snd (handleUntrackedFrame cfg frame s t fl cur c))"
  "waits c \<Longrightarrow> waits (snd (handleTrackedFrame cfg frame s t fl cur c))"
  by (simp_all add: handleUntrackedFrame_def handleTrackedFrame_def waiting waits_lift_frame split: option.split)

lemma waits_dispatch: "waits c \<Longrightarrow> waits (snd (dispatchFrame cfg frame s t fl cur c))"
  by (simp add: dispatchFrame_def waiting waits_lift_frame waits_streamed waits_timer_ok)

lemma waits_receiveFrame: "waits c \<Longrightarrow> waits (receiveFrame cfg frame c)"
proof -
  assume c: "waits c"
  then have n: "waits (notify OnBeforeHandleFrame c)" by (simp add: waits_keep)
  have "waits (snd (handleFrame cfg frame c))"
    using c n waits_timer_ok [OF n]
    by (simp add: handleFrame_def Let_def waits_dispatch waits_keep waits_close split: sum.split prod.split)
  then show ?thesis by (auto simp: receiveFrame_def waits_close waits_timer_ok split: prod.split option.split)
qed

lemma waits_step:
  assumes "conn_step cfg c d" and "waits c" and ok: "wb_ok (cn_writeBatcher c)"
  shows "waits d"
  using assms(1)
proof cases
  case (Frame frame)
  then show ?thesis using waits_receiveFrame assms(2) by blast
next
  case (Close reason)
  then show ?thesis using waits_close waits_timer_ok assms(2) by blast
next
  case RunLoop
  then show ?thesis using waits_flush [OF ok _ _ assms(2)] ok by (simp add: wb_runLoopCallback_def same_pending_def wb_ok_def)
next
  case BatchTimeout
  then show ?thesis using waits_flush [OF ok _ _ assms(2)] ok by (simp add: wb_timeoutExpired_def same_pending_def wb_ok_def)
next
  case PausablePause
  then show ?thesis using assms(2) by (simp add: pausable_pause_def pauseSocketReading_def waits_keep)
qed (use assms(2) in \<open>simp_all add: waiting\<close>)

lemma waits_reachable: "reachable cfg c \<Longrightarrow> waits c \<and> wb_ok (cn_writeBatcher c)"
proof (erule reachable_invariant)
  show "waits (conn_init i e) \<and> wb_ok (cn_writeBatcher (conn_init i e))" for i e
    using wb_ok_init by (simp add: waits_def timer_ok_def conn_init_def)
  show "waits d \<and> wb_ok (cn_writeBatcher d)" if "waits c \<and> wb_ok (cn_writeBatcher c)" "conn_step cfg c d" for c d
    using waits_step [OF that(2)] atleast.rel_step [OF that(2)] that(1) by (auto simp: writes_def)
qed

text \<open>
  C19: no connection is left behind.  Between any two operations, a connection that is draining has a request or a final response of a sink
  outstanding; one that is closing has a request, a write, a final response or a pause handle outstanding, or buffered writes with a
  scheduled callback, or the drain timer is running.  Each of these ends in \<open>closeIfNeeded\<close>.
\<close>

theorem closing_never_stuck:
  assumes "reachable cfg c"
  shows "(cn_state c = DRAINING \<longrightarrow> cn_inflightRequests c \<noteq> 0 \<or> cn_inflightSinkFinalResponses c \<noteq> 0) \<and>
    (cn_state c = CLOSING \<longrightarrow> cn_drainTimer c \<or> cn_inflightRequests c \<noteq> 0 \<or> cn_inflightWritesQueue c \<noteq> [] \<or>
       cn_inflightSinkFinalResponses c \<noteq> 0 \<or> cn_activePausedHandlers c \<noteq> 0 \<or>
       wb_timeout (cn_writeBatcher c) \<or> wb_loopCallback (cn_writeBatcher c))"
  using waits_reachable [OF assms] by (auto simp: waits_def timer_ok_def isBusy_def wb_ok_def)

section \<open>Egress memory\<close>

definition egress_balance :: "conn \<Rightarrow> conn \<Rightarrow> bool" where
  "egress_balance c d \<longleftrightarrow> (cn_egressBufferSize c \<le> mt_usage (cn_egress c) \<longrightarrow> cn_egressBufferSize d \<le> mt_usage (cn_egress d) \<and>
     mt_usage (cn_egress d) + cn_egressBufferSize c = mt_usage (cn_egress c) + cn_egressBufferSize d)"

definition egress_same :: "conn \<Rightarrow> conn \<Rightarrow> bool" where
  "egress_same c d \<longleftrightarrow> cn_egressBufferSize d = cn_egressBufferSize c \<and> cn_egress d = cn_egress c"

lemma egress_same_balance: "egress_same c d \<Longrightarrow> egress_balance c d"
  by (simp add: egress_same_def egress_balance_def)

lemma egress_same_basic: "egress_same c (notify ev c)" "egress_same c (conn_send cfg data cb fds c)" "egress_same c (requestComplete c)"
  "egress_same c (settle f ctx rest c)" "egress_same c (requestComplete (notify ev c))"
  by (simp_all add: egress_same_def notify_def conn_send_def requestComplete_def settle_def completeRequests_trace fold_notify_trace Let_def
      split: option.split)

lemma egress_same_withFds: "egress_same c (flushWritesWithFds n fds w ctx c)"
  by (induction n fds w ctx c rule: flushWritesWithFds.induct) (simp_all add: flushWrites_def egress_same_def notify_def Let_def)

lemma egress_same_flush: "egress_same c (flushPendingWrites (c\<lparr>cn_writeBatcher := b\<rparr>))"
proof -
  have "egress_same c d" if "egress_same (c\<lparr>cn_writeBatcher := b'\<rparr>) d" for d b' using that by (simp add: egress_same_def)
  then show ?thesis using egress_same_withFds
    by (simp add: flushPendingWrites_def Let_def) (simp add: flushWrites_def notify_def egress_same_def)
qed

lemma egress_same_batcher: "egress_same c (wb_runLoopCallback c)" "egress_same c (wb_timeoutExpired c)" "egress_same c (wb_drain c)"
  using egress_same_flush by (simp_all add: wb_runLoopCallback_def wb_timeoutExpired_def wb_drain_def) (simp add: egress_same_def)

interpretation egress: step_preorder cfg egress_balance for cfg
proof
  show "egress_balance c d \<Longrightarrow> egress_balance d e \<Longrightarrow> egress_balance c e" for c d e by (auto simp: egress_balance_def)
  show "cn_state c = CLOSING \<Longrightarrow> egress_balance (notify RemoveConnection (c\<lparr>cn_state := CLOSED\<rparr>)) d \<Longrightarrow> egress_balance c (notify Destroyed d)" for c d
    by (simp add: egress_balance_def notify_def)
  show "egress_balance c (conn_send cfg data cb fds c)" for fds data c cb by (simp add: egress_same_balance egress_same_basic)
  show "egress_balance c (settle ev ctx rest c)" for c ctx rest ev by (simp add: egress_same_balance egress_same_basic)
qed (simp_all add: egress_same_balance egress_same_basic egress_same_batcher,
    auto simp: egress_balance_def core_def mt_decrement_def mt_increment_def)

text \<open>
  C30: the egress memory tracker holds exactly what the socket buffers for the connection: after any operations its usage is what it was
  before the connection was created plus the size of the connection's egress buffer, which the destructor gives back.
\<close>

theorem egress_accounted:
  assumes "(conn_step cfg)\<^sup>*\<^sup>* (conn_init ingress egress) c"
  shows "mt_usage (cn_egress c) = mt_usage egress + cn_egressBufferSize c"
  using egress.rel_steps [OF assms] by (simp add: egress_balance_def conn_init_def)

section \<open>Ingress memory\<close>

text \<open>Nothing but the parser's calls changes the ingress tracker.\<close>

definition ingress_same :: "conn \<Rightarrow> conn \<Rightarrow> bool" where
  "ingress_same c d \<longleftrightarrow> cn_ingress d = cn_ingress c"

lemma ingress_same_withFds: "cn_ingress (flushWritesWithFds n fds w ctx c) = cn_ingress c"
  by (induction n fds w ctx c rule: flushWritesWithFds.induct) (simp_all add: flushWrites_def notify_def Let_def)

lemma ingress_same_flush: "cn_ingress (flushPendingWrites c) = cn_ingress c"
  by (simp add: flushPendingWrites_def Let_def ingress_same_withFds flushWrites_def notify_def)

interpretation ingress: frame_preorder cfg ingress_same for cfg
  by unfold_locales (simp_all add: ingress_same_def core_def notify_def conn_send_def Let_def wb_runLoopCallback_def wb_timeoutExpired_def wb_drain_def
      ingress_same_flush settle_def completeRequests_trace fold_notify_trace requestComplete_def split: option.split)

text \<open>The contract of the parser's owner, for the connection.\<close>

interpretation conn: metered_owner "conn_owner cfg" "\<lambda>c. mt_usage (cn_ingress c)" for cfg
proof
  fix n c d
  show "mt_usage (cn_ingress d) = mt_usage (cn_ingress c) + unat n" if "o_incMemoryUsage (conn_owner cfg) n c = (True, d)"
    using that by (auto simp: conn_owner_def incMemoryUsage_def mt_increment_def Let_def split: if_splits)
  show "mt_usage (cn_ingress d) = mt_usage (cn_ingress c)" if "o_incMemoryUsage (conn_owner cfg) n c = (False, d)"
    using that ingress.rel_startDrain [OF ingress.rel_refl, of _ cfg "Some 1"]
    by (auto simp: conn_owner_def incMemoryUsage_def mt_increment_def mt_decrement_def Let_def ingress_same_def split: if_splits)
  show "mt_usage (cn_ingress (o_decMemoryUsage (conn_owner cfg) n c)) = mt_usage (cn_ingress c) - unat n" if "unat n \<le> mt_usage (cn_ingress c)"
    using that by (simp add: conn_owner_def decMemoryUsage_def mt_decrement_def)
  show "mt_usage (cn_ingress (snd (o_handleFrame (conn_owner cfg) f c))) = mt_usage (cn_ingress c)" for f
    using ingress.rel_handleFrame [OF ingress.rel_refl, of c cfg f] by (simp add: conn_owner_def ingress_same_def)
qed

text \<open>
  C29: a server connection with its frame parser charges the ingress memory tracker for exactly the frame that is being received: after
  any reads, with frames handled, rejected with an exception or refused for lack of memory, the usage is what it was plus the
  size of the pending frame, and destroying the parser gives that back.
\<close>

theorem server_ingress_accounted:
  assumes "fl_reads (conn_owner cfg) ds fl_init c = (p, d)"
  shows "mt_usage (cn_ingress d) = mt_usage (cn_ingress c) + fl_frameLengthAndFieldSize p \<and>
    mt_usage (cn_ingress (fl_destroy (conn_owner cfg) p d)) = mt_usage (cn_ingress c)"
proof -
  have "fl_accounted (\<lambda>c. mt_usage (cn_ingress c)) (mt_usage (cn_ingress c)) fl_init c" by (simp add: fl_accounted_def fl_init_def)
  then have "fl_accounted (\<lambda>c. mt_usage (cn_ingress c)) (mt_usage (cn_ingress c)) p d" using conn.fl_reads_usage assms by blast
  then show ?thesis using conn.fl_destroy_usage by (auto simp: fl_accounted_def)
qed

section \<open>Witnesses\<close>

abbreviation fresh :: conn where "fresh \<equiv> conn_init sample_memory sample_memory"

lemma reachable_fresh: "reachable cfg fresh"
  unfolding reachable_def by blast

lemma reachable_step: "reachable cfg c \<Longrightarrow> conn_step cfg c d \<Longrightarrow> reachable cfg d"
  unfolding reachable_def by (meson rtranclp.rtrancl_into_rtrancl)

definition sample_setup :: bytes where
  "sample_setup = drop 3 (setup_serialize (setup_make (makeFromData []) True))"

theorem setup_frame_first_witness:
  "\<exists>f. filter is_protocol (cn_trace (receiveFrame sample_cfg sample_setup fresh)) = [HandleSetupFrame f] \<and>
    cn_decodeMetadataUsingBinary (receiveFrame sample_cfg sample_setup fresh) = Some (sf_encodeMetadataUsingBinary f)"
proof -
  let ?c = "receiveFrame sample_cfg sample_setup fresh"
  have r: "reachable sample_cfg ?c" using reachable_step [OF reachable_fresh conn_step.Frame] .
  have "length (filter is_protocol (cn_trace ?c)) = 1" by code_simp
  then obtain ev where "filter is_protocol (cn_trace ?c) = [ev]" by (auto simp: length_Suc_conv)
  then show ?thesis using setup_frame_first [OF r] by auto
qed

definition sample_closed :: conn where
  "sample_closed = writeSuccess sample_cfg (wb_runLoopCallback (closeWhenIdle sample_cfg fresh))"

theorem connection_advances_witness:
  "cn_state sample_closed = CLOSED \<and> conn_rank fresh \<le> conn_rank sample_closed \<and> occurs ((=) Destroyed) sample_closed = 1"
proof -
  let ?a = "closeWhenIdle sample_cfg fresh"
  have s: "cn_state sample_closed = CLOSED" by code_simp
  have "wb_loopCallback (cn_writeBatcher ?a)" "cn_inflightWritesQueue (wb_runLoopCallback ?a) \<noteq> []" by code_simp+
  then have "conn_step sample_cfg fresh ?a" "conn_step sample_cfg ?a (wb_runLoopCallback ?a)"
    "conn_step sample_cfg (wb_runLoopCallback ?a) sample_closed" unfolding sample_closed_def by (auto intro: conn_step.intros)
  then have "(conn_step sample_cfg)\<^sup>*\<^sup>* fresh sample_closed" by (blast intro: converse_rtranclp_into_rtranclp rtranclp.rtrancl_refl)
  then show ?thesis using connection_advances [OF reachable_fresh, of sample_cfg sample_closed] s by simp
qed

definition sample_idle :: conn where
  "sample_idle = fresh\<lparr>cn_state := CLOSING, cn_drainComplete := True, cn_streams := [5]\<rparr>"

theorem closes_only_when_idle_witness:
  "cn_state (closeIfNeeded sample_cfg sample_idle) = CLOSED \<and> cn_streams (closeIfNeeded sample_cfg sample_idle) = [] \<and>
    (\<exists>pre. cn_trace (closeIfNeeded sample_cfg sample_idle) = pre @ [RemoveConnection, StreamConnectionClose 5, HandlerRequestComplete, Destroyed])"
proof -
  have "cn_state sample_idle \<noteq> CLOSED" "cn_state (closeIfNeeded sample_cfg sample_idle) = CLOSED" "cn_streams sample_idle = [5]" by code_simp+
  then show ?thesis using closes_only_when_idle [of sample_idle sample_cfg] by simp
qed

theorem closing_never_stuck_witness:
  "cn_state (startDrain sample_cfg None fresh) = CLOSING \<and>
    (let c = startDrain sample_cfg None fresh in cn_drainTimer c \<or> cn_inflightRequests c \<noteq> 0 \<or> cn_inflightWritesQueue c \<noteq> [] \<or>
       cn_inflightSinkFinalResponses c \<noteq> 0 \<or> cn_activePausedHandlers c \<noteq> 0 \<or>
       wb_timeout (cn_writeBatcher c) \<or> wb_loopCallback (cn_writeBatcher c))"
proof -
  have "reachable sample_cfg (startDrain sample_cfg None fresh)" using reachable_step [OF reachable_fresh conn_step.Drain] .
  moreover have "cn_state (startDrain sample_cfg None fresh) = CLOSING" by code_simp
  ultimately show ?thesis using closing_never_stuck by (simp add: Let_def)
qed

theorem egress_accounted_witness: "mt_usage (cn_egress (onEgressBuffered sample_cfg 10 [] fresh)) = mt_usage sample_memory + 10"
proof -
  have "(conn_step sample_cfg)\<^sup>*\<^sup>* fresh (onEgressBuffered sample_cfg 10 [] fresh)" by (intro r_into_rtranclp conn_step.EgressBuffered)
  moreover have "cn_egressBufferSize (onEgressBuffered sample_cfg 10 [] fresh) = 10" by code_simp
  ultimately show ?thesis using egress_accounted by metis
qed

theorem server_ingress_accounted_witness:
  "\<exists>p d. fl_reads (conn_owner sample_cfg) [[0, 0, 7, 0], [0, 0]] fl_init fresh = (p, d) \<and>
    mt_usage (cn_ingress d) = mt_usage (cn_ingress fresh) + fl_frameLengthAndFieldSize p \<and>
    mt_usage (cn_ingress (fl_destroy (conn_owner sample_cfg) p d)) = mt_usage (cn_ingress fresh)"
proof -
  obtain p d where r: "fl_reads (conn_owner sample_cfg) [[0, 0, 7, 0], [0, 0]] fl_init fresh = (p, d)" by (metis surj_pair)
  then show ?thesis using server_ingress_accounted [OF r] by blast
qed

end
