(* ===== verification/Rocket_Wire.thy ===== *)
theory Rocket_Wire
  imports Rocket_Requests Rocket_Server
begin

text \<open>
  From the client's serializer to the server's frame handler: the bytes of a request, cut into reads in any
  way, go through the parser of the connection to the connection, which reassembles the request.
\<close>

section \<open>The parser and an owner that serves\<close>

text \<open>
  What the frame-length parser does to its owner for one frame: it charges the memory when the length is
  known and gives it back after the frame was handled.
\<close>

inductive served :: "'o parser_owner \<Rightarrow> 'o \<Rightarrow> bytes list \<Rightarrow> 'o \<Rightarrow> bool" for api where
  served_Nil: "served api own [] own"
| served_Cons: "o_incMemoryUsage api (of_nat (length f + 3)) own = (True, own1) \<Longrightarrow> o_handleFrame api f own1 = (None, own2) \<Longrightarrow>
    served api (o_decMemoryUsage api (of_nat (length f + 3)) own2) fs own' \<Longrightarrow> served api own (f # fs) own'"

inductive_cases served_NilE: "served api own [] own'"
inductive_cases served_ConsE: "served api own (f # fs) own'"

text \<open>
  The parser between two reads, with \<open>own0\<close> the owner after the last frame: the queue starts the next frame, whose
  memory is charged once its length is known.
\<close>

definition fl_between :: "'o parser_owner \<Rightarrow> flp \<Rightarrow> 'o \<Rightarrow> 'o \<Rightarrow> bool" where
  "fl_between api p own own0 \<longleftrightarrow> fl_wf p \<and>
    (if fl_frameLength p = 0 then own = own0
     else o_incMemoryUsage api (of_nat (fl_frameLengthAndFieldSize p)) own0 = (True, own))"

lemma framed_head: "take 3 (framed f @ bs) = writeFrameOrMetadataSize (length f)" "length (framed f) = length f + 3"
  "drop 3 (framed f @ bs) = f @ bs"
  by (simp_all add: framed_def)

lemma append_prefix: "xs @ ys = f @ zs \<Longrightarrow> length f \<le> length xs \<Longrightarrow> take (length f) xs = f \<and> drop (length f) xs @ ys = zs"
  by (auto simp: append_eq_append_conv2)

lemma fl_drain_served:
  assumes "served api own0 fs own'" and "fl_between api p own own0" and "\<forall>f\<in>set fs. length f < 2 ^ 24"
    and "fl_queue p @ later = concat (map framed fs)"
  shows "\<exists>p' own1 own2 fs'. fl_drainReadBufQueue api p own = (None, p', own1) \<and> fl_inv p' \<and> fl_between api p' own1 own2 \<and>
    served api own2 fs' own' \<and> set fs' \<subseteq> set fs \<and> fl_queue p' @ later = concat (map framed fs')"
  using assms
proof (induction fs arbitrary: p own own0)
  case Nil
  then have "fl_size p = 0" "fl_frameLength p = 0" by (auto simp: fl_between_def fl_wf_def split: if_splits)
  with Nil show ?case
    by (intro exI [of _ p] exI [of _ own] exI [of _ own0] exI [of _ "[]"])
      (simp add: fl_drainReadBufQueue.simps [of api p] fl_inv_def fl_between_def)
next
  case (Cons f fs)
  let ?n = "length f" and ?N = "of_nat (length f + 3) :: u32"
  have wf: "fl_wf p" using Cons.prems(2) by (simp add: fl_between_def)
  obtain own1 own2 where inc: "o_incMemoryUsage api ?N own0 = (True, own1)" and h: "o_handleFrame api f own1 = (None, own2)"
    and rest: "served api (o_decMemoryUsage api ?N own2) fs own'"
    using Cons.prems(1) by (auto elim!: served_ConsE)
  show ?case
  proof (cases "fl_size p < 3")
    case True
    then have "fl_inv p" using wf by (auto simp: fl_inv_def fl_wf_def split: if_splits)
    with True Cons.prems show ?thesis
      by (intro exI [of _ p] exI [of _ own] exI [of _ own0] exI [of _ "f # fs"]) (simp add: fl_drainReadBufQueue.simps [of api p])
  next
    case False
    let ?p = "p\<lparr>fl_frameLength := ?n, fl_frameLengthAndFieldSize := ?n + 3\<rparr>"
    have q: "fl_queue p @ later = framed f @ concat (map framed fs)" using Cons.prems(4) by simp
    have "take 3 (fl_queue p) = take 3 (fl_queue p @ later)" using False wf by (simp add: fl_wf_def)
    then have n: "size24 (take 3 (fl_queue p)) = ?n"
      using Cons.prems(3) unfolding q framed_head by (simp add: size24_written)
    have a: "fl_await api p own = (if fl_size p < ?n + 3 then Inl (None, ?p, own1) else Inr (?p, own1))"
    proof (cases "fl_frameLength p = 0")
      case True
      then show ?thesis using False wf n Cons.prems(2) inc by (simp add: fl_await_def fl_computeFrameLength_def fl_between_def fl_wf_def Let_def)
    next
      case known: False
      then have L: "fl_frameLength p = ?n" "fl_frameLengthAndFieldSize p = ?n + 3" using wf n by (simp_all add: fl_wf_def)
      then have "?p = p" "own = own1" using known Cons.prems(2) inc by (simp_all add: fl_between_def)
      then show ?thesis using known wf n by (simp add: fl_await_def fl_wf_def)
    qed
    show ?thesis
    proof (cases "fl_size p < ?n + 3")
      case True
      then have "fl_inv ?p" "fl_between api ?p own1 own0" using False wf n inc by (auto simp: fl_inv_def fl_wf_def fl_between_def)
      with True False a Cons.prems show ?thesis
        by (intro exI [of _ ?p] exI [of _ own1] exI [of _ own0] exI [of _ "f # fs"]) (simp add: fl_drainReadBufQueue.simps [of api p])
    next
      case full: False
      let ?q = "\<lparr>fl_size = fl_size p - (?n + 3), fl_frameLength = 0, fl_frameLengthAndFieldSize = 0, fl_queue = drop ?n (drop 3 (fl_queue p))\<rparr>"
      have "drop 3 (fl_queue p) @ later = f @ concat (map framed fs)" using arg_cong [OF q, of "drop 3"] False wf
        by (simp add: framed_def fl_wf_def)
      then have f: "take ?n (drop 3 (fl_queue p)) = f" "drop ?n (drop 3 (fl_queue p)) @ later = concat (map framed fs)"
        using full wf by (auto simp: fl_wf_def dest!: append_prefix)
      have "fl_handoff api ?p own1 = (None, ?q, o_decMemoryUsage api ?N own2)"
        using full wf h f(1) by (auto simp: fl_handoff_def fl_resetFrameLength_def fl_wf_def Let_def)
      moreover have "fl_between api ?q (o_decMemoryUsage api ?N own2) (o_decMemoryUsage api ?N own2)"
        using wf full by (simp add: fl_between_def fl_wf_def)
      ultimately show ?thesis using Cons.IH [OF rest, of ?q "o_decMemoryUsage api ?N own2"] Cons.prems(3) f(2) full False a
        by (fastforce simp: fl_drainReadBufQueue.simps [of api p])
    qed
  qed
qed

text \<open>Any number of reads, with the exceptions caught by \<open>Parser\<close>.\<close>

fun parser_reads :: "'o parser_owner \<Rightarrow> bytes list \<Rightarrow> parser_variant \<Rightarrow> 'o \<Rightarrow> parser_variant \<times> 'o" where
  "parser_reads api [] p own = (p, own)"
| "parser_reads api (d # ds) p own = (case parser_readDataAvailable api d p own of (p, own) \<Rightarrow> parser_reads api ds p own)"

lemma fl_reads_served:
  assumes "served api own0 fs own'" and "fl_inv p" and "fl_between api p own own0" and "\<forall>f\<in>set fs. length f < 2 ^ 24"
    and "fl_queue p @ concat ds = concat (map framed fs)"
  shows "parser_reads api ds (FrameLengthParser p) own = (FrameLengthParser fl_init, own')"
  using assms
proof (induction ds arbitrary: p own own0 fs)
  case Nil
  have "fs = []"
  proof (cases fs)
    case (Cons f fs')
    then have q: "fl_queue p = framed f @ concat (map framed fs')" using Nil.prems(5) by simp
    then have "size24 (take 3 (fl_queue p)) = length f" using Nil.prems(4) Cons unfolding q framed_head by (simp add: size24_written)
    then show ?thesis using q Nil.prems(2) by (auto simp: fl_inv_def fl_wf_def framed_head split: if_splits)
  qed simp
  with Nil show ?case by (auto simp: fl_inv_def fl_wf_def fl_init_def fl_between_def elim!: served_NilE split: if_splits)
next
  case (Cons d ds)
  let ?p = "p\<lparr>fl_size := fl_size p + length d, fl_queue := fl_queue p @ d\<rparr>"
  have "fl_between api ?p own own0" using Cons.prems(2,3) by (auto simp: fl_between_def fl_inv_def fl_wf_def split: if_splits)
  then obtain p' own1 own2 fs' where d: "fl_drainReadBufQueue api ?p own = (None, p', own1)" and p': "fl_inv p'" "fl_between api p' own1 own2"
    and s: "served api own2 fs' own'" "set fs' \<subseteq> set fs" "fl_queue p' @ concat ds = concat (map framed fs')"
    using fl_drain_served [OF Cons.prems(1) _ Cons.prems(4), of ?p own "concat ds"] Cons.prems(5) by auto
  have "parser_reads api ds (FrameLengthParser p') own1 = (FrameLengthParser fl_init, own')"
    using Cons.IH [OF s(1) p' _ s(3)] s(2) Cons.prems(4) by blast
  then show ?case using d by (simp add: parser_readDataAvailable_def parser_visit_def fl_readDataAvailable_def)
qed

section \<open>The connection and its memory\<close>

text \<open>Handling a frame neither reads nor changes the usage of ingress memory.\<close>

definition with_ingress :: "memory_tracker \<Rightarrow> conn \<Rightarrow> conn" where
  "with_ingress t c = c\<lparr>cn_ingress := t\<rparr>"

lemma with_ingress_simps [simp]:
  "cn_state (with_ingress t c) = cn_state c" "cn_setupFrameReceived (with_ingress t c) = cn_setupFrameReceived c"
  "cn_partialRequestFrames (with_ingress t c) = cn_partialRequestFrames c" "cn_streams (with_ingress t c) = cn_streams c"
  "cn_inflightRequests (with_ingress t c) = cn_inflightRequests c" "cn_inflightWritesQueue (with_ingress t c) = cn_inflightWritesQueue c"
  "cn_inflightSinkFinalResponses (with_ingress t c) = cn_inflightSinkFinalResponses c" "cn_drainCompleteCode (with_ingress t c) = cn_drainCompleteCode c"
  "cn_writeBatcher (with_ingress t c) = cn_writeBatcher c" "cn_drainComplete (with_ingress t c) = cn_drainComplete c"
  "cn_activePausedHandlers (with_ingress t c) = cn_activePausedHandlers c" "cn_socketGood (with_ingress t c) = cn_socketGood c"
  "cn_socketError (with_ingress t c) = cn_socketError c" "cn_trace (with_ingress t c) = cn_trace c" "cn_ingress (with_ingress t c) = t"
  by (simp_all add: with_ingress_def)

named_theorems ingress

lemma with_ingress_updates [ingress]:
  "(with_ingress t c)\<lparr>cn_state := s\<rparr> = with_ingress t (c\<lparr>cn_state := s\<rparr>)"
  "(with_ingress t c)\<lparr>cn_setupFrameReceived := b\<rparr> = with_ingress t (c\<lparr>cn_setupFrameReceived := b\<rparr>)"
  "(with_ingress t c)\<lparr>cn_decodeMetadataUsingBinary := mb\<rparr> = with_ingress t (c\<lparr>cn_decodeMetadataUsingBinary := mb\<rparr>)"
  "(with_ingress t c)\<lparr>cn_partialRequestFrames := m\<rparr> = with_ingress t (c\<lparr>cn_partialRequestFrames := m\<rparr>)"
  "(with_ingress t c)\<lparr>cn_inflightRequests := n\<rparr> = with_ingress t (c\<lparr>cn_inflightRequests := n\<rparr>)"
  "(with_ingress t c)\<lparr>cn_inflightWritesQueue := ws\<rparr> = with_ingress t (c\<lparr>cn_inflightWritesQueue := ws\<rparr>)"
  "(with_ingress t c)\<lparr>cn_streams := ss\<rparr> = with_ingress t (c\<lparr>cn_streams := ss\<rparr>)"
  "(with_ingress t c)\<lparr>cn_writeBatcher := wb\<rparr> = with_ingress t (c\<lparr>cn_writeBatcher := wb\<rparr>)"
  "(with_ingress t c)\<lparr>cn_drainTimer := b\<rparr> = with_ingress t (c\<lparr>cn_drainTimer := b\<rparr>)"
  "(with_ingress t c)\<lparr>cn_drainComplete := b\<rparr> = with_ingress t (c\<lparr>cn_drainComplete := b\<rparr>)"
  "(with_ingress t c)\<lparr>cn_readCB := b\<rparr> = with_ingress t (c\<lparr>cn_readCB := b\<rparr>)"
  "(with_ingress t c)\<lparr>cn_trace := tr\<rparr> = with_ingress t (c\<lparr>cn_trace := tr\<rparr>)"
  by (simp_all add: with_ingress_def)

lemma notify_ingress [ingress]: "notify ev (with_ingress t c) = with_ingress t (notify ev c)"
  by (simp add: notify_def ingress)

lemma flushWrites_ingress [ingress]: "flushWrites ws ctx (with_ingress t c) = with_ingress t (flushWrites ws ctx c)"
  by (simp add: flushWrites_def ingress)

lemma flushWritesWithFds_ingress [ingress]:
  "flushWritesWithFds n fds ws ctx (with_ingress t c) = with_ingress t (flushWritesWithFds n fds ws ctx c)"
  by (induction n fds ws ctx c rule: flushWritesWithFds.induct) (simp_all add: ingress Let_def)

lemma write_batch_ingress [ingress]:
  "flushPendingWrites (with_ingress t c) = with_ingress t (flushPendingWrites c)"
  "conn_send cfg bs cb fds (with_ingress t c) = with_ingress t (conn_send cfg bs cb fds c)"
  by (simp_all add: flushPendingWrites_def conn_send_def ingress Let_def split: option.splits)

lemma sends_ingress [ingress]:
  "wb_drain (with_ingress t c) = with_ingress t (wb_drain c)"
  "sendError cfg sid rex cb (with_ingress t c) = with_ingress t (sendError cfg sid rex cb c)"
  "sendMetadataPush cfg bs (with_ingress t c) = with_ingress t (sendMetadataPush cfg bs c)"
  "requestComplete (with_ingress t c) = with_ingress t (requestComplete c)"
  "sd_activate (with_ingress t c) = with_ingress t (sd_activate c)"
  "sd_drainComplete (with_ingress t c) = with_ingress t (sd_drainComplete c)"
  by (simp_all add: wb_drain_def sendError_def sendMetadataPush_def requestComplete_def sd_activate_def sd_drainComplete_def ingress Let_def)

lemma closeStreams_ingress [ingress]: "closeStreams ss (with_ingress t c) = with_ingress t (closeStreams ss c)"
  by (induction ss arbitrary: c) (simp_all add: ingress)

lemma closeIfClosing_ingress [ingress]: "closeIfClosing (with_ingress t c) = with_ingress t (closeIfClosing c)"
  by (simp add: closeIfClosing_def isBusy_def ingress Let_def)

lemma closeIfNeeded_ingress [ingress]: "closeIfNeeded cfg (with_ingress t c) = with_ingress t (closeIfNeeded cfg c)"
  by (simp add: closeIfNeeded_def ingress Let_def split: option.split)

lemma conn_close_ingress [ingress]: "conn_close cfg ew (with_ingress t c) = with_ingress t (conn_close cfg ew c)"
  by (simp add: conn_close_def ingress Let_def)

lemma requests_ingress [ingress]:
  "frame_context_destroyed cfg mark (with_ingress t c) = with_ingress t (frame_context_destroyed cfg mark c)"
  "createClientCallback sid (with_ingress t c) = map_prod id (with_ingress t) (createClientCallback sid c)"
  "incInflightRequests (with_ingress t c) = with_ingress t (incInflightRequests c)"
  by (simp_all add: frame_context_destroyed_def decInflightRequests_def createClientCallback_def incInflightRequests_def ingress)

lemma onFullFrame_ingress [ingress]: "onFullFrame cfg f (with_ingress t c) = with_ingress t (onFullFrame cfg f c)"
  by (cases f) (simp_all add: onFullFrame_def ingress Let_def split: prod.split bool.split)

lemma frames_ingress [ingress]:
  "handleRequestFrame cfg f (with_ingress t c) = with_ingress t (handleRequestFrame cfg f c)"
  "handlePartialPayload cfg sid f pf (with_ingress t c) = with_ingress t (handlePartialPayload cfg sid f pf c)"
  "unhandleable cfg msg (with_ingress t c) = with_ingress t (unhandleable cfg msg c)"
  "handleClientPush push (with_ingress t c) = with_ingress t (handleClientPush push c)"
  by (simp_all add: handleRequestFrame_def handlePartialPayload_def unhandleable_def handleClientPush_def ingress Let_def
      split: option.split client_push.split)

lemma lift_frame_ingress:
  assumes "\<And>f c. k f (with_ingress t c) = with_ingress t (k f c)"
  shows "lift_frame r k (with_ingress t c) = map_prod id (with_ingress t) (lift_frame r k c)"
  using assms by (simp add: lift_frame_def split: sum.split)

lemma handleFrame_ingress: "handleFrame cfg body (with_ingress t c) = map_prod id (with_ingress t) (handleFrame cfg body c)"
  by (simp add: handleFrame_def dispatchFrame_def handleTrackedFrame_def handleUntrackedFrame_def ingress lift_frame_ingress Let_def
      split: sum.split option.split)

lemma with_ingress_idem [simp]: "with_ingress (cn_ingress c) c = c" "with_ingress t (with_ingress t' c) = with_ingress t c"
  by (simp_all add: with_ingress_def)

lemma handleFrame_keeps_ingress: "handleFrame cfg body c = (e, d) \<Longrightarrow> cn_ingress d = cn_ingress c"
  using handleFrame_ingress [of cfg body "cn_ingress c" c] by (metis prod.inject map_prod_simp with_ingress_idem(1) with_ingress_simps(15))

lemma frames_served:
  assumes "frames_handled cfg bodies c = Some d" and "\<forall>b\<in>set bodies. length b < 2 ^ 24 \<and> fst (mt_increment (length b + 3) (cn_ingress c))"
  shows "served (conn_owner cfg) c bodies d"
  using assms
proof (induction bodies arbitrary: c)
  case (Cons b bs)
  obtain c1 where h: "handleFrame cfg b c = (None, c1)" and d: "frames_handled cfg bs c1 = Some d"
    using Cons.prems(1) by (auto split: prod.splits option.splits)
  let ?n = "of_nat (length b + 3) :: u32" and ?t = "(cn_ingress c)\<lparr>mt_usage := mt_usage (cn_ingress c) + (length b + 3)\<rparr>"
  have keep: "cn_ingress c1 = cn_ingress c" using handleFrame_keeps_ingress [OF h] .
  have n: "unat ?n = length b + 3" using Cons.prems(2) by (intro size_u32) simp
  have inc: "o_incMemoryUsage (conn_owner cfg) ?n c = (True, with_ingress ?t c)"
    using Cons.prems(2) unfolding conn_owner_def parser_owner.simps incMemoryUsage_def n
    by (simp add: mt_increment_def with_ingress_def Let_def)
  have handle: "o_handleFrame (conn_owner cfg) b (with_ingress ?t c) = (None, with_ingress ?t c1)"
    using handleFrame_ingress [of cfg b ?t c] h by (simp add: conn_owner_def)
  have dec: "o_decMemoryUsage (conn_owner cfg) ?n (with_ingress ?t c1) = with_ingress (cn_ingress c1) c1"
    unfolding conn_owner_def parser_owner.simps decMemoryUsage_def n keep by (simp add: mt_decrement_def with_ingress_def)
  have "served (conn_owner cfg) c1 bs d" using Cons.IH [OF d] Cons.prems(2) keep by simp
  then show ?case by (intro served_Cons [OF inc handle]) (simp only: dec with_ingress_idem)
qed (simp add: served_Nil)

text \<open>
  C1: a request of any kind and any size reaches the server's frame handler as it was sent.  The client serializes it, in fragments if
  it is large; the bytes arrive in reads of any sizes; the parser of a connection that serves requests and has memory for each frame cuts them into frames,
  and the connection keeps the first parts and with the last frame hands the handler the request with its whole payload (and the flags of
  its first frame), counts it once, and opens its stream if it has one.  Parser, memory and the table of partial
  requests are left as they were.
\<close>

theorem request_over_the_wire:
  assumes "0 < K" and "K + 13 < 2 ^ 24" and "is_request_frame f" and "payload_consistent (request_payload f)" and "\<not> frame_hasFollows f"
    and "serving c" and "acceptable f c" and "frame_streamId f \<notin> set (cn_streams c)" and "cn_partialRequestFrames c (frame_streamId f) = None"
    and "\<forall>w\<in>set (request_serialize K f). fst (mt_increment (length w) (cn_ingress c))"
    and "concat ds = concat (request_serialize K f)"
  shows "\<exists>fl. parser_reads (conn_owner cfg) ds (FrameLengthParser fl_init) c =
    (FrameLengthParser fl_init,
     accepted (reframed fl (request_payload f) f) (trailed (length (request_serialize K f)) c))"
proof -
  obtain bodies fl where b: "request_serialize K f = map framed bodies" "\<forall>b\<in>set bodies. length b < 2 ^ 24"
    and d: "frames_handled cfg bodies c = Some (accepted (reframed fl (request_payload f) f) (trailed (length bodies) c))"
    using request_reassembly [OF assms(1-9)] by blast
  have "served (conn_owner cfg) c bodies (accepted (reframed fl (request_payload f) f) (trailed (length bodies) c))"
    using frames_served [OF d] b assms(10) by (simp add: framed_head)
  then have "parser_reads (conn_owner cfg) ds (FrameLengthParser fl_init) c =
      (FrameLengthParser fl_init, accepted (reframed fl (request_payload f) f) (trailed (length bodies) c))"
    by (rule fl_reads_served) (use b assms(11) in \<open>simp_all add: fl_inv_def fl_wf_def fl_between_def fl_init_def\<close>)
  then show ?thesis using b(1) by auto
qed

section \<open>Witness\<close>

definition sample_request :: frame where
  "sample_request = RequestStream_Frame \<lparr>rs_streamId = 5, rs_initialRequestN = 100, rs_flags = 0, rs_payload = makeFromMetadataAndData [1, 2, 3] [4, 5, 6, 7]\<rparr>"

definition sample_server :: conn where
  "sample_server = (conn_init sample_memory sample_memory)\<lparr>cn_setupFrameReceived := True, cn_decodeMetadataUsingBinary := Some False\<rparr>"

text \<open>A request in four frames, read byte by byte.\<close>

theorem request_over_the_wire_witness:
  "length (request_serialize 2 sample_request) = 4 \<and>
    (\<exists>fl. parser_reads (conn_owner sample_cfg) (map (\<lambda>b. [b]) (concat (request_serialize 2 sample_request))) (FrameLengthParser fl_init) sample_server =
      (FrameLengthParser fl_init, accepted (reframed fl (makeFromMetadataAndData [1, 2, 3] [4, 5, 6, 7]) sample_request) (trailed 4 sample_server)))"
proof -
  have f: "is_request_frame sample_request" "payload_consistent (request_payload sample_request)" "\<not> frame_hasFollows sample_request"
    "acceptable sample_request sample_server" "frame_streamId sample_request \<notin> set (cn_streams sample_server)"
    "request_payload sample_request = makeFromMetadataAndData [1, 2, 3] [4, 5, 6, 7]"
    by (simp_all add: sample_request_def sample_server_def conn_init_def payload_consistent_def makeFromMetadataAndData_def flags_get_def)
  moreover have "serving sample_server" "cn_partialRequestFrames sample_server (frame_streamId sample_request) = None"
    by (simp_all add: sample_server_def conn_init_def)
  moreover have n: "length (request_serialize 2 sample_request) = 4"
    "\<forall>w\<in>set (request_serialize 2 sample_request). fst (mt_increment (length w) (cn_ingress sample_server))" by code_simp+
  ultimately show ?thesis
    using request_over_the_wire [of 2 sample_request sample_server "map (\<lambda>b. [b]) (concat (request_serialize 2 sample_request))" sample_cfg] n
    by (simp add: concat_map_singleton)
qed

end
