(* ===== verification/Protocol_Bounds.thy ===== *)
theory Protocol_Bounds
  imports Value_Roundtrip
begin

text \<open>
  Hostile input: \<open>skip\<close> and the schemaless parser return on every input, after a number of steps that is
  linear in its length, and what the parser builds is no larger than what it read.

  Both functions pay for what they do with input.  A reader comes with a measure of its input that every
  operation lowers by what it delivers (\<open>paid\<close>); the locale \<open>consuming_reader\<close> states this for the operations of a
  protocol, the two protocols interpret it, and the bounds are proved once, inside the locale.
\<close>

section \<open>Paying with input\<close>

text \<open>
  From a state of measure at most \<open>B\<close>, \<open>m\<close> does not run out of fuel, and a result \<open>a\<close> is paid for: the measure
  falls by its weight, less the credit \<open>c\<close>.
\<close>

definition paid :: "('s \<Rightarrow> nat) \<Rightarrow> nat \<Rightarrow> ('a \<Rightarrow> nat) \<Rightarrow> nat \<Rightarrow> ('s, 'a) st \<Rightarrow> bool" where
  "paid \<mu> c wt B m \<longleftrightarrow> (\<forall>s. \<mu> s \<le> B \<longrightarrow> (case m s of Inl e \<Rightarrow> e \<noteq> OutOfFuel | Inr (a, s') \<Rightarrow> \<mu> s' + wt a \<le> \<mu> s + c))"

named_theorems paid

lemma paidI: "(\<And>s. case m s of Inl e \<Rightarrow> e \<noteq> OutOfFuel | Inr (a, s') \<Rightarrow> \<mu> s' + wt a \<le> \<mu> s + c) \<Longrightarrow> paid \<mu> c wt B m"
  by (simp add: paid_def)

lemma paid_sret [paid]: "wt a \<le> c \<Longrightarrow> paid \<mu> c wt B (sret a)"
  by (simp add: paid_def)

lemma paid_sfail [paid]: "e \<noteq> OutOfFuel \<Longrightarrow> paid \<mu> c wt B (sfail e)"
  by (simp add: paid_def)

lemma paid_sguard [paid]: "e \<noteq> OutOfFuel \<Longrightarrow> paid \<mu> c (\<lambda>_. 0) B (sguard b e)"
  by (simp add: paid_def)

lemma paid_scheck [paid]: "e \<noteq> OutOfFuel \<Longrightarrow> paid \<mu> c (\<lambda>_. 0) B (scheck b e)"
  by (simp add: paid_def scheck_def)

lemma paid_bind:
  assumes "paid \<mu> 0 v B m" and "\<And>a. v a \<le> B \<Longrightarrow> paid \<mu> (c + v a) wt (B - v a) (k a)"
  shows "paid \<mu> c wt B (sbind m k)"
  unfolding paid_def
proof (intro allI impI)
  fix s assume B: "\<mu> s \<le> B"
  show "case sbind m k s of Inl e \<Rightarrow> e \<noteq> OutOfFuel | Inr (b, s'') \<Rightarrow> \<mu> s'' + wt b \<le> \<mu> s + c"
  proof (cases "m s")
    case (Inl e)
    then show ?thesis using assms(1) B by (auto simp: paid_def sbind_def)
  next
    case (Inr r)
    obtain a s' where r: "r = (a, s')" by fastforce
    have "\<mu> s' + v a \<le> \<mu> s" using assms(1) B Inr r by (auto simp: paid_def)
    then have "v a \<le> B" "\<mu> s' \<le> B - v a" "\<mu> s' + v a \<le> \<mu> s" using B by simp_all
    then show ?thesis using assms(2) [of a] Inr r by (fastforce simp: paid_def sbind_def split: sum.splits)
  qed
qed

lemma paid_weaken:
  assumes "paid \<mu> c v B m" and "\<And>a. wt a + c \<le> v a + c'"
  shows "paid \<mu> c' wt B m"
proof -
  have "\<mu> s' + wt a \<le> \<mu> s + c'" if "\<mu> s' + v a \<le> \<mu> s + c" for s s' a
    using that assms(2) [of a] by linarith
  then show ?thesis using assms(1) by (fastforce simp: paid_def split: sum.splits)
qed

lemma paid_if [paid]: "(b \<Longrightarrow> paid \<mu> c wt B m) \<Longrightarrow> (\<not> b \<Longrightarrow> paid \<mu> c wt B n) \<Longrightarrow> paid \<mu> c wt B (if b then m else n)"
  by simp

lemma sbind_if: "sbind (if b then m else n) k = (if b then sbind m k else sbind n k)"
  by simp

lemma paid_prod [paid]: "(\<And>x y. p = (x, y) \<Longrightarrow> paid \<mu> c wt B (f x y)) \<Longrightarrow> paid \<mu> c wt B (case p of (x, y) \<Rightarrow> f x y)"
  by (cases p) simp

section \<open>Fuel\<close>

text \<open>More fuel changes nothing but the lack of it.\<close>

definition below :: "('s, 'a) st \<Rightarrow> ('s, 'a) st \<Rightarrow> bool" where
  "below m m' \<longleftrightarrow> (\<forall>s. m s = Inl OutOfFuel \<or> m' s = m s)"

named_theorems below

lemma below_refl [below]: "below m m"
  by (simp add: below_def)

lemma below_fuel [below]: "below (sfail OutOfFuel) m"
  by (simp add: below_def)

lemma below_bind [below]:
  assumes "below m m'" and "\<And>a. below (k a) (k' a)"
  shows "below (sbind m k) (sbind m' k')"
  unfolding below_def
proof
  fix s
  have m: "m s = Inl OutOfFuel \<or> m' s = m s" and k: "k a s' = Inl OutOfFuel \<or> k' a s' = k a s'" for a s'
    using assms by (simp_all add: below_def)
  show "sbind m k s = Inl OutOfFuel \<or> sbind m' k' s = sbind m k s"
    using m k [of "fst (projr (m s))" "snd (projr (m s))"] by (cases "m s") (auto simp: sbind_def)
qed

lemma below_if [below]: "(b \<Longrightarrow> below m m') \<Longrightarrow> (\<not> b \<Longrightarrow> below n n') \<Longrightarrow> below (if b then m else n) (if b then m' else n')"
  by simp

lemma below_prod [below]: "(\<And>x y. below (f x y) (g x y)) \<Longrightarrow> below (case p of (x, y) \<Rightarrow> f x y) (case p of (x, y) \<Rightarrow> g x y)"
  by (cases p) simp

lemma below_trans: "below l m \<Longrightarrow> below m n \<Longrightarrow> below l n"
  unfolding below_def by metis

lemma below_mono:
  assumes "\<And>n. below (f n) (f (Suc n))" and "n \<le> n'"
  shows "below (f n) (f n')"
  using assms(2) by (induction rule: dec_induct) (auto intro: below_refl below_trans assms(1))

lemma skip_more_fuel:
  "below (skip P D fuel t depth) (skip P D (Suc fuel) t depth)"
  "below (skip_fields P D fuel depth) (skip_fields P D (Suc fuel) depth)"
  "below (skip_n P D fuel n types depth) (skip_n P D (Suc fuel) n types depth)"
  "below (skip_loop P D fuel i types depth) (skip_loop P D (Suc fuel) i types depth)"
  "below (skip_types P D fuel types depth) (skip_types P D (Suc fuel) types depth)"
proof (induction fuel arbitrary: t depth n types i)
  case (Suc fuel)
  {
    case 1
    show ?case
      by (subst (1 2) skip.simps(2)) (auto split: prod.splits intro!: below Suc.IH)
  next
    case 2
    show ?case
      by (subst (1 2) skip_fields.simps(2)) (auto split: prod.splits intro!: below Suc.IH)
  next
    case 3
    show ?case
      by (subst (1 2) skip_n.simps(2)) (auto simp: Let_def intro!: below Suc.IH)
  next
    case 4
    show ?case
      by (subst (1 2) skip_loop.simps(2)) (auto intro!: below Suc.IH split: nat.split)
  next
    case 5
    show ?case
      by (subst (1 2) skip_types.simps(2)) (auto intro!: below Suc.IH split: list.split)
  }
qed (simp_all add: below_fuel)

lemma parse_more_fuel:
  "below (parseValue P veq stb fuel t) (parseValue P veq stb (Suc fuel) t)"
  "below (parseObject P veq stb fuel fs) (parseObject P veq stb (Suc fuel) fs)"
  "below (parseMap P veq stb fuel kt vt n kvs) (parseMap P veq stb (Suc fuel) kt vt n kvs)"
  "below (parseSet P veq stb fuel et n xs) (parseSet P veq stb (Suc fuel) et n xs)"
  "below (parseList P veq stb fuel et n) (parseList P veq stb (Suc fuel) et n)"
proof (induction fuel arbitrary: t fs kt vt n kvs et xs)
  case (Suc fuel)
  {
    case 1
    show ?case by (subst (1 2) parseValue.simps(2)) (simp only: Let_def, intro below Suc.IH)
  next
    case 2
    show ?case by (subst (1 2) parseObject.simps(2)) (auto split: prod.splits intro!: below Suc.IH)
  next
    case 3
    show ?case by (subst (1 2) parseMap.simps(2)) (auto split: nat.split intro!: below Suc.IH)
  next
    case 4
    show ?case by (subst (1 2) parseSet.simps(2)) (auto split: nat.split intro!: below Suc.IH)
  next
    case 5
    show ?case by (subst (1 2) parseList.simps(2)) (auto split: nat.split intro!: below Suc.IH)
  }
qed (simp_all add: below_fuel)

section \<open>Readers that consume their input\<close>

text \<open>The weight of a value: one unit for every value and field in it, and one for every byte of a string.\<close>

fun vweight :: "tvalue \<Rightarrow> nat" where
  "vweight (VString s) = 1 + length s"
| "vweight (VBinary s) = 1 + length s"
| "vweight (VObject fs) = 1 + sum_list (map (\<lambda>(i, v). 1 + vweight v) fs)"
| "vweight (VList vs) = 1 + sum_list (map vweight vs)"
| "vweight (VSet vs) = 1 + sum_list (map vweight vs)"
| "vweight (VMap kvs) = 1 + sum_list (map (\<lambda>(k, v). vweight k + vweight v) kvs)"
| "vweight _ = 1"

abbreviation fields_weight :: "(i16 \<times> tvalue) list \<Rightarrow> nat" where
  "fields_weight fs \<equiv> sum_list (map (\<lambda>(i, v). 1 + vweight v) fs)"

abbreviation entries_weight :: "(tvalue \<times> tvalue) list \<Rightarrow> nat" where
  "entries_weight kvs \<equiv> sum_list (map (\<lambda>(k, v). vweight k + vweight v) kvs)"

lemma vweight_pos [simp]: "0 < vweight v"
  by (cases v) simp_all

lemma fields_weight_set: "fields_weight (assoc_set eq i v fs) \<le> fields_weight fs + (1 + vweight v)"
  by (induction fs) auto

lemma entries_weight_set: "entries_weight (assoc_set eq k v kvs) \<le> entries_weight kvs + (vweight k + vweight v)"
  by (induction kvs) auto

lemma set_weight_insert: "sum_list (map vweight (set_insert eq v vs)) \<le> sum_list (map vweight vs) + vweight v"
  by (simp add: set_insert_def)

locale consuming_reader =
  fixes P :: "'r protocol_reader" and \<mu> :: "'r \<Rightarrow> nat"
  assumes free [paid]: "paid \<mu> 0 (\<lambda>_. 0) B (r_readStructBegin P)" "paid \<mu> 0 (\<lambda>_. 0) B (r_readStructEnd P)"
      "paid \<mu> 0 (\<lambda>_. 0) B (r_readFieldEnd P)" "paid \<mu> 0 (\<lambda>_. 0) B (r_readMapEnd P)" "paid \<mu> 0 (\<lambda>_. 0) B (r_readListEnd P)"
      "paid \<mu> 0 (\<lambda>_. 0) B (r_readSetEnd P)" "paid \<mu> 0 (\<lambda>_. 0) B (r_skipBytes P n)"
    and headers [paid]: "paid \<mu> 0 (\<lambda>_. 1) B (r_readFieldBegin P)" "paid \<mu> 0 (\<lambda>_. 1) B (r_readMapBegin P)"
      "paid \<mu> 0 (\<lambda>_. 1) B (r_readListBegin P)" "paid \<mu> 0 (\<lambda>_. 1) B (r_readSetBegin P)"
    and scalars [paid]: "paid \<mu> 0 (\<lambda>_. 1) B (r_readBool P)" "paid \<mu> 0 (\<lambda>_. 1) B (r_readByte P)" "paid \<mu> 0 (\<lambda>_. 1) B (r_readI16 P)"
      "paid \<mu> 0 (\<lambda>_. 1) B (r_readI32 P)" "paid \<mu> 0 (\<lambda>_. 1) B (r_readI64 P)" "paid \<mu> 0 (\<lambda>_. 1) B (r_readDouble P)"
      "paid \<mu> 0 (\<lambda>_. 1) B (r_readFloat P)" "paid \<mu> 0 (\<lambda>_. 1) B (r_skipString P)"
    and strings [paid]: "paid \<mu> 0 (\<lambda>s. 1 + length s) B (r_readString P)" "paid \<mu> 0 (\<lambda>s. 1 + length s) B (r_readBinary P)"
begin

lemmas laws = free headers scalars strings
lemmas steps = laws [THEN paid_bind]
lemmas tails = laws [THEN paid_weaken]

lemma skip_paid:
  "4 * B + 2 \<le> fuel \<Longrightarrow> paid \<mu> 0 (\<lambda>_. 1) B (skip P D fuel t depth)"
  "4 * B + 1 \<le> fuel \<Longrightarrow> paid \<mu> 0 (\<lambda>_. 1) B (skip_fields P D fuel depth)"
  "4 * B + 5 \<le> fuel \<Longrightarrow> types \<noteq> [] \<Longrightarrow> paid \<mu> 0 (\<lambda>_. 0) B (skip_n P D fuel n types depth)"
  "4 * B + 4 \<le> fuel \<Longrightarrow> types \<noteq> [] \<Longrightarrow> paid \<mu> 0 (\<lambda>_. 0) B (skip_loop P D fuel i types depth)"
  "4 * B + 3 \<le> fuel \<Longrightarrow> paid \<mu> 0 (\<lambda>_. of_bool (types \<noteq> [])) B (skip_types P D fuel types depth)"
proof (induction fuel arbitrary: B t depth n types i)
  case (Suc fuel)
  note IH = Suc.IH [THEN paid_bind] and ends = Suc.IH [THEN paid_weaken]
  {
    case 1
    then show ?case by (subst skip.simps(2)) (intro paid steps IH tails; simp)
  next
    case 2
    then show ?case by (subst skip_fields.simps(2)) (intro paid steps IH ends; simp)
  next
    case 3
    then show ?case by (subst skip_n.simps(2)) (simp only: Let_def, intro paid tails ends; simp)
  next
    case 4
    then show ?case by (subst skip_loop.simps(2)) (cases i; simp; intro paid IH ends; simp)
  next
    case 5
    then show ?case by (subst skip_types.simps(2)) (cases types; simp; intro paid IH ends; simp)
  }
qed simp_all

lemma parse_paid:
  "2 * B + 2 \<le> fuel \<Longrightarrow> paid \<mu> 0 vweight B (parseValue P veq stb fuel t)"
  "2 * B + 1 \<le> fuel \<Longrightarrow> paid \<mu> (fields_weight fs) (\<lambda>fs'. 1 + fields_weight fs') B (parseObject P veq stb fuel fs)"
  "2 * B + 3 \<le> fuel \<Longrightarrow> paid \<mu> (entries_weight kvs) entries_weight B (parseMap P veq stb fuel kt vt n kvs)"
  "2 * B + 3 \<le> fuel \<Longrightarrow> paid \<mu> (sum_list (map vweight xs)) (\<lambda>xs'. sum_list (map vweight xs')) B (parseSet P veq stb fuel et n xs)"
  "2 * B + 3 \<le> fuel \<Longrightarrow> paid \<mu> 0 (\<lambda>xs'. sum_list (map vweight xs')) B (parseList P veq stb fuel et n)"
proof (induction fuel arbitrary: B t fs kvs kt vt n xs et)
  case (Suc fuel)
  note IH = Suc.IH(1,5) [THEN paid_bind] Suc.IH(2-4) [of _ "[]", simplified, THEN paid_bind] and ends = Suc.IH [THEN paid_weaken]
  {
    case 1
    then show ?case
      by (subst parseValue.simps(2)) (simp only: Let_def, intro paid steps IH tails paid_scheck [THEN paid_bind]; simp)
  next
    case 2
    then show ?case using fields_weight_set
      by (subst parseObject.simps(2)) (intro paid steps IH ends; simp)
  next
    case 3
    have "2 * (B - (vweight k + vweight v)) + 3 \<le> fuel" if "vweight k \<le> B" for k v using 3 that vweight_pos [of k] by linarith
    then show ?case using 3 entries_weight_set
      by (subst parseMap.simps(2)) (cases n; simp; intro paid IH ends; simp add: add.assoc)
  next
    case 4
    have "2 * (B - vweight v) + 3 \<le> fuel" if "vweight v \<le> B" for v using 4 that vweight_pos [of v] by linarith
    then show ?case using 4 set_weight_insert
      by (subst parseSet.simps(2)) (cases n; simp; intro paid IH ends; simp)
  next
    case 5
    have "2 * (B - vweight v) + 3 \<le> fuel" if "vweight v \<le> B" for v using 5 that vweight_pos [of v] by linarith
    then show ?case using 5 by (subst parseList.simps(2)) (cases n; simp; intro paid IH ends; simp)
  }
qed simp_all

end

section \<open>The two protocols\<close>

lemma paid_bind_any:
  assumes "\<And>B. paid \<mu> d v B m" and "d \<le> c" and "\<And>a B. paid \<mu> (c - d + v a) wt B (k a)"
  shows "paid \<mu> c wt B (sbind m k)"
  unfolding paid_def
proof (intro allI impI)
  fix s assume "\<mu> s \<le> B"
  show "case sbind m k s of Inl e \<Rightarrow> e \<noteq> OutOfFuel | Inr (b, s'') \<Rightarrow> \<mu> s'' + wt b \<le> \<mu> s + c"
  proof (cases "m s")
    case (Inl e)
    then show ?thesis using assms(1) [of "\<mu> s"] by (auto simp: paid_def sbind_def)
  next
    case (Inr r)
    obtain a s' where r: "r = (a, s')" by fastforce
    have "\<mu> s' + v a \<le> \<mu> s + d" using assms(1) [of "\<mu> s"] Inr r by (auto simp: paid_def)
    then show ?thesis using assms(2) assms(3) [of a "\<mu> s'"] Inr r by (fastforce simp: paid_def sbind_def split: sum.splits)
  qed
qed

lemma paid_keep: "(\<And>s. \<mu> (f s) = \<mu> s) \<Longrightarrow> paid \<mu> 0 (\<lambda>_. 0) B (smod f)" "paid \<mu> 0 (\<lambda>_. 0) B (sget g)"
  by (simp_all add: paid_def)

lemma paid_descend: "(\<And>s h. \<mu> (s\<lparr>pb_height := h\<rparr>) = \<mu> s) \<Longrightarrow> paid \<mu> 0 (\<lambda>_. 0) B descend"
  "(\<And>s h. \<mu> (s\<lparr>pb_height := h\<rparr>) = \<mu> s) \<Longrightarrow> paid \<mu> 0 (\<lambda>_. 0) B ascend"
  by (simp_all add: paid_def descend_apply)

context cursor begin

abbreviation left where "left c \<equiv> length (rem c)"

lemma paid_c_read: "paid left 0 (\<lambda>_. n) B (c_read C n)" "paid left 0 length B (c_read C n)"
  by (auto simp: paid_def c_read_def split: option.splits sum.splits dest: read_SomeD)

lemma paid_c_readBE: "paid left 0 (\<lambda>_. n) B (c_readBE C n :: ('c, 'w::len word) st)"
  unfolding c_readBE_def by (intro paid_bind [OF paid_c_read(1)] paid) simp

lemma paid_c_skip: "paid left 0 (\<lambda>_. 0) B (c_skip C n)"
proof -
  have "left c' \<le> left c" if "cur_skip C n c = Some c'" for c c'
    using skip_ok [of n c] skip_eof [of c n] that by (cases "n \<le> left c") auto
  then show ?thesis by (auto simp: paid_def c_skip_def split: option.split)
qed

lemma paid_string_body: "paid left 0 length B (readStringBody_string C n)" "paid left 0 length B (readStringBody C n)"
proof -
  have "case readStringBody_string C n c of Inl e \<Rightarrow> e \<noteq> OutOfFuel | Inr (a, c') \<Rightarrow> left c' + length a \<le> left c + 0"
    and "case readStringBody C n c of Inl e \<Rightarrow> e \<noteq> OutOfFuel | Inr (a, c') \<Rightarrow> left c' + length a \<le> left c + 0" for c
    using readStringBody_truncated [of c n] readStringBody_ok [of c "take n (rem c)" "drop n (rem c)" n]
      readStringBody_string_ok [of c "take n (rem c)" "drop n (rem c)" n]
    by (cases "n \<le> left c"; auto)+
  note this [THEN paidI]
  then show "paid left 0 length B (readStringBody_string C n)" "paid left 0 length B (readStringBody C n)" .
qed

lemma paid_implements:
  fixes m :: "('c, 'w::len word) st"
  assumes "implements rem m varint_decode"
  shows "paid left 0 (\<lambda>_. 1) B m"
proof (rule paidI)
  fix c
  have "varint_spec n i acc bs \<noteq> Inl OutOfFuel" for n i bs and acc :: "'w word"
    by (induction n i acc bs rule: varint_spec.induct) (auto simp: Let_def)
  then have "varint_decode (rem c) \<noteq> (Inl OutOfFuel :: thrift_error + 'w word \<times> nat)" by (simp add: varint_decode_def)
  then show "case m c of Inl e \<Rightarrow> e \<noteq> OutOfFuel | Inr (a, c') \<Rightarrow> left c' + 1 \<le> left c + 0"
    using assms [unfolded implements_def outcome_def, rule_format, of c] varint_decode_consumed [of "rem c", where 'a = 'w]
    by (auto split: sum.splits prod.splits)
qed

lemma paid_varint:
  "paid left 0 (\<lambda>_. 1) B (readVarint A C :: ('c, u64) st)" "paid left 0 (\<lambda>_. 1) B (readVarint A C :: ('c, u32) st)"
  by (intro paid_implements readVarint_implements contiguous_ok_64 contiguous_ok_32; simp)+

lemma paid_zigzag:
  "paid left 0 (\<lambda>_. 1) B (readZigzaggedVarint16 A C)" "paid left 0 (\<lambda>_. 1) B (readZigzaggedVarint A C :: ('c, u32) st)"
  "paid left 0 (\<lambda>_. 1) B (readZigzaggedVarint A C :: ('c, u64) st)"
  unfolding readZigzaggedVarint16_def readZigzaggedVarint_def by (intro paid paid_varint [THEN paid_bind]; simp)+

end

lemma paid_br_cursor:
  assumes "paid \<mu> c wt B m"
  shows "paid (\<lambda>r. \<mu> (br_in r)) c wt B (br_cursor m)"
  unfolding paid_def br_cursor_def
proof (intro allI impI)
  fix r assume "\<mu> (br_in r) \<le> B"
  then show "case (case m (br_in r) of Inl e \<Rightarrow> Inl e | Inr (a, c) \<Rightarrow> Inr (a, r\<lparr>br_in := c\<rparr>)) of
      Inl e \<Rightarrow> e \<noteq> OutOfFuel | Inr (a, r') \<Rightarrow> \<mu> (br_in r') + wt a \<le> \<mu> (br_in r) + c"
    using assms by (auto simp: paid_def split: sum.splits)
qed

text \<open>In the Compact protocol the value of a boolean field comes with the field's header; reading it takes the pending value.\<close>

definition compact_measure :: "('c \<Rightarrow> bytes) \<Rightarrow> 'c compact_reader \<Rightarrow> nat" where
  "compact_measure rem r = 2 * length (rem (cr_in r)) + of_bool (cr_boolValue r \<noteq> None)"

lemma paid_cr_cursor:
  assumes "\<And>B. paid (\<lambda>c. length (rem c)) 0 wt B m"
  shows "paid (compact_measure rem) 0 (\<lambda>a. 2 * wt a) B (cr_cursor m)"
proof (rule paidI)
  fix r
  show "case cr_cursor m r of Inl e \<Rightarrow> e \<noteq> OutOfFuel | Inr (a, r') \<Rightarrow> compact_measure rem r' + 2 * wt a \<le> compact_measure rem r + 0"
    using assms [of "length (rem (cr_in r))"] by (auto simp: paid_def cr_cursor_def compact_measure_def split: sum.splits)
qed

context cursor begin

lemma paid_binary:
  "paid (\<lambda>r. left (br_in r)) 0 (\<lambda>_. n) B (br_cursor (c_readBE C n :: ('c, 'w::len word) st))"
  "paid (\<lambda>r. left (br_in r)) 0 (\<lambda>_. 0) B (br_cursor (c_skip C n))"
  "paid (\<lambda>r. left (br_in r)) 0 length B (br_cursor (c_read C n))"
  "paid (\<lambda>r. left (br_in r)) 0 length B (br_cursor (readStringBody C n))"
  "paid (\<lambda>r. left (br_in r)) 0 length B (br_cursor (readStringBody_string C n))"
  by (intro paid_br_cursor paid_c_readBE paid_c_skip paid_c_read paid_string_body)+

lemma paid_binary_state:
  "paid (\<lambda>r. left (br_in r)) 0 (\<lambda>_. 0) B (br_checkStringSize sz)"
  "paid (\<lambda>r. left (br_in r)) 0 (\<lambda>_. 0) B (br_checkContainerSize sz)"
  "paid (\<lambda>r. left (br_in r)) 0 (\<lambda>_. 0) B (descend :: ('c binary_reader, unit) st)"
  "paid (\<lambda>r. left (br_in r)) 0 (\<lambda>_. 0) B (ascend :: ('c binary_reader, unit) st)"
  by (rule paidI, simp add: br_checkStringSize_def br_checkContainerSize_def sbind_def descend_apply)+

lemmas binary_steps = paid_binary [THEN paid_bind] paid_binary_state [THEN paid_bind] paid_binary [THEN paid_weaken] paid_binary_state [THEN paid_weaken]

lemmas binary_reads = br_readStructBegin_def br_readStructEnd_def br_readFieldEnd_def br_readMapEnd_def br_readListEnd_def br_readSetEnd_def
  br_skipBytes_def br_readFieldBegin_def br_readMapBegin_def br_readListBegin_def br_readSetBegin_def br_readBool_def br_readByte_def
  br_readI16_def br_readI32_def br_readI64_def br_readDouble_def br_readFloat_def br_skipString_def br_readStringBody_noop_def
  br_readString_def br_readStringBody_def br_readBinary_def

end

sublocale cursor \<subseteq> binary_in: consuming_reader "BinaryProtocolReader C" "\<lambda>r. left (br_in r)"
  by unfold_locales
    (simp only: BinaryProtocolReader_def protocol_reader.simps binary_reads sbind_assoc,
      intro paid binary_steps paid_sguard [THEN paid_bind]; simp)+

context cursor begin

lemma paid_compact:
  "paid (compact_measure rem) 0 (\<lambda>_. 2 * n) B (cr_cursor (c_readBE C n :: ('c, 'w::len word) st))"
  "paid (compact_measure rem) 0 (\<lambda>_. 2 * 0) B (cr_cursor (c_skip C n))"
  "paid (compact_measure rem) 0 (\<lambda>bs. 2 * length bs) B (cr_cursor (c_read C n))"
  "paid (compact_measure rem) 0 (\<lambda>bs. 2 * length bs) B (cr_cursor (readStringBody C n))"
  "paid (compact_measure rem) 0 (\<lambda>bs. 2 * length bs) B (cr_cursor (readStringBody_string C n))"
  "paid (compact_measure rem) 0 (\<lambda>_. 2 * 1) B (cr_cursor (readVarint A C :: ('c, u32) st))"
  "paid (compact_measure rem) 0 (\<lambda>_. 2 * 1) B (cr_cursor (readZigzaggedVarint16 A C))"
  "paid (compact_measure rem) 0 (\<lambda>_. 2 * 1) B (cr_cursor (readZigzaggedVarint A C :: ('c, u32) st))"
  "paid (compact_measure rem) 0 (\<lambda>_. 2 * 1) B (cr_cursor (readZigzaggedVarint A C :: ('c, u64) st))"
  by (rule paid_cr_cursor, rule paid_c_readBE paid_c_skip paid_c_read(2) paid_string_body paid_varint paid_zigzag)+

lemma paid_compact_state:
  "paid (compact_measure rem) 0 (\<lambda>_. 0) B (cr_checkStringSize sz)"
  "paid (compact_measure rem) 0 (\<lambda>_. 0) B (cr_checkContainerSize sz)"
  "paid (compact_measure rem) 0 (\<lambda>_. 0) B (descend :: ('c compact_reader, unit) st)"
  "paid (compact_measure rem) 0 (\<lambda>_. 0) B (ascend :: ('c compact_reader, unit) st)"
  "paid (compact_measure rem) 0 (\<lambda>_. 0) B (getType t)"
  "paid (compact_measure rem) 0 (\<lambda>_. 0) B cr_readStructBegin"
  "paid (compact_measure rem) 0 (\<lambda>_. 0) B cr_readStructEnd"
  "paid (compact_measure rem) 0 (\<lambda>_. 0) B (smod (\<lambda>r. r\<lparr>cr_lastFieldId := i\<rparr>))"
  "paid (compact_measure rem) 0 (\<lambda>_. 0) B (sget cr_lastFieldId)"
  by (rule paidI, simp add: cr_checkStringSize_def cr_checkContainerSize_def sbind_def descend_apply getType_def
      cr_readStructBegin_def cr_readStructEnd_def compact_measure_def split: list.split)+

lemmas compact_steps = paid_compact [THEN paid_bind] paid_compact_state [THEN paid_bind] paid_compact [THEN paid_weaken] paid_compact_state [THEN paid_weaken]

lemma paid_pending: "paid (compact_measure rem) 1 (\<lambda>_. 0) B (smod (\<lambda>r. r\<lparr>cr_boolValue := Some b\<rparr>))"
  by (rule paidI) (simp add: compact_measure_def)

lemma paid_readBool: "paid (compact_measure rem) 0 (\<lambda>_. 1) B (cr_readBool C)"
proof (rule paidI)
  fix r
  have "case cr_readByte C r of Inl e \<Rightarrow> e \<noteq> OutOfFuel | Inr (a, r') \<Rightarrow> compact_measure rem r' + 2 \<le> compact_measure rem r"
    using paid_compact(1) [of 1 "compact_measure rem r", where 'w = 8] by (auto simp: paid_def cr_readByte_def split: sum.splits)
  then show "case cr_readBool C r of Inl e \<Rightarrow> e \<noteq> OutOfFuel | Inr (a, r') \<Rightarrow> compact_measure rem r' + 1 \<le> compact_measure rem r + 0"
    by (cases "cr_boolValue r") (auto simp: cr_readBool_def sbind_def compact_measure_def split: sum.splits)
qed

lemmas compact_reads = cr_readFieldEnd_def cr_readMapEnd_def cr_readListEnd_def cr_readSetEnd_def
  cr_skipBytes_def cr_readMapBegin_def cr_readListBegin_def cr_readSetBegin_def cr_readByte_def
  cr_readI16_def cr_readI32_def cr_readI64_def cr_readDouble_def cr_readFloat_def cr_skipString_def cr_readStringSize_def
  cr_readString_def cr_readBinary_def

lemma paid_readFieldBegin: "paid (compact_measure rem) 0 (\<lambda>_. 1) B (cr_readFieldBegin A C)"
  unfolding cr_readFieldBegin_def Let_def cr_readByte_def cr_readI16_def sbind_if sbind_assoc sbind_sret
  by (intro paid compact_steps paid_bind_any [OF paid_pending]; simp)

end

sublocale cursor \<subseteq> compact_in: consuming_reader "CompactProtocolReader A C" "compact_measure rem"
  by unfold_locales
    (simp only: CompactProtocolReader_def protocol_reader.simps compact_reads sbind_assoc sbind_if sbind_sret Let_def,
      intro paid compact_steps paid_readBool paid_readFieldBegin; simp)+

section \<open>Every input is read to an end\<close>

text \<open>A function with fuel returns with \<open>n\<close> units of fuel, and more make no difference.\<close>

definition returns_with :: "(nat \<Rightarrow> ('s, 'a) st) \<Rightarrow> nat \<Rightarrow> 's \<Rightarrow> bool" where
  "returns_with f n s \<longleftrightarrow> f n s \<noteq> Inl OutOfFuel \<and> (\<forall>n'\<ge>n. f n' s = f n s)"

lemma returns_withI:
  assumes "\<And>n. below (f n) (f (Suc n))" and "paid \<mu> 0 wt (\<mu> s) (f n)"
  shows "returns_with f n s"
proof -
  have "f n s \<noteq> Inl OutOfFuel" using assms(2) by (auto simp: paid_def)
  then show ?thesis using below_mono [of f n, OF assms(1)] by (auto simp: returns_with_def below_def)
qed

text \<open>A result, with whatever fuel it was obtained, is paid for.\<close>

lemma paid_result:
  assumes "\<And>n. below (f n) (f (Suc n))" and "\<And>n. N \<le> n \<Longrightarrow> paid \<mu> 0 wt (\<mu> s) (f n)" and "f n s = Inr (a, s')"
  shows "\<mu> s' + wt a \<le> \<mu> s"
proof -
  have "below (f n) (f (max n N))" using assms(1) by (rule below_mono) simp
  then have "f n s = Inl OutOfFuel \<or> f (max n N) s = f n s" unfolding below_def by blast
  then have "f (max n N) s = Inr (a, s')" using assms(3) by simp
  then show ?thesis using assms(2) [of "max n N"] by (fastforce simp: paid_def)
qed

context cursor begin

lemma binary_skip_returns: "returns_with (\<lambda>fuel. skip (BinaryProtocolReader C) D fuel t depth) (4 * left (br_in b) + 2) b"
  by (rule returns_withI, rule skip_more_fuel(1), rule binary_in.skip_paid(1)) simp

lemma compact_skip_returns: "returns_with (\<lambda>fuel. skip (CompactProtocolReader A C) D fuel t depth) (8 * left (cr_in r) + 6) r"
  by (rule returns_withI, rule skip_more_fuel(1), rule compact_in.skip_paid(1)) (simp add: compact_measure_def)

lemma binary_skip_result: "skip (BinaryProtocolReader C) D fuel t depth b = Inr (u, b') \<Longrightarrow> left (br_in b') + 1 \<le> left (br_in b)"
  by (rule paid_result [where f = "\<lambda>fuel. skip (BinaryProtocolReader C) D fuel t depth" and wt = "\<lambda>_. 1", OF skip_more_fuel(1) binary_in.skip_paid(1)])

lemma compact_skip_result: "skip (CompactProtocolReader A C) D fuel t depth r = Inr (u, r') \<Longrightarrow> compact_measure rem r' + 1 \<le> compact_measure rem r"
  by (rule paid_result [where f = "\<lambda>fuel. skip (CompactProtocolReader A C) D fuel t depth" and wt = "\<lambda>_. 1", OF skip_more_fuel(1) compact_in.skip_paid(1)])

lemma binary_parse_returns: "returns_with (\<lambda>fuel. parseValue (BinaryProtocolReader C) veq stb fuel t) (2 * left (br_in b) + 2) b"
  by (rule returns_withI, rule parse_more_fuel(1), rule binary_in.parse_paid(1)) simp

lemma compact_parse_returns: "returns_with (\<lambda>fuel. parseValue (CompactProtocolReader A C) veq stb fuel t) (4 * left (cr_in r) + 4) r"
  by (rule returns_withI, rule parse_more_fuel(1), rule compact_in.parse_paid(1)) (simp add: compact_measure_def)

lemma binary_parse_result: "parseValue (BinaryProtocolReader C) veq stb fuel t b = Inr (v, b') \<Longrightarrow> left (br_in b') + vweight v \<le> left (br_in b)"
  by (rule paid_result [where f = "\<lambda>fuel. parseValue (BinaryProtocolReader C) veq stb fuel t", OF parse_more_fuel(1) binary_in.parse_paid(1)])

lemma compact_parse_result: "parseValue (CompactProtocolReader A C) veq stb fuel t r = Inr (v, r') \<Longrightarrow> compact_measure rem r' + vweight v \<le> compact_measure rem r"
  by (rule paid_result [where f = "\<lambda>fuel. parseValue (CompactProtocolReader A C) veq stb fuel t", OF parse_more_fuel(1) compact_in.parse_paid(1)])

end



text \<open>
  C7: the schemaless parser returns on every input, and what it builds is no larger than what it read: counting one unit for every value,
  field and byte of a string, the value weighs at most as much as the bytes it took in the Binary protocol, and at most
  twice as much in the Compact one.  So no input, whatever sizes it claims, makes it allocate more than a multiple of its length.
\<close>

theorem parse_bounded:
  assumes "cursor C rem"
  shows "returns_with (\<lambda>fuel. parseValue (BinaryProtocolReader C) veq stb fuel t) (2 * length (rem (br_in b)) + 2) b \<and>
    returns_with (\<lambda>fuel. parseValue (CompactProtocolReader A C) veq stb fuel t) (4 * length (rem (cr_in r)) + 4) r \<and>
    (\<forall>fuel v b'. parseValue (BinaryProtocolReader C) veq stb fuel t b = Inr (v, b') \<longrightarrow>
       vweight v + length (rem (br_in b')) \<le> length (rem (br_in b))) \<and>
    (\<forall>fuel v r'. parseValue (CompactProtocolReader A C) veq stb fuel t r = Inr (v, r') \<and> cr_boolValue r = None \<longrightarrow>
       vweight v + 2 * length (rem (cr_in r')) \<le> 2 * length (rem (cr_in r)))"
proof -
  have "vweight v + 2 * length (rem (cr_in r')) \<le> 2 * length (rem (cr_in r))"
    if "parseValue (CompactProtocolReader A C) veq stb fuel t r = Inr (v, r')" "cr_boolValue r = None" for fuel v r'
    using cursor.compact_parse_result [OF assms that(1)] that(2) by (simp add: compact_measure_def)
  then have "\<forall>fuel v r'. parseValue (CompactProtocolReader A C) veq stb fuel t r = Inr (v, r') \<and> cr_boolValue r = None \<longrightarrow>
       vweight v + 2 * length (rem (cr_in r')) \<le> 2 * length (rem (cr_in r))" by blast
  then show ?thesis
    using cursor.binary_parse_returns [OF assms] cursor.compact_parse_returns [OF assms] cursor.binary_parse_result [OF assms]
    by (simp add: add.commute)
qed

theorem parse_bounded_witness:
  "returns_with (\<lambda>fuel. parseValue (BinaryProtocolReader chain_api) (=) False fuel T_LIST) 20
    \<lparr>pb_height = 65, br_string_limit = 0, br_container_limit = 0, br_strict_read = True, br_in = [[0x0c, 0x7f, 0xff], [0xff, 0xff, 0, 0, 0, 0]]\<rparr>"
  using parse_bounded [OF chain_cursor.cursor_axioms, of "(=)" False T_LIST
      "\<lparr>pb_height = 65, br_string_limit = 0, br_container_limit = 0, br_strict_read = True, br_in = [[0x0c, 0x7f, 0xff], [0xff, 0xff, 0, 0, 0, 0]]\<rparr>"]
  by simp

end
