(* ===== verification/Compression.thy ===== *)
theory Compression
  imports Prelude
begin

text \<open>
  Compression of message bodies (\<^verbatim>\<open>rocket/compression/CompressionAlgorithmSelector.cpp\<close>, \<^verbatim>\<open>CompressionManager.cpp\<close>): the names
  of the algorithms in header frames, in configurations and in payload metadata, and the codec that each stands for.
  The codecs of \<^verbatim>\<open>folly/compression\<close> are a parameter.  An enum that arrives from outside may hold a value without a name.
\<close>

section \<open>Names\<close>

datatype compression_algorithm = CA_NONE | CA_ZLIB | CA_ZSTD | CA_LZ4 | CA_CUSTOM | CA_ZLIB_LESS | CA_ZSTD_LESS | CA_LZ4_LESS
  | CA_ZLIB_MORE | CA_ZSTD_MORE | CA_LZ4_MORE | CA_unnamed i32

datatype level_preset = PRESET_DEFAULT | PRESET_LESS | PRESET_MORE | PRESET_unnamed i32

datatype codec_config = CodecConfigEmpty | ZlibConfig "level_preset option" | ZstdConfig "level_preset option" | Lz4Config "level_preset option"
  | CustomConfig "bytes option"

datatype codec_type = NO_COMPRESSION | CODEC_ZLIB | CODEC_ZSTD | CODEC_ZSTD_FAST | CODEC_LZ4_VARINT_SIZE

datatype codec_level = COMPRESSION_LEVEL_DEFAULT | COMPRESSION_LEVEL_FASTEST | COMPRESSION_LEVEL_BEST | COMPRESSION_LEVEL nat

definition unknown_enum :: "thrift_error + 'a" where
  "unknown_enum = Inl (ApplicationException PROTOCOL_ERROR)"

definition from_preset :: "compression_algorithm \<Rightarrow> compression_algorithm \<Rightarrow> compression_algorithm \<Rightarrow> level_preset option
    \<Rightarrow> thrift_error + compression_algorithm" where
  "from_preset usual fewer higher levelPreset = (case (case levelPreset of None \<Rightarrow> PRESET_DEFAULT | Some p \<Rightarrow> p) of
     PRESET_DEFAULT \<Rightarrow> Inr usual
   | PRESET_LESS \<Rightarrow> Inr fewer
   | PRESET_MORE \<Rightarrow> Inr higher
   | PRESET_unnamed _ \<Rightarrow> unknown_enum)"

definition fromZlibConfig :: "level_preset option \<Rightarrow> thrift_error + compression_algorithm" where
  "fromZlibConfig = from_preset CA_ZLIB CA_ZLIB_LESS CA_ZLIB_MORE"

definition fromZstdConfig :: "level_preset option \<Rightarrow> thrift_error + compression_algorithm" where
  "fromZstdConfig = from_preset CA_ZSTD CA_ZSTD_LESS CA_ZSTD_MORE"

definition fromLz4Config :: "level_preset option \<Rightarrow> thrift_error + compression_algorithm" where
  "fromLz4Config = from_preset CA_LZ4 CA_LZ4_LESS CA_LZ4_MORE"

fun fromCodecConfig :: "codec_config \<Rightarrow> thrift_error + compression_algorithm" where
  "fromCodecConfig (ZlibConfig levelPreset) = fromZlibConfig levelPreset"
| "fromCodecConfig (ZstdConfig levelPreset) = fromZstdConfig levelPreset"
| "fromCodecConfig (Lz4Config levelPreset) = fromLz4Config levelPreset"
| "fromCodecConfig (CustomConfig payload) = Inr CA_CUSTOM"
| "fromCodecConfig CodecConfigEmpty = Inr CA_NONE"

fun toCodecConfig :: "compression_algorithm \<Rightarrow> thrift_error + codec_config" where
  "toCodecConfig CA_ZLIB = Inr (ZlibConfig None)"
| "toCodecConfig CA_ZSTD = Inr (ZstdConfig None)"
| "toCodecConfig CA_LZ4 = Inr (Lz4Config None)"
| "toCodecConfig CA_CUSTOM = Inr (CustomConfig None)"
| "toCodecConfig CA_ZLIB_LESS = Inr (ZlibConfig (Some PRESET_LESS))"
| "toCodecConfig CA_ZSTD_LESS = Inr (ZstdConfig (Some PRESET_LESS))"
| "toCodecConfig CA_LZ4_LESS = Inr (Lz4Config (Some PRESET_LESS))"
| "toCodecConfig CA_ZLIB_MORE = Inr (ZlibConfig (Some PRESET_MORE))"
| "toCodecConfig CA_ZSTD_MORE = Inr (ZstdConfig (Some PRESET_MORE))"
| "toCodecConfig CA_LZ4_MORE = Inr (Lz4Config (Some PRESET_MORE))"
| "toCodecConfig CA_NONE = Inr (CustomConfig None)"
| "toCodecConfig (CA_unnamed _) = unknown_enum"

fun toCodecTypeAndLevel :: "compression_algorithm \<Rightarrow> thrift_error + codec_type \<times> codec_level" where
  "toCodecTypeAndLevel CA_ZLIB = Inr (CODEC_ZLIB, COMPRESSION_LEVEL_DEFAULT)"
| "toCodecTypeAndLevel CA_ZSTD = Inr (CODEC_ZSTD, COMPRESSION_LEVEL_DEFAULT)"
| "toCodecTypeAndLevel CA_LZ4 = Inr (CODEC_LZ4_VARINT_SIZE, COMPRESSION_LEVEL_DEFAULT)"
| "toCodecTypeAndLevel CA_CUSTOM = Inr (NO_COMPRESSION, COMPRESSION_LEVEL_DEFAULT)"
| "toCodecTypeAndLevel CA_ZLIB_LESS = Inr (CODEC_ZLIB, COMPRESSION_LEVEL_FASTEST)"
| "toCodecTypeAndLevel CA_ZSTD_LESS = Inr (CODEC_ZSTD_FAST, COMPRESSION_LEVEL 7)"
| "toCodecTypeAndLevel CA_LZ4_LESS = Inr (CODEC_LZ4_VARINT_SIZE, COMPRESSION_LEVEL_FASTEST)"
| "toCodecTypeAndLevel CA_ZLIB_MORE = Inr (CODEC_ZLIB, COMPRESSION_LEVEL_BEST)"
| "toCodecTypeAndLevel CA_ZSTD_MORE = Inr (CODEC_ZSTD, COMPRESSION_LEVEL_BEST)"
| "toCodecTypeAndLevel CA_LZ4_MORE = Inr (CODEC_LZ4_VARINT_SIZE, COMPRESSION_LEVEL_BEST)"
| "toCodecTypeAndLevel CA_NONE = Inr (NO_COMPRESSION, COMPRESSION_LEVEL_DEFAULT)"
| "toCodecTypeAndLevel (CA_unnamed _) = unknown_enum"

text \<open>\<open>TTransform\<close> by its number on the wire.\<close>

definition fromTTransform :: "u16 \<Rightarrow> thrift_error + compression_algorithm" where
  "fromTTransform tTransform =
    (if tTransform = 0 then Inr CA_NONE
     else if tTransform = 1 then Inr CA_ZLIB
     else if tTransform = 5 then Inr CA_ZSTD
     else if tTransform = 6 then Inr CA_LZ4
     else if tTransform = 7 then Inr CA_CUSTOM
     else if tTransform = 8 then Inr CA_ZLIB_LESS
     else if tTransform = 9 then Inr CA_ZSTD_LESS
     else if tTransform = 10 then Inr CA_LZ4_LESS
     else if tTransform = 11 then Inr CA_ZLIB_MORE
     else if tTransform = 12 then Inr CA_ZSTD_MORE
     else if tTransform = 13 then Inr CA_LZ4_MORE
     else unknown_enum)"

fun toTTransform :: "compression_algorithm \<Rightarrow> thrift_error + u16" where
  "toTTransform CA_NONE = Inr 0"
| "toTTransform CA_ZLIB = Inr 1"
| "toTTransform CA_ZSTD = Inr 5"
| "toTTransform CA_LZ4 = Inr 6"
| "toTTransform CA_CUSTOM = Inr 7"
| "toTTransform CA_ZLIB_LESS = Inr 8"
| "toTTransform CA_ZSTD_LESS = Inr 9"
| "toTTransform CA_LZ4_LESS = Inr 10"
| "toTTransform CA_ZLIB_MORE = Inr 11"
| "toTTransform CA_ZSTD_MORE = Inr 12"
| "toTTransform CA_LZ4_MORE = Inr 13"
| "toTTransform (CA_unnamed _) = unknown_enum"

section \<open>Compressing\<close>

text \<open>\<open>None\<close> stands for the exceptions of a codec.\<close>

record codec_api =
  codec_compress :: "codec_type \<Rightarrow> codec_level \<Rightarrow> bytes \<Rightarrow> bytes option"
  codec_uncompress :: "codec_type \<Rightarrow> codec_level \<Rightarrow> bytes \<Rightarrow> bytes option"

definition compressBuffer :: "codec_api \<Rightarrow> bytes \<Rightarrow> compression_algorithm \<Rightarrow> thrift_error + bytes" where
  "compressBuffer api buffer compressionAlgorithm = (case toCodecTypeAndLevel compressionAlgorithm of
     Inl e \<Rightarrow> Inl e
   | Inr (codecType, level) \<Rightarrow> (case codec_compress api codecType level buffer of None \<Rightarrow> Inl CodecError | Some b \<Rightarrow> Inr b))"

definition uncompressBuffer :: "codec_api \<Rightarrow> bytes \<Rightarrow> compression_algorithm \<Rightarrow> thrift_error + bytes" where
  "uncompressBuffer api buffer compressionAlgorithm = (case toCodecTypeAndLevel compressionAlgorithm of
     Inl e \<Rightarrow> Inl e
   | Inr (codecType, level) \<Rightarrow> (case codec_uncompress api codecType level buffer of
        None \<Rightarrow> Inl (ApplicationException INVALID_TRANSFORM)
      | Some b \<Rightarrow> Inr b))"

record compression_config =
  cc_codecConfig :: "codec_config option"
  cc_compressionSizeLimit :: "i64 option"

text \<open>The result is the \<open>compression\<close> field of the metadata; the size limit is compared as a \<open>size_t\<close>.\<close>

definition setCompressionCodec :: "compression_config \<Rightarrow> compression_algorithm option \<Rightarrow> u64 \<Rightarrow> thrift_error + compression_algorithm option" where
  "setCompressionCodec compressionConfig compression payloadSize = (case cc_codecConfig compressionConfig of
     None \<Rightarrow> Inr compression
   | Some codecConfig \<Rightarrow>
       if payloadSize > (case cc_compressionSizeLimit compressionConfig of None \<Rightarrow> 0 | Some n \<Rightarrow> ucast n)
       then map_sum id Some (fromCodecConfig codecConfig) else Inr compression)"

section \<open>Laws of the codecs\<close>

definition lossless :: "codec_api \<Rightarrow> bool" where
  "lossless api \<longleftrightarrow> (\<forall>ty level bs z. codec_compress api ty level bs = Some z \<longrightarrow> codec_uncompress api ty level z = Some bs)"

lemma uncompressBuffer_compressBuffer: "lossless api \<Longrightarrow> compressBuffer api bs a = Inr z \<Longrightarrow> uncompressBuffer api z a = Inr bs"
  by (auto simp: lossless_def compressBuffer_def uncompressBuffer_def split: sum.splits option.splits)

section \<open>Properties\<close>

text \<open>
  C37: the names of compression algorithms survive translation.  The number of an algorithm in a header frame stands for that
  algorithm and no other number does; the configuration made from an algorithm selects that algorithm again,
  except that the one for no compression selects a custom compressor; an enum value without a name is refused by every translation.
\<close>

theorem compression_names_roundtrip:
  "(toTTransform a = Inr t \<longleftrightarrow> fromTTransform t = Inr a) \<and>
   (case toCodecConfig a of
      Inr cfg \<Rightarrow> fromCodecConfig cfg = Inr (if a = CA_NONE then CA_CUSTOM else a)
    | Inl e \<Rightarrow> e = ApplicationException PROTOCOL_ERROR \<and> toTTransform a = Inl e \<and> toCodecTypeAndLevel a = Inl e)"
  by (cases a) (auto simp: fromTTransform_def unknown_enum_def fromZlibConfig_def fromZstdConfig_def fromLz4Config_def from_preset_def
      split: if_splits)

end
