(* ===== verification/Header_Transport.thy ===== *)
theory Header_Transport
  imports Protocol_Bounds Rocket_Roundtrip Compression
begin

unbundle bit_operations_syntax

text \<open>
  The header transport (\<^verbatim>\<open>lib/cpp/transport/THeader.cpp\<close>): wrapping a message in a header frame, and taking the next message off
  the bytes that a connection has received, whichever of the transports it supports the peer uses.

  An \<open>IOBuf\<close> or \<open>IOBufQueue\<close> is its bytes; \<open>he_open\<close> is the cursor on its first byte, so that every segmentation into buffers
  is covered.  Header maps are association lists in the order in which the map iterates.  Compression and the HTTP parser
  are parameters, as is the comparison of the positions of two cursors by their \<open>data()\<close> pointers.  The text of
  exceptions is not modelled.
\<close>

section \<open>State\<close>

datatype client_type = THRIFT_HEADER_CLIENT_TYPE | THRIFT_FRAMED_DEPRECATED | THRIFT_UNFRAMED_DEPRECATED | THRIFT_HTTP_SERVER_TYPE
  | THRIFT_HTTP_CLIENT_TYPE | THRIFT_FRAMED_COMPACT | THRIFT_ROCKET_CLIENT_TYPE | THRIFT_HTTP_GET_CLIENT_TYPE
  | THRIFT_UNFRAMED_COMPACT_DEPRECATED | THRIFT_HTTP2_CLIENT_TYPE | THRIFT_UNKNOWN_CLIENT_TYPE

abbreviation T_BINARY_PROTOCOL :: u16 where "T_BINARY_PROTOCOL \<equiv> 0"
abbreviation T_JSON_PROTOCOL :: u16 where "T_JSON_PROTOCOL \<equiv> 1"
abbreviation T_COMPACT_PROTOCOL :: u16 where "T_COMPACT_PROTOCOL \<equiv> 2"
abbreviation T_SIMPLE_JSON_PROTOCOL :: u16 where "T_SIMPLE_JSON_PROTOCOL \<equiv> 5"

definition HEADER_MAGIC :: u32 where "HEADER_MAGIC = 0x0FFF0000"
definition HEADER_MASK :: u32 where "HEADER_MASK = 0xFFFF0000"
definition FLAGS_MASK :: u32 where "FLAGS_MASK = 0x0000FFFF"
definition HTTP_SERVER_MAGIC :: u32 where "HTTP_SERVER_MAGIC = 0x504F5354"
definition HTTP_CLIENT_MAGIC :: u32 where "HTTP_CLIENT_MAGIC = 0x48545450"
definition HTTP_GET_CLIENT_MAGIC :: u32 where "HTTP_GET_CLIENT_MAGIC = 0x47455420"
definition HTTP_HEAD_CLIENT_MAGIC :: u32 where "HTTP_HEAD_CLIENT_MAGIC = 0x48454144"
definition BIG_FRAME_MAGIC :: u32 where "BIG_FRAME_MAGIC = 0x42494746"
definition MAX_FRAME_SIZE :: nat where "MAX_FRAME_SIZE = 0x3FFFFFFF"

definition IDENTITY_HEADER :: bytes where "IDENTITY_HEADER = ascii ''identity''"
definition ID_VERSION_HEADER :: bytes where "ID_VERSION_HEADER = ascii ''id_version''"
definition ID_VERSION :: bytes where "ID_VERSION = ascii ''1''"

type_synonym headers = "(bytes \<times> bytes) list"

record theader =
  th_protoId :: u16
  th_clientType :: client_type
  th_forceClientType :: bool
  th_seqId :: u32
  th_flags :: u16
  th_identity :: bytes
  th_readTrans :: "u16 list"
  th_writeTrans :: "u16 list"
  th_readHeaders :: "headers option"
  th_writeHeaders :: "headers option"
  th_extraWriteHeaders :: "headers option"
  th_allowBigFrames :: bool

definition theader_init :: "bool \<Rightarrow> theader" where
  "theader_init allowBigFrames = \<lparr>th_protoId = T_COMPACT_PROTOCOL, th_clientType = THRIFT_HEADER_CLIENT_TYPE, th_forceClientType = False,
     th_seqId = 0, th_flags = 0, th_identity = [], th_readTrans = [], th_writeTrans = [], th_readHeaders = None, th_writeHeaders = None,
     th_extraWriteHeaders = None, th_allowBigFrames = allowBigFrames\<rparr>"

text \<open>What the code takes from elsewhere: flags, cursors, compression, the HTTP parser.\<close>

datatype http_result = HttpNeeds nat | HttpMessage bytes headers nat

record 'c header_env =
  he_arch :: arch
  he_cursor :: "'c cursor_api"
  he_rem :: "'c \<Rightarrow> bytes"
  he_open :: "bytes \<Rightarrow> 'c"
  he_samePosition :: "'c \<Rightarrow> 'c \<Rightarrow> bool"
  he_max_depth :: int
  he_string_limit :: i32
  he_container_limit :: i32
  he_codecs :: codec_api
  he_httpParse :: "bytes \<Rightarrow> http_result"
  he_httpConstruct :: "bytes \<Rightarrow> headers \<Rightarrow> headers option \<Rightarrow> bytes"

text \<open>The receiving side: the object, the queue of received bytes, and the persistent headers of the connection.\<close>

record receiver =
  rv_header :: theader
  rv_queue :: bytes
  rv_persistent :: headers

section \<open>Header maps\<close>

definition th_getHeaders :: "theader \<Rightarrow> headers" where
  "th_getHeaders h = (case th_readHeaders h of None \<Rightarrow> [] | Some m \<Rightarrow> m)"

definition th_getWriteHeaders :: "theader \<Rightarrow> headers" where
  "th_getWriteHeaders h = (case th_writeHeaders h of None \<Rightarrow> [] | Some m \<Rightarrow> m)"

definition th_setHeader :: "bytes \<Rightarrow> bytes \<Rightarrow> theader \<Rightarrow> theader" where
  "th_setHeader key val h = h\<lparr>th_writeHeaders := Some (assoc_set (=) key val (th_getWriteHeaders h))\<rparr>"

text \<open>\<open>insert\<close> and \<open>emplace\<close> keep an entry that is there.\<close>

definition map_emplace :: "bytes \<Rightarrow> bytes \<Rightarrow> headers \<Rightarrow> headers" where
  "map_emplace key val m = (if list_ex (\<lambda>(k, _). k = key) m then m else m @ [(key, val)])"

definition map_insert :: "headers \<Rightarrow> headers \<Rightarrow> headers" where
  "map_insert new m = fold (\<lambda>(k, v). map_emplace k v) new m"

definition th_setHeader_chars :: "bytes \<Rightarrow> bytes \<Rightarrow> theader \<Rightarrow> theader" where
  "th_setHeader_chars key val h = h\<lparr>th_writeHeaders := Some (map_emplace key val (th_getWriteHeaders h))\<rparr>"

definition th_setHeaders :: "headers \<Rightarrow> theader \<Rightarrow> theader" where
  "th_setHeaders m h = h\<lparr>th_writeHeaders := Some m\<rparr>"

definition th_setReadHeaders :: "headers \<Rightarrow> theader \<Rightarrow> theader" where
  "th_setReadHeaders m h = h\<lparr>th_readHeaders := Some m\<rparr>"

definition th_setReadHeader :: "bytes \<Rightarrow> bytes \<Rightarrow> theader \<Rightarrow> theader" where
  "th_setReadHeader key val h = h\<lparr>th_readHeaders := Some (assoc_set (=) key val (th_getHeaders h))\<rparr>"

definition th_eraseReadHeader :: "bytes \<Rightarrow> theader \<Rightarrow> theader" where
  "th_eraseReadHeader key h = (case th_readHeaders h of None \<Rightarrow> h
     | Some m \<Rightarrow> h\<lparr>th_readHeaders := Some (filter (\<lambda>(k, _). k \<noteq> key) m)\<rparr>)"

definition th_extractHeader :: "bytes \<Rightarrow> theader \<Rightarrow> bytes option \<times> theader" where
  "th_extractHeader key h = (case th_readHeaders h of None \<Rightarrow> (None, h)
     | Some m \<Rightarrow> (case map_of m key of None \<Rightarrow> (None, h)
         | Some v \<Rightarrow> (Some v, h\<lparr>th_readHeaders := Some (filter (\<lambda>(k, _). k \<noteq> key) m)\<rparr>)))"

definition th_clearHeaders :: "theader \<Rightarrow> theader" where
  "th_clearHeaders h = h\<lparr>th_writeHeaders := None\<rparr>"

definition th_isWriteHeadersEmpty :: "theader \<Rightarrow> bool" where
  "th_isWriteHeadersEmpty h = (case th_writeHeaders h of None \<Rightarrow> True | Some m \<Rightarrow> m = [])"

definition th_releaseWriteHeaders :: "theader \<Rightarrow> headers \<times> theader" where
  "th_releaseWriteHeaders h = (case th_writeHeaders h of None \<Rightarrow> ([], h) | Some m \<Rightarrow> (m, h\<lparr>th_writeHeaders := None\<rparr>))"

definition th_extractAllWriteHeaders :: "theader \<Rightarrow> headers \<times> theader" where
  "th_extractAllWriteHeaders h = (let (m, h) = th_releaseWriteHeaders h in
     case th_extraWriteHeaders h of None \<Rightarrow> (m, h) | Some extra \<Rightarrow> (map_insert extra m, h))"

definition th_releaseHeaders :: "theader \<Rightarrow> headers \<times> theader" where
  "th_releaseHeaders h = (case th_readHeaders h of None \<Rightarrow> ([], h) | Some m \<Rightarrow> (m, h\<lparr>th_readHeaders := None\<rparr>))"

definition th_getPeerIdentity :: "theader \<Rightarrow> bytes" where
  "th_getPeerIdentity h = (case th_readHeaders h of None \<Rightarrow> []
     | Some m \<Rightarrow> (case map_of m IDENTITY_HEADER of None \<Rightarrow> []
         | Some ident \<Rightarrow> if map_of m ID_VERSION_HEADER = Some ID_VERSION then ident else []))"

definition th_setIdentity :: "bytes \<Rightarrow> theader \<Rightarrow> theader" where
  "th_setIdentity ident h = h\<lparr>th_identity := ident\<rparr>"

definition th_setTTransform :: "u16 \<Rightarrow> theader \<Rightarrow> theader" where
  "th_setTTransform transId h = (if transId \<in> set (th_writeTrans h) then h else h\<lparr>th_writeTrans := th_writeTrans h @ [transId]\<rparr>)"

definition th_setReadTTransform :: "u16 \<Rightarrow> theader \<Rightarrow> theader" where
  "th_setReadTTransform transId h = (if transId \<in> set (th_readTrans h) then h else h\<lparr>th_readTrans := th_readTrans h @ [transId]\<rparr>)"

definition th_copyMetadataFrom :: "theader \<Rightarrow> theader \<Rightarrow> theader" where
  "th_copyMetadataFrom src h = h\<lparr>th_protoId := th_protoId src, th_writeTrans := th_writeTrans src, th_seqId := th_seqId src,
     th_clientType := th_clientType src, th_flags := th_flags src, th_forceClientType := th_forceClientType src\<rparr>"

definition th_resetProtocol :: "theader \<Rightarrow> theader" where
  "th_resetProtocol h = h\<lparr>th_clientType := THRIFT_HEADER_CLIENT_TYPE\<rparr>"

section \<open>Recognizing the transport\<close>

definition compactFramed :: "u32 \<Rightarrow> bool" where
  "compactFramed magic =
    (let protocolId = ucast (drop_bit 24 magic) :: byte; protocolVersion = ucast (drop_bit 16 magic AND 0x1f) :: byte in
     protocolId = PROTOCOL_ID \<and> protocolVersion \<le> COMPACT_PROTOCOL_VERSION \<and> protocolVersion \<ge> 1)"

definition analyzeFirst32bit :: "u32 \<Rightarrow> client_type option" where
  "analyzeFirst32bit w =
    (if w AND VERSION_MASK = VERSION_1 then Some THRIFT_UNFRAMED_DEPRECATED
     else if compactFramed w then Some THRIFT_UNFRAMED_COMPACT_DEPRECATED
     else if w = HTTP_SERVER_MAGIC \<or> w = HTTP_GET_CLIENT_MAGIC \<or> w = HTTP_HEAD_CLIENT_MAGIC then Some THRIFT_HTTP_SERVER_TYPE
     else if w = HTTP_CLIENT_MAGIC then Some THRIFT_HTTP_CLIENT_TYPE
     else None)"

definition analyzeSecond32bit :: "u32 \<Rightarrow> client_type" where
  "analyzeSecond32bit w =
    (if w AND VERSION_MASK = VERSION_1 then THRIFT_FRAMED_DEPRECATED
     else if compactFramed w then THRIFT_FRAMED_COMPACT
     else if w AND HEADER_MASK = HEADER_MAGIC then THRIFT_HEADER_CLIENT_TYPE
     else THRIFT_UNKNOWN_CLIENT_TYPE)"

definition th_isFramed :: "client_type \<Rightarrow> bool" where
  "th_isFramed type \<longleftrightarrow> type = THRIFT_FRAMED_DEPRECATED \<or> type = THRIFT_FRAMED_COMPACT"

text \<open>\<open>rocket::isMaybeRocketFrame\<close>; \<open>length()\<close> is that of the first buffer.\<close>

definition isMaybeRocketFrame :: "'c cursor_api \<Rightarrow> 'c \<Rightarrow> bool" where
  "isMaybeRocketFrame C c =
    (let len = length (cur_data C c) in
     if len < 3 then False
     else (case sbind (readFrameOrMetadataSize C) (\<lambda>size.
         if size + 3 \<noteq> len then sret False
         else if size < 6 then sret False
         else sbind (readStreamId C) (\<lambda>streamId.
           if streamId \<noteq> 0 \<and> streamId mod 2 = 0 then sret False
           else sbind (c_readBE C 2) (\<lambda>frameTypeAndFlags :: u16.
             let flags = frameTypeAndFlags AND kFlagMask in
             if flags \<noteq> 0 \<and> flags < 0x20 then sret False
             else let frameType = ucast (drop_bit kFlagBits frameTypeAndFlags) :: byte in
               if frameType \<in> set [F_SETUP, F_KEEPALIVE, F_METADATA_PUSH] then sret (streamId = 0)
               else if frameType \<in> set [F_REQUEST_RESPONSE, F_REQUEST_FNF, F_REQUEST_STREAM, F_REQUEST_CHANNEL, F_REQUEST_N, F_CANCEL, F_PAYLOAD]
               then sret (streamId \<noteq> 0)
               else sret (frameType = F_ERROR \<or> frameType = F_EXT)))) c of
         Inl e \<Rightarrow> False
       | Inr (b, _) \<Rightarrow> b))"

text \<open>\<open>tryReadBE\<close> leaves the cursor where it is when there are too few bytes.\<close>

definition tryReadBE32 :: "'c cursor_api \<Rightarrow> 'c \<Rightarrow> (u32 \<times> 'c) option" where
  "tryReadBE32 C c = (case c_readBE C 4 c of Inl e \<Rightarrow> None | Inr r \<Rightarrow> Some r)"

definition tryGetClientType :: "'c cursor_api \<Rightarrow> 'c \<Rightarrow> client_type" where
  "tryGetClientType C c =
    (let isRocket = isMaybeRocketFrame C c;
         second = (\<lambda>c. case tryReadBE32 C c of
             None \<Rightarrow> THRIFT_UNKNOWN_CLIENT_TYPE
           | Some (w, _) \<Rightarrow> let res = analyzeSecond32bit w in
               if isRocket then if res = THRIFT_HEADER_CLIENT_TYPE then THRIFT_UNKNOWN_CLIENT_TYPE else THRIFT_ROCKET_CLIENT_TYPE
               else res) in
     case tryReadBE32 C c of
       None \<Rightarrow> second c
     | Some (w, c) \<Rightarrow> (case analyzeFirst32bit w of
           None \<Rightarrow> second c
         | Some res \<Rightarrow>
             if isRocket then
               if res = THRIFT_HTTP_CLIENT_TYPE \<or> res = THRIFT_HTTP_SERVER_TYPE then THRIFT_UNKNOWN_CLIENT_TYPE else THRIFT_ROCKET_CLIENT_TYPE
             else res))"

section \<open>Receiving\<close>

text \<open>The exceptions after which \<open>removeUnframed\<close> waits for more bytes: \<open>std::out_of_range\<close> and invalid data.\<close>

fun incomplete :: "thrift_error \<Rightarrow> bool" where
  "incomplete OutOfRange = True"
| "incomplete InvalidVarint = True"
| "incomplete TruncatedData = True"
| "incomplete (BoolValueOutOfRange b) = True"
| "incomplete (InvalidSkipType t) = True"
| "incomplete InvalidFieldData = True"
| "incomplete _ = False"

definition rv_setProtoId :: "u16 \<Rightarrow> (receiver, unit) st" where
  "rv_setProtoId protoId = smod (\<lambda>v. v\<lparr>rv_header := (rv_header v)\<lparr>th_protoId := protoId\<rparr>\<rparr>)"

definition queue_trimStart :: "nat \<Rightarrow> (receiver, unit) st" where
  "queue_trimStart n = (\<lambda>v. if length (rv_queue v) < n then Inl QueueUnderflow else Inr ((), v\<lparr>rv_queue := drop n (rv_queue v)\<rparr>))"

definition queue_split :: "nat \<Rightarrow> (receiver, bytes) st" where
  "queue_split n = (\<lambda>v. if length (rv_queue v) < n then Inl QueueUnderflow
     else Inr (take n (rv_queue v), v\<lparr>rv_queue := drop n (rv_queue v)\<rparr>))"

text \<open>
  The message of an unframed protocol is as long as its reader finds it.  The fuel of \<open>skip\<close> is the bound that
  is enough for every input.  A result is the number of bytes to wait for and the message, if there is one.
\<close>

definition binary_message_end :: "'c header_env \<Rightarrow> bytes \<Rightarrow> thrift_error + nat" where
  "binary_message_end env queue =
    (let C = he_cursor env;
         proto = \<lparr>pb_height = word_of_int (he_max_depth env) + 1, br_string_limit = he_string_limit env,
           br_container_limit = he_container_limit env, br_strict_read = True, br_in = he_open env queue\<rparr> in
     case sbind (br_readMessageBegin C) (\<lambda>_. skip (BinaryProtocolReader C) (he_max_depth env) (4 * length queue + 2) T_STRUCT 0) proto of
       Inl e \<Rightarrow> Inl e
     | Inr (_, proto) \<Rightarrow> Inr (length queue - length (he_rem env (br_in proto))))"

definition compact_message_end :: "'c header_env \<Rightarrow> bytes \<Rightarrow> thrift_error + nat" where
  "compact_message_end env queue =
    (let C = he_cursor env; A = he_arch env;
         proto = \<lparr>pb_height = word_of_int (he_max_depth env) + 1, cr_in = he_open env queue, cr_string_limit = he_string_limit env,
           cr_container_limit = he_container_limit env, cr_lastField = [], cr_lastFieldId = 0, cr_boolValue = None\<rparr> in
     case sbind (cr_readMessageBegin A C) (\<lambda>_. skip (CompactProtocolReader A C) (he_max_depth env) (8 * length queue + 6) T_STRUCT 0) proto of
       Inl e \<Rightarrow> Inl e
     | Inr (_, proto) \<Rightarrow> Inr (length queue - length (he_rem env (cr_in proto))))"

definition removeUnframed :: "u16 \<Rightarrow> (bytes \<Rightarrow> thrift_error + nat) \<Rightarrow> nat \<Rightarrow> (receiver, nat \<times> bytes option) st" where
  "removeUnframed protocolId message_end needed = sbind (rv_setProtoId protocolId) (\<lambda>_. sbind (sget rv_queue) (\<lambda>queue.
     case message_end queue of
       Inl e \<Rightarrow> if incomplete e then sret (1, None) else sfail e
     | Inr position \<Rightarrow> sbind (queue_split position) (\<lambda>buf. sret (needed, Some buf))))"

definition removeHttpServer :: "nat \<Rightarrow> (receiver, nat \<times> bytes option) st" where
  "removeHttpServer needed = sbind (rv_setProtoId T_BINARY_PROTOCOL) (\<lambda>_. sbind (sget rv_queue) (\<lambda>queue.
     sbind (smod (\<lambda>v. v\<lparr>rv_queue := []\<rparr>)) (\<lambda>_. sret (needed, Some queue))))"

definition removeHttpClient :: "'c header_env \<Rightarrow> nat \<Rightarrow> (receiver, nat \<times> bytes option) st" where
  "removeHttpClient env needed = sbind (rv_setProtoId T_BINARY_PROTOCOL) (\<lambda>_. sbind (sget rv_queue) (\<lambda>queue.
     case he_httpParse env queue of
       HttpNeeds n \<Rightarrow> sret (n, None)
     | HttpMessage body hdrs consumed \<Rightarrow> sbind (queue_trimStart consumed) (\<lambda>_.
         sbind (smod (\<lambda>v. v\<lparr>rv_header := (rv_header v)\<lparr>th_readHeaders := Some hdrs\<rparr>\<rparr>)) (\<lambda>_. sret (needed, Some body)))))"

definition removeFramed :: "u32 \<Rightarrow> nat \<Rightarrow> (receiver, nat \<times> bytes option) st" where
  "removeFramed sz needed = sbind (queue_trimStart 4) (\<lambda>_. sbind (queue_split (unat sz)) (\<lambda>buf. sret (needed, Some buf)))"

definition removeNonHeader :: "'c header_env \<Rightarrow> nat \<Rightarrow> client_type \<Rightarrow> u32 \<Rightarrow> (receiver, nat \<times> bytes option) st" where
  "removeNonHeader env needed type sz = (case type of
     THRIFT_FRAMED_DEPRECATED \<Rightarrow> sbind (rv_setProtoId T_BINARY_PROTOCOL) (\<lambda>_. removeFramed sz needed)
   | THRIFT_FRAMED_COMPACT \<Rightarrow> sbind (rv_setProtoId T_COMPACT_PROTOCOL) (\<lambda>_. removeFramed sz needed)
   | THRIFT_UNFRAMED_DEPRECATED \<Rightarrow> removeUnframed T_BINARY_PROTOCOL (binary_message_end env) needed
   | THRIFT_HTTP_SERVER_TYPE \<Rightarrow> removeHttpServer needed
   | THRIFT_HTTP_CLIENT_TYPE \<Rightarrow> removeHttpClient env needed
   | THRIFT_UNFRAMED_COMPACT_DEPRECATED \<Rightarrow> removeUnframed T_COMPACT_PROTOCOL (compact_message_end env) needed
   | _ \<Rightarrow> sret (needed, None))"

subsection \<open>The header format\<close>

definition th_getString :: "'c cursor_api \<Rightarrow> nat \<Rightarrow> ('c, bytes) st" where
  "th_getString C sz = sbind (scheck (cur_canAdvance C sz) (TransportException CORRUPTED_DATA)) (\<lambda>_. c_read C sz)"

definition th_readString :: "arch \<Rightarrow> 'c cursor_api \<Rightarrow> ('c, bytes) st" where
  "th_readString A C = sbind (readVarint A C) (\<lambda>sz :: u32. th_getString C (unat sz))"

primrec readInfoHeaders_loop :: "arch \<Rightarrow> 'c cursor_api \<Rightarrow> nat \<Rightarrow> headers \<Rightarrow> ('c, headers) st" where
  "readInfoHeaders_loop A C 0 hdrs = sret hdrs"
| "readInfoHeaders_loop A C (Suc n) hdrs = sbind (th_readString A C) (\<lambda>key. sbind (th_readString A C) (\<lambda>val.
     readInfoHeaders_loop A C n (assoc_set (=) key val hdrs)))"

definition readInfoHeaders :: "arch \<Rightarrow> 'c cursor_api \<Rightarrow> headers \<Rightarrow> ('c, headers) st" where
  "readInfoHeaders A C hdrs = sbind (readVarint A C) (\<lambda>numKVHeaders :: u32. readInfoHeaders_loop A C (unat numKVHeaders) hdrs)"

primrec readTransforms :: "arch \<Rightarrow> 'c cursor_api \<Rightarrow> nat \<Rightarrow> ('c, u16 list) st" where
  "readTransforms A C 0 = sret []"
| "readTransforms A C (Suc n) = sbind (readVarint A C) (\<lambda>transId :: i32. sbind (readTransforms A C n) (\<lambda>ts. sret (ucast transId # ts)))"

text \<open>
  The loop over info headers, whose every iteration reads at least one byte; \<open>same\<close> compares a position with the end of the
  header.  The headers read so far are those of the message, if any, and the persistent ones.
\<close>

fun readInfos :: "arch \<Rightarrow> 'c cursor_api \<Rightarrow> ('c \<Rightarrow> bool) \<Rightarrow> nat \<Rightarrow> headers option \<Rightarrow> headers \<Rightarrow> ('c, headers option \<times> headers) st" where
  "readInfos A C same 0 hdrs persistent = sfail OutOfFuel"
| "readInfos A C same (Suc fuel) hdrs persistent = (\<lambda>c.
     if same c then Inr ((hdrs, persistent), c)
     else sbind (readVarint A C) (\<lambda>infoId :: u32.
       if infoId = 0 \<or> infoId \<ge> 3 then sret (hdrs, persistent)
       else if infoId = 1 then sbind (readInfoHeaders A C (case hdrs of None \<Rightarrow> [] | Some m \<Rightarrow> m)) (\<lambda>m.
         readInfos A C same fuel (Some m) persistent)
       else sbind (readInfoHeaders A C persistent) (\<lambda>m. readInfos A C same fuel hdrs m)) c)"

definition header_protocols :: "u16 list" where
  "header_protocols = [T_BINARY_PROTOCOL, T_COMPACT_PROTOCOL, T_SIMPLE_JSON_PROTOCOL]"

text \<open>What the header of the frame \<open>buf\<close> says: its size, the protocol, the transforms and the info headers.\<close>

definition readHeaderFields :: "'c header_env \<Rightarrow> bytes \<Rightarrow> headers \<Rightarrow> ('c, nat \<times> u16 \<times> u16 list \<times> headers option \<times> headers) st" where
  "readHeaderFields env buf persistent = (let C = he_cursor env; A = he_arch env in
     sbind (c_skip C 8) (\<lambda>_. sbind (c_readBE C 2) (\<lambda>words :: u16.
       let headerSize = 4 * unat words + 10 in
       sbind (sguard (\<not> headerSize > length buf) (TransportException INVALID_FRAME_SIZE)) (\<lambda>_.
       case c_skip C headerSize (he_open env buf) of
         Inl e \<Rightarrow> sfail e
       | Inr (_, data) \<Rightarrow>
           sbind (readVarint A C) (\<lambda>wireProtocol :: u16.
           sbind (sguard (wireProtocol \<in> set header_protocols) (TransportException INVALID_STATE)) (\<lambda>_.
           sbind (readVarint A C) (\<lambda>numTransforms :: u16.
           sbind (readTransforms A C (unat numTransforms)) (\<lambda>readTrans.
           sbind (readInfos A C (he_samePosition env data) (Suc (length buf)) None persistent) (\<lambda>(hdrs, persistent).
           sret (headerSize, wireProtocol, readTrans, hdrs, persistent))))))))))"

fun th_untransform :: "codec_api \<Rightarrow> bytes \<Rightarrow> u16 list \<Rightarrow> thrift_error + bytes" where
  "th_untransform api buf [] = Inr buf"
| "th_untransform api buf (t # ts) = (case th_untransform api buf ts of
     Inl e \<Rightarrow> Inl e
   | Inr buf \<Rightarrow> (case fromTTransform t of Inl e \<Rightarrow> Inl e | Inr a \<Rightarrow> uncompressBuffer api buf a))"

definition readHeaderFormat :: "'c header_env \<Rightarrow> bytes \<Rightarrow> (receiver, bytes) st" where
  "readHeaderFormat env buf = (\<lambda>v.
     case readHeaderFields env buf (rv_persistent v) (he_open env buf) of
       Inl e \<Rightarrow> Inl e
     | Inr ((headerSize, wireProtocol, readTrans, hdrs, persistent), _) \<Rightarrow>
         let hdrs = (if persistent = [] then hdrs else Some (map_insert persistent (case hdrs of None \<Rightarrow> [] | Some m \<Rightarrow> m)));
             h = fold th_setTTransform readTrans
               ((rv_header v)\<lparr>th_readTrans := readTrans, th_readHeaders := hdrs, th_protoId := wireProtocol\<rparr>) in
         (case th_untransform (he_codecs env) (drop headerSize buf) readTrans of
            Inl e \<Rightarrow> Inl e
          | Inr buf \<Rightarrow>
              if th_protoId h = T_JSON_PROTOCOL \<and> th_clientType h \<noteq> THRIFT_HTTP_SERVER_TYPE
              then Inl (ApplicationException UNSUPPORTED_CLIENT_TYPE)
              else Inr (buf, v\<lparr>rv_header := h, rv_persistent := persistent\<rparr>)))"

definition rv_setClientType :: "client_type \<Rightarrow> (receiver, unit) st" where
  "rv_setClientType type = smod (\<lambda>v. v\<lparr>rv_header := (rv_header v)\<lparr>th_clientType := type\<rparr>\<rparr>)"

subsection \<open>removeHeader\<close>

text \<open>From the second word on: the frame has \<open>sz\<close> bytes after the \<open>frameSizeBytes\<close> of its size, at which the cursor \<open>c\<close> stands.\<close>

definition removeSized :: "'c header_env \<Rightarrow> nat \<Rightarrow> nat \<Rightarrow> nat \<Rightarrow> nat \<Rightarrow> 'c \<Rightarrow> (receiver, nat \<times> bytes option) st" where
  "removeSized env needed remaining sz frameSizeBytes c = (let C = he_cursor env in
     if sz > remaining then sret (sz - remaining, None)
     else (case c_readBE C 4 c of
       Inl e \<Rightarrow> sfail e
     | Inr (magic, c) \<Rightarrow>
         sbind (rv_setClientType (analyzeSecond32bit magic)) (\<lambda>_.
         sbind (removeNonHeader env needed (analyzeSecond32bit magic) (of_nat sz)) (\<lambda>(needed, buf).
           if buf \<noteq> None then sret (needed, buf)
           else if analyzeSecond32bit magic = THRIFT_UNKNOWN_CLIENT_TYPE then sfail (TransportException BAD_ARGS)
           else if sz < 10 then sfail (TransportException INVALID_FRAME_SIZE)
           else (case c_readBE C 4 c of
             Inl e \<Rightarrow> sfail e
           | Inr (seqId, _) \<Rightarrow>
               sbind (smod (\<lambda>v. v\<lparr>rv_header := (rv_header v)\<lparr>th_flags := ucast (magic AND FLAGS_MASK), th_seqId := seqId\<rparr>\<rparr>)) (\<lambda>_.
               sbind (queue_trimStart frameSizeBytes) (\<lambda>_.
               sbind (queue_split sz) (\<lambda>frame.
               sbind (readHeaderFormat env frame) (\<lambda>buf. sret (needed, Some buf))))))))))"

definition removeDetected :: "'c header_env \<Rightarrow> nat \<Rightarrow> nat \<Rightarrow> u32 \<Rightarrow> 'c \<Rightarrow> (receiver, nat \<times> bytes option) st" where
  "removeDetected env needed remaining sz32 c = (case analyzeFirst32bit sz32 of
     Some clientT \<Rightarrow> sbind (rv_setClientType clientT) (\<lambda>_. removeNonHeader env needed clientT sz32)
   | None \<Rightarrow>
       if unat sz32 > MAX_FRAME_SIZE then
         if sz32 = BIG_FRAME_MAGIC then sbind (sget (th_allowBigFrames \<circ> rv_header)) (\<lambda>allowBigFrames.
           if \<not> allowBigFrames then sfail (TransportException INVALID_FRAME_SIZE)
           else if 8 > remaining then sret (8 - remaining, None)
           else (case c_readBE (he_cursor env) 8 c of
             Inl e \<Rightarrow> sfail e
           | Inr (sz, c) \<Rightarrow> removeSized env needed (remaining - 8) (unat (sz :: u64)) 12 c))
         else sfail (TransportException INVALID_FRAME_SIZE)
       else removeSized env needed remaining (unat sz32) 4 c)"

definition removeHeader :: "'c header_env \<Rightarrow> (receiver, nat \<times> bytes option) st" where
  "removeHeader env = sbind (sget rv_queue) (\<lambda>queue.
     if queue = [] then sret (4, None)
     else if length queue < 4 then sret (4 - length queue, None)
     else (case c_readBE (he_cursor env) 4 (he_open env queue) of
       Inl e \<Rightarrow> sfail e
     | Inr (sz32, c) \<Rightarrow>
         let remaining = length queue - 4 in
         sbind (sget rv_header) (\<lambda>h.
           if th_forceClientType h then
             if th_isFramed (th_clientType h) \<and> unat sz32 > remaining then sret (unat sz32 - remaining, None)
             else sbind (removeNonHeader env 0 (th_clientType h) sz32) (\<lambda>(needed, buf).
               if buf \<noteq> None then sret (needed, buf) else removeDetected env needed remaining sz32 c)
           else removeDetected env 0 remaining sz32 c)))"

section \<open>Sending\<close>

definition th_writeString :: "bytes \<Rightarrow> bytes" where
  "th_writeString str = (let strLen = of_nat (length str) :: u32 in writeVarint32 strLen @ take (unat strLen) str)"

definition flushInfoHeaders :: "headers \<Rightarrow> u32 \<Rightarrow> bytes" where
  "flushInfoHeaders hdrs infoId = (let headerCount = of_nat (length hdrs) :: u32 in
     if headerCount > 0
     then writeVarint32 infoId @ writeVarint32 headerCount @ concat (map (\<lambda>(k, v). th_writeString k @ th_writeString v) hdrs)
     else [])"

definition getInfoHeaderSize :: "headers \<Rightarrow> nat" where
  "getInfoHeaderSize hdrs = (if hdrs = [] then 0 else 5 + 5 + sum_list (map (\<lambda>(k, v). 5 + 5 + length k + length v) hdrs))"

definition getMaxWriteHeadersSize :: "theader \<Rightarrow> nat" where
  "getMaxWriteHeadersSize h =
    (case th_writeHeaders h of None \<Rightarrow> 0 | Some m \<Rightarrow> getInfoHeaderSize m) +
    (case th_extraWriteHeaders h of None \<Rightarrow> 0 | Some m \<Rightarrow> getInfoHeaderSize m)"

text \<open>\<open>transform\<close> returns the transforms it applied along with the data.\<close>

fun th_transform_loop :: "codec_api \<Rightarrow> nat \<Rightarrow> nat \<Rightarrow> u16 list \<Rightarrow> bytes \<Rightarrow> thrift_error + bytes \<times> u16 list" where
  "th_transform_loop api n minCompressBytes [] buf = Inr (buf, [])"
| "th_transform_loop api n minCompressBytes (t # ts) buf =
    (if n < minCompressBytes then th_transform_loop api n minCompressBytes ts buf
     else case fromTTransform t of
       Inl e \<Rightarrow> Inl e
     | Inr a \<Rightarrow> (case compressBuffer api buf a of
           Inl e \<Rightarrow> Inl e
         | Inr buf \<Rightarrow> (case th_transform_loop api n minCompressBytes ts buf of
               Inl e \<Rightarrow> Inl e
             | Inr (buf, ts) \<Rightarrow> Inr (buf, t # ts))))"

definition th_transform :: "codec_api \<Rightarrow> bytes \<Rightarrow> u16 list \<Rightarrow> nat \<Rightarrow> thrift_error + bytes \<times> u16 list" where
  "th_transform api buf tTransforms minCompressBytes = th_transform_loop api (length buf) minCompressBytes tTransforms buf"

text \<open>The variable part of the header, before padding, and the buffer that is allocated for the whole header after the headroom of 8 bytes.\<close>

definition header_fields :: "theader \<Rightarrow> u16 list \<Rightarrow> bytes" where
  "header_fields h writeTrans =
    writeVarint32 (scast (th_protoId h)) @ writeVarint32 (ucast (of_nat (length writeTrans) :: u16)) @
    concat (map (\<lambda>transId. writeVarint32 (ucast transId)) writeTrans) @
    (case th_writeHeaders h of None \<Rightarrow> [] | Some m \<Rightarrow> flushInfoHeaders m 1) @
    (case th_extraWriteHeaders h of None \<Rightarrow> [] | Some m \<Rightarrow> flushInfoHeaders m 1)"

definition header_padding :: "nat \<Rightarrow> nat" where
  "header_padding headerSize = 4 - headerSize mod 4"

definition header_room :: "theader \<Rightarrow> u16 list \<Rightarrow> nat" where
  "header_room h writeTrans = 14 + ((2 + unat (of_nat (length writeTrans) :: u16) * 2) * 5 + 4 + getMaxWriteHeadersSize h)"

definition add_identity :: "theader \<Rightarrow> theader" where
  "add_identity h = (if length (th_identity h) > 0
     then th_setHeader ID_VERSION_HEADER ID_VERSION (th_setHeader IDENTITY_HEADER (th_identity h) h) else h)"

text \<open>The bytes after the frame's size: magic, flags, sequence id, header size, and the padded header.\<close>

definition header_section :: "theader \<Rightarrow> u16 list \<Rightarrow> bytes" where
  "header_section h writeTrans =
    (let fields = header_fields h writeTrans; headerSize = length fields + header_padding (length fields) in
     be_bytes 2 (ucast (drop_bit 16 HEADER_MAGIC) :: u16) @ be_bytes 2 (th_flags h) @ be_bytes 4 (th_seqId h) @
     be_bytes 2 (of_nat (headerSize div 4) :: u16) @ fields @ replicate (header_padding (length fields)) 0)"

text \<open>The frame around \<open>buf\<close>; the headers that were written are cleared.\<close>

definition add_header_frame :: "u16 list \<Rightarrow> bytes \<Rightarrow> theader \<Rightarrow> thrift_error + (bytes \<times> theader)" where
  "add_header_frame writeTrans buf h =
    (let header = header_section h writeTrans; szHbo = length header + length buf;
         h' = h\<lparr>th_writeHeaders := (case th_writeHeaders h of None \<Rightarrow> None | Some m \<Rightarrow> Some [])\<rparr> in
     if szHbo > MAX_FRAME_SIZE then
       if \<not> th_allowBigFrames h then Inl (TransportException INVALID_FRAME_SIZE)
       else Inr (be_bytes 4 BIG_FRAME_MAGIC @ be_bytes 8 (of_nat szHbo :: u64) @ header @ buf, h')
     else Inr (be_bytes 4 (of_nat szHbo :: u32) @ header @ buf, h'))"

definition addHeader :: "'c header_env \<Rightarrow> bool \<Rightarrow> bytes \<Rightarrow> theader \<Rightarrow> thrift_error + (bytes \<times> theader)" where
  "addHeader env transform buf h =
    (case (if th_clientType h = THRIFT_HEADER_CLIENT_TYPE \<and> transform
           then th_transform (he_codecs env) buf (th_writeTrans h) 0 else Inr (buf, th_writeTrans h)) of
       Inl e \<Rightarrow> Inl e
     | Inr (buf, writeTrans) \<Rightarrow>
         let chainSize = length buf in
         if th_protoId h = T_JSON_PROTOCOL \<and> th_clientType h \<noteq> THRIFT_HTTP_SERVER_TYPE then Inl (TransportException BAD_ARGS)
         else if chainSize > MAX_FRAME_SIZE \<and> th_clientType h \<noteq> THRIFT_HEADER_CLIENT_TYPE then Inl (TransportException INVALID_FRAME_SIZE)
         else let h = add_identity h in
           (case th_clientType h of
              THRIFT_HEADER_CLIENT_TYPE \<Rightarrow> add_header_frame writeTrans buf h
            | THRIFT_FRAMED_DEPRECATED \<Rightarrow> Inr (be_bytes 4 (of_nat chainSize :: u32) @ buf, h)
            | THRIFT_FRAMED_COMPACT \<Rightarrow> Inr (be_bytes 4 (of_nat chainSize :: u32) @ buf, h)
            | THRIFT_UNFRAMED_DEPRECATED \<Rightarrow> Inr (buf, h)
            | THRIFT_UNFRAMED_COMPACT_DEPRECATED \<Rightarrow> Inr (buf, h)
            | THRIFT_HTTP_SERVER_TYPE \<Rightarrow> Inr (buf, h)
            | THRIFT_HTTP_CLIENT_TYPE \<Rightarrow>
                Inr (he_httpConstruct env buf (th_getWriteHeaders h) (th_extraWriteHeaders h), h\<lparr>th_writeHeaders := None\<rparr>)
            | _ \<Rightarrow> Inl (TransportException BAD_ARGS)))"

end
