(* ===== verification/Header_Roundtrip.thy ===== *)
theory Header_Roundtrip
  imports Header_Transport
begin

unbundle bit_operations_syntax

text \<open>What a receiver takes off the bytes that a sender wrapped.\<close>

section \<open>Header maps\<close>

lemma map_of_assoc_set [simp]: "map_of (assoc_set (=) k v m) = (map_of m)(k \<mapsto> v)"
  by (induction m) auto

lemma map_of_emplace: "map_of (map_emplace k v m) = [k \<mapsto> v] ++ map_of m"
proof (cases "k \<in> fst ` set m")
  case True
  then have "list_ex (\<lambda>(k', _). k' = k) m" by (force simp: list_ex_iff)
  moreover have "[k \<mapsto> v] ++ map_of m = map_of m"
    using True by (auto simp: map_add_def fun_eq_iff dest: weak_map_of_SomeI split: option.splits)
  ultimately show ?thesis by (simp add: map_emplace_def)
next
  case False
  then have "\<not> list_ex (\<lambda>(k', _). k' = k) m" by (force simp: list_ex_iff)
  then show ?thesis by (simp add: map_emplace_def)
qed

lemma map_of_insert: "map_of (map_insert new m) = map_of new ++ map_of m" if "distinct (map fst new)"
  unfolding map_insert_def using that
proof (induction new arbitrary: m)
  case (Cons e new)
  obtain k v where e: "e = (k, v)" by fastforce
  then have "map_of new k = None" using Cons.prems by (simp add: map_of_eq_None_iff)
  then have "map_of new ++ ([k \<mapsto> v] ++ map_of m) = (map_of new)(k \<mapsto> v) ++ map_of m"
    by (auto simp: map_add_def fun_eq_iff split: option.splits)
  then show ?case using Cons e by (simp add: map_of_emplace fun_upd_def del: map_add_assoc)
qed simp

definition absorb :: "headers \<Rightarrow> headers \<Rightarrow> headers" where
  "absorb m hdrs = fold (\<lambda>(k, v). assoc_set (=) k v) m hdrs"

lemma map_of_absorb: "distinct (map fst m) \<Longrightarrow> map_of (absorb m hdrs) = map_of hdrs ++ map_of m"
  unfolding absorb_def
proof (induction m arbitrary: hdrs)
  case (Cons e m)
  obtain k v where e: "e = (k, v)" by fastforce
  have "(map_of hdrs)(k \<mapsto> v) ++ map_of m = map_of hdrs ++ (map_of m)(k \<mapsto> v)"
    using Cons.prems e by (auto simp: map_add_def fun_eq_iff map_of_eq_None_iff image_iff split: option.splits)
  then show ?case using Cons e by (simp add: fun_upd_def)
qed simp

section \<open>Compression\<close>

lemma untransform_transform:
  assumes "lossless api" and "th_transform_loop api n 0 ts buf = Inr (z, ts')"
  shows "ts' = ts \<and> th_untransform api z ts = Inr buf"
  using assms(2)
proof (induction ts arbitrary: buf ts')
  case (Cons t ts)
  then obtain a b us where a: "fromTTransform t = Inr a" and b: "compressBuffer api buf a = Inr b"
    and us: "th_transform_loop api n 0 ts b = Inr (z, us)" and "ts' = t # us"
    by (auto split: sum.splits)
  then show ?case using Cons.IH [OF us] uncompressBuffer_compressBuffer [OF assms(1) b] by simp
qed simp

section \<open>The interface to cursors\<close>

locale header_io =
  fixes env :: "'c header_env"
  assumes is_cursor: "cursor (he_cursor env) (he_rem env)"
    and open_rem [simp]: "he_rem env (he_open env bs) = bs"
    and same_position: "he_samePosition env c d \<Longrightarrow> length (he_rem env c) = length (he_rem env d)"

sublocale header_io \<subseteq> cursor "he_cursor env" "he_rem env"
  by (rule is_cursor)

definition headers_ok :: "headers \<Rightarrow> bool" where
  "headers_ok m \<longleftrightarrow> distinct (map fst m) \<and> length m < 2 ^ 32 \<and> (\<forall>(k, v) \<in> set m. length k < 2 ^ 32 \<and> length v < 2 ^ 32)"

definition absorb_block :: "headers \<Rightarrow> headers option \<Rightarrow> headers option" where
  "absorb_block m hdrs = (if m = [] then hdrs else Some (absorb m (case hdrs of None \<Rightarrow> [] | Some h \<Rightarrow> h)))"

lemma unat_of_nat_u32: "n < 2 ^ 32 \<Longrightarrow> unat (of_nat n :: u32) = n"
  by (simp add: unat_of_nat take_bit_nat_eq_self)

lemma of_nat_u32_eq_0: "n < 2 ^ 32 \<Longrightarrow> (of_nat n :: u32) = 0 \<longleftrightarrow> n = 0"
  by (auto simp: word_of_nat_eq_0_iff dest: dvd_imp_le)

text \<open>The blocks of info headers that a header carries, and the size of its variable part with padding.\<close>

definition header_blocks :: "theader \<Rightarrow> headers list" where
  "header_blocks h = [th_getWriteHeaders h, case th_extraWriteHeaders h of None \<Rightarrow> [] | Some m \<Rightarrow> m]"

definition padded_length :: "theader \<Rightarrow> u16 list \<Rightarrow> nat" where
  "padded_length h ts = length (header_fields h ts) + header_padding (length (header_fields h ts))"

lemma header_fields_eq: "header_fields h ts = writeVarint32 (scast (th_protoId h)) @ writeVarint32 (ucast (of_nat (length ts) :: u16)) @
    concat (map (\<lambda>t. writeVarint32 (ucast t)) ts) @ concat (map (\<lambda>m. flushInfoHeaders m 1) (header_blocks h))"
  by (simp add: header_fields_def header_blocks_def th_getWriteHeaders_def flushInfoHeaders_def split: option.split)

lemma length_header_section: "length (header_section h ts) = 10 + padded_length h ts"
  by (simp add: header_section_def padded_length_def Let_def)

lemma header_padding_pos: "0 < header_padding n"
  by (simp add: header_padding_def)

lemma padded_words:
  assumes "padded_length h ts < 2 ^ 18"
  shows "4 * unat (of_nat (padded_length h ts div 4) :: u16) = padded_length h ts"
proof -
  have "(f + (4 - f mod 4)) mod 4 = 0" for f :: nat by presburger
  then have "4 dvd padded_length h ts" by (simp add: padded_length_def header_padding_def dvd_eq_mod_eq_0)
  moreover have "unat (of_nat (padded_length h ts div 4) :: u16) = padded_length h ts div 4"
    using assms by (simp add: unat_of_nat take_bit_nat_eq_self)
  ultimately show ?thesis by simp
qed

definition header_sendable :: "theader \<Rightarrow> bool" where
  "header_sendable h \<longleftrightarrow> th_protoId h \<in> set header_protocols \<and> length (th_writeTrans h) < 128 \<and>
     (\<forall>m \<in> set (header_blocks h). headers_ok m) \<and> padded_length h (th_writeTrans h) < 2 ^ 18"

lemma setTTransforms: "\<exists>w. fold th_setTTransform ts x = x\<lparr>th_writeTrans := w\<rparr> \<and> set w = set (th_writeTrans x) \<union> set ts"
proof (induction ts arbitrary: x)
  case (Cons t ts)
  let ?w = "if t \<in> set (th_writeTrans x) then th_writeTrans x else th_writeTrans x @ [t]"
  have "th_setTTransform t x = x\<lparr>th_writeTrans := ?w\<rparr>" "set ?w = insert t (set (th_writeTrans x))"
    by (auto simp: th_setTTransform_def)
  then show ?case using Cons [of "x\<lparr>th_writeTrans := ?w\<rparr>"] by auto
next
  case Nil
  then show ?case by (intro exI [of _ "th_writeTrans x"]) simp
qed

definition sent_headers :: "theader \<Rightarrow> bytes \<rightharpoonup> bytes" where
  "sent_headers h = map_of (th_getWriteHeaders h) ++ map_of (case th_extraWriteHeaders h of None \<Rightarrow> [] | Some m \<Rightarrow> m)"

lemma map_of_blocks:
  assumes "header_sendable h"
  shows "map_of (case fold absorb_block (header_blocks h) None of None \<Rightarrow> [] | Some m \<Rightarrow> m) = sent_headers h"
  using assms by (auto simp: header_sendable_def header_blocks_def headers_ok_def absorb_block_def sent_headers_def map_of_absorb)

text \<open>The words at the start of a header frame.\<close>

lemma header_words: "HEADER_MAGIC = push_bit 16 (mask 12)" "HEADER_MASK = push_bit 16 (mask 16)" "FLAGS_MASK = mask 16"
    "VERSION_MASK = HEADER_MASK"
  by (simp_all add: HEADER_MAGIC_def HEADER_MASK_def FLAGS_MASK_def VERSION_MASK_def mask_eq_exp_minus_1 push_bit_eq_mult)

lemma be_bytes_2: "be_bytes 2 w = [ucast (drop_bit 8 w), ucast w]"
  by (simp add: numeral_2_eq_2)

lemma be_bytes_4: "be_bytes 4 w = [ucast (drop_bit 24 w), ucast (drop_bit 16 w), ucast (drop_bit 8 w), ucast w]"
proof -
  have "be_bytes 4 w = be_bytes (Suc (Suc 2)) w" by simp
  then show ?thesis by (simp only: be_bytes.simps be_bytes_2 drop_bit_drop_bit) simp
qed

lemma bit_above_u16: "16 \<le> i \<Longrightarrow> \<not> bit (w :: u16) i"
  using bit_imp_le_length [of w i] by auto

lemma header_magic_bytes:
  fixes fl :: u16
  shows "be_bytes 2 (ucast (drop_bit 16 HEADER_MAGIC) :: u16) @ be_bytes 2 fl = be_bytes 4 (HEADER_MAGIC OR ucast fl :: u32)"
  unfolding be_bytes_2 be_bytes_4 by (auto simp: header_words bit_simps bit_above_u16 intro!: bit_word_eqI)

lemma header_section_magic:
  "\<exists>tail. header_section h ts = be_bytes 4 (HEADER_MAGIC OR ucast (th_flags h) :: u32) @ be_bytes 4 (th_seqId h) @ tail"
  unfolding header_magic_bytes [symmetric] by (simp add: header_section_def Let_def)

lemma header_magic_detected: "analyzeSecond32bit (HEADER_MAGIC OR ucast (fl :: u16)) = THRIFT_HEADER_CLIENT_TYPE"
proof -
  let ?w = "HEADER_MAGIC OR ucast fl :: u32"
  have m: "?w AND HEADER_MASK = HEADER_MAGIC"
    by (rule bit_word_eqI) (auto simp: bit_simps header_words bit_above_u16)
  have "(ucast (drop_bit 24 ?w) :: byte) = mask 4"
    by (rule bit_word_eqI) (auto simp: bit_simps header_words bit_above_u16)
  then have "\<not> compactFramed ?w" by (simp add: compactFramed_def Let_def PROTOCOL_ID_def mask_eq_exp_minus_1)
  moreover have "HEADER_MAGIC \<noteq> VERSION_1" by (simp add: HEADER_MAGIC_def VERSION_1_def)
  ultimately show ?thesis using m by (simp add: analyzeSecond32bit_def header_words(4))
qed

lemma header_magic_flags: "ucast ((HEADER_MAGIC OR ucast (fl :: u16)) AND FLAGS_MASK) = fl"
  by (rule bit_word_eqI) (auto simp: bit_simps header_words)

lemma analyzeFirst_small: "unat w \<le> MAX_FRAME_SIZE \<Longrightarrow> analyzeFirst32bit w = None"
proof -
  assume small: "unat w \<le> MAX_FRAME_SIZE"
  then have w: "take_bit 30 w = w" by (simp add: word_unat_eq_iff unsigned_take_bit_eq take_bit_nat_eq_self MAX_FRAME_SIZE_def)
  then have b: "\<not> bit w 31" using bit_take_bit_iff [of 30 w 31] by simp
  have "w AND VERSION_MASK \<noteq> VERSION_1"
  proof
    assume "w AND VERSION_MASK = VERSION_1"
    then have "bit (w AND VERSION_MASK) 31" by (simp add: VERSION_1_def)
    then show False using b by (simp add: bit_simps)
  qed
  moreover have "(ucast (drop_bit 24 w) :: byte) \<noteq> PROTOCOL_ID"
  proof
    assume "(ucast (drop_bit 24 w) :: byte) = PROTOCOL_ID"
    then have "bit (ucast (drop_bit 24 w) :: byte) 7" by (simp add: PROTOCOL_ID_def)
    then show False using b by (simp add: bit_simps)
  qed
  moreover have "w \<noteq> HTTP_SERVER_MAGIC" "w \<noteq> HTTP_GET_CLIENT_MAGIC" "w \<noteq> HTTP_HEAD_CLIENT_MAGIC" "w \<noteq> HTTP_CLIENT_MAGIC"
    using small by (auto simp: HTTP_SERVER_MAGIC_def HTTP_GET_CLIENT_MAGIC_def HTTP_HEAD_CLIENT_MAGIC_def HTTP_CLIENT_MAGIC_def MAX_FRAME_SIZE_def)
  ultimately show ?thesis by (simp add: analyzeFirst32bit_def compactFramed_def Let_def)
qed

lemma analyzeFirst_big: "analyzeFirst32bit BIG_FRAME_MAGIC = None"
  by code_simp

text \<open>The size field of a frame.\<close>

definition header_prefix :: "nat \<Rightarrow> bytes" where
  "header_prefix sz = (if sz > MAX_FRAME_SIZE then be_bytes 4 BIG_FRAME_MAGIC @ be_bytes 8 (of_nat sz :: u64) else be_bytes 4 (of_nat sz :: u32))"

lemma addHeader_wire:
  assumes "addHeader env True buf h = Inr (wire, h')" and "lossless (he_codecs env)" and "th_clientType h = THRIFT_HEADER_CLIENT_TYPE"
  shows "\<exists>z. let sec = header_section (add_identity h) (th_writeTrans h); sz = length sec + length z in
    th_untransform (he_codecs env) z (th_writeTrans h) = Inr buf \<and> wire = header_prefix sz @ sec @ z \<and>
    (sz > MAX_FRAME_SIZE \<longrightarrow> th_allowBigFrames h)"
proof -
  have id: "th_clientType (add_identity h) = th_clientType h" "th_allowBigFrames (add_identity h) = th_allowBigFrames h"
    by (simp_all add: add_identity_def th_setHeader_def)
  obtain z ts where "th_transform (he_codecs env) buf (th_writeTrans h) 0 = Inr (z, ts)"
    using assms(1,3) by (auto simp: addHeader_def split: sum.splits)
  moreover from this have "ts = th_writeTrans h" "th_untransform (he_codecs env) z (th_writeTrans h) = Inr buf"
    using untransform_transform [OF assms(2)] unfolding th_transform_def by blast+
  ultimately show ?thesis
    using assms(1,3) id by (auto simp: addHeader_def add_header_frame_def header_prefix_def Let_def split: if_splits intro!: exI [of _ z])
qed

text \<open>What the receiver knows once it has taken a frame with the header \<open>h\<close>.\<close>

definition header_received :: "theader \<Rightarrow> receiver \<Rightarrow> receiver \<Rightarrow> bool" where
  "header_received h v v' \<longleftrightarrow> th_clientType (rv_header v') = THRIFT_HEADER_CLIENT_TYPE \<and>
     th_protoId (rv_header v') = th_protoId h \<and> th_seqId (rv_header v') = th_seqId h \<and> th_flags (rv_header v') = th_flags h \<and>
     th_readTrans (rv_header v') = th_writeTrans h \<and>
     set (th_writeTrans (rv_header v')) = set (th_writeTrans (rv_header v)) \<union> set (th_writeTrans h) \<and>
     map_of (th_getHeaders (rv_header v')) = map_of (rv_persistent v) ++ sent_headers h \<and> rv_persistent v' = rv_persistent v"

context header_io begin

abbreviation "A \<equiv> he_arch env"
abbreviation "C \<equiv> he_cursor env"
abbreviation "rem \<equiv> he_rem env"

lemma readVarint_small:
  assumes "8 \<le> LENGTH('w::len)" and "\<not> bit b 7" and "rem c = b # rest"
  shows "\<exists>c'. readVarint A C c = Inr (ucast b :: 'w word, c') \<and> rem c' = rest"
proof (cases "cur_data C c")
  case Nil
  moreover have "kVarintMaxBytes TYPE('w) > 0" using assms(1) by (simp add: kVarintMaxBytes_def)
  ultimately have *: "readVarint A C c = (readVarintSlow C c :: thrift_error + 'w word \<times> 'c)"
    by (simp add: readVarint_def readVarintMediumSlow_def)
  have "varint_decode (rem c) = Inr (ucast b :: 'w word, 1)"
    using varint_decode_small [OF assms(1,2)] assms(3) by metis
  then show ?thesis
    using readVarintSlow_implements [where 'w = 'w, unfolded implements_def, rule_format, of c] assms(3) * by auto
next
  case (Cons d ds)
  then have "d = b" using rem_data_split [of c] assms(3) by (metis append_Cons list.inject)
  then show ?thesis using Cons assms skipNoAdvance_ok [of 1 c] by (simp add: readVarint_def and_80_eq_0)
qed

lemma reads_varint32: "reads rem (readVarint A C) (writeVarint32 u) (u :: u32)"
  unfolding reads_def writeVarint32_def using readVarint_app [OF contiguous_ok_32] by simp

lemma reads_varint_small:
  assumes "unat n < 128" and "8 \<le> LENGTH('w::len)"
  shows "reads rem (readVarint A C) (writeVarint32 n) (ucast n :: 'w word)"
proof -
  have n: "take_bit 7 n = n" using assms(1) by (simp add: word_unat_eq_iff unsigned_take_bit_eq take_bit_nat_eq_self)
  have bits: "\<not> bit n i" if "7 \<le> i" for i using n that by (metis bit_take_bit_iff not_le)
  have low: "i < 8" if "bit n i" for i using bits [of i] that by (cases "i < 7") auto
  have "drop_bit 7 n = 0" by (rule bit_word_eqI) (simp add: bit_drop_bit_eq bits)
  then have w: "writeVarint32 n = [ucast n]" by (simp add: writeVarint32_def pkt_small)
  have "ucast (ucast n :: byte) = (ucast n :: 'w word)"
    by (rule bit_word_eqI) (auto simp: bit_simps dest: low)
  then show ?thesis
    unfolding reads_def w using readVarint_small [OF assms(2), of "ucast n"] by (simp add: bit_simps bits)
qed

lemma reads_string: "length str < 2 ^ 32 \<Longrightarrow> reads rem (th_readString A C) (th_writeString str) str"
  unfolding th_readString_def th_writeString_def Let_def
  by (rule reads_sbind [OF reads_varint32])
    (auto simp: reads_def unat_of_nat_u32 th_getString_def scheck_def sbind_def canAdvance_iff c_read_app)

lemma reads_info_loop:
  "\<forall>(k, v) \<in> set m. length k < 2 ^ 32 \<and> length v < 2 ^ 32 \<Longrightarrow>
    reads rem (readInfoHeaders_loop A C (length m) hdrs) (concat (map (\<lambda>(k, v). th_writeString k @ th_writeString v) m)) (absorb m hdrs)"
proof (induction m arbitrary: hdrs)
  case (Cons e m)
  obtain k v where e: "e = (k, v)" by fastforce
  have "reads rem (readInfoHeaders_loop A C (Suc (length m)) hdrs)
      (th_writeString k @ th_writeString v @ concat (map (\<lambda>(k, v). th_writeString k @ th_writeString v) m)) (absorb (e # m) hdrs)"
    using Cons e unfolding readInfoHeaders_loop.simps(2)
    by (intro reads_sbind [OF reads_string] reads_sbind [OF reads_string]) (auto simp: absorb_def)
  then show ?case using e by simp
qed (simp add: absorb_def)

lemma reads_info:
  assumes "headers_ok m"
  shows "reads rem (readInfoHeaders A C hdrs) (writeVarint32 (of_nat (length m)) @
    concat (map (\<lambda>(k, v). th_writeString k @ th_writeString v) m)) (absorb m hdrs)"
  unfolding readInfoHeaders_def
  by (rule reads_sbind [OF reads_varint32]) (use assms reads_info_loop [of m hdrs] in \<open>simp add: headers_ok_def unat_of_nat_u32\<close>)

lemma reads_transforms: "reads rem (readTransforms A C (length ts)) (concat (map (\<lambda>t. writeVarint32 (ucast t)) ts)) ts"
proof (induction ts)
  case (Cons t ts)
  have "reads rem (readTransforms A C (Suc (length ts)))
      (writeVarint32 (ucast t) @ concat (map (\<lambda>t. writeVarint32 (ucast t)) ts) @ []) (ucast (ucast t :: i32) # ts)"
    unfolding readTransforms.simps(2) by (intro reads_sbind [OF reads_varint32] reads_sbind [OF Cons] reads_sret)
  moreover have "ucast (ucast t :: i32) = t" by (rule bit_word_eqI) (simp add: bit_simps)
  ultimately show ?case by simp
qed (simp add: reads_def sret_def)

lemma infos_read:
  assumes "\<And>c. same c \<Longrightarrow> length (rem c) \<le> length rest"
  shows "\<forall>m \<in> set ms. headers_ok m \<Longrightarrow> rem c = concat (map (\<lambda>m. flushInfoHeaders m 1) ms) @ 0 # rest \<Longrightarrow> length ms < fuel \<Longrightarrow>
    \<exists>c'. readInfos A C same fuel hdrs p c = Inr ((fold absorb_block ms hdrs, p), c')"
proof (induction ms arbitrary: hdrs fuel c)
  case Nil
  then obtain n where "fuel = Suc n" by (cases fuel) auto
  moreover have "\<not> same c" using assms [of c] Nil(2) by auto
  moreover obtain c' where "readVarint A C c = Inr (0 :: u32, c')" using readVarint_small [where 'w = 32, of 0 c rest] Nil(2) by auto
  ultimately show ?case by (auto simp: sbind_def sret_def)
next
  case (Cons m ms)
  show ?case
  proof (cases "m = []")
    case True
    then show ?thesis using Cons.IH [of c fuel hdrs] Cons.prems by (simp add: flushInfoHeaders_def absorb_block_def)
  next
    case False
    obtain n where n: "fuel = Suc n" "length ms < n" using Cons.prems(3) by (cases fuel) auto
    let ?body = "writeVarint32 (of_nat (length m)) @ concat (map (\<lambda>(k, v). th_writeString k @ th_writeString v) m)"
    let ?tail = "concat (map (\<lambda>m. flushInfoHeaders m 1) ms) @ 0 # rest"
    have ok: "headers_ok m" using Cons.prems by simp
    then have "(of_nat (length m) :: u32) > 0"
      using False by (simp add: headers_ok_def word_neq_0_conv [symmetric] of_nat_u32_eq_0)
    then have r: "rem c = writeVarint32 1 @ ?body @ ?tail" using Cons.prems(2) by (simp add: flushInfoHeaders_def Let_def)
    then have "\<not> same c" using assms [of c] by auto
    moreover obtain c1 where c1: "readVarint A C c = Inr (1 :: u32, c1)" "rem c1 = ?body @ ?tail"
      using reads_varint32 [of 1] r unfolding reads_def by blast
    moreover obtain c2 where "readInfoHeaders A C (case hdrs of None \<Rightarrow> [] | Some m \<Rightarrow> m) c1 =
        Inr (absorb m (case hdrs of None \<Rightarrow> [] | Some m \<Rightarrow> m), c2)" "rem c2 = ?tail"
      using reads_info [OF ok] c1(2) unfolding reads_def by blast
    moreover have "\<not> 3 \<le> (1 :: u32)" by (simp add: word_le_nat_alt)
    ultimately show ?thesis using Cons.IH [of c2 n] Cons.prems(1) n False by (simp add: sbind_def absorb_block_def)
  qed
qed

lemma parses_infos:
  assumes "\<And>c. same c \<Longrightarrow> length (rem c) \<le> length rest" and "\<forall>m \<in> set ms. headers_ok m" and "length ms < fuel"
    and "\<And>c. \<exists>c'. k (fold absorb_block ms hdrs, p) c = Inr (y, c')"
  shows "parses rem (sbind (readInfos A C same fuel hdrs p) k) (concat (map (\<lambda>m. flushInfoHeaders m 1) ms) @ 0 # rest) y"
  unfolding parses_def
proof (intro allI impI)
  fix c
  assume "rem c = concat (map (\<lambda>m. flushInfoHeaders m 1) ms) @ 0 # rest"
  then obtain c' where "readInfos A C same fuel hdrs p c = Inr ((fold absorb_block ms hdrs, p), c')"
    using infos_read [OF assms(1,2) _ assms(3)] by blast
  then show "\<exists>c'. sbind (readInfos A C same fuel hdrs p) k c = Inr (y, c')" using assms(4) [of c'] by (simp add: sbind_def)
qed

lemma parses_header:
  assumes "header_sendable h" and ts: "ts = th_writeTrans h"
  shows "parses rem (readHeaderFields env (header_section h ts @ body) p) (header_section h ts @ body)
    (length (header_section h ts), th_protoId h, ts, fold absorb_block (header_blocks h) None, p)"
proof -
  let ?pre = "be_bytes 2 (ucast (drop_bit 16 HEADER_MAGIC) :: u16) @ be_bytes 2 (th_flags h) @ be_bytes 4 (th_seqId h)"
  let ?words = "of_nat (padded_length h ts div 4) :: u16"
  let ?n = "length (header_section h ts)"
  let ?buf = "header_section h ts @ body"
  obtain q where q: "header_padding (length (header_fields h ts)) = Suc q"
    using header_padding_pos gr0_implies_Suc by blast
  let ?rest = "replicate q 0 @ body"
  have wire: "?buf = ?pre @ be_bytes 2 ?words @
      writeVarint32 (scast (th_protoId h)) @ writeVarint32 (ucast (of_nat (length ts) :: u16)) @
      concat (map (\<lambda>t. writeVarint32 (ucast t)) ts) @ concat (map (\<lambda>m. flushInfoHeaders m 1) (header_blocks h)) @ 0 # ?rest"
    by (simp add: header_section_def Let_def q padded_length_def) (simp add: header_fields_eq)
  have n: "4 * unat ?words + 10 = ?n"
    using assms by (simp add: length_header_section header_sendable_def padded_words)
  obtain data where data: "c_skip C ?n (he_open env ?buf) = Inr ((), data)" "rem data = body"
    using c_skip_app [of "he_open env ?buf" "header_section h ts" body ?n] by auto
  have small: "unat (scast (th_protoId h) :: u32) < 128" "ucast (scast (th_protoId h) :: u32) = th_protoId h"
    using assms(1) by (auto simp: header_sendable_def header_protocols_def)
  have len: "unat (of_nat (length ts) :: u16) = length ts"
    using assms by (simp add: header_sendable_def unat_of_nat take_bit_nat_eq_self)
  have "unat (ucast (of_nat (length ts) :: u16) :: u32) < 128"
    using assms len by (simp add: header_sendable_def unsigned_ucast_eq take_bit_nat_eq_self)
  then have "reads rem (readVarint A C) (writeVarint32 (ucast (of_nat (length ts) :: u16))) (ucast (ucast (of_nat (length ts) :: u16) :: u32) :: u16)"
    by (rule reads_varint_small) simp
  moreover have "ucast (ucast w :: u32) = w" for w :: u16 by (rule bit_word_eqI) (simp add: bit_simps)
  ultimately have num: "reads rem (readVarint A C) (writeVarint32 (ucast (of_nat (length ts) :: u16))) (of_nat (length ts) :: u16)" by simp
  have proto: "reads rem (readVarint A C) (writeVarint32 (scast (th_protoId h))) (th_protoId h)"
    using reads_varint_small [where 'w = 16, OF small(1)] small(2) by simp
  have blocks: "\<forall>m \<in> set (header_blocks h). headers_ok m" and protocol: "th_protoId h \<in> set header_protocols"
    using assms by (auto simp: header_sendable_def)
  have end_of: "length (rem c) \<le> length ?rest" if "he_samePosition env data c" for c
    using same_position [OF that] data(2) by simp
  have "parses rem (readHeaderFields env ?buf p) (?pre @ be_bytes 2 ?words @
      writeVarint32 (scast (th_protoId h)) @ writeVarint32 (ucast (of_nat (length ts) :: u16)) @
      concat (map (\<lambda>t. writeVarint32 (ucast t)) ts) @ concat (map (\<lambda>m. flushInfoHeaders m 1) (header_blocks h)) @ 0 # ?rest)
    (?n, th_protoId h, ts, fold absorb_block (header_blocks h) None, p)"
    unfolding readHeaderFields_def Let_def
    by (rule parses_sbind [OF reads_skip], simp, rule parses_sbind [OF reads_BE], simp, unfold n, rule parses_sguard, simp,
        simp only: data sum.case prod.case, rule parses_sbind [OF proto], rule parses_sguard [OF protocol], rule parses_sbind [OF num],
        simp only: len, rule parses_sbind [OF reads_transforms], rule parses_infos [OF end_of])
      (use blocks in \<open>simp_all add: header_blocks_def sret_def length_header_section\<close>)
  then show ?thesis by (simp only: wire [symmetric])
qed

lemma readHeaderFormat_ok:
  assumes "header_sendable h" and "distinct (map fst (rv_persistent v))" and "th_untransform (he_codecs env) z (th_writeTrans h) = Inr buf"
    and "th_clientType (rv_header v) = THRIFT_HEADER_CLIENT_TYPE"
  shows "\<exists>v'. readHeaderFormat env (header_section h (th_writeTrans h) @ z) v = Inr (buf, v') \<and> rv_queue v' = rv_queue v \<and>
    rv_persistent v' = rv_persistent v \<and> th_protoId (rv_header v') = th_protoId h \<and> th_readTrans (rv_header v') = th_writeTrans h \<and>
    th_seqId (rv_header v') = th_seqId (rv_header v) \<and> th_flags (rv_header v') = th_flags (rv_header v) \<and>
    th_clientType (rv_header v') = THRIFT_HEADER_CLIENT_TYPE \<and>
    set (th_writeTrans (rv_header v')) = set (th_writeTrans (rv_header v)) \<union> set (th_writeTrans h) \<and>
    map_of (th_getHeaders (rv_header v')) = map_of (rv_persistent v) ++ sent_headers h"
proof -
  let ?ts = "th_writeTrans h"
  let ?p = "rv_persistent v"
  let ?hdrs = "fold absorb_block (header_blocks h) None"
  define merged where "merged = (if ?p = [] then ?hdrs else Some (map_insert ?p (case ?hdrs of None \<Rightarrow> [] | Some m \<Rightarrow> m)))"
  obtain c where c: "readHeaderFields env (header_section h ?ts @ z) ?p (he_open env (header_section h ?ts @ z)) =
      Inr ((length (header_section h ?ts), th_protoId h, ?ts, ?hdrs, ?p), c)"
    using parses_header [OF assms(1) refl, of z ?p] unfolding parses_def by (metis open_rem)
  obtain w where w: "fold th_setTTransform ?ts ((rv_header v)\<lparr>th_readTrans := ?ts, th_readHeaders := merged, th_protoId := th_protoId h\<rparr>) =
      (rv_header v)\<lparr>th_readTrans := ?ts, th_readHeaders := merged, th_protoId := th_protoId h, th_writeTrans := w\<rparr>"
      "set w = set (th_writeTrans (rv_header v)) \<union> set ?ts"
    using setTTransforms [of ?ts "(rv_header v)\<lparr>th_readTrans := ?ts, th_readHeaders := merged, th_protoId := th_protoId h\<rparr>"] by auto
  have m: "map_of (case merged of None \<Rightarrow> [] | Some m \<Rightarrow> m) = map_of ?p ++ sent_headers h"
    using map_of_blocks [OF assms(1)] map_of_insert [OF assms(2)] by (simp add: merged_def)
  have "th_protoId h \<noteq> T_JSON_PROTOCOL" using assms(1) by (auto simp: header_sendable_def header_protocols_def)
  then show ?thesis
    using c w assms(3,4) m by (simp add: readHeaderFormat_def Let_def th_getHeaders_def flip: merged_def)
qed

lemma removeSized_ok:
  assumes "header_sendable h" and "distinct (map fst (rv_persistent v))" and "th_untransform (he_codecs env) z (th_writeTrans h) = Inr buf"
    and "rv_queue v = pre @ frame @ rest" and "rem c = frame @ rest" and frame: "frame = header_section h (th_writeTrans h) @ z"
  shows "\<exists>v'. removeSized env 0 (length (frame @ rest)) (length frame) (length pre) c v = Inr ((0, Some buf), v') \<and>
    rv_queue v' = rest \<and> header_received h v v'"
proof -
  let ?magic = "HEADER_MAGIC OR ucast (th_flags h) :: u32"
  obtain tail where sec: "header_section h (th_writeTrans h) = be_bytes 4 ?magic @ be_bytes 4 (th_seqId h) @ tail"
    using header_section_magic by blast
  obtain c1 where c1: "c_readBE C 4 c = Inr (?magic, c1)" "rem c1 = be_bytes 4 (th_seqId h) @ tail @ z @ rest"
    using reads_BE [of 4 ?magic] assms(5) frame sec unfolding reads_def by auto
  obtain c2 where c2: "c_readBE C 4 c1 = Inr (th_seqId h, c2)" using reads_BE [of 4 "th_seqId h"] c1(2) unfolding reads_def by auto
  let ?v = "v\<lparr>rv_header := (rv_header v)\<lparr>th_clientType := THRIFT_HEADER_CLIENT_TYPE, th_flags := th_flags h, th_seqId := th_seqId h\<rparr>, rv_queue := rest\<rparr>"
  obtain v' where "readHeaderFormat env frame ?v = Inr (buf, v')" "rv_queue v' = rest" "header_received h v v'"
    using readHeaderFormat_ok [OF assms(1) _ assms(3), of ?v] assms(2) unfolding frame by (auto simp: header_received_def)
  moreover have "10 \<le> length frame" using frame by (simp add: length_header_section)
  ultimately show ?thesis using c1(1) c2 assms(4)
    by (simp add: removeSized_def removeNonHeader_def header_magic_detected header_magic_flags sbind_def rv_setClientType_def smod_def
        sret_def queue_trimStart_def queue_split_def)
qed

lemma removeHeader_detect:
  assumes "c_readBE C 4 (he_open env (rv_queue v)) = Inr (w, c)" and "4 \<le> length (rv_queue v)" and "\<not> th_forceClientType (rv_header v)"
  shows "removeHeader env v = removeDetected env 0 (length (rv_queue v) - 4) w c v"
proof -
  have "rv_queue v \<noteq> []" using assms(2) by auto
  then show ?thesis using assms by (simp add: removeHeader_def sbind_def sget_def Let_def)
qed

lemma removeHeader_prefix:
  assumes "rv_queue v = header_prefix sz @ tail" and "\<not> th_forceClientType (rv_header v)" and "sz < 2 ^ 64"
    and "sz > MAX_FRAME_SIZE \<longrightarrow> th_allowBigFrames (rv_header v)"
  shows "\<exists>c. removeHeader env v = removeSized env 0 (length tail) sz (length (header_prefix sz)) c v \<and> rem c = tail"
proof (cases "sz > MAX_FRAME_SIZE")
  case True
  let ?q = "he_open env (rv_queue v)"
  have q: "rem ?q = be_bytes 4 BIG_FRAME_MAGIC @ be_bytes 8 (of_nat sz :: u64) @ tail" using assms(1) True by (simp add: header_prefix_def)
  obtain c1 where c1: "c_readBE C 4 ?q = Inr (BIG_FRAME_MAGIC, c1)" "rem c1 = be_bytes 8 (of_nat sz :: u64) @ tail"
    using reads_BE [of 4 BIG_FRAME_MAGIC, unfolded reads_def, rule_format, OF _ q] by auto
  obtain c2 where c2: "c_readBE C 8 c1 = Inr (of_nat sz :: u64, c2)" "rem c2 = tail"
    using reads_BE [of 8 "of_nat sz :: u64"] c1(2) unfolding reads_def by auto
  have "unat (of_nat sz :: u64) = sz" using assms(3) by (simp add: unat_of_nat take_bit_nat_eq_self)
  moreover have "unat BIG_FRAME_MAGIC > MAX_FRAME_SIZE" by (simp add: BIG_FRAME_MAGIC_def MAX_FRAME_SIZE_def)
  ultimately show ?thesis using c1 c2 assms True
    by (auto simp: removeHeader_detect [OF c1(1)] removeDetected_def analyzeFirst_big header_prefix_def sbind_def sget_def)
next
  case False
  let ?q = "he_open env (rv_queue v)"
  have q: "rem ?q = be_bytes 4 (of_nat sz :: u32) @ tail" using assms(1) False by (simp add: header_prefix_def)
  obtain c1 where c1: "c_readBE C 4 ?q = Inr (of_nat sz :: u32, c1)" "rem c1 = tail"
    using reads_BE [of 4 "of_nat sz :: u32", unfolded reads_def, rule_format, OF _ q] by auto
  have "unat (of_nat sz :: u32) = sz" using False by (simp add: MAX_FRAME_SIZE_def unat_of_nat_u32)
  moreover from this have "analyzeFirst32bit (of_nat sz) = None" using False by (intro analyzeFirst_small) simp
  ultimately show ?thesis using c1 assms False
    by (auto simp: removeHeader_detect [OF c1(1)] removeDetected_def header_prefix_def sbind_def sget_def)
qed

lemma header_taken:
  assumes "lossless (he_codecs env)" and "header_sendable (add_identity h)"
    and "th_clientType h = THRIFT_HEADER_CLIENT_TYPE" and "addHeader env True buf h = Inr (wire, h')" and "length wire < 2 ^ 64"
    and "\<not> th_forceClientType (rv_header v)" and "th_allowBigFrames h \<longrightarrow> th_allowBigFrames (rv_header v)"
    and "distinct (map fst (rv_persistent v))" and "rv_queue v = wire @ rest"
  shows "\<exists>v'. removeHeader env v = Inr ((0, Some buf), v') \<and> rv_queue v' = rest \<and> header_received (add_identity h) v v'"
proof -
  have ts: "th_writeTrans (add_identity h) = th_writeTrans h" by (simp add: add_identity_def th_setHeader_def)
  let ?sec = "header_section (add_identity h) (th_writeTrans h)"
  obtain z where z: "th_untransform (he_codecs env) z (th_writeTrans h) = Inr buf"
    "wire = header_prefix (length (?sec @ z)) @ ?sec @ z" "length (?sec @ z) > MAX_FRAME_SIZE \<longrightarrow> th_allowBigFrames h"
    using addHeader_wire [OF assms(4,1,3)] by (auto simp: Let_def)
  obtain c where c: "removeHeader env v = removeSized env 0 (length ((?sec @ z) @ rest)) (length (?sec @ z)) (length (header_prefix (length (?sec @ z)))) c v"
      "rem c = (?sec @ z) @ rest"
    using removeHeader_prefix [of v "length (?sec @ z)" "(?sec @ z) @ rest"] assms z by auto
  show ?thesis unfolding c(1)
    by (rule removeSized_ok [OF assms(2,8)]) (use assms(9) z ts c(2) in auto)
qed

lemma header_awaited:
  assumes "lossless (he_codecs env)"
    and "th_clientType h = THRIFT_HEADER_CLIENT_TYPE" and "addHeader env True buf h = Inr (wire, h')" and "length wire < 2 ^ 64"
    and "\<not> th_forceClientType (rv_header v)" and "th_allowBigFrames h \<longrightarrow> th_allowBigFrames (rv_header v)"
    and "rv_queue v = take n wire" and "n < length wire"
  shows "\<exists>needed. removeHeader env v = Inr ((needed, None), v) \<and> 0 < needed \<and> needed \<le> length wire - n"
proof -
  obtain frame where wire: "wire = header_prefix (length frame) @ frame" and big: "length frame > MAX_FRAME_SIZE \<longrightarrow> th_allowBigFrames h"
    using addHeader_wire [OF assms(3,1,2)] by (force simp: Let_def)
  let ?p = "header_prefix (length frame)"
  have allowed: "length frame > MAX_FRAME_SIZE \<longrightarrow> th_allowBigFrames (rv_header v)" using big assms(6) by blast
  consider "length ?p \<le> n" | "n < 4" | "4 \<le> n" "n < length ?p" by linarith
  then show ?thesis
  proof cases
    case 1
    then have q: "rv_queue v = ?p @ take (n - length ?p) frame" using assms(7) wire by simp
    obtain c where "removeHeader env v = removeSized env 0 (length (take (n - length ?p) frame)) (length frame) (length ?p) c v"
      using removeHeader_prefix [OF q assms(5) _ allowed] assms(4) wire by auto
    moreover have "n - length ?p < length frame" "n < length ?p + length frame" using 1 assms(8) wire by auto
    ultimately show ?thesis using 1 wire by (simp add: removeSized_def sret_def Let_def add.commute)
  next
    case 2
    moreover have "length (rv_queue v) = n" "4 \<le> length wire" using assms(7,8) wire by (auto simp: header_prefix_def)
    ultimately show ?thesis by (auto simp: removeHeader_def sbind_def sget_def sret_def)
  next
    case 3
    then have large: "length frame > MAX_FRAME_SIZE" and n: "n < 12" by (auto simp: header_prefix_def split: if_splits)
    then have q: "rv_queue v = be_bytes 4 BIG_FRAME_MAGIC @ take (n - 4) (be_bytes 8 (of_nat (length frame) :: u64))"
      using assms(7) wire 3 by (simp add: header_prefix_def)
    then have "rem (he_open env (rv_queue v)) = be_bytes 4 BIG_FRAME_MAGIC @ take (n - 4) (be_bytes 8 (of_nat (length frame) :: u64))" by simp
    from reads_BE [of 4 BIG_FRAME_MAGIC, unfolded reads_def, rule_format, OF _ this]
    obtain c1 where c1: "c_readBE C 4 (he_open env (rv_queue v)) = Inr (BIG_FRAME_MAGIC, c1)" by auto
    have "unat BIG_FRAME_MAGIC > MAX_FRAME_SIZE" by (simp add: BIG_FRAME_MAGIC_def MAX_FRAME_SIZE_def)
    moreover have "length (rv_queue v) = n" using assms(7,8) by simp
    ultimately show ?thesis using allowed large n 3(1) assms(5,8) wire
      by (auto simp: removeHeader_detect [OF c1] removeDetected_def analyzeFirst_big header_prefix_def sbind_def sget_def sret_def)
  qed
qed

end


text \<open>Messages in buffers of which the first holds \<open>n\<close> bytes.\<close>

definition chain_env :: "arch \<Rightarrow> nat \<Rightarrow> codec_api \<Rightarrow> chain header_env" where
  "chain_env B n codecs = \<lparr>he_arch = B, he_cursor = chain_api, he_rem = concat, he_open = \<lambda>bs. [take n bs, drop n bs],
     he_samePosition = \<lambda>c d. length (concat c) = length (concat d), he_max_depth = 15000, he_string_limit = 0, he_container_limit = 0,
     he_codecs = codecs, he_httpParse = \<lambda>_. HttpNeeds 1, he_httpConstruct = \<lambda>buf _ _. buf\<rparr>"

interpretation chain_header_io: header_io "chain_env B n codecs"
  by (rule header_io.intro) (simp_all add: chain_env_def chain_cursor.cursor_axioms)

section \<open>Bounds\<close>

lemma length_varint32: "length (writeVarint32 u) \<le> 5"
  using length_writeVarint_pkt [of 4 u] drop_bit_eq_0 [of 35 u] by (simp add: writeVarint32_def)

lemma length_writeString: "length (th_writeString str) \<le> 5 + length str"
  using length_varint32 [of "of_nat (length str)"] by (simp add: th_writeString_def Let_def)

lemma length_info_entries:
  "length (concat (map (\<lambda>(k, v). th_writeString k @ th_writeString v) m)) \<le> sum_list (map (\<lambda>(k, v). 5 + 5 + length k + length v) m)"
proof (induction m)
  case (Cons e m)
  obtain k v where "e = (k, v)" by fastforce
  then show ?case using Cons length_writeString [of k] length_writeString [of v] by simp
qed simp

lemma length_flush: "length (flushInfoHeaders m infoId) \<le> getInfoHeaderSize m"
  using length_info_entries [of m] length_varint32 [of infoId] length_varint32 [of "of_nat (length m)"]
  by (auto simp: flushInfoHeaders_def getInfoHeaderSize_def Let_def)

lemma length_transforms: "length (concat (map (\<lambda>t. writeVarint32 (ucast t)) ts)) \<le> 5 * length (ts :: u16 list)"
proof (induction ts)
  case (Cons t ts)
  then show ?case using length_varint32 [of "ucast t"] by simp
qed simp



section \<open>Properties\<close>

text \<open>
  C17: what a sender wraps in a header frame a receiver unwraps, wherever the bytes are cut into buffers.  From the bytes of \<open>addHeader\<close>,
  followed by any others, \<open>removeHeader\<close> takes exactly the frame and returns the message that was sent; protocol, sequence id and flags are
  those of the sender, the transforms that were applied are recorded and will be applied to the answer, and the headers are those of the
  sender (with its identity, and extra headers overriding its own) on top of the persistent ones of the connection.  This holds
  for any list of lossless transforms, with small and big frames.
\<close>

theorem header_roundtrip:
  assumes "header_io env" and "lossless (he_codecs env)" and "header_sendable (add_identity h)"
    and "th_clientType h = THRIFT_HEADER_CLIENT_TYPE" and "addHeader env True buf h = Inr (wire, h')" and "length wire < 2 ^ 64"
    and "\<not> th_forceClientType (rv_header v)" and "th_allowBigFrames h \<longrightarrow> th_allowBigFrames (rv_header v)"
    and "distinct (map fst (rv_persistent v))" and "rv_queue v = wire @ rest"
  shows "\<exists>v'. removeHeader env v = Inr ((0, Some buf), v') \<and> rv_queue v' = rest \<and> header_received (add_identity h) v v'"
  using header_io.header_taken [OF assms(1-10)] .

text \<open>
  C21: a receiver that has only a part of a header frame leaves it in the queue, changes nothing, and asks for at least one more byte but never
  for a byte of what follows the frame; so reading as many bytes as it asks for always makes progress and never waits for a
  message that the peer has no reason to send.
\<close>

theorem header_waits_for_frame:
  assumes "header_io env" and "lossless (he_codecs env)"
    and "th_clientType h = THRIFT_HEADER_CLIENT_TYPE" and "addHeader env True buf h = Inr (wire, h')" and "length wire < 2 ^ 64"
    and "\<not> th_forceClientType (rv_header v)" and "th_allowBigFrames h \<longrightarrow> th_allowBigFrames (rv_header v)"
    and "rv_queue v = take n wire" and "n < length wire"
  shows "\<exists>needed. removeHeader env v = Inr ((needed, None), v) \<and> 0 < needed \<and> needed \<le> length wire - n"
  using header_io.header_awaited [OF assms] .

text \<open>A client with an identity, a header of its own and an extra one, and a transform that stores each byte negated.\<close>

definition flip_codecs :: codec_api where
  "flip_codecs = \<lparr>codec_compress = \<lambda>_ _ bs. Some (map NOT bs), codec_uncompress = \<lambda>_ _ bs. Some (map NOT bs)\<rparr>"

definition sample_sender :: theader where
  "sample_sender = (theader_init False)\<lparr>th_identity := [7], th_seqId := 5, th_flags := 1, th_writeTrans := [1],
     th_writeHeaders := Some [([1], [2])], th_extraWriteHeaders := Some [([1], [3])]\<rparr>"

definition sample_receiver :: "bytes \<Rightarrow> receiver" where
  "sample_receiver queue = \<lparr>rv_header = theader_init False, rv_queue = queue, rv_persistent = [([8], [9])]\<rparr>"

definition sample_header_wire :: bytes where
  "sample_header_wire = header_prefix 52 @ header_section (add_identity sample_sender) [1] @ [NOT 10, NOT 20]"

lemma flip_lossless: "lossless flip_codecs"
  by (auto simp: lossless_def flip_codecs_def comp_def)

lemma sample_blocks: "header_blocks (add_identity sample_sender) = [[([1], [2]), (IDENTITY_HEADER, [7]), (ID_VERSION_HEADER, ID_VERSION)], [([1], [3])]]"
  by code_simp

lemma sample_strings: "length IDENTITY_HEADER = 8" "length ID_VERSION_HEADER = 10" "length ID_VERSION = 1"
  by code_simp+

lemma sample_padded: "padded_length (add_identity sample_sender) [1] = 40"
  by code_simp

lemma sample_sendable: "header_sendable (add_identity sample_sender)"
proof -
  have "IDENTITY_HEADER \<noteq> [1]" "ID_VERSION_HEADER \<noteq> [1]" "IDENTITY_HEADER \<noteq> ID_VERSION_HEADER"
    by code_simp+
  moreover have "th_writeTrans (add_identity sample_sender) = [1]" "th_protoId (add_identity sample_sender) = T_COMPACT_PROTOCOL"
    by (simp_all add: add_identity_def th_setHeader_def sample_sender_def theader_init_def)
  ultimately show ?thesis
    by (auto simp: header_sendable_def sample_blocks headers_ok_def sample_strings sample_padded header_protocols_def)
qed

lemma sample_sender_fields: "th_clientType sample_sender = THRIFT_HEADER_CLIENT_TYPE" "th_writeTrans sample_sender = [1]"
    "\<not> th_allowBigFrames sample_sender" "th_protoId sample_sender = T_COMPACT_PROTOCOL"
    "th_clientType (add_identity sample_sender) = THRIFT_HEADER_CLIENT_TYPE"
  by (simp_all add: sample_sender_def theader_init_def add_identity_def th_setHeader_def)

lemma sample_sent: "\<exists>h'. addHeader (chain_env AArch64 3 flip_codecs) True [10, 20] sample_sender = Inr (sample_header_wire, h')"
proof -
  have "th_transform (he_codecs (chain_env AArch64 3 flip_codecs)) [10, 20] [1] 0 = Inr ([NOT 10, NOT 20], [1])"
    by (simp add: th_transform_def chain_env_def flip_codecs_def compressBuffer_def fromTTransform_def)
  then show ?thesis
    by (simp add: addHeader_def sample_sender_fields add_header_frame_def Let_def length_header_section sample_padded
        MAX_FRAME_SIZE_def sample_header_wire_def header_prefix_def)
qed

lemma sample_wire_length: "length sample_header_wire = 56"
  by (simp add: sample_header_wire_def header_prefix_def MAX_FRAME_SIZE_def length_header_section sample_padded)

theorem header_roundtrip_witness:
  "\<exists>v'. removeHeader (chain_env AArch64 3 flip_codecs) (sample_receiver (sample_header_wire @ [42])) = Inr ((0, Some [10, 20]), v') \<and>
    rv_queue v' = [42] \<and> header_received (add_identity sample_sender) (sample_receiver (sample_header_wire @ [42])) v'"
proof -
  obtain h' where sent: "addHeader (chain_env AArch64 3 flip_codecs) True [10, 20] sample_sender = Inr (sample_header_wire, h')"
    using sample_sent by blast
  show ?thesis
    by (rule header_roundtrip [OF chain_header_io.header_io_axioms _ sample_sendable sample_sender_fields(1) sent])
      (use flip_lossless sample_wire_length in \<open>simp_all add: chain_env_def sample_receiver_def theader_init_def sample_sender_fields\<close>)
qed

theorem header_waits_for_frame_witness:
  "\<exists>needed. removeHeader (chain_env AArch64 3 flip_codecs) (sample_receiver (take 9 sample_header_wire)) =
      Inr ((needed, None), sample_receiver (take 9 sample_header_wire)) \<and> 0 < needed \<and> needed \<le> 47"
proof -
  obtain h' where sent: "addHeader (chain_env AArch64 3 flip_codecs) True [10, 20] sample_sender = Inr (sample_header_wire, h')"
    using sample_sent by blast
  have "\<exists>needed. removeHeader (chain_env AArch64 3 flip_codecs) (sample_receiver (take 9 sample_header_wire)) =
      Inr ((needed, None), sample_receiver (take 9 sample_header_wire)) \<and> 0 < needed \<and> needed \<le> length sample_header_wire - 9"
    by (rule header_waits_for_frame [OF chain_header_io.header_io_axioms _ sample_sender_fields(1) sent])
      (use flip_lossless sample_wire_length in \<open>simp_all add: chain_env_def sample_receiver_def theader_init_def sample_sender_fields\<close>)
  then show ?thesis by (simp add: sample_wire_length)
qed

end
