(* ===== verification/Transport_Detection.thy ===== *)
theory Transport_Detection
  imports Header_Roundtrip
begin

unbundle bit_operations_syntax

text \<open>
  A server that speaks several transports on one port looks at the first bytes of a connection (\<open>THeader::tryGetClientType\<close>).  Here are
  the first messages of the two transports that this library models: a Rocket connection is opened by a setup frame, a connection of the
  header transport by a header frame.
\<close>

section \<open>Looking at the first two words\<close>

lemma http_low_byte: "analyzeFirst32bit w = Some res \<Longrightarrow> (ucast w :: byte) = 0 \<Longrightarrow> res \<noteq> THRIFT_HTTP_CLIENT_TYPE \<and> res \<noteq> THRIFT_HTTP_SERVER_TYPE"
  by (auto simp: analyzeFirst32bit_def HTTP_SERVER_MAGIC_def HTTP_GET_CLIENT_MAGIC_def HTTP_HEAD_CLIENT_MAGIC_def HTTP_CLIENT_MAGIC_def
      split: if_splits)

lemma not_header_low: "take_bit 8 (w :: u32) = w \<Longrightarrow> analyzeSecond32bit w \<noteq> THRIFT_HEADER_CLIENT_TYPE"
proof -
  assume w: "take_bit 8 w = w"
  have "\<not> bit w 16" by (subst w [symmetric]) (simp add: bit_simps)
  moreover have "bit HEADER_MAGIC 16" by (simp add: HEADER_MAGIC_def)
  ultimately have "w AND HEADER_MASK \<noteq> HEADER_MAGIC" by (metis bit_and_iff)
  then show ?thesis by (simp add: analyzeSecond32bit_def)
qed

lemma three_bytes:
  fixes w :: u32
  shows "push_bit 16 (ucast (ucast (drop_bit 24 w) :: byte)) OR push_bit 8 (ucast (ucast (drop_bit 16 w) :: byte)) OR
    ucast (ucast (drop_bit 8 w) :: byte) = (ucast (drop_bit 8 w) :: u64)" (is "?l = ?r")
proof (rule bit_word_eqI)
  fix n :: nat
  have "n < 8 \<or> (\<exists>k<8. n = 8 + k) \<or> (\<exists>k. n = 16 + k)" by presburger
  then consider "n < 8" | k where "n = 8 + k" "k < 8" | k where "n = 16 + k" by blast
  then show "bit ?l n \<longleftrightarrow> bit ?r n"
    by cases (auto simp: bit_simps ac_simps dest: bit_imp_le_length)
qed

context cursor begin

lemma tryReadBE32_app: "rem c = be_bytes 4 w @ rest \<Longrightarrow> \<exists>c'. tryReadBE32 C c = Some (w, c') \<and> rem c' = rest"
  using reads_BE [of 4 w] unfolding reads_def tryReadBE32_def by fastforce

lemma detect_rocket:
  assumes "isMaybeRocketFrame C c" and "rem c = be_bytes 4 w @ be_bytes 4 w' @ rest"
    and "(ucast (w :: u32) :: byte) = 0" and "take_bit 8 w' = (w' :: u32)"
  shows "tryGetClientType C c = THRIFT_ROCKET_CLIENT_TYPE"
proof -
  obtain c1 where c1: "tryReadBE32 C c = Some (w, c1)" "rem c1 = be_bytes 4 w' @ rest" using tryReadBE32_app [OF assms(2)] by blast
  obtain c2 where c2: "tryReadBE32 C c1 = Some (w', c2)" using tryReadBE32_app [OF c1(2)] by blast
  show ?thesis using assms(1,3,4) c1(1) c2 http_low_byte [of w] not_header_low [of w']
    by (auto simp: tryGetClientType_def Let_def split: option.splits)
qed

lemma detect_header:
  assumes "\<not> isMaybeRocketFrame C c" and "rem c = be_bytes 4 w @ be_bytes 4 (HEADER_MAGIC OR ucast (fl :: u16)) @ rest"
    and "analyzeFirst32bit w = None"
  shows "tryGetClientType C c = THRIFT_HEADER_CLIENT_TYPE"
proof -
  obtain c1 where c1: "tryReadBE32 C c = Some (w, c1)" "rem c1 = be_bytes 4 (HEADER_MAGIC OR ucast fl) @ rest"
    using tryReadBE32_app [OF assms(2)] by blast
  obtain c2 where c2: "tryReadBE32 C c1 = Some (HEADER_MAGIC OR ucast fl, c2)" using tryReadBE32_app [OF c1(2)] by blast
  show ?thesis using assms(1,3) c1(1) c2 by (simp add: tryGetClientType_def Let_def header_magic_detected)
qed

lemma rocket_setup:
  assumes "rem c = writeFrameOrMetadataSize n @ writeStreamId 0 @ be_bytes 2 tf @ rest" and "cur_data C c = rem c"
    and "n = 6 + length rest" and "n < 2 ^ 24" and "tf AND kFlagMask = 0 \<or> \<not> tf AND kFlagMask < 0x20"
    and "ucast (drop_bit kFlagBits tf) = F_SETUP"
  shows "isMaybeRocketFrame C c"
proof -
  have len: "length (cur_data C c) = n + 3" using assms(1-3) by (simp add: writeFrameOrMetadataSize_def writeStreamId_def)
  obtain c1 where c1: "readFrameOrMetadataSize C c = Inr (n, c1)" "rem c1 = writeStreamId 0 @ be_bytes 2 tf @ rest"
    using reads_size [OF assms(4)] assms(1) unfolding reads_def by blast
  obtain c2 where c2: "readStreamId C c1 = Inr (0, c2)" "rem c2 = be_bytes 2 tf @ rest"
    using reads_BE [where 'w = 32, of 4 0] c1(2) unfolding reads_def readStreamId_def writeStreamId_def by auto
  obtain c3 where "c_readBE C 2 c2 = Inr (tf, c3)" using reads_BE [of 2 tf] c2(2) unfolding reads_def by auto
  then show ?thesis using c1(1) c2(1) len assms(3,5,6) by (auto simp: isMaybeRocketFrame_def sbind_def sret_def Let_def)
qed

text \<open>A header frame in one buffer is shorter than the Rocket frame that its first bytes would announce.\<close>

lemma header_not_rocket:
  assumes "rem c = be_bytes 4 (of_nat sz :: u32) @ rest" and "cur_data C c = rem c" and "length rest = sz" and "sz < 2 ^ 30"
  shows "\<not> isMaybeRocketFrame C c"
proof -
  let ?w = "of_nat sz :: u32"
  have b: "be_bytes 4 ?w = [ucast (drop_bit 24 ?w), ucast (drop_bit 16 ?w), ucast (drop_bit 8 ?w)] @ [ucast ?w]" by (simp add: be_bytes_4)
  obtain c1 where c1: "c_read C 3 c = Inr ([ucast (drop_bit 24 ?w), ucast (drop_bit 16 ?w), ucast (drop_bit 8 ?w)], c1)"
    using reads_bytes [of "[ucast (drop_bit 24 ?w), ucast (drop_bit 16 ?w), ucast (drop_bit 8 ?w)]" 3] assms(1) unfolding reads_def b by auto
  have "push_bit 16 (ucast (ucast (drop_bit 24 ?w) :: byte)) OR push_bit 8 (ucast (ucast (drop_bit 16 ?w) :: byte)) OR
      ucast (ucast (drop_bit 8 ?w) :: byte) = (ucast (drop_bit 8 ?w) :: u64)"
    by (rule three_bytes)
  moreover have "unat (ucast (drop_bit 8 ?w) :: u64) \<le> unat (drop_bit 8 ?w)" by (simp add: unsigned_ucast_eq take_bit_nat_less_eq_self)
  moreover have "unat (drop_bit 8 w) \<le> unat w" for w :: u32
    unfolding unsigned_drop_bit_eq by (simp add: drop_bit_eq_div order_trans [OF div_le_dividend take_bit_nat_less_eq_self])
  moreover have "unat ?w \<le> sz" by (simp add: unat_of_nat take_bit_nat_less_eq_self)
  ultimately obtain size where "readFrameOrMetadataSize C c = Inr (size, c1)" "size \<le> sz"
    using c1 by (force simp: readFrameOrMetadataSize_def sbind_def sret_def intro: order_trans)
  moreover have "length (cur_data C c) = sz + 4" using assms(1-3) by simp
  ultimately show ?thesis by (simp add: isMaybeRocketFrame_def sbind_def sret_def Let_def)
qed

end

section \<open>Properties\<close>

lemma setup_type_flags:
  "\<forall>a b. let tf = push_bit kFlagBits (ucast F_SETUP) OR flags_set RESUME_TOKEN a (flags_set METADATA b 0) in
    (tf AND kFlagMask = 0 \<or> \<not> tf AND kFlagMask < 0x20) \<and> (ucast (drop_bit kFlagBits tf) :: byte) = F_SETUP"
  by code_simp

lemma setup_first_words:
  "writeFrameOrMetadataSize n @ writeStreamId 0 @ be_bytes 2 tf = be_bytes 4 (push_bit 8 (of_nat n) :: u32) @
    be_bytes 4 (ucast (drop_bit 8 tf) :: u32) @ [ucast (tf :: u16)]"
  unfolding writeFrameOrMetadataSize_def writeStreamId_def be_bytes_4 be_bytes_2 numeral_3_eq_3
  by (auto simp: bit_simps bit_above_u16 intro!: bit_word_eqI)

lemma setup_shape:
  assumes "payload_ok (sf_payload f)"
  shows "\<exists>n rest. setup_serialize f = writeFrameOrMetadataSize n @ writeStreamId 0 @ be_bytes 2 (push_bit kFlagBits (ucast F_SETUP) OR
      flags_set RESUME_TOKEN (flags_get RESUME_TOKEN (sf_flags f)) (flags_set METADATA (hasNonemptyMetadata (sf_payload f)) 0)) @ rest \<and>
    n = 6 + length rest"
  unfolding setup_serialize_def Let_def writeFrameTypeAndFlags_def
  by (intro exI conjI, rule refl)
    (simp add: setup_frameHeaderSize_def setup_metadataMimeType_def setup_payloadMimeType_def length_writePayload assms)


text \<open>
  A connection that is opened by a header frame is recognized as one of the header transport.  The frame, whatever its
  message, transforms, flags and headers, is in the first buffer; it is not taken for Rocket, HTTP, or an unframed or framed message.
\<close>

theorem header_frame_detected:
  assumes "cursor C rem" and "addHeader env transform buf h = Inr (wire, h')" and "th_clientType h = THRIFT_HEADER_CLIENT_TYPE"
    and "length wire \<le> MAX_FRAME_SIZE" and "rem c = wire" and "cur_data C c = rem c"
  shows "tryGetClientType C c = THRIFT_HEADER_CLIENT_TYPE"
proof -
  obtain writeTrans z where "add_header_frame writeTrans z (add_identity h) = Inr (wire, h')"
    using assms(2,3) by (auto simp: addHeader_def Let_def add_identity_def th_setHeader_def split: sum.splits if_splits)
  then obtain frame tail where wire: "wire = be_bytes 4 (of_nat (length frame) :: u32) @ frame"
    and frame: "frame = be_bytes 4 (HEADER_MAGIC OR ucast (th_flags h)) @ tail"
  proof -
    assume *: "add_header_frame writeTrans z (add_identity h) = Inr (wire, h')"
    have "th_flags (add_identity h) = th_flags h" by (simp add: add_identity_def th_setHeader_def)
    then obtain tail where "header_section (add_identity h) writeTrans = be_bytes 4 (HEADER_MAGIC OR ucast (th_flags h)) @ tail"
      using header_section_magic [of "add_identity h" writeTrans] by auto
    then show ?thesis
      using * assms(4) that [of "header_section (add_identity h) writeTrans @ z" "tail @ z"]
      by (auto simp: add_header_frame_def Let_def add.assoc split: if_splits)
  qed
  let ?sz = "length frame"
  have sz: "?sz \<le> MAX_FRAME_SIZE" "?sz < 2 ^ 30" using assms(4) wire by (auto simp: MAX_FRAME_SIZE_def)
  have "\<not> isMaybeRocketFrame C c"
    by (rule cursor.header_not_rocket [OF assms(1) _ assms(6) refl sz(2)]) (simp add: assms(5) wire)
  moreover have "rem c = be_bytes 4 (of_nat ?sz :: u32) @ be_bytes 4 (HEADER_MAGIC OR ucast (th_flags h)) @ tail"
    using assms(5) wire by (simp flip: frame)
  moreover have "analyzeFirst32bit (of_nat ?sz) = None"
    using sz by (intro analyzeFirst_small) (simp add: unat_of_nat_u32)
  ultimately show ?thesis by (rule cursor.detect_header [OF assms(1)])
qed


theorem header_frame_detected_witness:
  "tryGetClientType chain_api [sample_header_wire] = THRIFT_HEADER_CLIENT_TYPE"
proof -
  obtain h' where "addHeader (chain_env AArch64 3 flip_codecs) True [10, 20] sample_sender = Inr (sample_header_wire, h')"
    using sample_sent by blast
  then show ?thesis
    by (rule header_frame_detected [OF chain_cursor.cursor_axioms])
      (simp_all add: sample_sender_fields sample_wire_length MAX_FRAME_SIZE_def chain_api_def chain_data_def)
qed

end
