(* ===== verification/Stream_Callbacks.thy ===== *)
theory Stream_Callbacks
  imports Rocket_Frames Compression
begin

unbundle bit_operations_syntax

text \<open>
  The server's end of a stream and of a sink on a Rocket connection (\<^verbatim>\<open>rocket/server/RocketStreamClientCallback.cpp\<close>,
  \<^verbatim>\<open>RocketSinkClientCallback.cpp\<close>), between the connection, which hands over frames and sends what it is given, and the server callback, the
  application's side.  What the two sides of a stream promise each other is written down in \<^verbatim>\<open>lib/cpp2/async/StreamCallbacks.h\<close>; it is the
  specification here.

  Calls in either direction are recorded in a trace.  While a server callback runs it may call back, as far as its contract lets it: the calls
  it makes are a parameter of each operation that calls it, and it returns what the contract says.  Payloads and metadata are opaque
  bytes; packing, compression and unpacking are parameters, as the metadata structs are generated code.  The context stack, which only
  observes, is not modelled.
\<close>

section \<open>Calls\<close>

datatype stream_error = RocketError u32 bytes | EncodedErr bytes | EncodedStreamErr bytes | OtherError
datatype first_error = FirstRocketError u32 bytes | FirstEncodedError bytes | FirstOtherError
datatype sink_error = SinkInterruption | SinkTimeout | SinkUnpackError | SinkEncodedError bytes | SinkRocketError u32 bytes
datatype rpc_error = CREDIT_TIMEOUT "u64 option" | CHUNK_TIMEOUT | SERVER_CLOSING_CONNECTION
datatype close_reason = UnexpectedEarlyFrame byte | UnhandleableFrame byte | UnhandleableExt u32 | StreamingContractViolation

datatype server_call = SrvStreamRequestN i32 | SrvStreamCancel | SrvSinkHeaders bytes | SrvPauseStream | SrvResumeStream
  | SrvSinkNext bytes | SrvSinkError sink_error | SrvSinkComplete

datatype client_call = FirstResponse bytes | FirstResponseError first_error | StreamNext bytes | StreamError stream_error | StreamComplete
  | StreamHeaders bytes | SinkRequestN i32 | SinkCancel | FinalResponse bytes | FinalResponseError stream_error

datatype connection_call = SendPayload payload bool bool | SendError u32 bytes | SendErrorAfterDrain u32 bytes | SendMetadataPush bytes
  | SendRequestN i32 | SendCancel | FreeStream bool | CloseConnection close_reason | IncInflightFinalResponse | DecInflightFinalResponse

datatype callback_event = Called client_call | Returned bool | ToServer server_call | ToConnection connection_call

text \<open>
  Code outside: serialization of payloads and metadata, the flag for compression on the CPU thread, and the text of exceptions.  The metadata of a
  first response carries the stream's id only where the code puts it there.
\<close>

record callback_env =
  ce_packFirst :: "u32 option \<Rightarrow> bytes \<Rightarrow> payload"
  ce_packStream :: "compression_config option \<Rightarrow> bytes \<Rightarrow> payload"
  ce_preCompressed :: "u32 \<Rightarrow> bytes \<Rightarrow> bytes + payload"
  ce_compressOnCpu :: bool
  ce_unpack :: "payload \<Rightarrow> sink_error + bytes"
  ce_packHeaders :: "u32 \<Rightarrow> bytes \<Rightarrow> bytes"
  ce_packRpcError :: "rpc_error \<Rightarrow> bytes"
  ce_what :: "stream_error \<Rightarrow> bytes"

abbreviation ERR_CANCELED :: u32 where "ERR_CANCELED \<equiv> 0x203"
abbreviation ERR_APPLICATION :: u32 where "ERR_APPLICATION \<equiv> 0x201"

datatype server_ref = NoServer | EarlyCancelled | ServerSet

section \<open>RocketStreamClientCallback\<close>

record stream_callback =
  sc_streamId :: u32
  sc_server :: server_ref
  sc_tokens :: u64
  sc_timeout :: bool
  sc_chunksInMemory :: u64
  sc_compression :: "compression_config option"
  sc_freed :: bool
  sc_trace :: "callback_event list"

definition sc_init :: "u32 \<Rightarrow> u32 \<Rightarrow> stream_callback" where
  "sc_init streamId initialRequestN = \<lparr>sc_streamId = streamId, sc_server = NoServer, sc_tokens = ucast initialRequestN,
     sc_timeout = False, sc_chunksInMemory = 0, sc_compression = None, sc_freed = False, sc_trace = []\<rparr>"

definition sc_log :: "callback_event \<Rightarrow> stream_callback \<Rightarrow> stream_callback" where
  "sc_log e s = s\<lparr>sc_trace := sc_trace s @ [e]\<rparr>"

definition sc_setCompressionConfig :: "compression_config \<Rightarrow> stream_callback \<Rightarrow> stream_callback" where
  "sc_setCompressionConfig config s = s\<lparr>sc_compression := Some config\<rparr>"

text \<open>\<open>freeStream\<close> destroys the callback, and its timer with it.\<close>

definition sc_freeStream :: "bool \<Rightarrow> stream_callback \<Rightarrow> stream_callback" where
  "sc_freeStream markRequestComplete s = (sc_log (ToConnection (FreeStream markRequestComplete)) s)\<lparr>sc_freed := True, sc_timeout := False\<rparr>"

definition sc_return :: "bool \<Rightarrow> stream_callback \<Rightarrow> stream_callback" where
  "sc_return b s = sc_log (Returned b) s"

definition sc_serverCallbackReady :: "stream_callback \<Rightarrow> bool" where
  "sc_serverCallbackReady s \<longleftrightarrow> sc_server s = ServerSet"

definition sc_useToken :: "stream_callback \<Rightarrow> stream_callback" where
  "sc_useToken s = (let s = s\<lparr>sc_tokens := sc_tokens s - 1\<rparr> in if sc_tokens s = 0 then s\<lparr>sc_timeout := True\<rparr> else s)"

definition sc_sendError :: "u32 \<Rightarrow> bytes \<Rightarrow> stream_callback \<Rightarrow> stream_callback" where
  "sc_sendError errorCode errorData = sc_log (ToConnection (SendError errorCode errorData))"

definition sc_onStreamNext :: "callback_env \<Rightarrow> bytes \<Rightarrow> stream_callback \<Rightarrow> stream_callback" where
  "sc_onStreamNext env payload s = (let s = sc_useToken (sc_log (Called (StreamNext payload)) s);
     s = s\<lparr>sc_chunksInMemory := sc_chunksInMemory s + 1\<rparr> in
     sc_return True (sc_log (ToConnection (SendPayload (ce_packStream env (sc_compression s) payload) True False)) s))"

definition sc_onStreamComplete :: "stream_callback \<Rightarrow> stream_callback" where
  "sc_onStreamComplete s = sc_freeStream True (sc_log (ToConnection (SendPayload (makeFromData []) False True)) (sc_log (Called StreamComplete) s))"

definition sc_sendStreamError :: "callback_env \<Rightarrow> stream_error \<Rightarrow> stream_callback \<Rightarrow> stream_callback" where
  "sc_sendStreamError env ew s = (case ew of
     RocketError code errorData \<Rightarrow> sc_sendError ERR_APPLICATION errorData s
   | EncodedErr encoded \<Rightarrow> sc_sendError ERR_APPLICATION encoded s
   | EncodedStreamErr encoded \<Rightarrow> sc_log (ToConnection (SendPayload (ce_packStream env (sc_compression s) encoded) True True)) s
   | OtherError \<Rightarrow> sc_sendError ERR_APPLICATION (ce_what env ew) s)"

definition sc_onStreamError :: "callback_env \<Rightarrow> stream_error \<Rightarrow> stream_callback \<Rightarrow> stream_callback" where
  "sc_onStreamError env ew s = sc_freeStream True (sc_sendStreamError env ew (sc_log (Called (StreamError ew)) s))"

definition sc_onStreamHeaders :: "callback_env \<Rightarrow> bytes \<Rightarrow> stream_callback \<Rightarrow> stream_callback" where
  "sc_onStreamHeaders env payload s = (let s = sc_log (Called (StreamHeaders payload)) s in
     sc_return True (sc_log (ToConnection (SendMetadataPush (ce_packHeaders env (sc_streamId s) payload))) s))"

text \<open>Calls that a server callback may make once the first response was sent.\<close>

fun sc_act :: "callback_env \<Rightarrow> client_call \<Rightarrow> stream_callback \<Rightarrow> stream_callback" where
  "sc_act env (StreamNext payload) s = sc_onStreamNext env payload s"
| "sc_act env (StreamError ew) s = sc_onStreamError env ew s"
| "sc_act env StreamComplete s = sc_onStreamComplete s"
| "sc_act env (StreamHeaders payload) s = sc_onStreamHeaders env payload s"
| "sc_act env _ s = s"

subsection \<open>The contract\<close>

text \<open>
  The states of a stream: awaiting the first response, open with a number of credits, terminated.  The contract is about calls in both
  directions and what they return; it says nothing of the connection.
\<close>

datatype contract = AwaitingFirst | Open nat | Terminated

fun stream_contract_step :: "callback_event \<Rightarrow> contract \<Rightarrow> contract option" where
  "stream_contract_step (Called (FirstResponse _)) AwaitingFirst = Some (Open 0)"
| "stream_contract_step (Called (FirstResponseError _)) AwaitingFirst = Some Terminated"
| "stream_contract_step (Called (StreamNext _)) (Open k) = (if k > 0 then Some (Open (k - 1)) else None)"
| "stream_contract_step (Called (StreamError _)) (Open k) = Some Terminated"
| "stream_contract_step (Called StreamComplete) (Open k) = Some Terminated"
| "stream_contract_step (Called (StreamHeaders _)) (Open k) = Some (Open k)"
| "stream_contract_step (ToServer (SrvStreamRequestN n)) (Open k) = (if sint n > 0 then Some (Open (k + unat n)) else None)"
| "stream_contract_step (ToServer SrvStreamCancel) (Open k) = Some Terminated"
| "stream_contract_step (ToServer (SrvSinkHeaders _)) (Open k) = Some (Open k)"
| "stream_contract_step (ToServer SrvPauseStream) (Open k) = Some (Open k)"
| "stream_contract_step (ToServer SrvResumeStream) (Open k) = Some (Open k)"
| "stream_contract_step (Returned alive) K = (if alive = (K \<noteq> Terminated) then Some K else None)"
| "stream_contract_step (ToConnection _) K = Some K"
| "stream_contract_step _ _ = None"

fun contract_run :: "(callback_event \<Rightarrow> 'k \<Rightarrow> 'k option) \<Rightarrow> callback_event list \<Rightarrow> 'k \<Rightarrow> 'k option" where
  "contract_run step [] K = Some K"
| "contract_run step (e # es) K = (case step e K of None \<Rightarrow> None | Some K \<Rightarrow> contract_run step es K)"

abbreviation stream_contract :: "callback_event list \<Rightarrow> contract option" where
  "stream_contract trace \<equiv> contract_run stream_contract_step trace AwaitingFirst"

definition sc_may :: "client_call \<Rightarrow> stream_callback \<Rightarrow> bool" where
  "sc_may call s \<longleftrightarrow> stream_contract (sc_trace s @ [Called call]) \<noteq> None"

subsection \<open>Calls to the server callback\<close>

text \<open>
  The server callback makes the calls \<open>acts\<close>, as long as its contract allows them, and then returns whether the contract is still alive.
\<close>

fun sc_acts :: "callback_env \<Rightarrow> client_call list \<Rightarrow> stream_callback \<Rightarrow> stream_callback" where
  "sc_acts env [] s = s"
| "sc_acts env (a # as) s = (if sc_may a s then sc_acts env as (sc_act env a s) else s)"

definition sc_serverRequestN :: "callback_env \<Rightarrow> client_call list \<Rightarrow> i32 \<Rightarrow> stream_callback \<Rightarrow> bool \<times> stream_callback" where
  "sc_serverRequestN env acts n s = (let s = sc_acts env acts (sc_log (ToServer (SrvStreamRequestN n)) s) in (\<not> sc_freed s, s))"

definition sc_handlePausedByConnection :: "stream_callback \<Rightarrow> stream_callback" where
  "sc_handlePausedByConnection s = (if \<not> sc_serverCallbackReady s then s else sc_log (ToServer SrvPauseStream) s)"

definition sc_handleResumedByConnection :: "stream_callback \<Rightarrow> stream_callback" where
  "sc_handleResumedByConnection s = (if \<not> sc_serverCallbackReady s then s else sc_log (ToServer SrvResumeStream) s)"

definition sc_onFirstResponse :: "callback_env \<Rightarrow> bool \<Rightarrow> client_call list \<Rightarrow> bytes \<Rightarrow> stream_callback \<Rightarrow> stream_callback" where
  "sc_onFirstResponse env areStreamsPaused acts firstResponse s = (let s = sc_log (Called (FirstResponse firstResponse)) s in
     if sc_server s = EarlyCancelled then sc_return False (sc_freeStream True (sc_log (ToServer SrvStreamCancel) s))
     else
       let s = s\<lparr>sc_server := ServerSet\<rparr>;
           s = (if areStreamsPaused then sc_handlePausedByConnection s else s);
           s = sc_useToken s in
       case (if ce_compressOnCpu env then ce_preCompressed env (sc_streamId s) firstResponse
             else Inr (ce_packFirst env (Some (sc_streamId s)) firstResponse)) of
         Inl what \<Rightarrow> sc_return False (sc_sendError ERR_CANCELED what s)
       | Inr payload \<Rightarrow>
           let s = sc_log (ToConnection (SendPayload payload True False)) s in
           if sc_tokens s \<noteq> 0 then (let (alive, s) = sc_serverRequestN env acts (ucast (sc_tokens s)) s in sc_return alive s)
           else sc_return True s)"

definition sc_onFirstResponseError :: "callback_env \<Rightarrow> first_error \<Rightarrow> stream_callback \<Rightarrow> stream_callback" where
  "sc_onFirstResponseError env ew s = (let s = sc_log (Called (FirstResponseError ew)) s;
     s = (case ew of
            FirstRocketError code errorData \<Rightarrow> sc_sendError code errorData s
          | FirstEncodedError encoded \<Rightarrow> sc_log (ToConnection (SendPayload (ce_packFirst env None encoded) True True)) s
          | FirstOtherError \<Rightarrow> s) in
     sc_freeStream False s)"

definition sc_resetServerCallback :: "bool \<Rightarrow> stream_callback \<Rightarrow> stream_callback" where
  "sc_resetServerCallback areStreamsPaused s = (let s = s\<lparr>sc_server := ServerSet\<rparr> in
     if areStreamsPaused then sc_handlePausedByConnection s else s)"

subsection \<open>Calls of the connection\<close>

definition sc_close :: "close_reason \<Rightarrow> stream_callback \<Rightarrow> stream_callback" where
  "sc_close reason = sc_log (ToConnection (CloseConnection reason))"

definition sc_handle_requestN :: "callback_env \<Rightarrow> client_call list \<Rightarrow> request_n_frame \<Rightarrow> stream_callback \<Rightarrow> bool \<times> stream_callback" where
  "sc_handle_requestN env acts requestNFrame s = (let tokens = rn_requestN requestNFrame in
     if tokens = 0 then (True, s)
     else sc_serverRequestN env acts tokens (s\<lparr>sc_timeout := False, sc_tokens := sc_tokens s + scast tokens\<rparr>))"

definition sc_handleFrame_requestN :: "callback_env \<Rightarrow> client_call list \<Rightarrow> request_n_frame \<Rightarrow> stream_callback \<Rightarrow> stream_callback" where
  "sc_handleFrame_requestN env acts frame s = (if \<not> sc_serverCallbackReady s then sc_close (UnexpectedEarlyFrame F_REQUEST_N) s
     else snd (sc_handle_requestN env acts frame s))"

definition sc_handleFrame_cancel :: "stream_callback \<Rightarrow> stream_callback" where
  "sc_handleFrame_cancel s = (if \<not> sc_serverCallbackReady s then s\<lparr>sc_server := EarlyCancelled\<rparr>
     else sc_freeStream True (sc_log (ToServer SrvStreamCancel) s))"

definition sc_handleFrame_payload :: "stream_callback \<Rightarrow> stream_callback" where
  "sc_handleFrame_payload = sc_close (UnhandleableFrame F_PAYLOAD)"

definition sc_handleFrame_error :: "stream_callback \<Rightarrow> stream_callback" where
  "sc_handleFrame_error = sc_close (UnhandleableFrame F_ERROR)"

definition sc_handleFrame_ext :: "ext_frame \<Rightarrow> stream_callback \<Rightarrow> stream_callback" where
  "sc_handleFrame_ext frame s = (if \<not> sc_serverCallbackReady s then sc_close (UnexpectedEarlyFrame F_EXT) s
     else if \<not> flags_get IGNORE (xf_flags frame) then sc_close (UnhandleableExt (xf_extFrameType frame)) s else s)"

definition sc_handleStreamHeadersPush :: "callback_env \<Rightarrow> client_call list \<Rightarrow> bytes \<Rightarrow> stream_callback \<Rightarrow> stream_callback" where
  "sc_handleStreamHeadersPush env acts payload s = (if \<not> sc_serverCallbackReady s then s
     else sc_acts env acts (sc_log (ToServer (SrvSinkHeaders payload)) s))"

text \<open>The connection destroys the callback after it has told it that it closes.\<close>

definition sc_handleConnectionClose :: "callback_env \<Rightarrow> stream_callback \<Rightarrow> stream_callback" where
  "sc_handleConnectionClose env s =
    (let s = sc_log (ToConnection (SendErrorAfterDrain ERR_CANCELED (ce_packRpcError env SERVER_CLOSING_CONNECTION))) s;
         s = (if \<not> sc_serverCallbackReady s then s else sc_log (ToServer SrvStreamCancel) s) in
     s\<lparr>sc_freed := True, sc_timeout := False\<rparr>)"

text \<open>The error that is sent when credits run out goes through \<open>onStreamError\<close>, called by the callback itself.\<close>

definition sc_timeoutExpired :: "callback_env \<Rightarrow> stream_callback \<Rightarrow> stream_callback" where
  "sc_timeoutExpired env s = sc_freeStream True (sc_sendStreamError env (RocketError ERR_CANCELED (ce_packRpcError env (CREDIT_TIMEOUT (Some (sc_chunksInMemory s)))))
     (sc_log (ToServer SrvStreamCancel) s))"

text \<open>A payload or an error that was passed on with a send callback has been written, or will not be.\<close>

definition sc_messageSent :: "stream_callback \<Rightarrow> stream_callback" where
  "sc_messageSent s = (if sc_chunksInMemory s > 0 then s\<lparr>sc_chunksInMemory := sc_chunksInMemory s - 1\<rparr> else s)"

section \<open>Runs of a stream\<close>

text \<open>
  The server side makes the calls its contract allows.  The connection hands over frames and notices as long as it has the stream; it closes its
  streams only when no request waits for its first response.  The credits that a client grants are positive and fewer than \<open>2 ^ 64\<close> are outstanding.
\<close>

inductive stream_step :: "callback_env \<Rightarrow> stream_callback \<Rightarrow> stream_callback \<Rightarrow> bool" for env where
  first_response: "sc_may (FirstResponse p) s \<Longrightarrow> stream_step env s (sc_onFirstResponse env paused acts p s)"
| first_error: "sc_may (FirstResponseError e) s \<Longrightarrow> stream_step env s (sc_onFirstResponseError env e s)"
| server_call: "sc_may a s \<Longrightarrow> stream_step env s (sc_act env a s)"
| configure: "\<not> sc_freed s \<Longrightarrow> stream_step env s (sc_setCompressionConfig config s)"
| reset_server: "sc_serverCallbackReady s \<Longrightarrow> \<not> sc_freed s \<Longrightarrow> stream_step env s (sc_resetServerCallback paused s)"
| request_n: "\<not> sc_freed s \<Longrightarrow> 0 < sint (rn_requestN f) \<Longrightarrow> unat (sc_tokens s) + unat (rn_requestN f) < 2 ^ 64 \<Longrightarrow>
    stream_step env s (sc_handleFrame_requestN env acts f s)"
| cancel: "\<not> sc_freed s \<Longrightarrow> stream_step env s (sc_handleFrame_cancel s)"
| payload_frame: "\<not> sc_freed s \<Longrightarrow> stream_step env s (sc_handleFrame_payload s)"
| error_frame: "\<not> sc_freed s \<Longrightarrow> stream_step env s (sc_handleFrame_error s)"
| ext_frame: "\<not> sc_freed s \<Longrightarrow> stream_step env s (sc_handleFrame_ext x s)"
| headers_push: "\<not> sc_freed s \<Longrightarrow> stream_step env s (sc_handleStreamHeadersPush env acts p s)"
| paused: "\<not> sc_freed s \<Longrightarrow> stream_step env s (sc_handlePausedByConnection s)"
| resumed: "\<not> sc_freed s \<Longrightarrow> stream_step env s (sc_handleResumedByConnection s)"
| connection_close: "\<not> sc_freed s \<Longrightarrow> sc_serverCallbackReady s \<Longrightarrow> stream_step env s (sc_handleConnectionClose env s)"
| timeout_expired: "sc_timeout s \<Longrightarrow> stream_step env s (sc_timeoutExpired env s)"
| message_sent: "stream_step env s (sc_messageSent s)"

lemma contract_run_append: "contract_run step (xs @ ys) K = (case contract_run step xs K of None \<Rightarrow> None | Some K \<Rightarrow> contract_run step ys K)"
  by (induction xs arbitrary: K) (auto split: option.split)

definition frees :: "callback_event list \<Rightarrow> nat" where
  "frees trace = length (filter (\<lambda>e. case e of ToConnection (FreeStream _) \<Rightarrow> True | _ \<Rightarrow> False) trace)"

lemma frees_append: "frees (xs @ ys) = frees xs + frees ys"
  by (simp add: frees_def)

lemma frees_simps [simp]: "frees [] = 0" "frees (Called c # es) = frees es" "frees (Returned b # es) = frees es" "frees (ToServer v # es) = frees es"
  "frees (ToConnection (FreeStream m) # es) = Suc (frees es)" "frees (ToConnection (SendPayload p nx co) # es) = frees es"
  "frees (ToConnection (SendError k d) # es) = frees es" "frees (ToConnection (SendErrorAfterDrain k d) # es) = frees es"
  "frees (ToConnection (SendMetadataPush d) # es) = frees es" "frees (ToConnection (SendRequestN n) # es) = frees es"
  "frees (ToConnection (CloseConnection r) # es) = frees es" "frees (ToConnection IncInflightFinalResponse # es) = frees es"
  "frees (ToConnection DecInflightFinalResponse # es) = frees es" "frees (ToConnection SendCancel # es) = frees es"
  by (simp_all add: frees_def)

fun stream_state :: "contract \<Rightarrow> stream_callback \<Rightarrow> bool" where
  "stream_state AwaitingFirst s \<longleftrightarrow> sc_server s \<noteq> ServerSet \<and> \<not> sc_freed s \<and> \<not> sc_timeout s \<and> 0 < unat (sc_tokens s) \<and> unat (sc_tokens s) < 2 ^ 31"
| "stream_state (Open k) s \<longleftrightarrow> sc_server s = ServerSet \<and> \<not> sc_freed s \<and> unat (sc_tokens s) = k \<and> (sc_timeout s \<longleftrightarrow> k = 0)"
| "stream_state Terminated s \<longleftrightarrow> sc_freed s \<and> \<not> sc_timeout s"

definition stream_ok :: "stream_callback \<Rightarrow> bool" where
  "stream_ok s \<longleftrightarrow> (\<exists>K. stream_contract (sc_trace s) = Some K \<and> stream_state K s) \<and> frees (sc_trace s) \<le> of_bool (sc_freed s)"

lemmas sc_primitives = sc_log_def sc_freeStream_def sc_return_def sc_sendError_def sc_close_def sc_serverCallbackReady_def
  sc_sendStreamError_def Let_def contract_run_append frees_append

lemma unat_dec: "0 < unat (w :: u64) \<Longrightarrow> unat (w - 1) = unat w - 1"
  by (metis unat_minus_one unat_gt_0)

lemma word_dec_0_iff: "0 < unat (w :: u64) \<Longrightarrow> w - 1 = 0 \<longleftrightarrow> unat w = 1"
  by (metis unat_dec diff_is_0_eq' eq_iff_diff_eq_0 le_numeral_extra(4) unat_1 unat_0 word_unat_eq_iff)

lemma useToken:
  "0 < unat (sc_tokens s) \<Longrightarrow>
    sc_useToken s = s\<lparr>sc_tokens := sc_tokens s - 1, sc_timeout := (sc_timeout s \<or> unat (sc_tokens s) = 1)\<rparr>"
  using word_dec_0_iff [of "sc_tokens s"] by (simp add: sc_useToken_def Let_def)

lemma stream_okE:
  assumes "stream_ok s"
  obtains K where "stream_contract (sc_trace s) = Some K" "stream_state K s" "frees (sc_trace s) \<le> of_bool (sc_freed s)"
  using assms unfolding stream_ok_def by blast

lemma sc_act_ok:
  assumes "stream_ok s" and "sc_may a s"
  shows "stream_ok (sc_act env a s)"
proof -
  obtain K where K: "stream_contract (sc_trace s) = Some K" "stream_state K s" "frees (sc_trace s) \<le> of_bool (sc_freed s)"
    using assms(1) by (rule stream_okE)
  have may: "stream_contract_step (Called a) K \<noteq> None" using assms(2) K(1) by (auto simp: sc_may_def contract_run_append split: option.splits)
  show ?thesis
  proof (cases a)
    case (StreamNext p)
    then show ?thesis using may K
      by (cases K) (auto simp: stream_ok_def sc_onStreamNext_def useToken unat_dec sc_primitives split: if_splits)
  qed (use may K in \<open>(cases K; auto simp: stream_ok_def sc_onStreamComplete_def sc_onStreamError_def sc_onStreamHeaders_def sc_primitives
        split: stream_error.splits)\<close>)+
qed

lemma sc_acts_ok: "stream_ok s \<Longrightarrow> stream_ok (sc_acts env acts s)"
  by (induction acts arbitrary: s) (auto simp: sc_act_ok)

lemma uint_of_positive: "0 < sint (n :: i32) \<Longrightarrow> uint n = sint n"
proof -
  assume pos: "0 < sint n"
  have "uint n = take_bit LENGTH(32) (sint n)" by (rule uint_sint)
  also have "\<dots> = sint n" by (rule take_bit_int_eq_self) (use pos sint_lt [of n] in simp_all)
  finally show ?thesis .
qed

lemma unat_of_positive: "0 < sint (n :: i32) \<Longrightarrow> 0 < unat n \<and> unat n < 2 ^ 31"
proof -
  assume pos: "0 < sint n"
  have u: "int (unat n) = sint n" by (rule trans [OF sym [OF uint_nat] uint_of_positive [OF pos]])
  have "sint n < 2 ^ 31" using sint_lt [of n] by simp
  then show ?thesis
    using pos unfolding u [symmetric] by (simp only: of_nat_less_numeral_power_cancel_iff of_nat_0_less_iff simp_thms)
qed

lemma positive_i32: "0 < sint (n :: i32) \<Longrightarrow> unat (scast n :: u64) = unat n"
proof -
  assume "0 < sint n"
  then have "scast n = (ucast n :: u64)" unfolding scast_eq ucast_eq by (rule arg_cong [OF sym [OF uint_of_positive]])
  moreover have "unat n < 2 ^ 64" using unsigned_less [of n] by (rule less_le_trans) simp
  ultimately show ?thesis by (simp add: unsigned_ucast_eq take_bit_nat_eq_self)
qed

lemma narrow_positive: "0 < unat (w :: u64) \<Longrightarrow> unat w < 2 ^ 31 \<Longrightarrow> 0 < sint (ucast w :: i32) \<and> unat (ucast w :: i32) = unat w"
proof -
  assume w: "0 < unat w" "unat w < 2 ^ 31"
  then have u: "unat (ucast w :: i32) = unat w" by (simp add: unsigned_ucast_eq take_bit_nat_eq_self)
  then have "uint (ucast w :: i32) = int (unat w)" using uint_nat by metis
  then have l: "uint (ucast w :: i32) < 2 ^ 31" "0 < uint (ucast w :: i32)" using w by (simp_all only: of_nat_less_numeral_power_cancel_iff of_nat_0_less_iff)
  then have "sint (ucast w :: i32) = uint (ucast w :: i32)" by (simp only: sint_uint) (rule signed_take_bit_int_eq_self; simp)
  then show ?thesis using u l(2) by simp
qed

lemma sc_serverRequestN_ok:
  assumes "stream_contract (sc_trace s) = Some (Open k)" and "0 < sint n" and "stream_state (Open (k + unat n)) s" and "frees (sc_trace s) = 0"
    and "sc_serverRequestN env acts n s = (alive, s')"
  shows "stream_ok s' \<and> alive = (\<not> sc_freed s')"
proof -
  have "stream_ok (sc_log (ToServer (SrvStreamRequestN n)) s)"
    using assms(1-4) by (auto simp: stream_ok_def sc_primitives)
  from sc_acts_ok [OF this] show ?thesis using assms(5) by (auto simp: sc_serverRequestN_def Let_def)
qed

lemma sc_return_ok: "stream_ok s \<Longrightarrow> alive = (\<not> sc_freed s) \<Longrightarrow> stream_ok (sc_return alive s)"
  by (erule stream_okE, rename_tac K, case_tac K) (auto simp: stream_ok_def sc_primitives)

definition serializes :: "callback_env \<Rightarrow> bool" where
  "serializes env \<longleftrightarrow> (ce_compressOnCpu env \<longrightarrow> (\<forall>streamId p. \<exists>payload. ce_preCompressed env streamId p = Inr payload))"

lemma sc_onFirstResponse_ok:
  assumes "stream_ok s" and "sc_may (FirstResponse p) s" and "serializes env"
  shows "stream_ok (sc_onFirstResponse env paused acts p s)"
proof -
  obtain K where K: "stream_contract (sc_trace s) = Some K" "stream_state K s" "frees (sc_trace s) \<le> of_bool (sc_freed s)"
    using assms(1) by (rule stream_okE)
  then have "K = AwaitingFirst" using assms(2) by (cases K) (auto simp: sc_may_def contract_run_append)
  then have pend: "stream_contract (sc_trace s) = Some AwaitingFirst" "stream_state AwaitingFirst s" "frees (sc_trace s) = 0" using K by auto
  show ?thesis
  proof (cases "sc_server s = EarlyCancelled")
    case True
    then show ?thesis using pend by (simp add: sc_onFirstResponse_def stream_ok_def sc_primitives)
  next
    case False
    define s1 where "s1 = (sc_log (Called (FirstResponse p)) s)\<lparr>sc_server := ServerSet\<rparr>"
    define s2 where "s2 = sc_useToken (if paused then sc_handlePausedByConnection s1 else s1)"
    obtain payload where payload: "(if ce_compressOnCpu env then ce_preCompressed env (sc_streamId s2) p
        else Inr (ce_packFirst env (Some (sc_streamId s2)) p)) = Inr payload"
      using assms(3) by (fastforce simp: serializes_def)
    define s3 where "s3 = sc_log (ToConnection (SendPayload payload True False)) s2"
    have s3: "stream_contract (sc_trace s3) = Some (Open 0)" "frees (sc_trace s3) = 0" "sc_tokens s3 = sc_tokens s - 1" "sc_server s3 = ServerSet"
      "\<not> sc_freed s3" "sc_timeout s3 \<longleftrightarrow> sc_tokens s3 = 0"
      using pend unat_dec [of "sc_tokens s"]
      by (auto simp: s3_def s2_def s1_def useToken sc_handlePausedByConnection_def sc_primitives word_unat_eq_iff)
    have "sc_server (sc_log (Called (FirstResponse p)) s) \<noteq> EarlyCancelled" using False by (simp add: sc_log_def)
    then have eq: "sc_onFirstResponse env paused acts p s = (if sc_tokens s3 \<noteq> 0
        then (let (alive, s) = sc_serverRequestN env acts (ucast (sc_tokens s3)) s3 in sc_return alive s) else sc_return True s3)"
      by (simp only: sc_onFirstResponse_def Let_def if_False s1_def [symmetric] s2_def [symmetric] payload sum.case s3_def [symmetric])
    show ?thesis
    proof (cases "sc_tokens s3 = 0")
      case True
      have "stream_ok s3" using s3 True by (auto simp: stream_ok_def)
      then show ?thesis using eq True sc_return_ok [of s3 True] s3(5) by simp
    next
      case nz: False
      obtain alive s4 where s4: "sc_serverRequestN env acts (ucast (sc_tokens s3)) s3 = (alive, s4)" by fastforce
      have t: "0 < unat (sc_tokens s3)" using nz unat_gt_0 by blast
      moreover have "unat (sc_tokens s3) < 2 ^ 31" using pend(2) s3(3) unat_dec [of "sc_tokens s"] by (auto intro: le_less_trans [OF diff_le_self])
      ultimately have n: "0 < sint (ucast (sc_tokens s3) :: i32)" "unat (ucast (sc_tokens s3) :: i32) = unat (sc_tokens s3)"
        using narrow_positive by blast+
      have "stream_ok s4 \<and> alive = (\<not> sc_freed s4)"
        by (rule sc_serverRequestN_ok [OF s3(1) _ _ s3(2) s4]) (use n s3 nz t in auto)
      then show ?thesis using eq nz s4 sc_return_ok by simp
    qed
  qed
qed

lemma stream_step_ok:
  assumes "stream_step env s s'" and "serializes env" and "stream_ok s"
  shows "stream_ok s'"
proof -
  obtain K where K: "stream_contract (sc_trace s) = Some K" "stream_state K s" "frees (sc_trace s) \<le> of_bool (sc_freed s)"
    using assms(3) by (rule stream_okE)
  show ?thesis
    using assms(1)
  proof cases
    case (first_response p paused acts)
    then show ?thesis using sc_onFirstResponse_ok assms by simp
  next
    case (server_call a)
    then show ?thesis using sc_act_ok assms by simp
  next
    case (request_n f acts)
    show ?thesis
    proof (cases "sc_server s = ServerSet")
      case True
      then obtain k where k: "K = Open k" using K(2) request_n by (cases K) auto
      let ?n = "rn_requestN f"
      let ?s = "s\<lparr>sc_timeout := False, sc_tokens := sc_tokens s + scast ?n\<rparr>"
      obtain alive s2 where s2: "sc_serverRequestN env acts ?n ?s = (alive, s2)" by fastforce
      have "unat (sc_tokens s + scast ?n) = unat (sc_tokens s) + unat ?n" "0 < unat ?n"
        using request_n positive_i32 [of ?n] by (auto simp: unat_word_ariths unat_gt_0)
      then have "stream_ok s2"
        using sc_serverRequestN_ok [of ?s k ?n env acts alive s2] s2 K k request_n by simp
      moreover have "?n \<noteq> 0" using request_n by auto
      ultimately show ?thesis using request_n s2 True by (simp add: sc_handleFrame_requestN_def sc_handle_requestN_def sc_serverCallbackReady_def Let_def)
    next
      case False
      then show ?thesis using K request_n by (cases K) (auto simp: sc_handleFrame_requestN_def stream_ok_def sc_primitives)
    qed
  next
    case (headers_push acts p)
    have "stream_ok (sc_log (ToServer (SrvSinkHeaders p)) s)" if "sc_serverCallbackReady s"
      using K that headers_push by (cases K) (auto simp: stream_ok_def sc_primitives)
    then show ?thesis using headers_push assms(3) sc_acts_ok by (auto simp: sc_handleStreamHeadersPush_def)
  qed (use K in \<open>(cases K; auto simp: stream_ok_def sc_primitives sc_may_def sc_onFirstResponseError_def
        sc_resetServerCallback_def sc_handlePausedByConnection_def sc_handleResumedByConnection_def sc_handleFrame_cancel_def sc_handleFrame_payload_def
        sc_handleFrame_error_def sc_handleFrame_ext_def sc_handleConnectionClose_def sc_timeoutExpired_def sc_messageSent_def sc_setCompressionConfig_def split: first_error.splits)\<close>)+
qed

lemma sc_init_ok:
  assumes "0 < sint initialRequestN"
  shows "stream_ok (sc_init streamId initialRequestN)"
proof -
  have n: "0 < unat initialRequestN" "unat initialRequestN < 2 ^ 31" using unat_of_positive [OF assms] by auto
  then have "unat (ucast initialRequestN :: u64) = unat initialRequestN" by (simp add: unsigned_ucast_eq take_bit_nat_eq_self)
  with n show ?thesis by (simp add: stream_ok_def sc_init_def)
qed


text \<open>An environment in which packing is the identity and compression on the CPU thread fails.\<close>

definition plain_env :: "bool \<Rightarrow> callback_env" where
  "plain_env onCpu = \<lparr>ce_packFirst = \<lambda>_. makeFromData, ce_packStream = \<lambda>_. makeFromData, ce_preCompressed = \<lambda>_ _. Inl [], ce_compressOnCpu = onCpu,
     ce_unpack = \<lambda>p. Inr (p_buffer p), ce_packHeaders = \<lambda>_ p. p, ce_packRpcError = \<lambda>_. [], ce_what = \<lambda>_. []\<rparr>"


text \<open>
  When the first response cannot be compressed on the CPU thread, the contract is broken.  \<open>onFirstResponse\<close> returns \<open>false\<close>, so that the
  server side is gone, but no call has terminated the contract: the stream stays with the connection and its server callback is still called.
\<close>

theorem failed_first_response_breaks_contract:
  "let env = plain_env True;
     s = sc_onFirstResponse env False [] [1] (sc_init 1 5);
     s' = sc_handleFrame_cancel s in
   Returned False \<in> set (sc_trace s) \<and> \<not> sc_freed s \<and> last (butlast (sc_trace s')) = ToServer SrvStreamCancel \<and> stream_contract (sc_trace s) = None"
  by code_simp

text \<open>
  A request for a non-positive number of items switches off the credit timeout.  The receiving constructors of a request frame take any number; a
  stream that is out of credits and gets a negative one counts almost \<open>2 ^ 64\<close> credits, while the server side is granted a negative
  number of them, so that nothing is sent and no timer ends the stream.
\<close>

theorem negative_request_n_stops_timer:
  "let env = plain_env False;
     s = sc_onFirstResponse env False [] [1] (sc_init 1 1);
     s' = sc_handleFrame_requestN env [] \<lparr>rn_streamId = 1, rn_requestN = - 1\<rparr> s in
   sc_timeout s \<and> \<not> sc_timeout s' \<and> sc_tokens s' = - 1 \<and> last (sc_trace s') = ToServer (SrvStreamRequestN (- 1))"
  by code_simp

end
