(* ===== verification/Sink_Callback.thy ===== *)
theory Sink_Callback
  imports Stream_Callbacks
begin

text \<open>
  The server's end of a sink (\<^verbatim>\<open>rocket/server/RocketSinkClientCallback.cpp\<close>): items flow from the client to the server callback, which answers with
  a final response.  Calls, trace and environment are those of \<open>Stream_Callbacks\<close>; the contract is the one for sinks.
\<close>

section \<open>RocketSinkClientCallback\<close>

datatype sink_state = BothOpen | StreamOpen

text \<open>\<open>sk_timeout\<close> is the timer for the next item, if the client set a timeout: whether it is scheduled, and the credits of the client.\<close>

record sink_callback =
  sk_streamId :: u32
  sk_state :: sink_state
  sk_server :: server_ref
  sk_timeout :: "(bool \<times> u64) option"
  sk_compression :: "compression_config option"
  sk_bufferedFragment :: "payload option"
  sk_freed :: bool
  sk_trace :: "callback_event list"

definition sk_init :: "u32 \<Rightarrow> sink_callback" where
  "sk_init streamId = \<lparr>sk_streamId = streamId, sk_state = BothOpen, sk_server = NoServer, sk_timeout = None, sk_compression = None,
     sk_bufferedFragment = None, sk_freed = False, sk_trace = []\<rparr>"

definition sk_setCompressionConfig :: "compression_config \<Rightarrow> sink_callback \<Rightarrow> sink_callback" where
  "sk_setCompressionConfig config s = s\<lparr>sk_compression := Some config\<rparr>"

definition sk_setChunkTimeout :: "nat \<Rightarrow> sink_callback \<Rightarrow> sink_callback" where
  "sk_setChunkTimeout milliseconds s = (if milliseconds \<noteq> 0 then s\<lparr>sk_timeout := Some (False, 0)\<rparr> else s)"

definition sk_log :: "callback_event \<Rightarrow> sink_callback \<Rightarrow> sink_callback" where
  "sk_log e s = s\<lparr>sk_trace := sk_trace s @ [e]\<rparr>"

definition sk_cancelTimeout :: "sink_callback \<Rightarrow> sink_callback" where
  "sk_cancelTimeout s = s\<lparr>sk_timeout := map_option (\<lambda>(_, credits). (False, credits)) (sk_timeout s)\<rparr>"

definition sk_freeStream :: "bool \<Rightarrow> sink_callback \<Rightarrow> sink_callback" where
  "sk_freeStream markRequestComplete s = (sk_log (ToConnection (FreeStream markRequestComplete)) s)\<lparr>sk_freed := True, sk_timeout := None\<rparr>"

definition sk_return :: "bool \<Rightarrow> sink_callback \<Rightarrow> sink_callback" where
  "sk_return b s = sk_log (Returned b) s"

definition sk_serverCallbackReady :: "sink_callback \<Rightarrow> bool" where
  "sk_serverCallbackReady s \<longleftrightarrow> sk_server s = ServerSet"

definition sk_incCredits :: "u64 \<Rightarrow> sink_callback \<Rightarrow> sink_callback" where
  "sk_incCredits n s = s\<lparr>sk_timeout := map_option (\<lambda>(scheduled, credits). (scheduled \<or> credits = 0, credits + n)) (sk_timeout s)\<rparr>"

definition sk_decCredits :: "sink_callback \<Rightarrow> sink_callback" where
  "sk_decCredits s = s\<lparr>sk_timeout := map_option (\<lambda>(scheduled, credits). (credits - 1 \<noteq> 0, credits - 1)) (sk_timeout s)\<rparr>"

subsection \<open>Calls of the server side\<close>

definition sk_onFirstResponse :: "callback_env \<Rightarrow> bytes \<Rightarrow> sink_callback \<Rightarrow> sink_callback" where
  "sk_onFirstResponse env firstResponse s = (let s = sk_log (Called (FirstResponse firstResponse)) s in
     if sk_server s = EarlyCancelled
     then sk_return False (sk_freeStream True (sk_log (ToServer (SrvSinkError SinkInterruption)) s))
     else sk_return True (sk_log (ToConnection (SendPayload (ce_packFirst env None firstResponse) True False))
       (s\<lparr>sk_server := ServerSet\<rparr>)))"

definition sk_onFirstResponseError :: "callback_env \<Rightarrow> first_error \<Rightarrow> sink_callback \<Rightarrow> sink_callback" where
  "sk_onFirstResponseError env ew s = (let s = sk_log (Called (FirstResponseError ew)) s;
     s = (case ew of
            FirstRocketError code errorData \<Rightarrow> sk_log (ToConnection (SendError code errorData)) s
          | FirstEncodedError encoded \<Rightarrow> sk_log (ToConnection (SendPayload (ce_packFirst env None encoded) True True)) s
          | FirstOtherError \<Rightarrow> s) in
     sk_freeStream False s)"

definition sk_finish :: "sink_callback \<Rightarrow> sink_callback" where
  "sk_finish s = (let state = sk_state s; s = sk_freeStream True s in
     if state = StreamOpen then sk_log (ToConnection DecInflightFinalResponse) s else s)"

definition sk_onFinalResponse :: "callback_env \<Rightarrow> bytes \<Rightarrow> sink_callback \<Rightarrow> sink_callback" where
  "sk_onFinalResponse env finalResponse s = sk_finish
     (sk_log (ToConnection (SendPayload (ce_packStream env (sk_compression s) finalResponse) True True))
       (sk_log (Called (FinalResponse finalResponse)) s))"

definition sk_sendFinalError :: "callback_env \<Rightarrow> stream_error \<Rightarrow> sink_callback \<Rightarrow> sink_callback" where
  "sk_sendFinalError env ew s = sk_finish (sk_log (ToConnection (case ew of
     RocketError code errorData \<Rightarrow> SendError ERR_APPLICATION errorData
   | EncodedStreamErr encoded \<Rightarrow> SendPayload (ce_packStream env (sk_compression s) encoded) True True
   | _ \<Rightarrow> SendError ERR_APPLICATION (ce_what env ew))) s)"

definition sk_onFinalResponseError :: "callback_env \<Rightarrow> stream_error \<Rightarrow> sink_callback \<Rightarrow> sink_callback" where
  "sk_onFinalResponseError env ew s = sk_sendFinalError env ew (sk_log (Called (FinalResponseError ew)) s)"

definition sk_onSinkRequestN :: "i32 \<Rightarrow> sink_callback \<Rightarrow> sink_callback" where
  "sk_onSinkRequestN n s =
    sk_return True (sk_log (ToConnection (SendRequestN n)) (sk_incCredits (scast n) (sk_log (Called (SinkRequestN n)) s)))"

fun sk_act :: "callback_env \<Rightarrow> client_call \<Rightarrow> sink_callback \<Rightarrow> sink_callback" where
  "sk_act env (SinkRequestN n) s = sk_onSinkRequestN n s"
| "sk_act env (FinalResponse p) s = sk_onFinalResponse env p s"
| "sk_act env (FinalResponseError ew) s = sk_onFinalResponseError env ew s"
| "sk_act env _ s = s"

subsection \<open>The contract\<close>

datatype sink_contract = SinkAwaiting | SinkOpen | SinkFinal | SinkDone

fun sink_contract_step :: "callback_event \<Rightarrow> sink_contract \<Rightarrow> sink_contract option" where
  "sink_contract_step (Called (FirstResponse _)) SinkAwaiting = Some SinkOpen"
| "sink_contract_step (Called (FirstResponseError _)) SinkAwaiting = Some SinkDone"
| "sink_contract_step (Called (SinkRequestN n)) SinkOpen = Some SinkOpen"
| "sink_contract_step (Called (FinalResponse _)) SinkOpen = Some SinkDone"
| "sink_contract_step (Called (FinalResponseError _)) SinkOpen = Some SinkDone"
| "sink_contract_step (Called (FinalResponse _)) SinkFinal = Some SinkDone"
| "sink_contract_step (Called (FinalResponseError _)) SinkFinal = Some SinkDone"
| "sink_contract_step (ToServer (SrvSinkNext _)) SinkOpen = Some SinkOpen"
| "sink_contract_step (ToServer (SrvSinkError _)) SinkOpen = Some SinkDone"
| "sink_contract_step (ToServer SrvSinkComplete) SinkOpen = Some SinkFinal"
| "sink_contract_step (Returned alive) K = (if alive = (K \<noteq> SinkDone) then Some K else None)"
| "sink_contract_step (ToConnection _) K = Some K"
| "sink_contract_step _ _ = None"

abbreviation sink_contract :: "callback_event list \<Rightarrow> sink_contract option" where
  "sink_contract trace \<equiv> contract_run sink_contract_step trace SinkAwaiting"

definition sk_may :: "client_call \<Rightarrow> sink_callback \<Rightarrow> bool" where
  "sk_may call s \<longleftrightarrow> sink_contract (sk_trace s @ [Called call]) \<noteq> None"

fun sk_acts :: "callback_env \<Rightarrow> client_call list \<Rightarrow> sink_callback \<Rightarrow> sink_callback" where
  "sk_acts env [] s = s"
| "sk_acts env (a # as) s = (if sk_may a s then sk_acts env as (sk_act env a s) else s)"

subsection \<open>Calls of the connection\<close>

definition sk_close :: "close_reason \<Rightarrow> sink_callback \<Rightarrow> sink_callback" where
  "sk_close reason = sk_log (ToConnection (CloseConnection reason))"

definition sk_onSinkNext :: "callback_env \<Rightarrow> client_call list \<Rightarrow> bytes \<Rightarrow> sink_callback \<Rightarrow> bool \<times> sink_callback" where
  "sk_onSinkNext env acts payload s = (if sk_state s \<noteq> BothOpen then (False, sk_cancelTimeout s)
     else let s = sk_acts env acts (sk_log (ToServer (SrvSinkNext payload)) (sk_decCredits s)) in (\<not> sk_freed s, s))"

definition sk_onSinkError :: "sink_error \<Rightarrow> sink_callback \<Rightarrow> bool \<times> sink_callback" where
  "sk_onSinkError ew s = (let s = sk_cancelTimeout s in
     if sk_state s \<noteq> BothOpen then (False, s) else (True, sk_log (ToServer (SrvSinkError ew)) s))"

definition sk_onSinkComplete :: "callback_env \<Rightarrow> client_call list \<Rightarrow> sink_callback \<Rightarrow> bool \<times> sink_callback" where
  "sk_onSinkComplete env acts s = (let s = sk_cancelTimeout s in
     if sk_state s \<noteq> BothOpen then (False, s)
     else let s = sk_acts env acts (sk_log (ToServer SrvSinkComplete) (sk_log (ToConnection IncInflightFinalResponse) (s\<lparr>sk_state := StreamOpen\<rparr>))) in
       (\<not> sk_freed s, s))"

definition sk_timeoutExpired :: "callback_env \<Rightarrow> sink_callback \<Rightarrow> sink_callback" where
  "sk_timeoutExpired env s = sk_sendFinalError env (RocketError ERR_CANCELED (ce_packRpcError env CHUNK_TIMEOUT)) (snd (sk_onSinkError SinkTimeout s))"

text \<open>The fragment that is buffered and the payload that is complete.\<close>

definition cb_bufferOrGetFullPayload :: "payload option \<Rightarrow> payload_frame \<Rightarrow> payload option \<times> payload option" where
  "cb_bufferOrGetFullPayload bufferedFragment payloadFrame =
    (if flags_get FOLLOWS (pf_flags payloadFrame) then
       (case bufferedFragment of
          Some b \<Rightarrow> (Some (payload_append b (pf_payload payloadFrame)), None)
        | None \<Rightarrow> (Some (pf_payload payloadFrame), None))
     else (case bufferedFragment of
          Some b \<Rightarrow> (None, Some (payload_append b (pf_payload payloadFrame)))
        | None \<Rightarrow> (None, Some (pf_payload payloadFrame))))"

text \<open>\<open>acts\<close> are the calls of the server callback while it takes an item, \<open>acts'\<close> those while it is told that the sink is complete.\<close>

definition sk_handleFrame_payload :: "callback_env \<Rightarrow> client_call list \<Rightarrow> client_call list \<Rightarrow> payload_frame \<Rightarrow> sink_callback \<Rightarrow> sink_callback" where
  "sk_handleFrame_payload env acts acts' payloadFrame s =
    (if \<not> sk_serverCallbackReady s then sk_close (UnexpectedEarlyFrame F_PAYLOAD) s
     else let (bufferedFragment, fullPayload) = cb_bufferOrGetFullPayload (sk_bufferedFragment s) payloadFrame;
              s = s\<lparr>sk_bufferedFragment := bufferedFragment\<rparr> in
       case fullPayload of
         None \<Rightarrow> s
       | Some full \<Rightarrow>
           let finish = (\<lambda>notViolateContract s.
             let (notViolateContract, s) = (if flags_get COMPLETE (pf_flags payloadFrame) \<and> notViolateContract then sk_onSinkComplete env acts' s
                   else (notViolateContract, s)) in
             if \<not> notViolateContract then sk_close StreamingContractViolation s else s) in
           if flags_get NEXT (pf_flags payloadFrame) then
             (case ce_unpack env full of
                Inl ew \<Rightarrow> (let (notViolateContract, s) = sk_onSinkError ew s in
                  if notViolateContract then sk_freeStream True s else finish False s)
              | Inr streamPayload \<Rightarrow> (let (notViolateContract, s) = sk_onSinkNext env acts streamPayload s in finish notViolateContract s))
           else finish True s)"

definition sk_handleFrame_error :: "error_frame \<Rightarrow> sink_callback \<Rightarrow> sink_callback" where
  "sk_handleFrame_error errorFrame s =
    (if \<not> sk_serverCallbackReady s then
       if ef_errorCode errorFrame = ERR_CANCELED then s\<lparr>sk_server := EarlyCancelled\<rparr> else sk_close (UnexpectedEarlyFrame F_ERROR) s
     else let (notViolateContract, s) = sk_onSinkError (if ef_errorCode errorFrame = ERR_CANCELED then SinkInterruption
              else SinkRocketError (ef_errorCode errorFrame) (p_buffer (ef_payload errorFrame))) s in
       if notViolateContract then sk_freeStream True s else sk_close StreamingContractViolation s)"

definition sk_handleFrame_other :: "byte \<Rightarrow> sink_callback \<Rightarrow> sink_callback" where
  "sk_handleFrame_other frameType = sk_close (UnhandleableFrame frameType)"

definition sk_handleConnectionClose :: "sink_callback \<Rightarrow> sink_callback" where
  "sk_handleConnectionClose s = (snd (sk_onSinkError SinkInterruption s))\<lparr>sk_freed := True, sk_timeout := None\<rparr>"

definition sk_resetServerCallback :: "sink_callback \<Rightarrow> sink_callback" where
  "sk_resetServerCallback s = s\<lparr>sk_server := ServerSet\<rparr>"

section \<open>Runs of a sink\<close>

text \<open>
  The connection closes its streams only when no request waits for its first response and no sink for its final one; the timer runs only
  while it is scheduled.
\<close>

definition sk_scheduled :: "sink_callback \<Rightarrow> bool" where
  "sk_scheduled s \<longleftrightarrow> (\<exists>credits. sk_timeout s = Some (True, credits))"

inductive sink_step :: "callback_env \<Rightarrow> sink_callback \<Rightarrow> sink_callback \<Rightarrow> bool" for env where
  first_response: "sk_may (FirstResponse p) s \<Longrightarrow> sink_step env s (sk_onFirstResponse env p s)"
| first_error: "sk_may (FirstResponseError e) s \<Longrightarrow> sink_step env s (sk_onFirstResponseError env e s)"
| server_call: "sk_may a s \<Longrightarrow> sink_step env s (sk_act env a s)"
| configure: "\<not> sk_freed s \<Longrightarrow> sink_step env s (sk_setCompressionConfig config s)"
| set_timeout: "\<not> sk_freed s \<Longrightarrow> sk_server s \<noteq> ServerSet \<Longrightarrow> sink_step env s (sk_setChunkTimeout milliseconds s)"
| reset_server: "sk_serverCallbackReady s \<Longrightarrow> \<not> sk_freed s \<Longrightarrow> sink_step env s (sk_resetServerCallback s)"
| payload_frame: "\<not> sk_freed s \<Longrightarrow> sink_step env s (sk_handleFrame_payload env acts acts' f s)"
| error_frame: "\<not> sk_freed s \<Longrightarrow> sink_step env s (sk_handleFrame_error e s)"
| other_frame: "\<not> sk_freed s \<Longrightarrow> sink_step env s (sk_handleFrame_other ft s)"
| connection_close: "\<not> sk_freed s \<Longrightarrow> sk_serverCallbackReady s \<Longrightarrow> sk_state s = BothOpen \<Longrightarrow> sink_step env s (sk_handleConnectionClose s)"
| timeout_expired: "sk_scheduled s \<Longrightarrow> sink_step env s (sk_timeoutExpired env s)"

definition inflight :: "callback_event list \<Rightarrow> int" where
  "inflight trace = (\<Sum>e \<leftarrow> trace. if e = ToConnection IncInflightFinalResponse then 1 else if e = ToConnection DecInflightFinalResponse then - 1 else 0)"

lemma inflight_append: "inflight (xs @ ys) = inflight xs + inflight ys"
  by (simp add: inflight_def)

lemma inflight_simps [simp]: "inflight [] = 0"
  "inflight (e # es) = (if e = ToConnection IncInflightFinalResponse then 1 else if e = ToConnection DecInflightFinalResponse then - 1 else 0) + inflight es"
  by (simp_all add: inflight_def)

fun sink_state_ok :: "sink_contract \<Rightarrow> sink_callback \<Rightarrow> bool" where
  "sink_state_ok SinkAwaiting s \<longleftrightarrow> sk_server s \<noteq> ServerSet \<and> \<not> sk_freed s \<and> sk_state s = BothOpen \<and> \<not> sk_scheduled s"
| "sink_state_ok SinkOpen s \<longleftrightarrow> sk_server s = ServerSet \<and> \<not> sk_freed s \<and> sk_state s = BothOpen"
| "sink_state_ok SinkFinal s \<longleftrightarrow> sk_server s = ServerSet \<and> \<not> sk_freed s \<and> sk_state s = StreamOpen \<and> \<not> sk_scheduled s"
| "sink_state_ok SinkDone s \<longleftrightarrow> sk_freed s \<and> \<not> sk_scheduled s"

definition sink_ok :: "sink_callback \<Rightarrow> bool" where
  "sink_ok s \<longleftrightarrow> (\<exists>K. sink_contract (sk_trace s) = Some K \<and> sink_state_ok K s \<and> inflight (sk_trace s) = of_bool (K = SinkFinal)) \<and>
    frees (sk_trace s) \<le> of_bool (sk_freed s)"

lemma sink_okE:
  assumes "sink_ok s"
  obtains K where "sink_contract (sk_trace s) = Some K" "sink_state_ok K s" "inflight (sk_trace s) = of_bool (K = SinkFinal)"
    "frees (sk_trace s) \<le> of_bool (sk_freed s)"
  using assms unfolding sink_ok_def by blast

lemma sk_scheduled_simps [simp]:
  "\<not> sk_scheduled (sk_cancelTimeout s)" "sk_scheduled (s\<lparr>sk_trace := t\<rparr>) = sk_scheduled s" "sk_scheduled (s\<lparr>sk_state := st\<rparr>) = sk_scheduled s"
  "sk_scheduled (s\<lparr>sk_server := v\<rparr>) = sk_scheduled s" "sk_scheduled (s\<lparr>sk_freed := b\<rparr>) = sk_scheduled s"
  "sk_scheduled (s\<lparr>sk_bufferedFragment := f\<rparr>) = sk_scheduled s" "\<not> sk_scheduled (s\<lparr>sk_timeout := None\<rparr>)"
  "\<not> sk_scheduled (s\<lparr>sk_timeout := Some (False, n)\<rparr>)" "sk_scheduled (s\<lparr>sk_compression := config\<rparr>) = sk_scheduled s"
  by (auto simp: sk_scheduled_def sk_cancelTimeout_def)

lemma sk_fields [simp]:
  "sk_server (sk_cancelTimeout s) = sk_server s" "sk_state (sk_cancelTimeout s) = sk_state s" "sk_freed (sk_cancelTimeout s) = sk_freed s"
  "sk_trace (sk_cancelTimeout s) = sk_trace s" "sk_server (sk_incCredits n s) = sk_server s" "sk_state (sk_incCredits n s) = sk_state s"
  "sk_freed (sk_incCredits n s) = sk_freed s" "sk_trace (sk_incCredits n s) = sk_trace s" "sk_server (sk_decCredits s) = sk_server s"
  "sk_state (sk_decCredits s) = sk_state s" "sk_freed (sk_decCredits s) = sk_freed s" "sk_trace (sk_decCredits s) = sk_trace s"
  by (simp_all add: sk_cancelTimeout_def sk_incCredits_def sk_decCredits_def)

lemmas sk_primitives = sk_log_def sk_freeStream_def sk_return_def sk_close_def sk_serverCallbackReady_def sk_finish_def sk_sendFinalError_def Let_def
  contract_run_append frees_append inflight_append

lemma sk_act_ok:
  assumes "sink_ok s" and "sk_may a s"
  shows "sink_ok (sk_act env a s)"
proof -
  obtain K where K: "sink_contract (sk_trace s) = Some K" "sink_state_ok K s" "inflight (sk_trace s) = of_bool (K = SinkFinal)"
    "frees (sk_trace s) \<le> of_bool (sk_freed s)"
    using assms(1) by (rule sink_okE)
  have may: "sink_contract_step (Called a) K \<noteq> None" using assms(2) K(1) by (auto simp: sk_may_def contract_run_append split: option.splits)
  show ?thesis
    by (cases a) (use may K in \<open>(cases K; auto simp: sink_ok_def sk_onSinkRequestN_def sk_onFinalResponse_def sk_onFinalResponseError_def
        sk_primitives split: stream_error.splits)\<close>)+
qed

lemma sk_acts_ok: "sink_ok s \<Longrightarrow> sink_ok (sk_acts env acts s)"
  by (induction acts arbitrary: s) (auto simp: sk_act_ok)

lemma sk_acts_server [simp]: "sk_server (sk_acts env acts s) = sk_server s"
proof (induction acts arbitrary: s)
  case (Cons a acts)
  have "sk_server (sk_act env a s) = sk_server s"
    by (cases a) (auto simp: sk_onSinkRequestN_def sk_onFinalResponse_def sk_onFinalResponseError_def sk_primitives)
  then show ?case using Cons by simp
qed simp

text \<open>The three calls that pass a frame on to the server callback.  While the sink is ready, they keep the invariant, and one that
  succeeds leaves the sink in place.\<close>

definition sink_passed :: "bool \<times> sink_callback \<Rightarrow> bool" where
  "sink_passed r \<longleftrightarrow> sink_ok (snd r) \<and> (fst r \<longrightarrow> \<not> sk_freed (snd r) \<and> sk_server (snd r) = ServerSet)"

lemma sink_ok_open:
  assumes "sink_ok s" and "\<not> sk_freed s" and "sk_server s = ServerSet" and "sk_state s = BothOpen"
  shows "sink_contract (sk_trace s) = Some SinkOpen" "inflight (sk_trace s) = 0" "frees (sk_trace s) = 0"
proof -
  obtain K where K: "sink_contract (sk_trace s) = Some K" "sink_state_ok K s" "inflight (sk_trace s) = of_bool (K = SinkFinal)"
    "frees (sk_trace s) \<le> of_bool (sk_freed s)"
    using assms(1) by (rule sink_okE)
  then have "K = SinkOpen" using assms(2-) by (cases K) auto
  then show "sink_contract (sk_trace s) = Some SinkOpen" "inflight (sk_trace s) = 0" "frees (sk_trace s) = 0" using K assms(2) by auto
qed

lemma sk_cancelTimeout_ok: "sink_ok s \<Longrightarrow> sink_ok (sk_cancelTimeout s)"
  by (erule sink_okE, rename_tac K, case_tac K) (auto simp: sink_ok_def)

lemma sk_onSinkNext_ok:
  assumes "sink_ok s" and "\<not> sk_freed s" and "sk_server s = ServerSet"
  shows "sink_passed (sk_onSinkNext env acts p s)"
proof (cases "sk_state s = BothOpen")
  case True
  have "sink_ok (sk_log (ToServer (SrvSinkNext p)) (sk_decCredits s))"
    using sink_ok_open [OF assms True] assms True by (simp add: sink_ok_def sk_primitives)
  then show ?thesis using True sk_acts_ok assms(3) by (simp add: sink_passed_def sk_onSinkNext_def Let_def sk_log_def)
qed (use assms sk_cancelTimeout_ok in \<open>simp add: sink_passed_def sk_onSinkNext_def\<close>)

lemma sk_onSinkComplete_ok:
  assumes "sink_ok s" and "\<not> sk_freed s" and "sk_server s = ServerSet"
  shows "sink_passed (sk_onSinkComplete env acts s)"
proof (cases "sk_state s = BothOpen")
  case True
  have "sink_ok (sk_log (ToServer SrvSinkComplete) (sk_log (ToConnection IncInflightFinalResponse) ((sk_cancelTimeout s)\<lparr>sk_state := StreamOpen\<rparr>)))"
    using sink_ok_open [OF assms True] assms True by (simp add: sink_ok_def sk_primitives)
  then show ?thesis using True sk_acts_ok assms(3) by (simp add: sink_passed_def sk_onSinkComplete_def Let_def sk_log_def)
qed (use assms sk_cancelTimeout_ok in \<open>simp add: sink_passed_def sk_onSinkComplete_def Let_def\<close>)

text \<open>An error that is passed on ends the contract; the caller frees the stream.\<close>

lemma sk_onSinkError_open:
  assumes "sk_state s = BothOpen"
  shows "sk_onSinkError ew s = (True, sk_log (ToServer (SrvSinkError ew)) (sk_cancelTimeout s))"
  using assms by (simp add: sk_onSinkError_def Let_def)

lemma sk_onSinkError_ok:
  assumes "sink_ok s" and "\<not> sk_freed s" and "sk_server s = ServerSet" and "sk_onSinkError ew s = (ok, s')"
  shows "if ok then sink_ok (sk_freeStream True s') else sink_ok s'"
proof (cases "sk_state s = BothOpen")
  case True
  then have "ok" "s' = sk_log (ToServer (SrvSinkError ew)) (sk_cancelTimeout s)" using assms(4) sk_onSinkError_open by simp_all
  then show ?thesis using sink_ok_open [OF assms(1-3) True] by (simp add: sink_ok_def sk_primitives)
next
  case False
  then have "\<not> ok" "s' = sk_cancelTimeout s" using assms(4) by (simp_all add: sk_onSinkError_def Let_def)
  then show ?thesis using sk_cancelTimeout_ok assms(1) by simp
qed

lemma sk_timeoutExpired_ok:
  assumes "sink_ok s" and "sk_scheduled s"
  shows "sink_ok (sk_timeoutExpired env s)"
proof -
  have open_sink: "\<not> sk_freed s" "sk_server s = ServerSet" "sk_state s = BothOpen"
    using assms by (auto elim!: sink_okE sink_state_ok.elims)
  show ?thesis using sink_ok_open [OF assms(1) open_sink] open_sink(3)
    by (simp add: sk_timeoutExpired_def sk_onSinkError_open sink_ok_def sk_primitives)
qed

lemma sk_close_ok: "sink_ok s \<Longrightarrow> sink_ok (sk_close r s)"
  by (erule sink_okE, rename_tac K, case_tac K) (auto simp: sink_ok_def sk_primitives)

lemma sk_setCompressionConfig_ok: "sink_ok s \<Longrightarrow> sink_ok (sk_setCompressionConfig config s)"
  by (erule sink_okE, rename_tac K, case_tac K) (auto simp: sink_ok_def sk_setCompressionConfig_def)

lemma sk_setChunkTimeout_ok: "sink_ok s \<Longrightarrow> \<not> sk_freed s \<Longrightarrow> sk_server s \<noteq> ServerSet \<Longrightarrow> sink_ok (sk_setChunkTimeout milliseconds s)"
  by (erule sink_okE, rename_tac K, case_tac K) (auto simp: sink_ok_def sk_setChunkTimeout_def)

lemma sink_passed_close: "sink_passed r \<Longrightarrow> sink_ok (let (ok, s) = r in if \<not> ok then sk_close reason s else s)"
  by (auto simp: sink_passed_def sk_close_ok split: prod.split)

lemma sk_handleFrame_payload_ok:
  assumes "sink_ok s" and "\<not> sk_freed s"
  shows "sink_ok (sk_handleFrame_payload env acts acts' f s)"
proof (cases "sk_server s = ServerSet")
  case ready: True
  obtain b full where b: "cb_bufferOrGetFullPayload (sk_bufferedFragment s) f = (b, full)" by fastforce
  define s1 where "s1 = s\<lparr>sk_bufferedFragment := b\<rparr>"
  have "sink_ok s1"
    using assms(1) by (rule sink_okE) (rename_tac K, case_tac K, auto simp: sink_ok_def s1_def)
  then have s1: "sink_ok s1" "\<not> sk_freed s1" "sk_server s1 = ServerSet" using assms(2) ready by (simp_all add: s1_def)
  define finish where "finish = (\<lambda>ok s. let (ok, s) = (if flags_get COMPLETE (pf_flags f) \<and> ok then sk_onSinkComplete env acts' s else (ok, s)) in
      if \<not> ok then sk_close StreamingContractViolation s else s)"
  have finish: "sink_ok (finish (fst r) (snd r))" if "sink_passed r" for r
    unfolding finish_def by (rule sink_passed_close) (use that sk_onSinkComplete_ok in \<open>auto simp: sink_passed_def\<close>)
  have eq: "sk_handleFrame_payload env acts acts' f s = (case full of None \<Rightarrow> s1 | Some full \<Rightarrow>
      if flags_get NEXT (pf_flags f) then
        (case ce_unpack env full of
           Inl ew \<Rightarrow> (let (ok, s) = sk_onSinkError ew s1 in if ok then sk_freeStream True s else finish False s)
         | Inr p \<Rightarrow> (let (ok, s) = sk_onSinkNext env acts p s1 in finish ok s))
      else finish True s1)"
    by (simp only: sk_handleFrame_payload_def sk_serverCallbackReady_def ready b prod.case Let_def finish_def s1_def simp_thms if_False)
  have err: "sink_ok (let (ok, s) = sk_onSinkError ew s1 in if ok then sk_freeStream True s else finish False s)" for ew
    using sk_onSinkError_ok [OF s1, of ew] finish [of "(False, snd (sk_onSinkError ew s1))"]
    by (auto simp: sink_passed_def split: prod.split)
  have nxt: "sink_ok (let (ok, s) = sk_onSinkNext env acts p s1 in finish ok s)" for p
    using finish [OF sk_onSinkNext_ok [OF s1], of env acts p] by (auto simp: case_prod_beta)
  have fin: "sink_ok (finish True s1)" using finish [of "(True, s1)"] s1 by (simp add: sink_passed_def)
  show ?thesis unfolding eq using s1(1) err nxt fin by (auto split: option.split sum.split simp del: Let_def)
qed (use assms in \<open>simp add: sk_handleFrame_payload_def sk_serverCallbackReady_def sk_close_ok\<close>)

lemma sk_handleFrame_error_ok:
  assumes "sink_ok s" and "\<not> sk_freed s"
  shows "sink_ok (sk_handleFrame_error e s)"
proof (cases "sk_server s = ServerSet")
  case True
  then show ?thesis using assms sk_onSinkError_ok [OF assms True] sk_close_ok
    by (auto simp: sk_handleFrame_error_def sk_serverCallbackReady_def split: prod.split if_splits)
next
  case False
  have "sink_ok (s\<lparr>sk_server := EarlyCancelled\<rparr>)"
    using assms(1) by (rule sink_okE) (rename_tac K, case_tac K, use False assms(2) in \<open>auto simp: sink_ok_def\<close>)
  then show ?thesis using False assms sk_close_ok by (auto simp: sk_handleFrame_error_def sk_serverCallbackReady_def)
qed

lemma sink_ok_awaiting:
  assumes "sink_ok s" and "sk_may a s" and "a = FirstResponse p \<or> a = FirstResponseError e"
  shows "sink_contract (sk_trace s) = Some SinkAwaiting" "inflight (sk_trace s) = 0" "frees (sk_trace s) = 0" "sink_state_ok SinkAwaiting s"
proof -
  obtain K where K: "sink_contract (sk_trace s) = Some K" "sink_state_ok K s" "inflight (sk_trace s) = of_bool (K = SinkFinal)"
    "frees (sk_trace s) \<le> of_bool (sk_freed s)"
    using assms(1) by (rule sink_okE)
  then have "K = SinkAwaiting" using assms(2,3) by (cases K) (auto simp: sk_may_def contract_run_append)
  then show "sink_contract (sk_trace s) = Some SinkAwaiting" "inflight (sk_trace s) = 0" "frees (sk_trace s) = 0" "sink_state_ok SinkAwaiting s"
    using K by auto
qed

lemma sink_step_ok:
  assumes "sink_step env s s'" and "sink_ok s"
  shows "sink_ok s'"
  using assms(1)
proof cases
  case (first_response p)
  then show ?thesis using sink_ok_awaiting [OF assms(2) first_response(2)] by (simp add: sk_onFirstResponse_def sink_ok_def sk_primitives)
next
  case (first_error e)
  then show ?thesis using sink_ok_awaiting [OF assms(2) first_error(2)]
    by (cases e) (auto simp: sk_onFirstResponseError_def sink_ok_def sk_primitives)
next
  case reset_server
  then have "s' = s" by (simp add: sk_resetServerCallback_def sk_serverCallbackReady_def)
  then show ?thesis using assms(2) by simp
next
  case connection_close
  then show ?thesis using sink_ok_open [OF assms(2)] by (simp add: sk_handleConnectionClose_def sk_onSinkError_open sink_ok_def sk_primitives)
qed (use assms(2) in \<open>simp_all add: sk_act_ok sk_handleFrame_payload_ok sk_handleFrame_error_ok sk_handleFrame_other_def sk_close_ok
      sk_timeoutExpired_ok sk_setCompressionConfig_ok sk_setChunkTimeout_ok\<close>)

lemma sk_init_ok: "sink_ok (sk_init streamId)"
  by (simp add: sink_ok_def sk_init_def sk_scheduled_def)


lemma two_steps: "r x y \<Longrightarrow> r y z \<Longrightarrow> r\<^sup>*\<^sup>* x z"
  by (rule converse_rtranclp_into_rtranclp [OF _ r_into_rtranclp])


text \<open>
  A server that answers a sink at once costs its client the connection.  The contract of \<open>StreamCallbacks.h\<close> lets a server callback send its final
  response while it is told that the sink is complete and then return \<open>false\<close>; \<open>handleFrame\<close> takes this for a violation by the client and
  closes the connection, through a member of the callback that \<open>freeStream\<close> has destroyed.
\<close>

theorem inline_final_response_closes_connection:
  "let env = plain_env False;
     s = sk_onFirstResponse env [1] (sk_init 1);
     f = \<lparr>pf_streamId = 1, pf_flags = flags_set COMPLETE True 0, pf_payload = makeFromData []\<rparr>;
     s' = sk_handleFrame_payload env [] [FinalResponse [9]] f s in
   sink_contract (sk_trace s') = Some SinkDone \<and> sk_freed s' \<and> last (sk_trace s') = ToConnection (CloseConnection StreamingContractViolation)"
  by code_simp

end
