(* ===== verification/Bidi_Callback.thy ===== *)
theory Bidi_Callback
  imports Sink_Callback
begin

text \<open>
  The server's end of a bidirectional stream (\<^verbatim>\<open>rocket/server/RocketBiDiClientCallback.cpp\<close>, \<^verbatim>\<open>BidirectionalStreamState.cpp\<close>): a stream
  and a sink in one, each half of which closes on its own.  Calls, trace and environment are those of \<open>Stream_Callbacks\<close>; the contract is
  that of a stream for the one half and that of a sink without a final response for the other.
\<close>

section \<open>BidirectionalStreamState\<close>

datatype bidi_state = AwaitingFirstResponse | CancelledEarly | StreamAndSinkOpen | OnlyStreamOpen | OnlySinkOpen | Closed

definition bs_isTerminal :: "bidi_state \<Rightarrow> bool" where
  "bs_isTerminal st \<longleftrightarrow> st = CancelledEarly \<or> st = Closed"

definition bs_isAlive :: "bidi_state \<Rightarrow> bool" where
  "bs_isAlive st \<longleftrightarrow> \<not> bs_isTerminal st"

definition bs_isSinkOpen :: "bidi_state \<Rightarrow> bool" where
  "bs_isSinkOpen st \<longleftrightarrow> st = AwaitingFirstResponse \<or> st = StreamAndSinkOpen \<or> st = OnlySinkOpen"

definition bs_isStreamOpen :: "bidi_state \<Rightarrow> bool" where
  "bs_isStreamOpen st \<longleftrightarrow> st = AwaitingFirstResponse \<or> st = StreamAndSinkOpen \<or> st = OnlyStreamOpen"

fun bs_onFirstResponseSent :: "bidi_state \<Rightarrow> bidi_state" where
  "bs_onFirstResponseSent AwaitingFirstResponse = StreamAndSinkOpen"
| "bs_onFirstResponseSent st = st"

fun bs_onFirstResponseError :: "bidi_state \<Rightarrow> bidi_state" where
  "bs_onFirstResponseError AwaitingFirstResponse = Closed"
| "bs_onFirstResponseError st = st"

fun bs_onStreamComplete :: "bidi_state \<Rightarrow> bidi_state" where
  "bs_onStreamComplete StreamAndSinkOpen = OnlySinkOpen"
| "bs_onStreamComplete OnlyStreamOpen = Closed"
| "bs_onStreamComplete st = st"

fun bs_onStreamError :: "bidi_state \<Rightarrow> bidi_state" where
  "bs_onStreamError StreamAndSinkOpen = OnlySinkOpen"
| "bs_onStreamError OnlyStreamOpen = Closed"
| "bs_onStreamError st = st"

fun bs_onStreamCancel :: "bidi_state \<Rightarrow> bidi_state" where
  "bs_onStreamCancel StreamAndSinkOpen = OnlySinkOpen"
| "bs_onStreamCancel OnlyStreamOpen = Closed"
| "bs_onStreamCancel st = st"

fun bs_onSinkComplete :: "bidi_state \<Rightarrow> bidi_state" where
  "bs_onSinkComplete StreamAndSinkOpen = OnlyStreamOpen"
| "bs_onSinkComplete OnlySinkOpen = Closed"
| "bs_onSinkComplete st = st"

fun bs_onSinkError :: "bidi_state \<Rightarrow> bidi_state" where
  "bs_onSinkError StreamAndSinkOpen = OnlyStreamOpen"
| "bs_onSinkError OnlySinkOpen = Closed"
| "bs_onSinkError st = st"

fun bs_onSinkCancel :: "bidi_state \<Rightarrow> bidi_state" where
  "bs_onSinkCancel StreamAndSinkOpen = OnlyStreamOpen"
| "bs_onSinkCancel OnlySinkOpen = Closed"
| "bs_onSinkCancel st = st"

definition bs_onCancelEarly :: "bidi_state \<Rightarrow> bidi_state" where
  "bs_onCancelEarly st = CancelledEarly"

section \<open>RocketBiDiClientCallback\<close>

record bidi_callback =
  bd_streamId :: u32
  bd_server :: bool
  bd_state :: bidi_state
  bd_initialTokens :: i32
  bd_streamTokens :: u64
  bd_timeout :: bool
  bd_sinkTimeout :: "(bool \<times> u64) option"
  bd_compression :: "compression_config option"
  bd_bufferedFragment :: "payload option"
  bd_freed :: bool
  bd_trace :: "callback_event list"

definition bd_init :: "u32 \<Rightarrow> i32 \<Rightarrow> bidi_callback" where
  "bd_init streamId initialTokens = \<lparr>bd_streamId = streamId, bd_server = False, bd_state = AwaitingFirstResponse,
     bd_initialTokens = initialTokens, bd_streamTokens = 0, bd_timeout = False, bd_sinkTimeout = None,
     bd_compression = None, bd_bufferedFragment = None, bd_freed = False, bd_trace = []\<rparr>"

definition bd_setCompressionConfig :: "compression_config \<Rightarrow> bidi_callback \<Rightarrow> bidi_callback" where
  "bd_setCompressionConfig config s = s\<lparr>bd_compression := Some config\<rparr>"

definition bd_setChunkTimeout :: "nat \<Rightarrow> bidi_callback \<Rightarrow> bidi_callback" where
  "bd_setChunkTimeout milliseconds s = (if milliseconds \<noteq> 0 then s\<lparr>bd_sinkTimeout := Some (False, 0)\<rparr> else s)"

definition bd_log :: "callback_event \<Rightarrow> bidi_callback \<Rightarrow> bidi_callback" where
  "bd_log e s = s\<lparr>bd_trace := bd_trace s @ [e]\<rparr>"

definition bd_freeStream :: "bidi_callback \<Rightarrow> bidi_callback" where
  "bd_freeStream s = (bd_log (ToConnection (FreeStream True)) s)\<lparr>bd_freed := True, bd_timeout := False, bd_sinkTimeout := None\<rparr>"

definition bd_return :: "bool \<Rightarrow> bidi_callback \<Rightarrow> bidi_callback" where
  "bd_return b s = bd_log (Returned b) s"

definition bd_cancelTimeout :: "bidi_callback \<Rightarrow> bidi_callback" where
  "bd_cancelTimeout s = s\<lparr>bd_timeout := False\<rparr>"

definition bd_cancelSinkTimeout :: "bidi_callback \<Rightarrow> bidi_callback" where
  "bd_cancelSinkTimeout s = s\<lparr>bd_sinkTimeout := map_option (\<lambda>(_, credits). (False, credits)) (bd_sinkTimeout s)\<rparr>"

definition bd_incCredits :: "u64 \<Rightarrow> bidi_callback \<Rightarrow> bidi_callback" where
  "bd_incCredits n s = s\<lparr>bd_sinkTimeout := map_option (\<lambda>(scheduled, credits). (scheduled \<or> credits = 0, credits + n)) (bd_sinkTimeout s)\<rparr>"

definition bd_decCredits :: "bidi_callback \<Rightarrow> bidi_callback" where
  "bd_decCredits s = s\<lparr>bd_sinkTimeout := map_option (\<lambda>(scheduled, credits). (credits - 1 \<noteq> 0, credits - 1)) (bd_sinkTimeout s)\<rparr>"

text \<open>What most calls of the server side end with: the stream is freed once both halves are closed.\<close>

definition bd_aliveOrFree :: "bidi_callback \<Rightarrow> bidi_callback" where
  "bd_aliveOrFree s = (if bs_isAlive (bd_state s) then bd_return True s else bd_return False (bd_freeStream s))"

subsection \<open>Calls of the server side\<close>

definition bd_onFirstResponseError :: "callback_env \<Rightarrow> first_error \<Rightarrow> bidi_callback \<Rightarrow> bidi_callback" where
  "bd_onFirstResponseError env ew s = (let s = bd_log (Called (FirstResponseError ew)) s;
     s = s\<lparr>bd_state := bs_onFirstResponseError (bd_state s)\<rparr>;
     s = (case ew of
            FirstRocketError code errorData \<Rightarrow> bd_log (ToConnection (SendError code errorData)) s
          | FirstEncodedError encoded \<Rightarrow> bd_log (ToConnection (SendPayload (ce_packFirst env None encoded) True True)) s
          | FirstOtherError \<Rightarrow> s) in
     bd_freeStream s)"

definition bd_onSinkCancel :: "bidi_callback \<Rightarrow> bidi_callback" where
  "bd_onSinkCancel s = (let s = bd_log (Called SinkCancel) s in
     if \<not> bs_isSinkOpen (bd_state s) then bd_return (bs_isAlive (bd_state s)) s
     else let s = bd_cancelSinkTimeout s;
              s = s\<lparr>bd_state := bs_onSinkCancel (bd_state s)\<rparr> in
       bd_aliveOrFree (bd_log (ToConnection SendCancel) s))"

definition bd_onSinkRequestN :: "i32 \<Rightarrow> bidi_callback \<Rightarrow> bidi_callback" where
  "bd_onSinkRequestN n s =
    bd_aliveOrFree (bd_log (ToConnection (SendRequestN n)) (bd_incCredits (scast n) (bd_log (Called (SinkRequestN n)) s)))"

definition bd_useToken :: "bidi_callback \<Rightarrow> bidi_callback" where
  "bd_useToken s = (let s = s\<lparr>bd_streamTokens := bd_streamTokens s - 1\<rparr> in if bd_streamTokens s = 0 then s\<lparr>bd_timeout := True\<rparr> else s)"

definition bd_onStreamNext :: "callback_env \<Rightarrow> bytes \<Rightarrow> bidi_callback \<Rightarrow> bidi_callback" where
  "bd_onStreamNext env payload s = (let s = bd_useToken (bd_log (Called (StreamNext payload)) s) in
     bd_aliveOrFree (bd_log (ToConnection (SendPayload (ce_packStream env (bd_compression s) payload) True False)) s))"

definition bd_onStreamError :: "callback_env \<Rightarrow> stream_error \<Rightarrow> bidi_callback \<Rightarrow> bidi_callback" where
  "bd_onStreamError env ew s = (let s = bd_cancelTimeout (bd_log (Called (StreamError ew)) s);
     s = s\<lparr>bd_state := bs_onStreamError (bd_state s)\<rparr> in
     bd_aliveOrFree (bd_log (ToConnection (case ew of
         RocketError code errorData \<Rightarrow> SendError ERR_APPLICATION errorData
       | EncodedErr encoded \<Rightarrow> SendError ERR_APPLICATION encoded
       | EncodedStreamErr encoded \<Rightarrow> SendPayload (ce_packStream env (bd_compression s) encoded) True True
       | OtherError \<Rightarrow> SendError ERR_APPLICATION (ce_what env ew))) s))"

definition bd_onStreamComplete :: "bidi_callback \<Rightarrow> bidi_callback" where
  "bd_onStreamComplete s = (let s = bd_cancelTimeout (bd_log (Called StreamComplete) s);
     s = s\<lparr>bd_state := bs_onStreamComplete (bd_state s)\<rparr> in
     bd_aliveOrFree (bd_log (ToConnection (SendPayload (makeFromData []) False True)) s))"

fun bd_act :: "callback_env \<Rightarrow> client_call \<Rightarrow> bidi_callback \<Rightarrow> bidi_callback" where
  "bd_act env (StreamNext payload) s = bd_onStreamNext env payload s"
| "bd_act env (StreamError ew) s = bd_onStreamError env ew s"
| "bd_act env StreamComplete s = bd_onStreamComplete s"
| "bd_act env (SinkRequestN n) s = bd_onSinkRequestN n s"
| "bd_act env SinkCancel s = bd_onSinkCancel s"
| "bd_act env _ s = s"

subsection \<open>The contract\<close>

text \<open>The credits of the stream half while it is open, and whether the sink half is.\<close>

datatype bidi_contract = BiDiAwaiting | BiDi "nat option" bool

abbreviation bidi_closed :: bidi_contract where "bidi_closed \<equiv> BiDi None False"

fun bidi_contract_step :: "callback_event \<Rightarrow> bidi_contract \<Rightarrow> bidi_contract option" where
  "bidi_contract_step (Called (FirstResponse _)) BiDiAwaiting = Some (BiDi (Some 0) True)"
| "bidi_contract_step (Called (FirstResponseError _)) BiDiAwaiting = Some bidi_closed"
| "bidi_contract_step (Called (StreamNext _)) (BiDi (Some k) sink) = (if k > 0 then Some (BiDi (Some (k - 1)) sink) else None)"
| "bidi_contract_step (Called (StreamError _)) (BiDi (Some k) sink) = Some (BiDi None sink)"
| "bidi_contract_step (Called StreamComplete) (BiDi (Some k) sink) = Some (BiDi None sink)"
| "bidi_contract_step (Called (SinkRequestN _)) (BiDi stream True) = Some (BiDi stream True)"
| "bidi_contract_step (Called SinkCancel) (BiDi stream True) = Some (BiDi stream False)"
| "bidi_contract_step (ToServer (SrvStreamRequestN n)) (BiDi (Some k) sink) = (if sint n > 0 then Some (BiDi (Some (k + unat n)) sink) else None)"
| "bidi_contract_step (ToServer SrvStreamCancel) (BiDi (Some k) sink) = Some (BiDi None sink)"
| "bidi_contract_step (ToServer (SrvSinkNext _)) (BiDi stream True) = Some (BiDi stream True)"
| "bidi_contract_step (ToServer (SrvSinkError _)) (BiDi stream True) = Some (BiDi stream False)"
| "bidi_contract_step (ToServer SrvSinkComplete) (BiDi stream True) = Some (BiDi stream False)"
| "bidi_contract_step (Returned alive) K = (if alive = (K \<noteq> bidi_closed) then Some K else None)"
| "bidi_contract_step (ToConnection _) K = Some K"
| "bidi_contract_step _ _ = None"

abbreviation bidi_contract :: "callback_event list \<Rightarrow> bidi_contract option" where
  "bidi_contract trace \<equiv> contract_run bidi_contract_step trace BiDiAwaiting"

definition bd_may :: "client_call \<Rightarrow> bidi_callback \<Rightarrow> bool" where
  "bd_may call s \<longleftrightarrow> bidi_contract (bd_trace s @ [Called call]) \<noteq> None"

fun bd_acts :: "callback_env \<Rightarrow> client_call list \<Rightarrow> bidi_callback \<Rightarrow> bidi_callback" where
  "bd_acts env [] s = s"
| "bd_acts env (a # as) s = (if bd_may a s then bd_acts env as (bd_act env a s) else s)"

text \<open>A call of the server callback, which makes the calls \<open>acts\<close> and returns whether the contract is still alive.\<close>

definition bd_serverCall :: "callback_env \<Rightarrow> client_call list \<Rightarrow> server_call \<Rightarrow> bidi_callback \<Rightarrow> bool \<times> bidi_callback" where
  "bd_serverCall env acts call s = (let s = bd_acts env acts (bd_log (ToServer call) s) in (bidi_contract (bd_trace s) \<noteq> Some bidi_closed, s))"

subsection \<open>Calls of the client, passed on to the server callback\<close>

definition bd_onStreamRequestN :: "callback_env \<Rightarrow> client_call list \<Rightarrow> i32 \<Rightarrow> bidi_callback \<Rightarrow> bool \<times> bidi_callback" where
  "bd_onStreamRequestN env acts n s =
    (if sint n \<le> 0 then (let (alive, s) = bd_serverCall env acts (SrvStreamRequestN n) s in (\<not> alive, s))
     else let s = bd_cancelTimeout s;
              s = s\<lparr>bd_streamTokens := bd_streamTokens s + scast n\<rparr> in
       bd_serverCall env acts (SrvStreamRequestN n) s)"

text \<open>The server callback is told that a half is closed; when it was the last one, the stream is freed, whatever the server callback returns.\<close>

definition bd_tellClosed :: "callback_env \<Rightarrow> client_call list \<Rightarrow> server_call \<Rightarrow> bidi_callback \<Rightarrow> bool \<times> bidi_callback" where
  "bd_tellClosed env acts call s = (let wasTerminal = bs_isTerminal (bd_state s);
     (alive, s) = bd_serverCall env acts call s in
     if \<not> alive then
       if wasTerminal then (False, bd_freeStream (s\<lparr>bd_server := False\<rparr>)) else (False, s)
     else if wasTerminal then (False, bd_freeStream (s\<lparr>bd_server := False\<rparr>))
     else (True, s))"

definition bd_onStreamCancel :: "callback_env \<Rightarrow> client_call list \<Rightarrow> bidi_callback \<Rightarrow> bool \<times> bidi_callback" where
  "bd_onStreamCancel env acts s = (let s = bd_cancelTimeout s in
     bd_tellClosed env acts SrvStreamCancel (s\<lparr>bd_state := bs_onStreamCancel (bd_state s)\<rparr>))"

definition bd_onSinkNext :: "callback_env \<Rightarrow> client_call list \<Rightarrow> bytes \<Rightarrow> bidi_callback \<Rightarrow> bool \<times> bidi_callback" where
  "bd_onSinkNext env acts payload s = bd_serverCall env acts (SrvSinkNext payload) (bd_decCredits s)"

definition bd_onSinkError :: "callback_env \<Rightarrow> client_call list \<Rightarrow> sink_error \<Rightarrow> bidi_callback \<Rightarrow> bool \<times> bidi_callback" where
  "bd_onSinkError env acts ew s = (let s = bd_cancelSinkTimeout s in
     bd_tellClosed env acts (SrvSinkError ew) (s\<lparr>bd_state := bs_onSinkError (bd_state s)\<rparr>))"

definition bd_onSinkComplete :: "callback_env \<Rightarrow> client_call list \<Rightarrow> bidi_callback \<Rightarrow> bool \<times> bidi_callback" where
  "bd_onSinkComplete env acts s = (let s = bd_cancelSinkTimeout s in
     bd_tellClosed env acts SrvSinkComplete (s\<lparr>bd_state := bs_onSinkComplete (bd_state s)\<rparr>))"

definition bd_onFirstResponse :: "callback_env \<Rightarrow> client_call list \<Rightarrow> bytes \<Rightarrow> bidi_callback \<Rightarrow> bidi_callback" where
  "bd_onFirstResponse env acts firstResponse s = (let s = bd_log (Called (FirstResponse firstResponse)) s in
     if bd_state s = CancelledEarly then
       let (alive, s) = bd_serverCall env acts SrvStreamCancel s;
           s = (if alive then snd (bd_serverCall env [] SrvSinkComplete s) else s) in
       bd_return False (bd_freeStream s)
     else
       let s = s\<lparr>bd_server := True\<rparr>;
           s = bd_log (ToConnection (SendPayload (ce_packFirst env (Some (bd_streamId s)) firstResponse) True False)) s;
           s = s\<lparr>bd_state := bs_onFirstResponseSent (bd_state s)\<rparr>;
           s = (if sint (bd_initialTokens s) > 0 then snd (bd_onStreamRequestN env acts (bd_initialTokens s) s) else s) in
       bd_return True s)"

subsection \<open>Calls of the connection\<close>

definition bd_close :: "close_reason \<Rightarrow> bidi_callback \<Rightarrow> bidi_callback" where
  "bd_close reason = bd_log (ToConnection (CloseConnection reason))"

definition bd_handleFrame_payload :: "callback_env \<Rightarrow> client_call list \<Rightarrow> client_call list \<Rightarrow> payload_frame \<Rightarrow> bidi_callback \<Rightarrow> bidi_callback" where
  "bd_handleFrame_payload env acts acts' payloadFrame s =
    (if \<not> bd_server s then bd_close (UnexpectedEarlyFrame F_PAYLOAD) s
     else let (bufferedFragment, fullPayload) = cb_bufferOrGetFullPayload (bd_bufferedFragment s) payloadFrame;
              s = s\<lparr>bd_bufferedFragment := bufferedFragment\<rparr> in
       case fullPayload of
         None \<Rightarrow> s
       | Some full \<Rightarrow>
           let (alive, s) =
             (if flags_get NEXT (pf_flags payloadFrame) then
                (case ce_unpack env full of
                   Inl ew \<Rightarrow> if bs_isSinkOpen (bd_state s) then bd_onSinkError env acts ew s else (True, s)
                 | Inr streamPayload \<Rightarrow> if bs_isSinkOpen (bd_state s) then bd_onSinkNext env acts streamPayload s else (True, s))
              else (True, s)) in
           if flags_get COMPLETE (pf_flags payloadFrame) \<and> alive \<and> bs_isSinkOpen (bd_state s) then snd (bd_onSinkComplete env acts' s) else s)"

definition bd_handleFrame_error :: "callback_env \<Rightarrow> client_call list \<Rightarrow> error_frame \<Rightarrow> bidi_callback \<Rightarrow> bidi_callback" where
  "bd_handleFrame_error env acts errorFrame s =
    (if \<not> bd_server s then
       if ef_errorCode errorFrame = ERR_CANCELED then s\<lparr>bd_state := bs_onCancelEarly (bd_state s)\<rparr> else bd_close (UnexpectedEarlyFrame F_ERROR) s
     else let ew = (if ef_errorCode errorFrame = ERR_CANCELED then SinkInterruption
              else SinkRocketError (ef_errorCode errorFrame) (p_buffer (ef_payload errorFrame))) in
       if bs_isSinkOpen (bd_state s) then snd (bd_onSinkError env acts ew s) else s)"

definition bd_handleFrame_requestN :: "callback_env \<Rightarrow> client_call list \<Rightarrow> request_n_frame \<Rightarrow> bidi_callback \<Rightarrow> bidi_callback" where
  "bd_handleFrame_requestN env acts requestNFrame s =
    (if \<not> bd_server s then bd_close (UnexpectedEarlyFrame F_REQUEST_N) s
     else if bs_isStreamOpen (bd_state s) then snd (bd_onStreamRequestN env acts (rn_requestN requestNFrame) s) else s)"

definition bd_handleFrame_cancel :: "callback_env \<Rightarrow> client_call list \<Rightarrow> bidi_callback \<Rightarrow> bidi_callback" where
  "bd_handleFrame_cancel env acts s =
    (if \<not> bd_server s then bd_close (UnexpectedEarlyFrame F_CANCEL) s
     else if bs_isStreamOpen (bd_state s) then snd (bd_onStreamCancel env acts s) else s)"

definition bd_handleFrame_ext :: "ext_frame \<Rightarrow> bidi_callback \<Rightarrow> bidi_callback" where
  "bd_handleFrame_ext extFrame s =
    (if \<not> bd_server s then bd_close (UnexpectedEarlyFrame F_EXT) s
     else if \<not> flags_get IGNORE (xf_flags extFrame) then bd_close (UnhandleableExt (xf_extFrameType extFrame)) s else s)"

text \<open>The connection destroys the callback after it has told it that it closes.  \<open>acts\<close> are the calls that the server callback makes
  while it hears of the error.\<close>

definition bd_handleConnectionClose :: "callback_env \<Rightarrow> client_call list \<Rightarrow> bidi_callback \<Rightarrow> bidi_callback" where
  "bd_handleConnectionClose env acts s =
    (let s = bd_cancelSinkTimeout (bd_cancelTimeout s);
         s = (if \<not> bd_server s then s
              else let s = s\<lparr>bd_server := False\<rparr>;
                       s = (if bs_isSinkOpen (bd_state s) then snd (bd_serverCall env acts (SrvSinkError SinkInterruption) s) else s) in
                if bs_isStreamOpen (bd_state s) then snd (bd_serverCall env [] SrvStreamCancel s) else s) in
     s\<lparr>bd_freed := True, bd_timeout := False, bd_sinkTimeout := None\<rparr>)"

text \<open>The two timers end both halves in the same way; \<open>bd_expire\<close> is what they share, after each has cancelled its timers.\<close>

definition bd_expire :: "callback_env \<Rightarrow> client_call list \<Rightarrow> rpc_error \<Rightarrow> bidi_callback \<Rightarrow> bidi_callback" where
  "bd_expire env acts reason s =
    (let s = s\<lparr>bd_server := False\<rparr>;
         sinkWasOpen = bs_isSinkOpen (bd_state s);
         s = (if sinkWasOpen then snd (bd_serverCall env acts (SrvSinkError SinkTimeout) (s\<lparr>bd_state := bs_onSinkCancel (bd_state s)\<rparr>)) else s);
         s = (if bs_isStreamOpen (bd_state s)
              then snd (bd_serverCall env [] SrvStreamCancel ((if reason = CHUNK_TIMEOUT then bd_cancelTimeout s else s)\<lparr>bd_state := bs_onStreamCancel (bd_state s)\<rparr>))
              else s);
         s = (if sinkWasOpen then bd_log (ToConnection SendCancel) s else s) in
     bd_freeStream (bd_log (ToConnection (SendError ERR_CANCELED (ce_packRpcError env reason))) s))"

definition bd_timeoutExpired :: "callback_env \<Rightarrow> client_call list \<Rightarrow> bidi_callback \<Rightarrow> bidi_callback" where
  "bd_timeoutExpired env acts s = (let s = bd_cancelSinkTimeout s in
     if \<not> bd_server s then s else bd_expire env acts (CREDIT_TIMEOUT None) s)"

definition bd_sinkChunkTimeoutExpired :: "callback_env \<Rightarrow> client_call list \<Rightarrow> bidi_callback \<Rightarrow> bidi_callback" where
  "bd_sinkChunkTimeoutExpired env acts s = (let s = bd_cancelSinkTimeout s in
     if \<not> bd_server s then s else bd_expire env acts CHUNK_TIMEOUT s)"

definition bd_resetServerCallback :: "bidi_callback \<Rightarrow> bidi_callback" where
  "bd_resetServerCallback s = s\<lparr>bd_server := True\<rparr>"

section \<open>Runs of a bidirectional stream\<close>

definition bd_scheduled :: "bidi_callback \<Rightarrow> bool" where
  "bd_scheduled s \<longleftrightarrow> (\<exists>credits. bd_sinkTimeout s = Some (True, credits))"

text \<open>
  The server side makes the calls its contract allows, from within a call to it too, with three exceptions, where the code does not reckon with such calls:
  it makes none while it is told that the stream was cancelled early, that it timed out or that the connection closes, and it does not close both
  halves while it is granted the initial credits.  The credits that a client grants are positive and fewer than \<open>2 ^ 64\<close> are outstanding.
\<close>

inductive bidi_step :: "callback_env \<Rightarrow> bidi_callback \<Rightarrow> bidi_callback \<Rightarrow> bool" for env where
  first_response: "bd_may (FirstResponse p) s \<Longrightarrow> bd_state s \<noteq> CancelledEarly \<Longrightarrow> \<not> bd_freed (bd_onFirstResponse env acts p s) \<Longrightarrow>
    bidi_step env s (bd_onFirstResponse env acts p s)"
| first_response_cancelled: "bd_may (FirstResponse p) s \<Longrightarrow> bd_state s = CancelledEarly \<Longrightarrow> bidi_step env s (bd_onFirstResponse env [] p s)"
| first_error: "bd_may (FirstResponseError e) s \<Longrightarrow> bidi_step env s (bd_onFirstResponseError env e s)"
| server_call: "bd_may a s \<Longrightarrow> bidi_step env s (bd_act env a s)"
| configure: "\<not> bd_freed s \<Longrightarrow> bidi_step env s (bd_setCompressionConfig config s)"
| set_timeout: "\<not> bd_freed s \<Longrightarrow> \<not> bd_server s \<Longrightarrow> bidi_step env s (bd_setChunkTimeout milliseconds s)"
| reset_server: "bd_server s \<Longrightarrow> \<not> bd_freed s \<Longrightarrow> bidi_step env s (bd_resetServerCallback s)"
| request_n: "\<not> bd_freed s \<Longrightarrow> 0 < sint (rn_requestN f) \<Longrightarrow> unat (bd_streamTokens s) + unat (rn_requestN f) < 2 ^ 64 \<Longrightarrow>
    bidi_step env s (bd_handleFrame_requestN env acts f s)"
| cancel: "\<not> bd_freed s \<Longrightarrow> bidi_step env s (bd_handleFrame_cancel env acts s)"
| payload_frame: "\<not> bd_freed s \<Longrightarrow> bidi_step env s (bd_handleFrame_payload env acts acts' f s)"
| error_frame: "\<not> bd_freed s \<Longrightarrow> bidi_step env s (bd_handleFrame_error env acts e s)"
| ext_frame: "\<not> bd_freed s \<Longrightarrow> bidi_step env s (bd_handleFrame_ext x s)"
| connection_close: "\<not> bd_freed s \<Longrightarrow> bd_server s \<Longrightarrow> bidi_step env s (bd_handleConnectionClose env [] s)"
| timeout_expired: "bd_timeout s \<Longrightarrow> bidi_step env s (bd_timeoutExpired env [] s)"
| chunk_timeout_expired: "bd_scheduled s \<Longrightarrow> bidi_step env s (bd_sinkChunkTimeoutExpired env [] s)"

subsection \<open>The invariant\<close>

fun bidi_state_ok :: "bidi_contract \<Rightarrow> bidi_callback \<Rightarrow> bool" where
  "bidi_state_ok BiDiAwaiting s \<longleftrightarrow> \<not> bd_server s \<and> \<not> bd_freed s \<and> (bd_state s = AwaitingFirstResponse \<or> bd_state s = CancelledEarly) \<and>
     \<not> bd_timeout s \<and> \<not> bd_scheduled s \<and> bd_streamTokens s = 0"
| "bidi_state_ok (BiDi (Some k) sink) s \<longleftrightarrow> bd_server s \<and> \<not> bd_freed s \<and> bd_state s = (if sink then StreamAndSinkOpen else OnlyStreamOpen) \<and>
     unat (bd_streamTokens s) = k \<and> (bd_timeout s \<longrightarrow> k = 0) \<and> (bd_scheduled s \<longrightarrow> sink)"
| "bidi_state_ok (BiDi None True) s \<longleftrightarrow> bd_server s \<and> \<not> bd_freed s \<and> bd_state s = OnlySinkOpen \<and> \<not> bd_timeout s"
| "bidi_state_ok (BiDi None False) s \<longleftrightarrow> bd_freed s \<and> \<not> bd_timeout s \<and> \<not> bd_scheduled s"

definition bidi_ok :: "bidi_callback \<Rightarrow> bool" where
  "bidi_ok s \<longleftrightarrow> (\<exists>K. bidi_contract (bd_trace s) = Some K \<and> bidi_state_ok K s) \<and> frees (bd_trace s) \<le> of_bool (bd_freed s)"

lemma bidi_okE:
  assumes "bidi_ok s"
  obtains K where "bidi_contract (bd_trace s) = Some K" "bidi_state_ok K s" "frees (bd_trace s) \<le> of_bool (bd_freed s)"
  using assms unfolding bidi_ok_def by blast

lemma bd_scheduled_simps [simp]:
  "\<not> bd_scheduled (bd_cancelSinkTimeout s)" "bd_scheduled (s\<lparr>bd_trace := t\<rparr>) = bd_scheduled s" "bd_scheduled (s\<lparr>bd_state := st\<rparr>) = bd_scheduled s"
  "bd_scheduled (s\<lparr>bd_server := b\<rparr>) = bd_scheduled s" "bd_scheduled (s\<lparr>bd_freed := b\<rparr>) = bd_scheduled s"
  "bd_scheduled (s\<lparr>bd_timeout := b\<rparr>) = bd_scheduled s" "bd_scheduled (s\<lparr>bd_streamTokens := n\<rparr>) = bd_scheduled s"
  "bd_scheduled (s\<lparr>bd_bufferedFragment := f\<rparr>) = bd_scheduled s" "\<not> bd_scheduled (s\<lparr>bd_sinkTimeout := None\<rparr>)"
  "\<not> bd_scheduled (s\<lparr>bd_sinkTimeout := Some (False, n)\<rparr>)" "bd_scheduled (s\<lparr>bd_compression := config\<rparr>) = bd_scheduled s"
  by (auto simp: bd_scheduled_def bd_cancelSinkTimeout_def)

lemma bd_fields [simp]:
  "bd_server (bd_cancelSinkTimeout s) = bd_server s" "bd_state (bd_cancelSinkTimeout s) = bd_state s" "bd_freed (bd_cancelSinkTimeout s) = bd_freed s"
  "bd_trace (bd_cancelSinkTimeout s) = bd_trace s" "bd_timeout (bd_cancelSinkTimeout s) = bd_timeout s"
  "bd_streamTokens (bd_cancelSinkTimeout s) = bd_streamTokens s"
  "bd_server (bd_incCredits n s) = bd_server s" "bd_state (bd_incCredits n s) = bd_state s" "bd_freed (bd_incCredits n s) = bd_freed s"
  "bd_trace (bd_incCredits n s) = bd_trace s" "bd_timeout (bd_incCredits n s) = bd_timeout s" "bd_streamTokens (bd_incCredits n s) = bd_streamTokens s"
  "bd_server (bd_decCredits s) = bd_server s" "bd_state (bd_decCredits s) = bd_state s" "bd_freed (bd_decCredits s) = bd_freed s"
  "bd_trace (bd_decCredits s) = bd_trace s" "bd_timeout (bd_decCredits s) = bd_timeout s" "bd_streamTokens (bd_decCredits s) = bd_streamTokens s"
  by (simp_all add: bd_cancelSinkTimeout_def bd_incCredits_def bd_decCredits_def)

lemmas bs_defs = bs_isAlive_def bs_isTerminal_def bs_isSinkOpen_def bs_isStreamOpen_def

lemmas bd_primitives = bd_log_def bd_freeStream_def bd_return_def bd_close_def bd_aliveOrFree_def bd_cancelTimeout_def bs_defs Let_def
  contract_run_append frees_append

lemma bd_useToken:
  "0 < unat (bd_streamTokens s) \<Longrightarrow>
    bd_useToken s = s\<lparr>bd_streamTokens := bd_streamTokens s - 1, bd_timeout := (bd_timeout s \<or> unat (bd_streamTokens s) = 1)\<rparr>"
  using word_dec_0_iff [of "bd_streamTokens s"] by (simp add: bd_useToken_def Let_def)

lemma bd_act_ok:
  assumes "bidi_ok s" and "bd_may a s"
  shows "bidi_ok (bd_act env a s)"
proof -
  obtain K where K: "bidi_contract (bd_trace s) = Some K" "bidi_state_ok K s" "frees (bd_trace s) \<le> of_bool (bd_freed s)"
    using assms(1) by (rule bidi_okE)
  have may: "bidi_contract_step (Called a) K \<noteq> None" using assms(2) K(1) by (auto simp: bd_may_def contract_run_append split: option.splits)
  show ?thesis
  proof (cases K)
    case BiDiAwaiting
    then show ?thesis using may assms(1) by (cases a) auto
  next
    case (BiDi stream sink)
    show ?thesis
      by (cases a; cases stream; cases sink) (use may K BiDi in \<open>auto simp: bidi_ok_def bd_onStreamNext_def bd_onStreamError_def bd_onStreamComplete_def
          bd_onSinkRequestN_def bd_onSinkCancel_def bd_useToken unat_dec bd_primitives split: if_splits stream_error.split\<close>)
  qed
qed

lemma bd_acts_ok: "bidi_ok s \<Longrightarrow> bidi_ok (bd_acts env acts s)"
  by (induction acts arbitrary: s) (auto simp: bd_act_ok)

lemma bd_acts_server [simp]: "bd_server (bd_acts env acts s) = bd_server s"
proof (induction acts arbitrary: s)
  case (Cons a acts)
  have "bd_server (bd_act env a s) = bd_server s"
    by (cases a) (simp_all add: bd_onStreamNext_def bd_onStreamError_def bd_onStreamComplete_def bd_onSinkRequestN_def bd_onSinkCancel_def
        bd_useToken_def bd_primitives)
  then show ?case using Cons by simp
qed simp

text \<open>A server callback that knows that both halves are closed calls nothing.\<close>

lemma bd_acts_closed: "bidi_contract (bd_trace s) = Some bidi_closed \<Longrightarrow> bd_acts env acts s = s"
proof (cases acts)
  case (Cons a as)
  assume "bidi_contract (bd_trace s) = Some bidi_closed"
  then have "\<not> bd_may a s" by (cases a) (auto simp: bd_may_def contract_run_append)
  then show ?thesis using Cons by simp
qed simp

text \<open>The result of a call that is passed on to the server callback.\<close>

definition bidi_passed :: "bool \<times> bidi_callback \<Rightarrow> bool" where
  "bidi_passed r \<longleftrightarrow> bidi_ok (snd r) \<and> (fst r \<longleftrightarrow> \<not> bd_freed (snd r)) \<and> (fst r \<longrightarrow> bd_server (snd r))"

lemma bidi_ok_closed_iff: "bidi_ok s \<Longrightarrow> bidi_contract (bd_trace s) \<noteq> Some bidi_closed \<longleftrightarrow> \<not> bd_freed s"
  by (erule bidi_okE, rename_tac K, case_tac K rule: bidi_state_ok.cases [of "(K, s)" for K]) auto

lemma bd_serverCall_ok:
  assumes "bidi_ok (bd_log (ToServer call) s)" and "bd_server s"
  shows "bidi_passed (bd_serverCall env acts call s)"
proof -
  have "bidi_ok (bd_acts env acts (bd_log (ToServer call) s))" using assms(1) by (rule bd_acts_ok)
  then show ?thesis using bidi_ok_closed_iff assms(2) by (simp add: bidi_passed_def bd_serverCall_def Let_def) (simp add: bd_log_def)
qed

lemma bd_tellClosed_ok:
  assumes "bidi_contract (bd_trace s) = Some K" and "bidi_contract_step (ToServer call) K = Some K'" and "frees (bd_trace s) = 0" and "bd_server s"
    and "K' = bidi_closed \<Longrightarrow> bd_state s = Closed" and "K' \<noteq> bidi_closed \<Longrightarrow> bidi_state_ok K' s \<and> \<not> bs_isTerminal (bd_state s)"
  shows "bidi_passed (bd_tellClosed env acts call s)"
proof (cases "K' = bidi_closed")
  case True
  then have "bidi_contract (bd_trace (bd_log (ToServer call) s)) = Some bidi_closed"
    using assms(1,2) by (simp add: bd_log_def contract_run_append)
  then have "bd_serverCall env acts call s = (False, bd_log (ToServer call) s)" by (simp add: bd_serverCall_def bd_acts_closed Let_def)
  then show ?thesis using assms True
    by (simp add: bd_tellClosed_def bidi_passed_def bidi_ok_def bd_primitives)
next
  case False
  then have "bidi_ok (bd_log (ToServer call) s)"
    using assms by (cases K' rule: bidi_state_ok.cases [of "(K', s)" for K']) (auto simp: bidi_ok_def bd_primitives)
  then have "bidi_passed (bd_serverCall env acts call s)" using assms(4) by (rule bd_serverCall_ok)
  then show ?thesis using assms(6) False by (auto simp: bd_tellClosed_def bidi_passed_def Let_def split: prod.split)
qed

text \<open>The states in which the two halves are open, once the first response was sent.\<close>

lemma bidi_ok_sink_open:
  assumes "bidi_ok s" and "\<not> bd_freed s" and "bd_server s" and "bs_isSinkOpen (bd_state s)"
  obtains stream where "bidi_contract (bd_trace s) = Some (BiDi stream True)" "bidi_state_ok (BiDi stream True) s" "frees (bd_trace s) = 0"
proof -
  obtain K where K: "bidi_contract (bd_trace s) = Some K" "bidi_state_ok K s" "frees (bd_trace s) \<le> of_bool (bd_freed s)"
    using assms(1) by (rule bidi_okE)
  with assms(2-) have "\<exists>stream. K = BiDi stream True"
    by (cases K rule: bidi_state_ok.cases [of "(K, s)" for K]) (auto simp: bs_isSinkOpen_def split: if_splits)
  then show ?thesis using K assms(2) that by auto
qed

lemma bidi_ok_stream_open:
  assumes "bidi_ok s" and "\<not> bd_freed s" and "bd_server s" and "bs_isStreamOpen (bd_state s)"
  obtains k sink where "bidi_contract (bd_trace s) = Some (BiDi (Some k) sink)" "bidi_state_ok (BiDi (Some k) sink) s" "frees (bd_trace s) = 0"
proof -
  obtain K where K: "bidi_contract (bd_trace s) = Some K" "bidi_state_ok K s" "frees (bd_trace s) \<le> of_bool (bd_freed s)"
    using assms(1) by (rule bidi_okE)
  with assms(2-) have "\<exists>k sink. K = BiDi (Some k) sink"
    by (cases K rule: bidi_state_ok.cases [of "(K, s)" for K]) (auto simp: bs_isStreamOpen_def)
  then show ?thesis using K assms(2) that by auto
qed

lemma bd_onSinkError_ok:
  assumes "bidi_ok s" and "\<not> bd_freed s" and "bd_server s" and "bs_isSinkOpen (bd_state s)"
  shows "bidi_passed (bd_onSinkError env acts ew s)"
proof -
  obtain stream where st: "bidi_contract (bd_trace s) = Some (BiDi stream True)" "bidi_state_ok (BiDi stream True) s" "frees (bd_trace s) = 0"
    using assms by (rule bidi_ok_sink_open)
  show ?thesis unfolding bd_onSinkError_def Let_def
    by (rule bd_tellClosed_ok [where K = "BiDi stream True" and K' = "BiDi stream False"]) (use st assms(3) in \<open>cases stream; auto simp: bs_defs\<close>)+
qed

lemma bd_onSinkComplete_ok:
  assumes "bidi_ok s" and "\<not> bd_freed s" and "bd_server s" and "bs_isSinkOpen (bd_state s)"
  shows "bidi_passed (bd_onSinkComplete env acts s)"
proof -
  obtain stream where st: "bidi_contract (bd_trace s) = Some (BiDi stream True)" "bidi_state_ok (BiDi stream True) s" "frees (bd_trace s) = 0"
    using assms by (rule bidi_ok_sink_open)
  show ?thesis unfolding bd_onSinkComplete_def Let_def
    by (rule bd_tellClosed_ok [where K = "BiDi stream True" and K' = "BiDi stream False"]) (use st assms(3) in \<open>cases stream; auto simp: bs_defs\<close>)+
qed

lemma bd_onStreamCancel_ok:
  assumes "bidi_ok s" and "\<not> bd_freed s" and "bd_server s" and "bs_isStreamOpen (bd_state s)"
  shows "bidi_passed (bd_onStreamCancel env acts s)"
proof -
  obtain k sink where st: "bidi_contract (bd_trace s) = Some (BiDi (Some k) sink)" "bidi_state_ok (BiDi (Some k) sink) s" "frees (bd_trace s) = 0"
    using assms by (rule bidi_ok_stream_open)
  show ?thesis unfolding bd_onStreamCancel_def Let_def
    by (rule bd_tellClosed_ok [where K = "BiDi (Some k) sink" and K' = "BiDi None sink"])
      (use st assms(3) in \<open>cases sink; auto simp: bs_defs bd_cancelTimeout_def\<close>)+
qed

lemma bd_onSinkNext_ok:
  assumes "bidi_ok s" and "\<not> bd_freed s" and "bd_server s" and "bs_isSinkOpen (bd_state s)"
  shows "bidi_passed (bd_onSinkNext env acts p s)"
proof -
  obtain stream where st: "bidi_contract (bd_trace s) = Some (BiDi stream True)" "bidi_state_ok (BiDi stream True) s" "frees (bd_trace s) = 0"
    using assms by (rule bidi_ok_sink_open)
  show ?thesis unfolding bd_onSinkNext_def
    by (rule bd_serverCall_ok) (use st assms(3) in \<open>cases stream; auto simp: bidi_ok_def bd_primitives\<close>)+
qed

lemma bd_onStreamRequestN_ok:
  assumes "bidi_contract (bd_trace s) = Some (BiDi (Some k) sink)" and "bidi_state_ok (BiDi (Some k) sink) s" and "frees (bd_trace s) = 0"
    and "0 < sint n" and "unat (bd_streamTokens s) + unat n < 2 ^ 64"
  shows "bidi_passed (bd_onStreamRequestN env acts n s)"
proof -
  have "unat (bd_streamTokens s + scast n) = unat (bd_streamTokens s) + unat n" "0 < unat n"
    using assms(4,5) positive_i32 [of n] unat_of_positive [of n] by (auto simp: unat_word_ariths)
  then have "bidi_passed (bd_serverCall env acts (SrvStreamRequestN n) (s\<lparr>bd_timeout := False, bd_streamTokens := bd_streamTokens s + scast n\<rparr>))"
    by (intro bd_serverCall_ok) (use assms in \<open>auto simp: bidi_ok_def bd_primitives\<close>)
  then show ?thesis using assms(4) by (simp add: bd_onStreamRequestN_def bd_cancelTimeout_def Let_def)
qed

lemma bd_close_ok: "bidi_ok s \<Longrightarrow> bidi_ok (bd_close r s)"
  by (erule bidi_okE, rename_tac K, case_tac K rule: bidi_state_ok.cases [of "(K, s)" for K]) (auto simp: bidi_ok_def bd_primitives)

lemma bd_buffer_ok: "bidi_ok s \<Longrightarrow> bidi_ok (s\<lparr>bd_bufferedFragment := b\<rparr>)"
  by (erule bidi_okE, rename_tac K, case_tac K rule: bidi_state_ok.cases [of "(K, s)" for K]) (auto simp: bidi_ok_def)

lemma bd_handleFrame_payload_ok:
  assumes "bidi_ok s" and "\<not> bd_freed s"
  shows "bidi_ok (bd_handleFrame_payload env acts acts' f s)"
proof (cases "bd_server s")
  case ready: True
  obtain b full where b: "cb_bufferOrGetFullPayload (bd_bufferedFragment s) f = (b, full)" by fastforce
  define s1 where "s1 = s\<lparr>bd_bufferedFragment := b\<rparr>"
  have s1: "bidi_ok s1" "\<not> bd_freed s1" "bd_server s1" using assms ready bd_buffer_ok by (simp_all add: s1_def)
  define r where "r full = (if flags_get NEXT (pf_flags f) then
      (case ce_unpack env full of
         Inl ew \<Rightarrow> if bs_isSinkOpen (bd_state s1) then bd_onSinkError env acts ew s1 else (True, s1)
       | Inr p \<Rightarrow> if bs_isSinkOpen (bd_state s1) then bd_onSinkNext env acts p s1 else (True, s1))
      else (True, s1))" for full
  have r: "bidi_passed (r full)" for full
    using bd_onSinkError_ok [OF s1] bd_onSinkNext_ok [OF s1] s1 by (auto simp: r_def bidi_passed_def split: sum.split)
  have "bd_handleFrame_payload env acts acts' f s = (case full of None \<Rightarrow> s1 | Some full \<Rightarrow> (let (alive, s) = r full in
      if flags_get COMPLETE (pf_flags f) \<and> alive \<and> bs_isSinkOpen (bd_state s) then snd (bd_onSinkComplete env acts' s) else s))"
    by (simp only: bd_handleFrame_payload_def ready b prod.case Let_def r_def s1_def simp_thms if_False)
  moreover have "bidi_ok (let (alive, s) = r full in
      if flags_get COMPLETE (pf_flags f) \<and> alive \<and> bs_isSinkOpen (bd_state s) then snd (bd_onSinkComplete env acts' s) else s)" for full
    using r [of full] bd_onSinkComplete_ok by (fastforce simp: bidi_passed_def case_prod_beta)
  ultimately show ?thesis using s1(1) by (simp split: option.split)
qed (use assms in \<open>simp add: bd_handleFrame_payload_def bd_close_ok\<close>)

lemma bd_handleFrame_error_ok:
  assumes "bidi_ok s" and "\<not> bd_freed s"
  shows "bidi_ok (bd_handleFrame_error env acts e s)"
proof (cases "bd_server s")
  case True
  then show ?thesis using assms bd_onSinkError_ok by (auto simp: bd_handleFrame_error_def bidi_passed_def Let_def)
next
  case False
  have "bidi_ok (s\<lparr>bd_state := CancelledEarly\<rparr>)"
    using assms False by (auto simp: bidi_ok_def elim!: bidi_okE bidi_state_ok.elims)
  then show ?thesis using assms False bd_close_ok by (simp add: bd_handleFrame_error_def bs_onCancelEarly_def)
qed

lemma bd_onFirstResponse_ok:
  assumes "bidi_ok s" and "bd_may (FirstResponse p) s" and "bd_state s \<noteq> CancelledEarly" and "\<not> bd_freed (bd_onFirstResponse env acts p s)"
  shows "bidi_ok (bd_onFirstResponse env acts p s)"
proof -
  obtain K where K: "bidi_contract (bd_trace s) = Some K" "bidi_state_ok K s" "frees (bd_trace s) \<le> of_bool (bd_freed s)"
    using assms(1) by (rule bidi_okE)
  then have "K = BiDiAwaiting" using assms(2) by (cases K) (auto simp: bd_may_def contract_run_append)
  define s1 where "s1 = s\<lparr>bd_server := True, bd_trace := bd_trace s @ [Called (FirstResponse p),
      ToConnection (SendPayload (ce_packFirst env (Some (bd_streamId s)) p) True False)], bd_state := StreamAndSinkOpen\<rparr>"
  define s2 where "s2 = (if sint (bd_initialTokens s) > 0 then snd (bd_onStreamRequestN env acts (bd_initialTokens s) s1) else s1)"
  have eq: "bd_onFirstResponse env acts p s = bd_return True s2"
    using K assms(3) \<open>K = BiDiAwaiting\<close> by (simp add: bd_onFirstResponse_def bd_log_def s1_def s2_def Let_def)
  have s1: "bidi_contract (bd_trace s1) = Some (BiDi (Some 0) True)" "bidi_state_ok (BiDi (Some 0) True) s1" "frees (bd_trace s1) = 0"
    using K \<open>K = BiDiAwaiting\<close> by (auto simp: s1_def contract_run_append frees_append)
  have "bidi_ok s2"
  proof (cases "sint (bd_initialTokens s) > 0")
    case True
    have "unat (bd_streamTokens s1) + unat (bd_initialTokens s) < 2 ^ 64"
      using s1(2) less_le_trans [OF unsigned_less [of "bd_initialTokens s"], of "2 ^ 64"] by simp
    then show ?thesis using bd_onStreamRequestN_ok [OF s1 True] True by (simp add: s2_def bidi_passed_def)
  qed (use s1 in \<open>simp add: s2_def bidi_ok_def\<close>)
  moreover have "\<not> bd_freed s2" using assms(4) eq by (simp add: bd_return_def bd_log_def)
  ultimately show ?thesis unfolding eq using bidi_ok_closed_iff
    by (auto simp: bidi_ok_def bd_primitives elim!: bidi_okE bidi_state_ok.elims)
qed

lemma bd_expire_ok:
  assumes "bidi_ok s" and "\<not> bd_freed s" and "bd_server s"
  shows "bidi_ok (bd_expire env [] reason s)"
proof -
  obtain K where K: "bidi_contract (bd_trace s) = Some K" "bidi_state_ok K s" "frees (bd_trace s) \<le> of_bool (bd_freed s)"
    using assms(1) by (rule bidi_okE)
  then show ?thesis using assms(2,3)
    by (cases K rule: bidi_state_ok.cases [of "(K, s)" for K])
      (auto simp: bd_expire_def bd_serverCall_def bidi_ok_def bd_primitives split: if_splits)
qed

lemma bd_cancelSinkTimeout_ok: "bidi_ok s \<Longrightarrow> bidi_ok (bd_cancelSinkTimeout s)"
  by (erule bidi_okE, rename_tac K, case_tac K rule: bidi_state_ok.cases [of "(K, s)" for K]) (auto simp: bidi_ok_def)

lemma bd_timers_ready: "bidi_ok s \<Longrightarrow> bd_timeout s \<or> bd_scheduled s \<Longrightarrow> \<not> bd_freed s \<and> bd_server s"
  by (auto elim!: bidi_okE bidi_state_ok.elims)

lemma bidi_step_ok:
  assumes "bidi_step env s s'" and "bidi_ok s"
  shows "bidi_ok s'"
proof -
  obtain K where K: "bidi_contract (bd_trace s) = Some K" "bidi_state_ok K s" "frees (bd_trace s) \<le> of_bool (bd_freed s)"
    using assms(2) by (rule bidi_okE)
  show ?thesis
    using assms(1)
  proof cases
    case (first_response p acts)
    then show ?thesis using bd_onFirstResponse_ok assms(2) by simp
  next
    case (first_response_cancelled p)
    then have "K = BiDiAwaiting" using K by (cases K) (auto simp: bd_may_def contract_run_append)
    then show ?thesis using K first_response_cancelled by (simp add: bd_onFirstResponse_def bd_serverCall_def bidi_ok_def bd_primitives)
  next
    case (first_error e)
    then have "K = BiDiAwaiting" using K by (cases K) (auto simp: bd_may_def contract_run_append)
    then show ?thesis using K first_error by (cases e) (auto simp: bd_onFirstResponseError_def bidi_ok_def bd_primitives)
  next
    case (configure config)
    then show ?thesis using assms(2) by (auto simp: bd_setCompressionConfig_def bidi_ok_def elim!: bidi_okE bidi_state_ok.elims)
  next
    case (set_timeout milliseconds)
    then show ?thesis using assms(2) by (auto simp: bd_setChunkTimeout_def bidi_ok_def elim!: bidi_okE bidi_state_ok.elims)
  next
    case reset_server
    then have "s' = s" by (cases s) (simp add: bd_resetServerCallback_def)
    then show ?thesis using assms(2) by simp
  next
    case (request_n f acts)
    have "bidi_ok (snd (bd_onStreamRequestN env acts (rn_requestN f) s))" if ready: "bd_server s" "bs_isStreamOpen (bd_state s)"
      by (rule bidi_ok_stream_open [OF assms(2) request_n(2) ready])
        (use bd_onStreamRequestN_ok request_n(3,4) in \<open>auto simp only: bidi_passed_def\<close>)
    then show ?thesis using request_n assms(2) bd_close_ok by (simp add: bd_handleFrame_requestN_def)
  next
    case (cancel acts)
    then show ?thesis using assms(2) bd_close_ok bd_onStreamCancel_ok by (auto simp: bd_handleFrame_cancel_def bidi_passed_def)
  next
    case connection_close
    then show ?thesis using K
      by (cases K rule: bidi_state_ok.cases [of "(K, s)" for K])
        (auto simp: bd_handleConnectionClose_def bd_serverCall_def bidi_ok_def bd_primitives split: if_splits)
  next
    case timeout_expired
    then show ?thesis using bd_timers_ready [OF assms(2)] bd_expire_ok [OF bd_cancelSinkTimeout_ok [OF assms(2)]]
      by (simp add: bd_timeoutExpired_def Let_def)
  next
    case chunk_timeout_expired
    then show ?thesis using bd_timers_ready [OF assms(2)] bd_expire_ok [OF bd_cancelSinkTimeout_ok [OF assms(2)]]
      by (simp add: bd_sinkChunkTimeoutExpired_def Let_def)
  qed (use assms(2) in \<open>simp_all add: bd_act_ok bd_handleFrame_payload_ok bd_handleFrame_error_ok bd_handleFrame_ext_def bd_close_ok\<close>)
qed



text \<open>
  Calls that the contract allows and the code does not reckon with.  A server callback that completes the stream half while it hears that its
  credits timed out has the stream freed by \<open>onStreamComplete\<close> and once more by \<open>timeoutExpired\<close>, which goes on in the destroyed callback; one that closes
  both halves while it is granted the initial credits gets \<open>true\<close> from \<open>onFirstResponse\<close>.
\<close>

theorem inline_calls_break_bidi_contract:
  "let env = plain_env False;
     s = bd_onFirstResponse env [StreamNext [5]] [1] (bd_init 1 1);
     s1 = bd_timeoutExpired env [StreamComplete] s;
     s2 = bd_onFirstResponse env [StreamComplete, SinkCancel] [1] (bd_init 1 1) in
   bd_timeout s \<and> frees (bd_trace s1) = 2 \<and> bd_freed s2 \<and> last (bd_trace s2) = Returned True"
  by code_simp

end
