(* ===== verification/Stream_Requests.thy ===== *)
theory Stream_Requests
  imports Bidi_Callback
begin

text \<open>
  Requests that open a stream, a sink or a bidirectional stream (\<^verbatim>\<open>rocket/server/RocketThriftRequests.cpp\<close>), with the frame context they own
  (\<^verbatim>\<open>RocketServerFrameContext.cpp\<close>) and the client callback they answer through.  A request counts as active until it is marked complete; the
  frame context does so when it is destroyed, unless the request has passed that duty on to the callback, which does so when its stream is freed.
  The three kinds of request have the same code but for the types of their callbacks: the operations take the callback's as
  parameters.  \<open>process\<close> is \<open>processFirstResponse\<close>, which looks into the generated metadata: it may turn any response into an error.
\<close>

section \<open>Requests\<close>

text \<open>\<open>rq_responded\<close> records that the request was answered, \<open>rq_completions\<close> how often its frame context marked it complete.\<close>

record 'c stream_request =
  rq_callback :: 'c
  rq_clientCallback :: bool
  rq_markRequestComplete :: bool
  rq_responded :: bool
  rq_destroyed :: bool
  rq_completions :: nat

definition rq_init :: "'c \<Rightarrow> 'c stream_request" where
  "rq_init callback = \<lparr>rq_callback = callback, rq_clientCallback = True, rq_markRequestComplete = True, rq_responded = False,
     rq_destroyed = False, rq_completions = 0\<rparr>"

definition rq_handleStreamError :: "(first_error \<Rightarrow> 'c \<Rightarrow> 'c) \<Rightarrow> first_error \<Rightarrow> 'c stream_request \<Rightarrow> 'c stream_request" where
  "rq_handleStreamError onFirstResponseError ex r =
    r\<lparr>rq_clientCallback := False, rq_callback := onFirstResponseError ex (rq_callback r), rq_responded := True\<rparr>"

definition rq_sendSerializedError ::
    "(bytes \<Rightarrow> (u32 \<times> bytes) + bytes) \<Rightarrow> (first_error \<Rightarrow> 'c \<Rightarrow> 'c) \<Rightarrow> bytes \<Rightarrow> 'c stream_request \<Rightarrow> 'c stream_request" where
  "rq_sendSerializedError process onFirstResponseError exbuf r = (case process exbuf of
     Inl (code, what) \<Rightarrow> rq_handleStreamError onFirstResponseError (FirstRocketError code what) r
   | Inr encoded \<Rightarrow> rq_handleStreamError onFirstResponseError (FirstEncodedError encoded) r)"

text \<open>\<open>unsetMarkRequestComplete\<close>, and the first response, which the callback or a factory of the server sends.\<close>

definition rq_respond :: "(bytes \<Rightarrow> 'c \<Rightarrow> 'c) \<Rightarrow> bytes \<Rightarrow> 'c stream_request \<Rightarrow> 'c stream_request" where
  "rq_respond onFirstResponse payload r =
    r\<lparr>rq_markRequestComplete := False, rq_callback := onFirstResponse payload (rq_callback r), rq_responded := True\<rparr>"

definition rq_sendStreamThriftResponse ::
    "(bytes \<Rightarrow> (u32 \<times> bytes) + bytes) \<Rightarrow> (first_error \<Rightarrow> 'c \<Rightarrow> 'c) \<Rightarrow> (bytes \<Rightarrow> 'c \<Rightarrow> 'c) \<Rightarrow> bool \<Rightarrow> bool \<Rightarrow> bytes \<Rightarrow> 'c stream_request \<Rightarrow> 'c stream_request" where
  "rq_sendStreamThriftResponse process onFirstResponseError onFirstResponse hasStream isResponsePreCompressed payload r =
    (if \<not> hasStream then rq_sendSerializedError process onFirstResponseError payload r
     else if isResponsePreCompressed then rq_respond onFirstResponse payload r
     else case process payload of
       Inl (code, what) \<Rightarrow> rq_handleStreamError onFirstResponseError (FirstRocketError code what) r
     | Inr payload \<Rightarrow> rq_respond onFirstResponse payload r)"

text \<open>The request goes, and its frame context with it.\<close>

definition rq_destroy :: "'c stream_request \<Rightarrow> 'c stream_request" where
  "rq_destroy r = r\<lparr>rq_destroyed := True, rq_completions := rq_completions r + (if rq_markRequestComplete r then 1 else 0)\<rparr>"

section \<open>Completions\<close>

text \<open>
  A stream that is freed is marked complete when \<open>freeStream\<close> is asked to; a stream that goes with its connection is marked complete by the connection.
\<close>

abbreviation unmarked :: "callback_event list \<Rightarrow> nat" where
  "unmarked trace \<equiv> count_list trace (ToConnection (FreeStream False))"

abbreviation marked :: "callback_event list \<Rightarrow> nat" where
  "marked trace \<equiv> count_list trace (ToConnection (FreeStream True))"

definition completions :: "callback_event list \<Rightarrow> bool \<Rightarrow> nat" where
  "completions trace gone = marked trace + of_bool (gone \<and> frees trace = 0)"

lemma frees_split: "frees trace = marked trace + unmarked trace"
proof (induction trace)
  case (Cons e trace)
  then show ?case by (cases "\<exists>b. e = ToConnection (FreeStream b)") (auto simp: frees_def split: callback_event.splits connection_call.splits)
qed simp

text \<open>
  The steps of a request and its callback.  A request is answered once, and destroyed after that.  \<open>step\<close> are the steps of the callback other than
  a first response error; until the request is answered, its callback makes no step that leaves it without \<open>awaiting\<close> its first response.
\<close>

inductive request_step ::
    "(first_error \<Rightarrow> 'c \<Rightarrow> 'c) \<Rightarrow> ('c \<Rightarrow> 'c \<Rightarrow> bool) \<Rightarrow> ('c \<Rightarrow> bool) \<Rightarrow> 'c stream_request \<Rightarrow> 'c stream_request \<Rightarrow> bool"
  for onError step awaiting where
  error_reply: "\<not> rq_responded r \<Longrightarrow> request_step onError step awaiting r (rq_sendSerializedError process onError exbuf r)"
| response: "\<not> rq_responded r \<Longrightarrow> (\<And>p. step\<^sup>=\<^sup>= (rq_callback r) (onFirst p (rq_callback r))) \<Longrightarrow>
    request_step onError step awaiting r (rq_sendStreamThriftResponse process onError onFirst hasStream preCompressed payload r)"
| callback: "step (rq_callback r) c \<Longrightarrow> (\<not> rq_responded r \<Longrightarrow> awaiting c) \<Longrightarrow> request_step onError step awaiting r (r\<lparr>rq_callback := c\<rparr>)"
| destroy: "rq_responded r \<Longrightarrow> \<not> rq_destroyed r \<Longrightarrow> request_step onError step awaiting r (rq_destroy r)"

section \<open>What a request relies on\<close>

text \<open>
  The interface of a client callback: its invariant, that a first response error frees the stream without marking the request complete, and that no other
  step does.
\<close>

locale request_callback =
  fixes trace :: "'c \<Rightarrow> callback_event list" and gone :: "'c \<Rightarrow> bool" and ok :: "'c \<Rightarrow> bool" and awaiting :: "'c \<Rightarrow> bool"
    and step :: "'c \<Rightarrow> 'c \<Rightarrow> bool" and onError :: "first_error \<Rightarrow> 'c \<Rightarrow> 'c"
  assumes ok_frees: "ok c \<Longrightarrow> frees (trace c) \<le> of_bool (gone c)"
    and awaiting_alive: "ok c \<Longrightarrow> awaiting c \<Longrightarrow> \<not> gone c"
    and step_ok: "step c c' \<Longrightarrow> ok c \<Longrightarrow> ok c'"
    and step_unmarked: "step c c' \<Longrightarrow> unmarked (trace c') = unmarked (trace c)"
    and step_gone: "step c c' \<Longrightarrow> ok c \<Longrightarrow> gone c \<Longrightarrow> gone c'"
    and error_ok: "ok c \<Longrightarrow> awaiting c \<Longrightarrow> ok (onError e c) \<and> gone (onError e c)"
    and error_unmarked: "unmarked (trace (onError e c)) = Suc (unmarked (trace c))"
begin

definition request_ok :: "'c stream_request \<Rightarrow> bool" where
  "request_ok r \<longleftrightarrow> ok (rq_callback r) \<and> rq_completions r = of_bool (rq_destroyed r \<and> rq_markRequestComplete r) \<and>
    (if \<not> rq_responded r then awaiting (rq_callback r) \<and> unmarked (trace (rq_callback r)) = 0 \<and> rq_markRequestComplete r \<and> \<not> rq_destroyed r
     else if rq_markRequestComplete r then gone (rq_callback r) \<and> unmarked (trace (rq_callback r)) = 1
     else unmarked (trace (rq_callback r)) = 0)"

lemma handleStreamError_ok: "request_ok r \<Longrightarrow> \<not> rq_responded r \<Longrightarrow> request_ok (rq_handleStreamError onError ex r)"
  using error_ok error_unmarked by (simp add: request_ok_def rq_handleStreamError_def)

lemma respond_ok: "request_ok r \<Longrightarrow> \<not> rq_responded r \<Longrightarrow> (\<And>p. step\<^sup>=\<^sup>= (rq_callback r) (onFirst p (rq_callback r))) \<Longrightarrow>
    request_ok (rq_respond onFirst payload r)"
  using step_ok [of "rq_callback r" "onFirst payload (rq_callback r)"] step_unmarked [of "rq_callback r" "onFirst payload (rq_callback r)"]
  by (force simp: request_ok_def rq_respond_def)

lemma request_step_ok: "request_step onError step awaiting r r' \<Longrightarrow> request_ok r \<Longrightarrow> request_ok r'"
proof (induction rule: request_step.induct)
  case (error_reply r process exbuf)
  then show ?case using handleStreamError_ok by (auto simp: rq_sendSerializedError_def split: sum.split)
next
  case (response r onFirst process hasStream preCompressed payload)
  then show ?case using handleStreamError_ok respond_ok [where onFirst = onFirst, OF response(3,1)] response(2)
    by (auto simp: rq_sendStreamThriftResponse_def rq_sendSerializedError_def split: sum.split)
next
  case (callback r c)
  then show ?case using step_ok step_unmarked step_gone by (auto simp: request_ok_def split: if_splits)
qed (auto simp: request_ok_def rq_destroy_def)

lemma completed_once:
  assumes "request_ok r"
  shows "rq_completions r + completions (trace (rq_callback r)) (gone (rq_callback r)) \<le> 1"
    "rq_destroyed r \<Longrightarrow> gone (rq_callback r) \<Longrightarrow> rq_completions r + completions (trace (rq_callback r)) (gone (rq_callback r)) = 1"
proof -
  have ok: "ok (rq_callback r)" using assms by (simp add: request_ok_def)
  show "rq_completions r + completions (trace (rq_callback r)) (gone (rq_callback r)) \<le> 1"
    "rq_destroyed r \<Longrightarrow> gone (rq_callback r) \<Longrightarrow> rq_completions r + completions (trace (rq_callback r)) (gone (rq_callback r)) = 1"
    using assms ok_frees [OF ok] awaiting_alive [OF ok] unfolding frees_split completions_def request_ok_def
    by (cases "gone (rq_callback r)"; auto split: if_splits)+
qed

end

section \<open>Streams\<close>

definition stream_callback_step :: "callback_env \<Rightarrow> stream_callback \<Rightarrow> stream_callback \<Rightarrow> bool" where
  "stream_callback_step env s s' \<longleftrightarrow> serializes env \<and> stream_step env s s' \<and> (\<forall>e. s' \<noteq> sc_onFirstResponseError env e s)"

definition stream_awaiting :: "stream_callback \<Rightarrow> bool" where
  "stream_awaiting s \<longleftrightarrow> stream_contract (sc_trace s) = Some AwaitingFirst"

lemma sc_act_unmarked: "unmarked (sc_trace (sc_act env a s)) = unmarked (sc_trace s)"
  by (cases a) (auto simp: sc_onStreamNext_def sc_onStreamError_def sc_onStreamComplete_def sc_onStreamHeaders_def sc_useToken_def sc_sendStreamError_def
      sc_log_def sc_return_def sc_sendError_def sc_freeStream_def Let_def split: stream_error.split)

lemma sc_acts_unmarked [simp]: "unmarked (sc_trace (sc_acts env acts s)) = unmarked (sc_trace s)"
  by (induction acts arbitrary: s) (auto simp: sc_act_unmarked)

lemma stream_step_unmarked:
  assumes "stream_callback_step env s s'"
  shows "unmarked (sc_trace s') = unmarked (sc_trace s)"
proof -
  have "stream_step env s s'" using assms by (simp add: stream_callback_step_def)
  then show ?thesis
  proof cases
    case (first_error e)
    then show ?thesis using assms by (auto simp: stream_callback_step_def)
  next
    case (first_response p paused acts)
    then show ?thesis
      by (auto simp: sc_onFirstResponse_def sc_serverRequestN_def sc_useToken_def sc_handlePausedByConnection_def sc_log_def sc_return_def sc_sendError_def
          sc_freeStream_def Let_def split: sum.split prod.split)
  qed (auto simp: sc_act_unmarked sc_resetServerCallback_def sc_handlePausedByConnection_def sc_handleResumedByConnection_def sc_handleFrame_requestN_def
      sc_handle_requestN_def sc_serverRequestN_def sc_handleFrame_cancel_def sc_handleFrame_payload_def sc_handleFrame_error_def sc_handleFrame_ext_def
      sc_handleStreamHeadersPush_def sc_handleConnectionClose_def sc_timeoutExpired_def sc_messageSent_def sc_setCompressionConfig_def sc_sendStreamError_def sc_sendError_def
      sc_close_def sc_log_def sc_freeStream_def Let_def)
qed

lemma stream_terminated_step:
  assumes "stream_step env s s'" and "stream_ok s" and "sc_freed s"
  shows "sc_freed s'"
proof -
  have "stream_contract (sc_trace s) = Some Terminated" using assms(2,3) by (auto elim!: stream_okE stream_state.elims)
  then have may: "\<not> sc_may a s" for a by (cases a) (auto simp: sc_may_def contract_run_append)
  have "\<not> sc_timeout s" using assms(2,3) by (auto elim!: stream_okE stream_state.elims)
  with assms(1) show ?thesis by cases (use may assms(3) in \<open>auto simp: sc_messageSent_def\<close>)
qed

interpretation stream_rq: request_callback sc_trace sc_freed stream_ok stream_awaiting "stream_callback_step env" "sc_onFirstResponseError env"
proof unfold_locales
  fix c c' :: stream_callback and e
  show "stream_ok c \<Longrightarrow> frees (sc_trace c) \<le> of_bool (sc_freed c)" by (simp add: stream_ok_def)
  show "stream_ok c \<Longrightarrow> stream_awaiting c \<Longrightarrow> \<not> sc_freed c" by (auto simp: stream_awaiting_def elim!: stream_okE)
  show "stream_callback_step env c c' \<Longrightarrow> stream_ok c \<Longrightarrow> stream_ok c'" by (auto simp: stream_callback_step_def intro: stream_step_ok)
  show "stream_callback_step env c c' \<Longrightarrow> unmarked (sc_trace c') = unmarked (sc_trace c)" by (rule stream_step_unmarked)
  show "stream_callback_step env c c' \<Longrightarrow> stream_ok c \<Longrightarrow> sc_freed c \<Longrightarrow> sc_freed c'"
    by (auto simp: stream_callback_step_def intro: stream_terminated_step)
  show "stream_ok c \<Longrightarrow> stream_awaiting c \<Longrightarrow> stream_ok (sc_onFirstResponseError env e c) \<and> sc_freed (sc_onFirstResponseError env e c)"
    by (cases e) (auto simp: stream_awaiting_def sc_onFirstResponseError_def stream_ok_def sc_primitives)
  show "unmarked (sc_trace (sc_onFirstResponseError env e c)) = Suc (unmarked (sc_trace c))"
    by (cases e) (auto simp: sc_onFirstResponseError_def sc_log_def sc_sendError_def sc_freeStream_def Let_def)
qed

text \<open>
  C12: a request for a stream is marked complete exactly once.  However it is answered, with a stream or with an error, whatever happens to the stream, and
  in whichever order the request is destroyed and the stream goes: the frame context, the freed stream and the closed connection together mark it complete at
  most once, and have done so when both are gone.
\<close>

theorem stream_request_completed_once:
  assumes "(request_step (sc_onFirstResponseError env) (stream_callback_step env) stream_awaiting)\<^sup>*\<^sup>*
      (rq_init (sc_init streamId initialRequestN)) r" and "0 < sint initialRequestN"
  shows "rq_completions r + completions (sc_trace (rq_callback r)) (sc_freed (rq_callback r)) \<le> 1 \<and>
    (rq_destroyed r \<and> sc_freed (rq_callback r) \<longrightarrow> rq_completions r + completions (sc_trace (rq_callback r)) (sc_freed (rq_callback r)) = 1)"
proof -
  have "stream_ok (sc_init streamId initialRequestN)" using assms(2) by (rule sc_init_ok)
  then have "stream_rq.request_ok (rq_init (sc_init streamId initialRequestN))"
    by (simp add: stream_rq.request_ok_def rq_init_def stream_awaiting_def sc_init_def)
  with assms(1) have "stream_rq.request_ok r" by (induction rule: rtranclp_induct) (auto intro: stream_rq.request_step_ok)
  then show ?thesis using stream_rq.completed_once [of r] by blast
qed

text \<open>A request that is answered with an error, and destroyed.\<close>

theorem stream_request_completed_once_witness:
  "\<exists>r. (request_step (sc_onFirstResponseError (plain_env False)) (stream_callback_step (plain_env False)) stream_awaiting)\<^sup>*\<^sup>*
      (rq_init (sc_init 1 3)) r \<and> rq_destroyed r \<and> sc_freed (rq_callback r) \<and>
    rq_completions r + completions (sc_trace (rq_callback r)) (sc_freed (rq_callback r)) = 1"
proof -
  let ?e = "plain_env False"
  let ?step = "request_step (sc_onFirstResponseError ?e) (stream_callback_step ?e) stream_awaiting"
  define r1 where "r1 = rq_sendSerializedError Inr (sc_onFirstResponseError ?e) [4] (rq_init (sc_init 1 3))"
  define r2 where "r2 = rq_destroy r1"
  have facts: "\<not> rq_responded (rq_init (sc_init 1 3))" "rq_responded r1" "\<not> rq_destroyed r1" "rq_destroyed r2" "sc_freed (rq_callback r2)"
    unfolding r2_def r1_def by code_simp+
  have "?step (rq_init (sc_init 1 3)) r1" unfolding r1_def by (rule request_step.error_reply [OF facts(1)])
  moreover have "?step r1 r2" unfolding r2_def by (rule request_step.destroy [OF facts(2,3)])
  ultimately have run: "?step\<^sup>*\<^sup>* (rq_init (sc_init 1 3)) r2" by (rule two_steps)
  show ?thesis using stream_request_completed_once [OF run] run facts(4,5) by auto
qed

section \<open>Sinks\<close>

definition sink_callback_step :: "callback_env \<Rightarrow> sink_callback \<Rightarrow> sink_callback \<Rightarrow> bool" where
  "sink_callback_step env s s' \<longleftrightarrow> sink_step env s s' \<and> (\<forall>e. s' \<noteq> sk_onFirstResponseError env e s)"

definition sink_awaiting :: "sink_callback \<Rightarrow> bool" where
  "sink_awaiting s \<longleftrightarrow> sink_contract (sk_trace s) = Some SinkAwaiting"

lemma sk_act_unmarked: "unmarked (sk_trace (sk_act env a s)) = unmarked (sk_trace s)"
  by (cases a) (auto simp: sk_onSinkRequestN_def sk_onFinalResponse_def sk_onFinalResponseError_def sk_sendFinalError_def sk_finish_def
      sk_log_def sk_return_def sk_freeStream_def Let_def split: stream_error.split)

lemma sk_acts_unmarked [simp]: "unmarked (sk_trace (sk_acts env acts s)) = unmarked (sk_trace s)"
  by (induction acts arbitrary: s) (auto simp: sk_act_unmarked)

lemma sk_passed_unmarked [simp]:
  "unmarked (sk_trace (snd (sk_onSinkNext env acts p s))) = unmarked (sk_trace s)"
  "unmarked (sk_trace (snd (sk_onSinkError ew s))) = unmarked (sk_trace s)"
  "unmarked (sk_trace (snd (sk_onSinkComplete env acts s))) = unmarked (sk_trace s)"
  by (auto simp: sk_onSinkNext_def sk_onSinkError_def sk_onSinkComplete_def sk_log_def Let_def)

lemma sk_log_unmarked [simp]: "unmarked (sk_trace (sk_close reason s)) = unmarked (sk_trace s)" "unmarked (sk_trace (sk_freeStream True s)) = unmarked (sk_trace s)"
  by (simp_all add: sk_close_def sk_log_def sk_freeStream_def)

lemma sk_handleFrame_payload_unmarked: "unmarked (sk_trace (sk_handleFrame_payload env acts acts' f s)) = unmarked (sk_trace s)"
  by (auto simp: sk_handleFrame_payload_def Let_def case_prod_beta split: option.split sum.split)

lemma sink_step_unmarked:
  assumes "sink_callback_step env s s'"
  shows "unmarked (sk_trace s') = unmarked (sk_trace s)"
proof -
  have "sink_step env s s'" using assms by (simp add: sink_callback_step_def)
  then show ?thesis
  proof cases
    case (first_error e)
    then show ?thesis using assms by (auto simp: sink_callback_step_def)
  next
    case timeout_expired
    have "unmarked (sk_trace (sk_sendFinalError env ew c)) = unmarked (sk_trace c)" for ew c
      by (auto simp: sk_sendFinalError_def sk_finish_def sk_log_def sk_freeStream_def Let_def split: stream_error.split)
    then show ?thesis using timeout_expired by (simp add: sk_timeoutExpired_def)
  qed (auto simp: sk_act_unmarked sk_handleFrame_payload_unmarked sk_onFirstResponse_def sk_setCompressionConfig_def sk_setChunkTimeout_def sk_resetServerCallback_def sk_handleFrame_error_def
      sk_handleFrame_other_def sk_handleConnectionClose_def sk_log_def sk_return_def Let_def case_prod_beta)
qed

lemma sink_terminated_step:
  assumes "sink_step env s s'" and "sink_ok s" and "sk_freed s"
  shows "sk_freed s'"
proof -
  have "sink_contract (sk_trace s) = Some SinkDone" "\<not> sk_scheduled s" using assms(2,3) by (auto elim!: sink_okE sink_state_ok.elims)
  then have may: "\<not> sk_may a s" and "\<not> sk_scheduled s" for a by (cases a; auto simp: sk_may_def contract_run_append)+
  with assms(1) show ?thesis by cases (use assms(3) in auto)
qed

interpretation sink_rq: request_callback sk_trace sk_freed sink_ok sink_awaiting "sink_callback_step env" "sk_onFirstResponseError env"
proof unfold_locales
  fix c c' :: sink_callback and e
  show "sink_ok c \<Longrightarrow> frees (sk_trace c) \<le> of_bool (sk_freed c)" by (simp add: sink_ok_def)
  show "sink_ok c \<Longrightarrow> sink_awaiting c \<Longrightarrow> \<not> sk_freed c" by (auto simp: sink_awaiting_def elim!: sink_okE)
  show "sink_callback_step env c c' \<Longrightarrow> sink_ok c \<Longrightarrow> sink_ok c'" by (auto simp: sink_callback_step_def intro: sink_step_ok)
  show "sink_callback_step env c c' \<Longrightarrow> unmarked (sk_trace c') = unmarked (sk_trace c)" by (rule sink_step_unmarked)
  show "sink_callback_step env c c' \<Longrightarrow> sink_ok c \<Longrightarrow> sk_freed c \<Longrightarrow> sk_freed c'"
    by (auto simp: sink_callback_step_def intro: sink_terminated_step)
  show "sink_ok c \<Longrightarrow> sink_awaiting c \<Longrightarrow> sink_ok (sk_onFirstResponseError env e c) \<and> sk_freed (sk_onFirstResponseError env e c)"
    by (cases e) (auto simp: sink_awaiting_def sk_onFirstResponseError_def sink_ok_def sk_primitives)
  show "unmarked (sk_trace (sk_onFirstResponseError env e c)) = Suc (unmarked (sk_trace c))"
    by (cases e) (auto simp: sk_onFirstResponseError_def sk_log_def sk_freeStream_def Let_def)
qed

text \<open>
  C13: a request for a sink is marked complete exactly once, like one for a stream: at most once at any time, and once when the request and its sink are gone.
\<close>

theorem sink_request_completed_once:
  assumes "(request_step (sk_onFirstResponseError env) (sink_callback_step env) sink_awaiting)\<^sup>*\<^sup>*
      (rq_init (sk_init streamId)) r"
  shows "rq_completions r + completions (sk_trace (rq_callback r)) (sk_freed (rq_callback r)) \<le> 1 \<and>
    (rq_destroyed r \<and> sk_freed (rq_callback r) \<longrightarrow> rq_completions r + completions (sk_trace (rq_callback r)) (sk_freed (rq_callback r)) = 1)"
proof -
  have "sink_ok (sk_init streamId)" by (rule sk_init_ok)
  then have "sink_rq.request_ok (rq_init (sk_init streamId))"
    by (simp add: sink_rq.request_ok_def rq_init_def sink_awaiting_def sk_init_def)
  with assms have "sink_rq.request_ok r" by (induction rule: rtranclp_induct) (auto intro: sink_rq.request_step_ok)
  then show ?thesis using sink_rq.completed_once [of r] by blast
qed

text \<open>A request that is answered with a sink, which the client gives up, and destroyed.\<close>

theorem sink_request_completed_once_witness:
  "\<exists>r. (request_step (sk_onFirstResponseError (plain_env False)) (sink_callback_step (plain_env False)) sink_awaiting)\<^sup>*\<^sup>*
      (rq_init (sk_init 1)) r \<and> rq_destroyed r \<and> sk_freed (rq_callback r) \<and>
    rq_completions r + completions (sk_trace (rq_callback r)) (sk_freed (rq_callback r)) = 1"
proof -
  let ?e = "plain_env False"
  let ?step = "request_step (sk_onFirstResponseError ?e) (sink_callback_step ?e) sink_awaiting"
  let ?r = "rq_init (sk_init 1)"
  define r1 where "r1 = rq_sendStreamThriftResponse Inr (sk_onFirstResponseError ?e) (sk_onFirstResponse ?e) True False [4] ?r"
  define c where "c = sk_handleFrame_error \<lparr>ef_streamId = 1, ef_errorCode = ERR_CANCELED, ef_payload = makeFromData []\<rparr> (rq_callback r1)"
  define r2 where "r2 = r1\<lparr>rq_callback := c\<rparr>"
  define r3 where "r3 = rq_destroy r2"
  have facts: "\<not> rq_responded ?r" "rq_responded r1" "\<not> sk_freed (rq_callback r1)" "rq_responded r2" "\<not> rq_destroyed r2" "rq_destroyed r3"
    "sk_freed (rq_callback r3)" "length (sk_trace c) \<noteq> 0"
    unfolding r3_def r2_def c_def r1_def by code_simp+
  have first: "sink_callback_step ?e (rq_callback ?r) (sk_onFirstResponse ?e p (rq_callback ?r))" for p
  proof -
    have "sk_may (FirstResponse p) (rq_callback ?r)" by (simp add: sk_may_def rq_init_def sk_init_def)
    moreover have "sk_onFirstResponse ?e p (rq_callback ?r) \<noteq> sk_onFirstResponseError ?e e (rq_callback ?r)" for e
    proof
      assume "sk_onFirstResponse ?e p (rq_callback ?r) = sk_onFirstResponseError ?e e (rq_callback ?r)"
      then have "sk_freed (sk_onFirstResponse ?e p (rq_callback ?r)) = sk_freed (sk_onFirstResponseError ?e e (rq_callback ?r))" by simp
      then show False by (simp add: sk_onFirstResponse_def sk_onFirstResponseError_def rq_init_def sk_init_def sk_log_def sk_return_def sk_freeStream_def Let_def)
    qed
    ultimately show ?thesis by (auto simp: sink_callback_step_def intro: sink_step.first_response)
  qed
  have "?step ?r r1" unfolding r1_def by (rule request_step.response [OF facts(1)]) (use first in blast)
  moreover have "sink_callback_step ?e (rq_callback r1) c"
    unfolding sink_callback_step_def
  proof
    show "sink_step ?e (rq_callback r1) c" unfolding c_def by (rule sink_step.error_frame [OF facts(3)])
    have "unmarked (sk_trace c) = 0" unfolding c_def r1_def by code_simp
    then show "\<forall>e. c \<noteq> sk_onFirstResponseError ?e e (rq_callback r1)" using sink_rq.error_unmarked by (metis nat.distinct(1))
  qed
  then have "?step r1 r2" unfolding r2_def by (rule request_step.callback) (use facts(2) in blast)
  ultimately have "?step\<^sup>*\<^sup>* ?r r2" by (rule two_steps)
  moreover have "?step r2 r3" unfolding r3_def by (rule request_step.destroy [OF facts(4,5)])
  ultimately have run: "?step\<^sup>*\<^sup>* ?r r3" by (rule rtranclp.rtrancl_into_rtrancl)
  show ?thesis using sink_request_completed_once [OF run] run facts(6,7) by auto
qed

section \<open>Bidirectional streams\<close>

text \<open>
  A request for a bidirectional stream that is answered with an error is marked complete twice.  \<open>RocketBiDiClientCallback::onFirstResponseError\<close> frees the stream
  with \<open>markRequestComplete\<close> set, where those for streams and sinks leave this to the request, whose frame context still has the duty: the server
  counts one active request too few.
\<close>

theorem bidi_error_completes_twice:
  "let env = plain_env False;
     r = rq_destroy (rq_sendSerializedError Inr (bd_onFirstResponseError env) [4] (rq_init (bd_init 1 3))) in
   rq_destroyed r \<and> bd_freed (rq_callback r) \<and> rq_completions r + completions (bd_trace (rq_callback r)) (bd_freed (rq_callback r)) = 2"
  by code_simp

end
