(* ===== verification/Atomic_Queue.thy ===== *)
theory Atomic_Queue
  imports Prelude
begin

unbundle bit_operations_syntax

text \<open>
  The lock-free queue of \<^verbatim>\<open>lib/cpp2/async/TwoWayBridge.h\<close>, which any number of threads push to and one thread empties or closes,
  and the list with a tail pointer of the same file.  Nodes live in a heap of 64-bit addresses; an address that is freed may be used again at once.  The word
  \<open>storage\<close> holds the address of the node that was pushed last, with the kind of the word in its two lowest bits.  Each operation is cut
  at its accesses to shared memory, and the threads' steps interleave in any order; a weak compare-and-exchange may fail for no reason.

  \<open>Queue\<close>, the singly linked list of folly, is not part of this repository: its \<open>fromReversed\<close>, which turns the nodes around, is a
  parameter.
\<close>

section \<open>AtomicQueueOrPtr\<close>

type_synonym 'm heap = "u64 \<Rightarrow> ('m \<times> u64) option"

abbreviation kTypeMask :: u64 where "kTypeMask \<equiv> 3"
abbreviation kPointerMask :: u64 where "kPointerMask \<equiv> NOT 3"
abbreviation EMPTY :: u64 where "EMPTY \<equiv> 0"
abbreviation TAIL :: u64 where "TAIL \<equiv> 1"
abbreviation CLOSED :: u64 where "CLOSED \<equiv> 2"

definition storage_type :: "u64 \<Rightarrow> u64" where
  "storage_type storage = storage AND kTypeMask"

definition storage_ptr :: "u64 \<Rightarrow> u64" where
  "storage_ptr storage = storage AND kPointerMask"

text \<open>Where a thread is in \<open>pushOrGetClosedPayload\<close>: before the load, at the top of the loop, or before the compare-and-exchange, with the address of
  its node and the value of \<open>storage\<close> it has read; and where the consumer is in \<open>closeOrGetMessages\<close>.\<close>

datatype 'm producer = Idle | Loading 'm | Linking u64 u64 | Swapping u64 u64
datatype consumer = Resting | Exchanging | Closing u64

text \<open>What the operations return, with the messages they pass on, in the order of the accesses that decide it.\<close>

datatype ('m, 'v) queue_event = Pushed nat 'm | PushFailed nat 'm "'v option" | Messages "'m list" | ClosedWith "'v option"

record ('m, 'v) atomic_queue =
  aq_storage :: u64
  aq_closedPayload :: "'v option"
  aq_heap :: "'m heap"
  aq_producers :: "nat \<Rightarrow> 'm producer"
  aq_consumer :: consumer
  aq_log :: "('m, 'v) queue_event list"

definition aq_init :: "('m, 'v) atomic_queue" where
  "aq_init = \<lparr>aq_storage = EMPTY, aq_closedPayload = None, aq_heap = Map.empty, aq_producers = \<lambda>_. Idle, aq_consumer = Resting, aq_log = []\<rparr>"

definition aq_isClosed :: "('m, 'v) atomic_queue \<Rightarrow> bool" where
  "aq_isClosed q \<longleftrightarrow> storage_type (aq_storage q) = CLOSED"

text \<open>\<open>pushOrGetClosedPayload\<close>: the load, with the node allocated at \<open>node\<close> unless the queue is closed; the switch of the loop; the compare-and-exchange.\<close>

definition push_load :: "nat \<Rightarrow> 'm \<Rightarrow> u64 \<Rightarrow> ('m, 'v) atomic_queue \<Rightarrow> ('m, 'v) atomic_queue" where
  "push_load t message node q = (let storage = aq_storage q in
     if storage_type storage = CLOSED
     then q\<lparr>aq_producers := (aq_producers q)(t := Idle), aq_log := aq_log q @ [PushFailed t message (aq_closedPayload q)]\<rparr>
     else q\<lparr>aq_heap := (aq_heap q)(node \<mapsto> (message, 0)), aq_producers := (aq_producers q)(t := Linking node storage)\<rparr>)"

definition push_link :: "nat \<Rightarrow> u64 \<Rightarrow> u64 \<Rightarrow> ('m, 'v) atomic_queue \<Rightarrow> ('m, 'v) atomic_queue" where
  "push_link t node storage q = (let message = fst (the (aq_heap q node)) in
     if storage_type storage = CLOSED
     then q\<lparr>aq_heap := (aq_heap q)(node := None), aq_producers := (aq_producers q)(t := Idle),
        aq_log := aq_log q @ [PushFailed t message (aq_closedPayload q)]\<rparr>
     else q\<lparr>aq_heap := (aq_heap q)(node \<mapsto> (message, storage_ptr storage)), aq_producers := (aq_producers q)(t := Swapping node storage)\<rparr>)"

definition push_swap :: "bool \<Rightarrow> nat \<Rightarrow> u64 \<Rightarrow> u64 \<Rightarrow> ('m, 'v) atomic_queue \<Rightarrow> ('m, 'v) atomic_queue" where
  "push_swap spurious t node storage q =
    (if aq_storage q = storage \<and> \<not> spurious
     then q\<lparr>aq_storage := node OR TAIL, aq_producers := (aq_producers q)(t := Idle),
        aq_log := aq_log q @ [Pushed t (fst (the (aq_heap q node)))]\<rparr>
     else q\<lparr>aq_producers := (aq_producers q)(t := Linking node (aq_storage q))\<rparr>)"

text \<open>\<open>closeOrGetMessages\<close>: the call, the exchange, and the compare-and-exchange that closes the queue.  The nodes of the messages are freed
  at once, which leaves the most addresses for others to use.\<close>

definition close_call :: "'v \<Rightarrow> ('m, 'v) atomic_queue \<Rightarrow> ('m, 'v) atomic_queue" where
  "close_call payload q = q\<lparr>aq_closedPayload := Some payload, aq_consumer := Exchanging\<rparr>"

definition close_exchange :: "('m heap \<Rightarrow> u64 \<Rightarrow> (u64 \<times> 'm) list) \<Rightarrow> ('m, 'v) atomic_queue \<Rightarrow> ('m, 'v) atomic_queue" where
  "close_exchange fromReversed q = (let storage = aq_storage q; heap = aq_heap q; q = q\<lparr>aq_storage := EMPTY\<rparr> in
     if storage_type storage = TAIL
     then let queue = fromReversed heap (storage_ptr storage) in
       q\<lparr>aq_heap := (\<lambda>a. if a \<in> fst ` set queue then None else heap a), aq_consumer := Resting, aq_log := aq_log q @ [Messages (map snd queue)]\<rparr>
     else q\<lparr>aq_consumer := Closing storage\<rparr>)"

definition close_swap :: "bool \<Rightarrow> u64 \<Rightarrow> ('m, 'v) atomic_queue \<Rightarrow> ('m, 'v) atomic_queue" where
  "close_swap spurious storage q =
    (if aq_storage q = storage \<and> \<not> spurious
     then q\<lparr>aq_storage := CLOSED, aq_consumer := Resting, aq_log := aq_log q @ [ClosedWith (aq_closedPayload q)]\<rparr>
     else q\<lparr>aq_consumer := Exchanging\<rparr>)"

definition aq_destroy :: "('m heap \<Rightarrow> u64 \<Rightarrow> (u64 \<times> 'm) list) \<Rightarrow> ('m, 'v) atomic_queue \<Rightarrow> 'm heap" where
  "aq_destroy fromReversed q =
    (if storage_type (aq_storage q) = TAIL
     then let queue = fromReversed (aq_heap q) (storage_ptr (aq_storage q)) in (\<lambda>a. if a \<in> fst ` set queue then None else aq_heap q a)
     else aq_heap q)"

text \<open>
  Steps of the threads.  The allocator returns an address that is not in use, not null and aligned to four bytes, as the code asserts.  Only one thread
  calls \<open>closeOrGetMessages\<close>, and not after it has closed the queue.
\<close>

inductive queue_step :: "('m heap \<Rightarrow> u64 \<Rightarrow> (u64 \<times> 'm) list) \<Rightarrow> ('m, 'v) atomic_queue \<Rightarrow> ('m, 'v) atomic_queue \<Rightarrow> bool"
  for fromReversed where
  push_call: "aq_producers q t = Idle \<Longrightarrow> queue_step fromReversed q (q\<lparr>aq_producers := (aq_producers q)(t := Loading m)\<rparr>)"
| push_load: "aq_producers q t = Loading m \<Longrightarrow> aq_heap q node = None \<Longrightarrow> node \<noteq> 0 \<Longrightarrow> node AND kTypeMask = 0 \<Longrightarrow>
    queue_step fromReversed q (push_load t m node q)"
| push_link: "aq_producers q t = Linking node storage \<Longrightarrow> queue_step fromReversed q (push_link t node storage q)"
| push_swap: "aq_producers q t = Swapping node storage \<Longrightarrow> queue_step fromReversed q (push_swap spurious t node storage q)"
| close_call: "aq_consumer q = Resting \<Longrightarrow> \<not> aq_isClosed q \<Longrightarrow> queue_step fromReversed q (close_call payload q)"
| close_exchange: "aq_consumer q = Exchanging \<Longrightarrow> queue_step fromReversed q (close_exchange fromReversed q)"
| close_swap: "aq_consumer q = Closing storage \<Longrightarrow> queue_step fromReversed q (close_swap spurious storage q)"

section \<open>The queue that threads see\<close>

text \<open>The specification: one list, changed by one operation at a time, and the payload it is closed with.\<close>

fun queue_spec :: "('m, 'v) queue_event \<Rightarrow> 'm list \<times> 'v option \<Rightarrow> ('m list \<times> 'v option) option" where
  "queue_spec (Pushed t m) (ms, None) = Some (ms @ [m], None)"
| "queue_spec (PushFailed t m p) (ms, Some v) = (if p = Some v then Some (ms, Some v) else None)"
| "queue_spec (Messages xs) (ms, None) = (if xs = ms \<and> ms \<noteq> [] then Some ([], None) else None)"
| "queue_spec (ClosedWith (Some v)) ([], None) = Some ([], Some v)"
| "queue_spec _ _ = None"

fun queue_run :: "('m, 'v) queue_event list \<Rightarrow> 'm list \<times> 'v option \<Rightarrow> ('m list \<times> 'v option) option" where
  "queue_run [] s = Some s"
| "queue_run (e # es) s = (case queue_spec e s of None \<Rightarrow> None | Some s \<Rightarrow> queue_run es s)"

abbreviation queue_history :: "('m, 'v) queue_event list \<Rightarrow> ('m list \<times> 'v option) option" where
  "queue_history log \<equiv> queue_run log ([], None)"

lemma queue_run_append: "queue_run (xs @ ys) s = (case queue_run xs s of None \<Rightarrow> None | Some s \<Rightarrow> queue_run ys s)"
  by (induction xs arbitrary: s) (auto split: option.split)

definition pushed :: "('m, 'v) queue_event list \<Rightarrow> 'm list" where
  "pushed log = concat (map (\<lambda>e. case e of Pushed t m \<Rightarrow> [m] | _ \<Rightarrow> []) log)"

definition received :: "('m, 'v) queue_event list \<Rightarrow> 'm list" where
  "received log = concat (map (\<lambda>e. case e of Messages xs \<Rightarrow> xs | _ \<Rightarrow> []) log)"

lemma queue_spec_conserves: "queue_spec e (ms, c) = Some (ms', c') \<Longrightarrow> received [e] @ ms' = ms @ pushed [e]"
  by (cases "(e, (ms, c))" rule: queue_spec.cases) (auto simp: pushed_def received_def split: if_splits)

lemma queue_run_conserves: "queue_run log (ms, c) = Some (ms', c') \<Longrightarrow> received log @ ms' = ms @ pushed log"
proof (induction log arbitrary: ms c)
  case (Cons e log)
  then obtain ms1 c1 where s: "queue_spec e (ms, c) = Some (ms1, c1)" "queue_run log (ms1, c1) = Some (ms', c')"
    by (auto split: option.splits)
  have "received (e # log) @ ms' = received [e] @ received log @ ms'" by (simp add: received_def)
  also have "\<dots> = received [e] @ ms1 @ pushed log" using Cons.IH [OF s(2)] by simp
  also have "\<dots> = ms @ pushed [e] @ pushed log" using queue_spec_conserves [OF s(1)] by simp
  also have "\<dots> = ms @ pushed (e # log)" by (simp add: pushed_def)
  finally show ?case .
qed (simp add: pushed_def received_def)

section \<open>Chains of nodes\<close>

fun node_chain :: "'m heap \<Rightarrow> u64 \<Rightarrow> u64 list \<Rightarrow> bool" where
  "node_chain h p [] \<longleftrightarrow> p = 0"
| "node_chain h p (a # as) \<longleftrightarrow> p = a \<and> a \<noteq> 0 \<and> (case h a of None \<Rightarrow> False | Some (m, next_ptr) \<Rightarrow> node_chain h next_ptr as)"

definition node_value :: "'m heap \<Rightarrow> u64 \<Rightarrow> 'm" where
  "node_value h a = fst (the (h a))"

lemma node_chain_upd: "a \<notin> set as \<Longrightarrow> node_chain (h(a := x)) p as = node_chain h p as"
  by (induction as arbitrary: p) (auto split: option.splits)

lemma node_value_upd: "a \<noteq> b \<Longrightarrow> node_value (h(a := x)) b = node_value h b"
  by (simp add: node_value_def)

lemma map_node_value_upd: "a \<notin> set as \<Longrightarrow> map (node_value (h(a := x))) as = map (node_value h) as"
  by (auto simp: node_value_def)

lemma node_chain_dom: "node_chain h p as \<Longrightarrow> set as \<subseteq> dom h"
  by (induction as arbitrary: p) (auto split: option.splits)

definition from_reversed :: "('m heap \<Rightarrow> u64 \<Rightarrow> (u64 \<times> 'm) list) \<Rightarrow> bool" where
  "from_reversed fromReversed \<longleftrightarrow> (\<forall>h p as. node_chain h p as \<longrightarrow> fromReversed h p = rev (map (\<lambda>a. (a, node_value h a)) as))"

text \<open>The kind and the address are kept apart in the word.\<close>

lemma aligned_ptr: "a AND 3 = 0 \<Longrightarrow> a AND NOT 3 = (a :: u64)"
proof -
  assume "a AND 3 = 0"
  moreover have "(a AND 3) OR (a AND NOT 3) = a" by (simp only: bit.conj_disj_distrib [symmetric] bit.disj_cancel_right bit.conj_one_right)
  ultimately show ?thesis by simp
qed

lemma storage_tail:
  assumes "a AND kTypeMask = 0"
  shows "storage_type (a OR TAIL) = TAIL" "storage_ptr (a OR TAIL) = a"
  using assms aligned_ptr [OF assms] by (simp_all add: storage_type_def storage_ptr_def bit.conj_disj_distrib2)

lemma storage_words [simp]: "storage_type 0 = 0" "storage_type 2 = 2" "storage_ptr 0 = 0" "storage_ptr 2 = 0"
  by (simp_all add: storage_type_def storage_ptr_def)

section \<open>The invariant\<close>

text \<open>The node that a thread has allocated and not yet linked.\<close>

fun held :: "'m producer \<Rightarrow> u64 set" where
  "held (Linking node storage) = {node}"
| "held (Swapping node storage) = {node}"
| "held _ = {}"

fun producer_ok :: "('m, 'v) atomic_queue \<Rightarrow> 'm producer \<Rightarrow> bool" where
  "producer_ok q (Linking node storage) \<longleftrightarrow> storage_type storage = CLOSED \<longrightarrow> aq_storage q = CLOSED"
| "producer_ok q (Swapping node storage) \<longleftrightarrow> storage_type storage \<noteq> CLOSED \<and> (\<exists>m. aq_heap q node = Some (m, storage_ptr storage))"
| "producer_ok q _ \<longleftrightarrow> True"

fun consumer_ok :: "('m, 'v) atomic_queue \<Rightarrow> consumer \<Rightarrow> bool" where
  "consumer_ok q Resting \<longleftrightarrow> True"
| "consumer_ok q Exchanging \<longleftrightarrow> aq_storage q \<noteq> CLOSED \<and> aq_closedPayload q \<noteq> None"
| "consumer_ok q (Closing storage) \<longleftrightarrow> storage = EMPTY \<and> aq_storage q \<noteq> CLOSED \<and> aq_closedPayload q \<noteq> None"

text \<open>\<open>as\<close> are the nodes in the queue, the last one first.\<close>

definition storage_ok :: "u64 list \<Rightarrow> u64 \<Rightarrow> bool" where
  "storage_ok as storage \<longleftrightarrow> (case as of [] \<Rightarrow> storage = EMPTY \<or> storage = CLOSED | a # _ \<Rightarrow> a AND kTypeMask = 0 \<and> storage = a OR TAIL)"

definition nodes_ok :: "u64 list \<Rightarrow> 'm heap \<Rightarrow> (nat \<Rightarrow> u64 set) \<Rightarrow> bool" where
  "nodes_ok as h H \<longleftrightarrow> distinct as \<and> (\<forall>t a. a \<in> H t \<longrightarrow> a \<notin> set as \<and> a \<noteq> 0 \<and> a AND kTypeMask = 0) \<and>
    (\<forall>t t' a. a \<in> H t \<longrightarrow> a \<in> H t' \<longrightarrow> t = t') \<and> (\<forall>a. h a \<noteq> None \<longleftrightarrow> a \<in> set as \<or> (\<exists>t. a \<in> H t))"

definition queue_inv :: "u64 list \<Rightarrow> ('m, 'v) atomic_queue \<Rightarrow> bool" where
  "queue_inv as q \<longleftrightarrow> storage_ok as (aq_storage q) \<and> node_chain (aq_heap q) (storage_ptr (aq_storage q)) as \<and>
    nodes_ok as (aq_heap q) (\<lambda>t. held (aq_producers q t)) \<and> (\<forall>t. producer_ok q (aq_producers q t)) \<and> consumer_ok q (aq_consumer q) \<and>
    queue_history (aq_log q) = Some (rev (map (node_value (aq_heap q)) as), if aq_storage q = CLOSED then aq_closedPayload q else None) \<and>
    (aq_storage q = CLOSED \<longrightarrow> aq_closedPayload q \<noteq> None)"

lemma storage_ok_type: "storage_ok as storage \<Longrightarrow> storage_type storage = CLOSED \<longleftrightarrow> storage = CLOSED"
  by (cases as) (auto simp: storage_ok_def storage_tail dest: arg_cong [where f = storage_type])

lemma storage_ok_tail: "storage_ok as storage \<Longrightarrow> storage_type storage = TAIL \<longleftrightarrow> as \<noteq> []"
  by (cases as) (auto simp: storage_ok_def storage_tail)

lemma storage_ok_closed: "storage_ok as CLOSED \<Longrightarrow> as = []"
  using storage_ok_tail [of as CLOSED] by simp

lemma held_upd: "(\<lambda>t'. held ((f(t := p)) t')) = (\<lambda>t'. held (f t'))(t := held p)"
  by (rule ext) simp

lemma held_same: "held (f t) = X \<Longrightarrow> (\<lambda>t'. held (f t'))(t := X) = (\<lambda>t'. held (f t'))"
  by auto

lemma nodes_okD:
  assumes "nodes_ok as h H" and "a \<in> H t"
  shows "a \<notin> set as" "a \<noteq> 0" "a AND kTypeMask = 0" "h a \<noteq> None" "a \<in> H t' \<Longrightarrow> t' = t"
  using assms unfolding nodes_ok_def by blast+

lemma nodes_ok_dom: "nodes_ok as h H \<Longrightarrow> (\<And>a. h' a \<noteq> None \<longleftrightarrow> h a \<noteq> None) \<Longrightarrow> nodes_ok as h' H"
  unfolding nodes_ok_def by simp

lemma ex_held_add: "H t = {} \<Longrightarrow> (\<exists>t'. x \<in> (H(t := X)) t') \<longleftrightarrow> x \<in> X \<or> (\<exists>t'. x \<in> H t')"
  by (metis empty_iff fun_upd_apply)

lemma ex_held_remove:
  assumes "nodes_ok as h H" and "H t = {a}"
  shows "(\<exists>t'. x \<in> (H(t := {})) t') \<longleftrightarrow> x \<noteq> a \<and> (\<exists>t'. x \<in> H t')"
proof -
  have "a \<in> H t' \<Longrightarrow> t' = t" for t' using nodes_okD(5) [OF assms(1), of a t t'] assms(2) by simp
  then show ?thesis using assms(2) by (metis empty_iff fun_upd_apply singletonD)
qed

lemma nodes_ok_alloc:
  assumes ok: "nodes_ok as h H" and new: "h a = None" "a \<noteq> 0" "a AND kTypeMask = 0" and "H t = {}"
  shows "nodes_ok as (h(a \<mapsto> x)) (H(t := {a}))"
proof -
  have fresh: "a \<notin> set as" "\<And>t'. a \<notin> H t'" using ok new(1) unfolding nodes_ok_def by metis+
  have "(h(a \<mapsto> x)) b \<noteq> None \<longleftrightarrow> b \<in> set as \<or> (\<exists>t'. b \<in> (H(t := {a})) t')" for b
    unfolding ex_held_add [of H t, OF assms(5)] using ok unfolding nodes_ok_def by (cases "b = a") auto
  then show ?thesis using ok new fresh unfolding nodes_ok_def by (auto split: if_splits)
qed

lemma nodes_ok_free:
  assumes ok: "nodes_ok as h H" and "H t = {a}"
  shows "nodes_ok as (h(a := None)) (H(t := {}))"
proof -
  have "a \<notin> set as" using nodes_okD(1) [OF ok, of a t] assms(2) by simp
  then have "(h(a := None)) b \<noteq> None \<longleftrightarrow> b \<in> set as \<or> (\<exists>t'. b \<in> (H(t := {})) t')" for b
    unfolding ex_held_remove [OF assms] using ok unfolding nodes_ok_def by (cases "b = a") auto
  then show ?thesis using ok unfolding nodes_ok_def by (auto split: if_splits)
qed

lemma nodes_ok_push:
  assumes ok: "nodes_ok as h H" and "H t = {a}"
  shows "nodes_ok (a # as) h (H(t := {}))"
proof -
  note a = nodes_okD [OF ok, of a t]
  have "h b \<noteq> None \<longleftrightarrow> b \<in> set (a # as) \<or> (\<exists>t'. b \<in> (H(t := {})) t')" for b
    unfolding ex_held_remove [OF assms] using ok a(4) assms(2) unfolding nodes_ok_def by (cases "b = a") auto
  then show ?thesis using ok a assms(2) unfolding nodes_ok_def by (auto split: if_splits)
qed

lemma nodes_ok_take:
  assumes "nodes_ok as h H"
  shows "nodes_ok [] (\<lambda>a. if a \<in> set as then None else h a) H"
  using assms unfolding nodes_ok_def by auto

section \<open>Every step keeps it\<close>

lemma queue_invD:
  assumes "queue_inv as q"
  shows "storage_ok as (aq_storage q)" "node_chain (aq_heap q) (storage_ptr (aq_storage q)) as"
    "nodes_ok as (aq_heap q) (\<lambda>t. held (aq_producers q t))" "producer_ok q (aq_producers q t)" "consumer_ok q (aq_consumer q)"
    "queue_history (aq_log q) = Some (rev (map (node_value (aq_heap q)) as), if aq_storage q = CLOSED then aq_closedPayload q else None)"
    "aq_storage q = CLOSED \<Longrightarrow> aq_closedPayload q \<noteq> None"
  using assms by (simp_all add: queue_inv_def)

text \<open>A step of thread \<open>t\<close>, which ends at \<open>p\<close>, and a step of the consumer: what they have to establish, and what they leave alone.\<close>

lemma producer_step:
  assumes inv: "queue_inv as q" and q': "aq_producers q' = (aq_producers q)(t := p)" "aq_closedPayload q' = aq_closedPayload q" "aq_consumer q' = aq_consumer q"
    and storage: "storage_ok as' (aq_storage q')" "node_chain (aq_heap q') (storage_ptr (aq_storage q')) as'" "aq_storage q' = CLOSED \<longleftrightarrow> aq_storage q = CLOSED"
    and nodes: "nodes_ok as' (aq_heap q') ((\<lambda>t. held (aq_producers q t))(t := held p))" "producer_ok q' p"
      "\<And>t' a. t' \<noteq> t \<Longrightarrow> a \<in> held (aq_producers q t') \<Longrightarrow> aq_heap q' a = aq_heap q a"
    and log: "queue_history (aq_log q') = Some (rev (map (node_value (aq_heap q')) as'), if aq_storage q = CLOSED then aq_closedPayload q else None)"
  shows "queue_inv as' q'"
proof -
  have "producer_ok q' (((aq_producers q)(t := p)) t')" for t'
    using queue_invD(4) [OF inv, of t'] storage(3) nodes(2) nodes(3) [of t'] by (cases "t' = t"; cases "aq_producers q t'") auto
  moreover have "consumer_ok q' (aq_consumer q)" using queue_invD(5) [OF inv] storage(3) q'(2) by (cases "aq_consumer q") auto
  ultimately show ?thesis using assms queue_invD(7) [OF inv] by (simp add: queue_inv_def held_upd del: fun_upd_apply)
qed

lemma consumer_step:
  assumes inv: "queue_inv as q" and q': "aq_producers q' = aq_producers q"
    and storage: "storage_ok as' (aq_storage q')" "node_chain (aq_heap q') (storage_ptr (aq_storage q')) as'" "aq_storage q = CLOSED \<Longrightarrow> aq_storage q' = CLOSED"
    and nodes: "nodes_ok as' (aq_heap q') (\<lambda>t. held (aq_producers q t))" "\<And>t a. a \<in> held (aq_producers q t) \<Longrightarrow> aq_heap q' a = aq_heap q a"
    and consumer: "consumer_ok q' (aq_consumer q')" "aq_storage q' = CLOSED \<Longrightarrow> aq_closedPayload q' \<noteq> None"
    and log: "queue_history (aq_log q') = Some (rev (map (node_value (aq_heap q')) as'), if aq_storage q' = CLOSED then aq_closedPayload q' else None)"
  shows "queue_inv as' q'"
proof -
  have "producer_ok q' (aq_producers q t)" for t
    using queue_invD(4) [OF inv, of t] storage(3) nodes(2) [of _ t] by (cases "aq_producers q t") auto
  then show ?thesis using assms by (simp add: queue_inv_def)
qed

lemma others_held: "queue_inv as q \<Longrightarrow> node \<in> held (aq_producers q t) \<Longrightarrow> t' \<noteq> t \<Longrightarrow> a \<in> held (aq_producers q t') \<Longrightarrow> a \<noteq> node"
  using nodes_okD(5) [OF queue_invD(3)] by metis

lemma push_call_ok:
  assumes inv: "queue_inv as q" and t: "aq_producers q t = Idle"
  shows "queue_inv as (q\<lparr>aq_producers := (aq_producers q)(t := Loading m)\<rparr>)"
  by (rule producer_step [OF inv, where t = t and p = "Loading m"]) (use queue_invD [OF inv] t in \<open>simp_all add: held_same\<close>)

lemma push_load_ok:
  assumes inv: "queue_inv as q" and t: "aq_producers q t = Loading m" and a: "aq_heap q a = None" "a \<noteq> 0" "a AND kTypeMask = 0"
  shows "queue_inv as (push_load t m a q)"
proof (cases "aq_storage q = CLOSED")
  case True
  have "as = []" using storage_ok_closed [of as] queue_invD(1) [OF inv] True by simp
  then show ?thesis
    by (intro producer_step [OF inv, where t = t and p = Idle])
      (use queue_invD [OF inv] t True in \<open>auto simp: push_load_def held_same queue_run_append\<close>)
next
  case False
  have fresh: "a \<notin> set as" "\<And>t'. a \<notin> held (aq_producers q t')" using queue_invD(3) [OF inv] a(1) unfolding nodes_ok_def by metis+
  have ty: "storage_type (aq_storage q) \<noteq> CLOSED" using queue_invD(1) [OF inv] False storage_ok_type by blast
  show ?thesis
    by (rule producer_step [OF inv, where t = t and p = "Linking a (aq_storage q)"])
      (use queue_invD [OF inv] t ty fresh nodes_ok_alloc [OF queue_invD(3) [OF inv] a, of t "(m, 0)"] False in
        \<open>auto simp: push_load_def node_chain_upd map_node_value_upd simp del: map_eq_conv\<close>)
qed

lemma push_link_ok:
  assumes inv: "queue_inv as q" and t: "aq_producers q t = Linking a st"
  shows "queue_inv as (push_link t a st q)"
proof -
  have a: "a \<notin> set as" "aq_heap q a \<noteq> None" using nodes_okD [OF queue_invD(3) [OF inv], of a t] t by simp_all
  have others: "t' \<noteq> t \<Longrightarrow> b \<in> held (aq_producers q t') \<Longrightarrow> b \<noteq> a" for t' b using others_held [OF inv] t by force
  show ?thesis
  proof (cases "storage_type st = CLOSED")
    case True
    have closed: "aq_storage q = CLOSED" using queue_invD(4) [OF inv, of t] t True by simp
    then have "as = []" using storage_ok_closed [of as] queue_invD(1) [OF inv] by simp
    then show ?thesis
      by (intro producer_step [OF inv, where t = t and p = Idle])
        (use queue_invD [OF inv] t True closed others nodes_ok_free [OF queue_invD(3) [OF inv], of t a] in \<open>auto simp: push_link_def queue_run_append\<close>)
  next
    case False
    have "nodes_ok as ((aq_heap q)(a \<mapsto> (fst (the (aq_heap q a)), storage_ptr st))) (\<lambda>t. held (aq_producers q t))"
      using queue_invD(3) [OF inv] by (rule nodes_ok_dom) (use a in auto)
    then show ?thesis
      by (intro producer_step [OF inv, where t = t and p = "Swapping a st"])
        (use queue_invD [OF inv] t False a others in \<open>auto simp: push_link_def held_same node_chain_upd map_node_value_upd simp del: map_eq_conv\<close>)
  qed
qed

lemma push_swap_ok:
  assumes inv: "queue_inv as q" and t: "aq_producers q t = Swapping a st"
  shows "\<exists>as. queue_inv as (push_swap spurious t a st q)"
proof (cases "aq_storage q = st \<and> \<not> spurious")
  case True
  note held = nodes_okD [OF queue_invD(3) [OF inv], of a t, simplified t]
  obtain m where m: "aq_heap q a = Some (m, storage_ptr st)" and ty: "storage_type st \<noteq> CLOSED" using queue_invD(4) [OF inv, of t] t by auto
  have open_queue: "aq_storage q \<noteq> CLOSED" using ty True by auto
  have new: "storage_ok (a # as) (a OR TAIL)" "storage_ptr (a OR TAIL) = a" using held storage_tail [of a] by (simp_all add: storage_ok_def)
  then have "a OR TAIL \<noteq> CLOSED" using storage_ok_tail [of "a # as" CLOSED] by force
  then have "queue_inv (a # as) (push_swap spurious t a st q)"
    by (intro producer_step [OF inv, where t = t and p = Idle])
      (use queue_invD [OF inv] True m new held open_queue t nodes_ok_push [OF queue_invD(3) [OF inv], of t a] in
        \<open>auto simp: push_swap_def queue_run_append node_value_def\<close>)
  then show ?thesis ..
next
  case False
  have "storage_type (aq_storage q) = CLOSED \<longrightarrow> aq_storage q = CLOSED" using queue_invD(1) [OF inv] storage_ok_type by blast
  then have "queue_inv as (push_swap spurious t a st q)"
    by (intro producer_step [OF inv, where t = t and p = "Linking a (aq_storage q)"])
      (use queue_invD [OF inv] False t in \<open>auto simp: push_swap_def held_same\<close>)
  then show ?thesis ..
qed

lemma close_call_ok:
  assumes inv: "queue_inv as q" and c: "\<not> aq_isClosed q"
  shows "queue_inv as (close_call payload q)"
proof -
  have "aq_storage q \<noteq> CLOSED" using c by (auto simp: aq_isClosed_def)
  then show ?thesis
    by (intro consumer_step [OF inv]) (use queue_invD [OF inv] in \<open>auto simp: close_call_def\<close>)
qed

lemma take_nodes:
  assumes "queue_inv as q" and "from_reversed fromReversed"
  shows "fromReversed (aq_heap q) (storage_ptr (aq_storage q)) = rev (map (\<lambda>a. (a, node_value (aq_heap q) a)) as)"
  using assms(2) queue_invD(2) [OF assms(1)] unfolding from_reversed_def by blast

lemma close_exchange_ok:
  assumes inv: "queue_inv as q" and c: "aq_consumer q = Exchanging" and fr: "from_reversed fromReversed"
  shows "queue_inv [] (close_exchange fromReversed q)"
proof (cases "as = []")
  case True
  then have "aq_storage q = EMPTY" using queue_invD(1,5) [OF inv] c by (auto simp: storage_ok_def)
  then show ?thesis
    by (intro consumer_step [OF inv]) (use queue_invD [OF inv] c True in \<open>auto simp: close_exchange_def storage_ok_def\<close>)
next
  case False
  let ?queue = "rev (map (\<lambda>a. (a, node_value (aq_heap q) a)) as)"
  have tail: "storage_type (aq_storage q) = TAIL" using queue_invD(1) [OF inv] False storage_ok_tail by blast
  have nodes: "fst ` set ?queue = set as" by force
  have eq: "close_exchange fromReversed q = q\<lparr>aq_storage := EMPTY, aq_heap := (\<lambda>a. if a \<in> set as then None else aq_heap q a), aq_consumer := Resting,
      aq_log := aq_log q @ [Messages (map snd ?queue)]\<rparr>"
    using tail by (simp add: close_exchange_def Let_def take_nodes [OF inv fr] nodes image_image)
  have vals: "map snd ?queue = rev (map (node_value (aq_heap q)) as)" by (simp add: rev_map)
  show ?thesis unfolding eq
    by (intro consumer_step [OF inv])
      (use queue_invD [OF inv] c False vals nodes_ok_take [OF queue_invD(3) [OF inv]] nodes_okD(1) [OF queue_invD(3) [OF inv]] in
        \<open>auto simp: queue_run_append storage_ok_def\<close>)
qed

lemma close_swap_ok:
  assumes inv: "queue_inv as q" and c: "aq_consumer q = Closing st"
  shows "queue_inv as (close_swap spurious st q)"
proof -
  have st: "st = EMPTY" "aq_storage q \<noteq> CLOSED" "aq_closedPayload q \<noteq> None" using queue_invD(5) [OF inv] c by auto
  show ?thesis
  proof (cases "aq_storage q = st \<and> \<not> spurious")
    case True
    then have "as = []" using queue_invD(1) [OF inv] st(1) storage_ok_tail [of as 0] by simp
    then show ?thesis
      by (intro consumer_step [OF inv]) (use queue_invD [OF inv] True st in \<open>auto simp: close_swap_def storage_ok_def queue_run_append\<close>)
  next
    case False
    then show ?thesis by (intro consumer_step [OF inv]) (use queue_invD [OF inv] st in \<open>auto simp: close_swap_def\<close>)
  qed
qed

lemma queue_step_ok:
  assumes "queue_step fromReversed q q'" and "from_reversed fromReversed" and "queue_inv as q"
  shows "\<exists>as. queue_inv as q'"
  using assms(1)
proof cases
  case (push_swap t node storage spurious)
  then show ?thesis using push_swap_ok [OF assms(3)] by simp
qed (use assms(2,3) in \<open>metis push_call_ok push_load_ok push_link_ok close_call_ok close_exchange_ok close_swap_ok\<close>)+

lemma aq_init_ok: "queue_inv [] aq_init"
  by (simp add: queue_inv_def aq_init_def storage_ok_def nodes_ok_def)

lemma queue_reachable:
  assumes "(queue_step fromReversed)\<^sup>*\<^sup>* aq_init q" and "from_reversed fromReversed"
  shows "\<exists>as. queue_inv as q"
  using assms(1) by (induction rule: rtranclp_induct) (use aq_init_ok queue_step_ok assms(2) in blast)+

text \<open>
  C14: the lock-free queue is linearizable.  However the steps of its threads interleave, however often a compare-and-exchange fails, and however soon a freed
  address is used again: the operations return what they return on one list that is changed by one operation at a time.  So every message that was pushed
  is received once and in the order of the pushes, or still waits in the list; the queue is closed only when nothing waits, and no push succeeds after that; and every node in
  the heap is in the list or held by a thread that has not finished its push.
\<close>

theorem atomic_queue_linearizable:
  fixes q :: "('m, 'v) atomic_queue"
  assumes "(queue_step fromReversed)\<^sup>*\<^sup>* aq_init q" and "from_reversed fromReversed"
  shows "\<exists>as. node_chain (aq_heap q) (storage_ptr (aq_storage q)) as \<and>
    queue_history (aq_log q) = Some (rev (map (node_value (aq_heap q)) as), if aq_isClosed q then aq_closedPayload q else None) \<and>
    received (aq_log q) @ rev (map (node_value (aq_heap q)) as) = pushed (aq_log q) \<and> (aq_isClosed q \<longrightarrow> as = []) \<and>
    dom (aq_heap q) = set as \<union> (\<Union>t. held (aq_producers q t))"
proof -
  obtain as where inv: "queue_inv as q" using queue_reachable [OF assms] by blast
  have closed: "aq_isClosed q \<longleftrightarrow> aq_storage q = CLOSED" using storage_ok_type [OF queue_invD(1) [OF inv]] by (simp add: aq_isClosed_def)
  have run: "queue_history (aq_log q) = Some (rev (map (node_value (aq_heap q)) as), if aq_isClosed q then aq_closedPayload q else None)"
    using queue_invD(6) [OF inv] closed by simp
  from queue_run_conserves [OF this] have "received (aq_log q) @ rev (map (node_value (aq_heap q)) as) = pushed (aq_log q)" by simp
  moreover have "aq_isClosed q \<longrightarrow> as = []" using closed storage_ok_closed queue_invD(1) [OF inv] by auto
  moreover have "dom (aq_heap q) = set as \<union> (\<Union>t. held (aq_producers q t))" using queue_invD(3) [OF inv] by (auto simp: nodes_ok_def)
  ultimately show ?thesis using queue_invD(2) [OF inv] run by blast
qed

text \<open>A list is turned around by following its pointers.\<close>

partial_function (option) follow :: "'m heap \<Rightarrow> u64 \<Rightarrow> (u64 \<times> 'm) list option" where
  "follow h p = (if p = 0 then Some [] else case h p of None \<Rightarrow> None | Some (m, next_ptr) \<Rightarrow>
     Option.bind (follow h next_ptr) (\<lambda>ns. Some ((p, m) # ns)))"

declare follow.simps [code]

definition turn_around :: "'m heap \<Rightarrow> u64 \<Rightarrow> (u64 \<times> 'm) list" where
  "turn_around h p = rev (the (follow h p))"

lemma follow_chain: "node_chain h p as \<Longrightarrow> follow h p = Some (map (\<lambda>a. (a, node_value h a)) as)"
proof (induction as arbitrary: p)
  case Nil
  then show ?case by (simp add: follow.simps)
next
  case (Cons a as)
  then show ?case by (subst follow.simps) (auto simp: node_value_def split: option.splits)
qed

lemma from_reversed_turn_around: "from_reversed turn_around"
  by (simp add: from_reversed_def turn_around_def follow_chain)

text \<open>A run in which two threads push, one of them after a failed compare-and-exchange, and the consumer gets both messages in order.\<close>

theorem atomic_queue_linearizable_witness:
  "\<exists>q :: (nat, nat) atomic_queue. (queue_step turn_around)\<^sup>*\<^sup>* aq_init q \<and> from_reversed (turn_around :: nat heap \<Rightarrow> _) \<and> received (aq_log q) = [7, 9] \<and>
    received (aq_log q) = pushed (aq_log q)"
proof -
  let ?step = "queue_step turn_around :: (nat, nat) atomic_queue \<Rightarrow> _"
  define q0 :: "(nat, nat) atomic_queue" where "q0 = aq_init"
  define q1 where "q1 = q0\<lparr>aq_producers := (aq_producers q0)(0 := Loading 7)\<rparr>"
  define q2 where "q2 = q1\<lparr>aq_producers := (aq_producers q1)(1 := Loading 9)\<rparr>"
  define q3 where "q3 = push_load 0 7 4 q2"
  define q4 where "q4 = push_load 1 9 8 q3"
  define q5 where "q5 = push_link 0 4 0 q4"
  define q6 where "q6 = push_link 1 8 0 q5"
  define q7 where "q7 = push_swap False 0 4 0 q6"
  define q8 where "q8 = push_swap False 1 8 0 q7"
  define q9 where "q9 = push_link 1 8 5 q8"
  define q10 where "q10 = push_swap False 1 8 5 q9"
  define q11 where "q11 = close_call 3 q10"
  define q12 where "q12 = close_exchange turn_around q11"
  note defs = q12_def q11_def q10_def q9_def q8_def q7_def q6_def q5_def q4_def q3_def q2_def q1_def q0_def
  have "?step\<^sup>*\<^sup>* q0 q0" by simp
  also have "?step q0 q1" unfolding q1_def by (rule queue_step.push_call [where t = 0 and m = 7]; (unfold defs)?; code_simp)
  also have "?step q1 q2" unfolding q2_def by (rule queue_step.push_call [where t = 1 and m = 9]; (unfold defs)?; code_simp)
  also have "?step q2 q3" unfolding q3_def by (rule queue_step.push_load; (unfold defs)?; code_simp)
  also have "?step q3 q4" unfolding q4_def by (rule queue_step.push_load; (unfold defs)?; code_simp)
  also have "?step q4 q5" unfolding q5_def by (rule queue_step.push_link; (unfold defs)?; code_simp)
  also have "?step q5 q6" unfolding q6_def by (rule queue_step.push_link; (unfold defs)?; code_simp)
  also have "?step q6 q7" unfolding q7_def by (rule queue_step.push_swap; (unfold defs)?; code_simp)
  also have "?step q7 q8" unfolding q8_def by (rule queue_step.push_swap; (unfold defs)?; code_simp)
  also have "?step q8 q9" unfolding q9_def by (rule queue_step.push_link; (unfold defs)?; code_simp)
  also have "?step q9 q10" unfolding q10_def by (rule queue_step.push_swap; (unfold defs)?; code_simp)
  also have "?step q10 q11" unfolding q11_def by (rule queue_step.close_call; (unfold defs)?; code_simp)
  also have "?step q11 q12" unfolding q12_def by (rule queue_step.close_exchange; (unfold defs)?; code_simp)
  finally have run: "?step\<^sup>*\<^sup>* aq_init q12" unfolding q0_def .
  obtain as where as: "node_chain (aq_heap q12) (storage_ptr (aq_storage q12)) as" "received (aq_log q12) @ rev (map (node_value (aq_heap q12)) as) = pushed (aq_log q12)"
    using atomic_queue_linearizable [OF run from_reversed_turn_around] by blast
  have "storage_ptr (aq_storage q12) = 0" and got: "received (aq_log q12) = [7, 9]" unfolding defs by code_simp+
  then have "as = []" using as(1) by (cases as) auto
  then show ?thesis using run from_reversed_turn_around got as(2) by (intro exI [of _ q12]) auto
qed

text \<open>When no push is unfinished, the destructor leaves no node behind.\<close>

lemma destroy_frees_all:
  fixes q :: "('m, 'v) atomic_queue"
  assumes "(queue_step fromReversed)\<^sup>*\<^sup>* aq_init q" and fr: "from_reversed fromReversed" and "\<And>t. held (aq_producers q t) = {}"
  shows "aq_destroy fromReversed q = Map.empty"
proof -
  obtain as where inv: "queue_inv as q" using queue_reachable [OF assms(1,2)] by blast
  have dom: "aq_heap q a = None \<longleftrightarrow> a \<notin> set as" for a using queue_invD(3) [OF inv] assms(3) unfolding nodes_ok_def by blast
  have "fst ` set (rev (map (\<lambda>a. (a, node_value (aq_heap q) a)) as)) = set as" by force
  then show ?thesis using storage_ok_tail [OF queue_invD(1) [OF inv]] dom
    by (auto simp: aq_destroy_def take_nodes [OF inv fr] Let_def image_image fun_eq_iff)
qed

section \<open>QueueWithTailPtr\<close>

text \<open>
  A list with a pointer to its last node, which another list is appended to without walking through it.  The pointer is invalid while the list is empty.  \<open>visitor\<close> runs
  over the values when such a list is made of a plain one; here they are collected.
\<close>

record tail_queue =
  tq_head :: u64
  tq_tail :: u64

partial_function (option) tq_visit :: "'m heap \<Rightarrow> u64 \<Rightarrow> u64 \<Rightarrow> 'm list \<Rightarrow> (u64 \<times> 'm list) option" where
  "tq_visit h node tail_ptr visited = (if node = 0 then Some (tail_ptr, visited) else case h node of None \<Rightarrow> None | Some (m, next_ptr) \<Rightarrow>
     tq_visit h next_ptr node (visited @ [m]))"

definition tq_make :: "'m heap \<Rightarrow> u64 \<Rightarrow> u64 \<Rightarrow> (tail_queue \<times> 'm list) option" where
  "tq_make h head_ptr garbage = map_option (\<lambda>(tail_ptr, visited). (\<lparr>tq_head = head_ptr, tq_tail = tail_ptr\<rparr>, visited)) (tq_visit h head_ptr garbage [])"

definition set_next :: "u64 \<Rightarrow> u64 \<Rightarrow> 'm heap \<Rightarrow> 'm heap" where
  "set_next a p h = h(a \<mapsto> (node_value h a, p))"

definition tq_append :: "'m heap \<Rightarrow> tail_queue \<Rightarrow> tail_queue \<Rightarrow> 'm heap \<times> tail_queue \<times> tail_queue" where
  "tq_append h q other =
    (if tq_head other = 0 then (h, q, other)
     else let (h, q) = (if tq_head q = 0 then (h, q\<lparr>tq_head := tq_head other\<rparr>) else (set_next (tq_tail q) (tq_head other) h, q)) in
       (h, q\<lparr>tq_tail := tq_tail other\<rparr>, other\<lparr>tq_head := 0\<rparr>))"

definition tq_ok :: "'m heap \<Rightarrow> tail_queue \<Rightarrow> u64 list \<Rightarrow> bool" where
  "tq_ok h q as \<longleftrightarrow> node_chain h (tq_head q) as \<and> distinct as \<and> (as \<noteq> [] \<longrightarrow> tq_tail q = last as)"

lemma tq_visit_chain:
  "node_chain h p as \<Longrightarrow> tq_visit h p tail_ptr visited = Some (if as = [] then tail_ptr else last as, visited @ map (node_value h) as)"
proof (induction as arbitrary: p tail_ptr visited)
  case Nil
  then show ?case by (simp add: tq_visit.simps)
next
  case (Cons a as)
  then show ?case by (subst tq_visit.simps) (auto simp: node_value_def split: option.splits)
qed

text \<open>The constructor visits every value once and in order, and finds the tail.\<close>

lemma tq_make_ok:
  "node_chain h p as \<Longrightarrow> distinct as \<Longrightarrow> \<exists>q. tq_make h p garbage = Some (q, map (node_value h) as) \<and> tq_ok h q as"
  by (simp add: tq_make_def tq_visit_chain tq_ok_def)

lemma set_next_same: "set_next a p h a = Some (node_value h a, p)"
  by (simp add: set_next_def)

lemma set_next_other: "b \<noteq> a \<Longrightarrow> set_next a p h b = h b"
  by (simp add: set_next_def)

lemma node_chain_set_next:
  "node_chain h p as \<Longrightarrow> as \<noteq> [] \<Longrightarrow> distinct as \<Longrightarrow> node_chain h p' bs \<Longrightarrow> set as \<inter> set bs = {} \<Longrightarrow> node_chain (set_next (last as) p' h) p (as @ bs)"
proof (induction as arbitrary: p)
  case (Cons a as)
  have upd: "node_chain (set_next x p' h) p' bs" if "x \<notin> set bs" for x
    using Cons.prems(4) that by (simp add: set_next_def node_chain_upd)
  show ?case
  proof (cases "as = []")
    case True
    then show ?thesis using Cons.prems upd [of a] by (auto simp: set_next_same split: option.splits)
  next
    case False
    obtain m nxt where a: "h a = Some (m, nxt)" "node_chain h nxt as" using Cons.prems(1) by (auto split: option.splits)
    have "node_chain (set_next (last as) p' h) nxt (as @ bs)" using Cons.IH [OF a(2) False] Cons.prems by simp
    moreover have "last as \<noteq> a" using Cons.prems(3) False last_in_set by fastforce
    ultimately show ?thesis using Cons.prems(1) a False by (simp add: set_next_other)
  qed
qed simp

text \<open>Appending makes one list of the two, in constant time, with a valid tail, and leaves the other one empty.\<close>

lemma tq_append_ok:
  assumes q: "tq_ok h q as" and other: "tq_ok h other bs" and apart: "set as \<inter> set bs = {}" and eq: "tq_append h q other = (h', q', other')"
  shows "tq_ok h' q' (as @ bs) \<and> tq_ok h' other' [] \<and> map (node_value h') (as @ bs) = map (node_value h) (as @ bs)"
proof (cases "bs = []")
  case True
  then show ?thesis using assms by (auto simp: tq_ok_def tq_append_def)
next
  case bs: False
  then have nz: "tq_head other \<noteq> 0" using other by (cases bs) (auto simp: tq_ok_def)
  have vals: "map (node_value (set_next x p h)) cs = map (node_value h) cs" for x p cs by (simp add: node_value_def set_next_def)
  show ?thesis
  proof (cases "as = []")
    case True
    then have "tq_head q = 0" using q by (simp add: tq_ok_def)
    then show ?thesis using assms True bs nz by (auto simp: tq_ok_def tq_append_def)
  next
    case False
    then have "tq_head q \<noteq> 0" using q by (cases as) (auto simp: tq_ok_def)
    then have eq': "h' = set_next (last as) (tq_head other) h" "q' = q\<lparr>tq_tail := tq_tail other\<rparr>" "other' = other\<lparr>tq_head := 0\<rparr>"
      using eq nz q False by (auto simp: tq_append_def tq_ok_def)
    have "node_chain h' (tq_head q) (as @ bs)" unfolding eq' by (rule node_chain_set_next) (use q other apart False in \<open>simp_all add: tq_ok_def\<close>)
    then show ?thesis using q other apart bs by (simp add: tq_ok_def eq' vals del: map_append map_eq_conv)
  qed
qed

end
