(* ===== verification/Concurrency_Controller.thy ===== *)
theory Concurrency_Controller
  imports Prelude "HOL-Library.Multiset"
begin

text \<open>
  The scheduler of a resource pool (\<^verbatim>\<open>lib/cpp2/server/ParallelConcurrencyController.cpp\<close>).  Requests wait in a pile; the controller gives tasks to an executor, each of which takes
  a request from the pile and runs it, so that no more than a limit run at a time.  It has two counters in one atomic word, which any number of threads update with
  compare-and-exchange: the requests in execution and the requests that wait for a task.

  An operation is cut at its accesses to shared memory; those in progress form a multiset, and their steps interleave in any order.  The pile and the executor are known to the
  controller by their interfaces only: here the pile is the number of its requests, a dequeue may fail, and the executor runs each task at some time.
\<close>

section \<open>State and operations\<close>

record counters =
  requestInExecution :: u32
  pendingDequeCalls :: u32

text \<open>Who called \<open>trySchedule\<close>, and where an operation is: \<open>trySchedule\<close> at the top of its loop, after the load of the counters and after that of the limit;
  \<open>onExecuteFinish\<close> and \<open>processExpiredRequest\<close> before the load and before the compare-and-exchange.\<close>

datatype caller = OnEnqueued | OnFinish | OnLimit

datatype operation = TryHead caller | TryLoaded caller counters | TryDecide caller counters u64
  | FinishHead bool | FinishSwap bool counters | ExpireHead | ExpireSwap counters

record controller =
  cc_counters :: counters
  cc_limit :: u64
  cc_operations :: "operation multiset"
  cc_pile :: nat
  cc_tasks :: nat
  cc_running :: nat

definition cc_init :: controller where
  "cc_init = \<lparr>cc_counters = \<lparr>requestInExecution = 0, pendingDequeCalls = 0\<rparr>, cc_limit = -1, cc_operations = {#},
     cc_pile = 0, cc_tasks = 0, cc_running = 0\<rparr>"

text \<open>The body of the loop of \<open>trySchedule\<close> after its loads: whether it returns, and what, and the counters it leaves.  \<open>spurious\<close> is a weak compare-and-exchange
  that fails for no reason.\<close>

definition trySchedule :: "bool \<Rightarrow> bool \<Rightarrow> counters \<Rightarrow> u64 \<Rightarrow> counters \<Rightarrow> bool option \<times> counters" where
  "trySchedule spurious onEnqueued countersOld currentLimit now =
    (let counters = (if onEnqueued then countersOld\<lparr>pendingDequeCalls := pendingDequeCalls countersOld + 1\<rparr> else countersOld);
         swaps = (now = countersOld \<and> \<not> spurious) in
     if pendingDequeCalls counters \<noteq> 0 \<and> ucast (requestInExecution counters) < currentLimit
     then let counters = counters\<lparr>requestInExecution := requestInExecution counters + 1, pendingDequeCalls := pendingDequeCalls counters - 1\<rparr> in
       if \<not> swaps then (None, now) else (Some True, counters)
     else if onEnqueued \<and> \<not> swaps then (None, now)
     else (Some False, if onEnqueued then counters else now))"

definition onExecuteFinish :: "bool \<Rightarrow> bool \<Rightarrow> counters \<Rightarrow> counters \<Rightarrow> bool \<times> counters" where
  "onExecuteFinish spurious dequeueSuccess countersOld now =
    (let counters = countersOld\<lparr>requestInExecution := requestInExecution countersOld - 1\<rparr>;
         counters = counters\<lparr>pendingDequeCalls := pendingDequeCalls counters + (if dequeueSuccess then 0 else 1)\<rparr> in
     if now = countersOld \<and> \<not> spurious then (True, counters) else (False, now))"

definition processExpiredRequest :: "bool \<Rightarrow> counters \<Rightarrow> counters \<Rightarrow> bool \<times> counters" where
  "processExpiredRequest spurious countersOld now =
    (let counters = countersOld\<lparr>pendingDequeCalls := pendingDequeCalls countersOld - 1\<rparr> in
     if now = countersOld \<and> \<not> spurious then (True, counters) else (False, now))"

text \<open>
  The steps of an operation, given the others that are in progress.  \<open>setExecutionLimitRequests\<close> calls \<open>trySchedule\<close> until it returns \<open>false\<close>; \<open>scheduleOnExecutor\<close> adds a task.
\<close>

definition try_decide :: "bool \<Rightarrow> caller \<Rightarrow> counters \<Rightarrow> u64 \<Rightarrow> operation multiset \<Rightarrow> controller \<Rightarrow> controller" where
  "try_decide spurious who countersOld currentLimit others s =
    (let (result, counters) = trySchedule spurious (who = OnEnqueued) countersOld currentLimit (cc_counters s); s = s\<lparr>cc_counters := counters\<rparr> in
     case result of
       None \<Rightarrow> s\<lparr>cc_operations := add_mset (TryHead who) others\<rparr>
     | Some True \<Rightarrow> s\<lparr>cc_tasks := cc_tasks s + 1, cc_operations := (if who = OnLimit then add_mset (TryHead OnLimit) others else others)\<rparr>
     | Some False \<Rightarrow> s\<lparr>cc_operations := others\<rparr>)"

definition finish_swap :: "bool \<Rightarrow> bool \<Rightarrow> counters \<Rightarrow> operation multiset \<Rightarrow> controller \<Rightarrow> controller" where
  "finish_swap spurious dequeueSuccess countersOld others s =
    (let (swapped, counters) = onExecuteFinish spurious dequeueSuccess countersOld (cc_counters s) in
     s\<lparr>cc_counters := counters, cc_operations := add_mset (if swapped then TryHead OnFinish else FinishHead dequeueSuccess) others\<rparr>)"

definition expire_swap :: "bool \<Rightarrow> counters \<Rightarrow> operation multiset \<Rightarrow> controller \<Rightarrow> controller" where
  "expire_swap spurious countersOld others s =
    (let (swapped, counters) = processExpiredRequest spurious countersOld (cc_counters s) in
     s\<lparr>cc_counters := counters, cc_operations := (if swapped then others else add_mset ExpireHead others)\<rparr>)"

definition cc_enqueue :: "controller \<Rightarrow> controller" where
  "cc_enqueue s = s\<lparr>cc_pile := cc_pile s + 1, cc_operations := add_mset (TryHead OnEnqueued) (cc_operations s)\<rparr>"

definition setExecutionLimitRequests :: "u64 \<Rightarrow> controller \<Rightarrow> controller" where
  "setExecutionLimitRequests limit s = s\<lparr>cc_limit := limit, cc_operations := add_mset (TryHead OnLimit) (cc_operations s)\<rparr>"

text \<open>A task takes a request and runs it, or finds none; while it looks for one, the pile may hand over requests that have expired.\<close>

definition executeRequest :: "bool \<Rightarrow> controller \<Rightarrow> controller" where
  "executeRequest dequeued s = (if dequeued then s\<lparr>cc_pile := cc_pile s - 1, cc_tasks := cc_tasks s - 1, cc_running := cc_running s + 1\<rparr>
     else s\<lparr>cc_tasks := cc_tasks s - 1, cc_operations := add_mset (FinishHead False) (cc_operations s)\<rparr>)"

definition expire_request :: "controller \<Rightarrow> controller" where
  "expire_request s = s\<lparr>cc_pile := cc_pile s - 1, cc_operations := add_mset ExpireHead (cc_operations s)\<rparr>"

definition onRequestFinished :: "controller \<Rightarrow> controller" where
  "onRequestFinished s = s\<lparr>cc_running := cc_running s - 1, cc_operations := add_mset (FinishHead True) (cc_operations s)\<rparr>"

section \<open>What is where\<close>

text \<open>Operations by what they still have to count: a request that was enqueued, one that has expired, an execution that is over, and one of these that found no request.\<close>

fun is_enqueuing :: "operation \<Rightarrow> bool" where
  "is_enqueuing (TryHead c) \<longleftrightarrow> c = OnEnqueued"
| "is_enqueuing (TryLoaded c k) \<longleftrightarrow> c = OnEnqueued"
| "is_enqueuing (TryDecide c k l) \<longleftrightarrow> c = OnEnqueued"
| "is_enqueuing _ \<longleftrightarrow> False"

fun is_expiring :: "operation \<Rightarrow> bool" where
  "is_expiring ExpireHead \<longleftrightarrow> True"
| "is_expiring (ExpireSwap k) \<longleftrightarrow> True"
| "is_expiring _ \<longleftrightarrow> False"

fun is_finishing :: "operation \<Rightarrow> bool" where
  "is_finishing (FinishHead b) \<longleftrightarrow> True"
| "is_finishing (FinishSwap b k) \<longleftrightarrow> True"
| "is_finishing _ \<longleftrightarrow> False"

fun is_failing :: "operation \<Rightarrow> bool" where
  "is_failing (FinishHead b) \<longleftrightarrow> \<not> b"
| "is_failing (FinishSwap b k) \<longleftrightarrow> \<not> b"
| "is_failing _ \<longleftrightarrow> False"

definition ops :: "(operation \<Rightarrow> bool) \<Rightarrow> operation multiset \<Rightarrow> nat" where
  "ops P M = size (filter_mset P M)"

lemma ops_add [simp]: "ops P (add_mset x M) = of_bool (P x) + ops P M"
  by (simp add: ops_def)

lemma ops_empty [simp]: "ops P {#} = 0"
  by (simp add: ops_def)

text \<open>The requests that wait for a task, less the tasks that wait for a request; and the executions.\<close>

definition waiting :: "controller \<Rightarrow> int" where
  "waiting s = int (cc_pile s + ops is_expiring (cc_operations s)) - int (cc_tasks s + ops is_enqueuing (cc_operations s) + ops is_failing (cc_operations s))"

definition executions :: "controller \<Rightarrow> nat" where
  "executions s = cc_tasks s + cc_running s + ops is_finishing (cc_operations s)"

definition bounded :: "controller \<Rightarrow> bool" where
  "bounded s \<longleftrightarrow> \<bar>waiting s\<bar> < 2 ^ 31 \<and> executions s < 2 ^ 31"

text \<open>
  Steps.  There are fewer than \<open>2 ^ 31\<close> requests and executions at a time.  The limit is not changed while a \<open>trySchedule\<close> is between its load of the limit and its
  compare-and-exchange, a case that a comment in the code sets aside.
\<close>

inductive cc_step :: "controller \<Rightarrow> controller \<Rightarrow> bool" where
  enqueue: "cc_step s (cc_enqueue s)"
| load_counters: "cc_operations s = add_mset (TryHead c) others \<Longrightarrow> cc_step s (s\<lparr>cc_operations := add_mset (TryLoaded c (cc_counters s)) others\<rparr>)"
| load_limit: "cc_operations s = add_mset (TryLoaded c k) others \<Longrightarrow> cc_step s (s\<lparr>cc_operations := add_mset (TryDecide c k (cc_limit s)) others\<rparr>)"
| decide: "cc_operations s = add_mset (TryDecide c k l) others \<Longrightarrow> cc_step s (try_decide spurious c k l others s)"
| run_request: "0 < cc_tasks s \<Longrightarrow> 0 < cc_pile s \<Longrightarrow> cc_step s (executeRequest True s)"
| run_nothing: "0 < cc_tasks s \<Longrightarrow> cc_step s (executeRequest False s)"
| expire: "0 < cc_tasks s \<Longrightarrow> 0 < cc_pile s \<Longrightarrow> cc_step s (expire_request s)"
| finish: "0 < cc_running s \<Longrightarrow> cc_step s (onRequestFinished s)"
| finish_load: "cc_operations s = add_mset (FinishHead b) others \<Longrightarrow> cc_step s (s\<lparr>cc_operations := add_mset (FinishSwap b (cc_counters s)) others\<rparr>)"
| finish_swap: "cc_operations s = add_mset (FinishSwap b k) others \<Longrightarrow> cc_step s (finish_swap spurious b k others s)"
| expire_load: "cc_operations s = add_mset ExpireHead others \<Longrightarrow> cc_step s (s\<lparr>cc_operations := add_mset (ExpireSwap (cc_counters s)) others\<rparr>)"
| expire_swap: "cc_operations s = add_mset (ExpireSwap k) others \<Longrightarrow> cc_step s (expire_swap spurious k others s)"
| set_limit: "(\<And>c k l. TryDecide c k l \<notin># cc_operations s) \<Longrightarrow> cc_step s (setExecutionLimitRequests limit s)"

definition bounded_step :: "controller \<Rightarrow> controller \<Rightarrow> bool" where
  "bounded_step s s' \<longleftrightarrow> cc_step s s' \<and> bounded s'"

section \<open>The counters\<close>

text \<open>The four ends of a round of \<open>trySchedule\<close>.\<close>

definition eligible :: "counters \<Rightarrow> u64 \<Rightarrow> bool" where
  "eligible k l \<longleftrightarrow> pendingDequeCalls k \<noteq> 0 \<and> ucast (requestInExecution k) < l"

definition arrived :: "caller \<Rightarrow> counters \<Rightarrow> counters" where
  "arrived c k = (if c = OnEnqueued then k\<lparr>pendingDequeCalls := pendingDequeCalls k + 1\<rparr> else k)"

lemma trySchedule_eq:
  "trySchedule spurious (c = OnEnqueued) k l now =
    (if eligible (arrived c k) l
     then if now = k \<and> \<not> spurious then (Some True, \<lparr>requestInExecution = requestInExecution k + 1, pendingDequeCalls = pendingDequeCalls (arrived c k) - 1\<rparr>) else (None, now)
     else if c = OnEnqueued then if now = k \<and> \<not> spurious then (Some False, arrived c k) else (None, now) else (Some False, now))"
  by (cases k; cases "c = OnEnqueued") (simp_all add: trySchedule_def Let_def eligible_def arrived_def)

lemma try_decide_eq:
  "try_decide spurious c k l others s =
    (if eligible (arrived c k) l
     then if cc_counters s = k \<and> \<not> spurious
       then s\<lparr>cc_counters := \<lparr>requestInExecution = requestInExecution k + 1, pendingDequeCalls = pendingDequeCalls (arrived c k) - 1\<rparr>, cc_tasks := cc_tasks s + 1,
         cc_operations := (if c = OnLimit then add_mset (TryHead OnLimit) others else others)\<rparr>
       else s\<lparr>cc_operations := add_mset (TryHead c) others\<rparr>
     else if c \<noteq> OnEnqueued then s\<lparr>cc_operations := others\<rparr>
     else if cc_counters s = k \<and> \<not> spurious then s\<lparr>cc_counters := arrived c k, cc_operations := others\<rparr>
     else s\<lparr>cc_operations := add_mset (TryHead c) others\<rparr>)"
  by (simp add: try_decide_def trySchedule_eq)

lemma try_decide_cases:
  obtains (retry) "try_decide spurious c k l others s = s\<lparr>cc_operations := add_mset (TryHead c) others\<rparr>"
  | (schedule) "cc_counters s = k" "eligible (arrived c k) l" "try_decide spurious c k l others s =
      s\<lparr>cc_counters := \<lparr>requestInExecution = requestInExecution k + 1, pendingDequeCalls = pendingDequeCalls (arrived c k) - 1\<rparr>, cc_tasks := cc_tasks s + 1,
        cc_operations := (if c = OnLimit then add_mset (TryHead OnLimit) others else others)\<rparr>"
  | (wait) "c = OnEnqueued" "cc_counters s = k" "\<not> eligible (arrived c k) l" "try_decide spurious c k l others s = s\<lparr>cc_counters := arrived c k, cc_operations := others\<rparr>"
  | (give_up) "c \<noteq> OnEnqueued" "\<not> eligible k l" "try_decide spurious c k l others s = s\<lparr>cc_operations := others\<rparr>"
proof (cases "c = OnEnqueued")
  case True
  then show thesis using that(1-3) try_decide_eq [of spurious c k l others s] by (auto split: if_splits)
next
  case False
  then have "arrived c k = k" by (simp add: arrived_def)
  then show thesis using that(1,2,4) False try_decide_eq [of spurious c k l others s] by (auto split: if_splits)
qed

text \<open>A limit that was loaded is the current one.\<close>

fun limit_current :: "u64 \<Rightarrow> operation \<Rightarrow> bool" where
  "limit_current limit (TryDecide c k l) \<longleftrightarrow> l = limit"
| "limit_current limit _ \<longleftrightarrow> True"

definition counted :: "controller \<Rightarrow> bool" where
  "counted s \<longleftrightarrow> requestInExecution (cc_counters s) = of_nat (executions s) \<and> pendingDequeCalls (cc_counters s) = of_int (waiting s) \<and>
    (\<forall>x \<in># cc_operations s. limit_current (cc_limit s) x)"

lemmas cc_measures = waiting_def executions_def

lemma counted_decide:
  assumes "counted s" and "cc_operations s = add_mset (TryDecide c k l) others"
  shows "counted (try_decide spurious c k l others s)"
proof (cases rule: try_decide_cases [of spurious c k l others s])
  case retry
  then show ?thesis using assms by (auto simp: counted_def cc_measures)
next
  case schedule
  then show ?thesis using assms by (cases c) (auto simp: counted_def cc_measures arrived_def)
next
  case wait
  then show ?thesis using assms by (auto simp: counted_def cc_measures arrived_def)
next
  case give_up
  then show ?thesis using assms by (auto simp: counted_def cc_measures)
qed

lemma counted_finish_swap:
  assumes "counted s" and "cc_operations s = add_mset (FinishSwap b k) others"
  shows "counted (finish_swap spurious b k others s)"
  using assms by (cases b) (auto simp: counted_def cc_measures finish_swap_def onExecuteFinish_def Let_def)

lemma counted_expire_swap:
  assumes "counted s" and "cc_operations s = add_mset (ExpireSwap k) others"
  shows "counted (expire_swap spurious k others s)"
  using assms by (auto simp: counted_def cc_measures expire_swap_def processExpiredRequest_def Let_def)

lemma counted_step: "cc_step s s' \<Longrightarrow> counted s \<Longrightarrow> counted s'"
proof (induction rule: cc_step.induct)
  case (enqueue s)
  then show ?case by (auto simp: counted_def cc_measures cc_enqueue_def)
next
  case (load_counters s c others)
  then show ?case by (auto simp: counted_def cc_measures)
next
  case (load_limit s c k others)
  then show ?case by (auto simp: counted_def cc_measures)
next
  case (run_request s)
  then show ?case by (auto simp: counted_def cc_measures executeRequest_def of_nat_diff)
next
  case (run_nothing s)
  then show ?case by (auto simp: counted_def cc_measures executeRequest_def of_nat_diff)
next
  case (expire s)
  then show ?case by (auto simp: counted_def cc_measures expire_request_def of_nat_diff)
next
  case (finish s)
  then show ?case by (auto simp: counted_def cc_measures onRequestFinished_def of_nat_diff)
next
  case (finish_load s b others)
  then show ?case by (auto simp: counted_def cc_measures)
next
  case (expire_load s others)
  then show ?case by (auto simp: counted_def cc_measures)
next
  case (set_limit s limit)
  have "limit_current limit x" if "x \<in># cc_operations s" for x using set_limit(1) that by (cases x) auto
  then show ?case using set_limit by (auto simp: counted_def cc_measures setExecutionLimitRequests_def)
qed (blast intro: counted_decide counted_finish_swap counted_expire_swap)+

section \<open>No request is forgotten\<close>

text \<open>An operation that will look at the counters again, or has seen a request it may schedule.\<close>

fun alert :: "u64 \<Rightarrow> operation \<Rightarrow> bool" where
  "alert l (TryHead c) \<longleftrightarrow> c \<noteq> OnEnqueued"
| "alert l (TryLoaded c k) \<longleftrightarrow> c \<noteq> OnEnqueued \<and> eligible k l"
| "alert l (TryDecide c k _) \<longleftrightarrow> c \<noteq> OnEnqueued \<and> eligible k l"
| "alert l _ \<longleftrightarrow> False"

fun on_limit :: "operation \<Rightarrow> bool" where
  "on_limit (TryHead c) \<longleftrightarrow> c = OnLimit"
| "on_limit (TryLoaded c k) \<longleftrightarrow> c = OnLimit"
| "on_limit (TryDecide c k l) \<longleftrightarrow> c = OnLimit"
| "on_limit _ \<longleftrightarrow> False"

text \<open>The requests that could be scheduled at once; each has an operation that will, or an operation will schedule them all.\<close>

definition gap :: "controller \<Rightarrow> nat" where
  "gap s = min (nat (waiting s)) (unat (cc_limit s) - executions s)"

definition attended :: "controller \<Rightarrow> bool" where
  "attended s \<longleftrightarrow> 0 < ops (\<lambda>x. alert (cc_limit s) x \<and> on_limit x) (cc_operations s) \<or> gap s \<le> ops (alert (cc_limit s)) (cc_operations s)"

lemma of_int_eq_0:
  assumes "\<bar>w\<bar> < 2 ^ 32"
  shows "(of_int w :: u32) = 0 \<longleftrightarrow> w = 0"
proof
  assume "(of_int w :: u32) = 0"
  then have "2 ^ 32 dvd w" by (simp add: word_of_int_eq_0_iff)
  then show "w = 0" using assms dvd_imp_le_int [of w "2 ^ 32"] by fastforce
qed simp

lemma below_limit_iff:
  assumes "counted s" and "bounded s"
  shows "ucast (requestInExecution (cc_counters s)) < (l :: u64) \<longleftrightarrow> executions s < unat l"
proof -
  have "unat (ucast (of_nat (executions s) :: u32) :: u64) = executions s"
    using assms(2) by (simp add: bounded_def unsigned_ucast_eq unsigned_of_nat take_bit_nat_eq_self)
  then show ?thesis using assms(1) by (simp add: counted_def word_less_nat_alt)
qed

lemma eligible_iff:
  assumes "counted s" and "bounded s"
  shows "eligible (cc_counters s) l \<longleftrightarrow> waiting s \<noteq> 0 \<and> executions s < unat l"
  using below_limit_iff [OF assms] assms of_int_eq_0 [of "waiting s"] by (simp add: eligible_def counted_def bounded_def)

lemma ops_mono: "(\<And>x. x \<in># M \<Longrightarrow> P x \<Longrightarrow> Q x) \<Longrightarrow> ops P M \<le> ops Q M"
  by (induction M) (auto simp: of_bool_def)

lemma attended_decide:
  assumes "counted s" and "bounded s" and "attended s" and op: "cc_operations s = add_mset (TryDecide c k l) others"
  shows "attended (try_decide spurious c k l others s)"
proof -
  have l: "l = cc_limit s" using assms(1) op by (auto simp: counted_def)
  show ?thesis
  proof (cases rule: try_decide_cases [of spurious c k l others s])
    case retry
    then show ?thesis using assms(3) op by (cases c; cases "eligible k (cc_limit s)") (auto simp: attended_def gap_def cc_measures)
  next
    case schedule
    show ?thesis
    proof (cases "c = OnEnqueued")
      case True
      then show ?thesis using schedule assms(3) op by (auto simp: attended_def gap_def cc_measures)
    next
      case False
      then have "arrived c k = k" by (simp add: arrived_def)
      then have el: "eligible k (cc_limit s)" using schedule(2) l by simp
      let ?s = "try_decide spurious c k l others s"
      have s': "waiting ?s = waiting s - 1" "executions ?s = executions s + 1" "cc_limit ?s = cc_limit s"
        "cc_operations ?s = (if c = OnLimit then add_mset (TryHead OnLimit) others else others)"
        unfolding schedule(3) using op False by (simp_all add: cc_measures)
      have "gap ?s \<le> gap s - 1" unfolding gap_def s' by linarith
      then show ?thesis using assms(3) op False el unfolding attended_def s' by (cases c) auto
    qed
  next
    case wait
    have "pendingDequeCalls k + 1 = of_int (waiting s + 1)" using wait(2) assms(1) by (simp add: counted_def)
    then have "waiting s + 1 = 0 \<or> unat l \<le> executions s"
      using wait(1,2,3) below_limit_iff [OF assms(1,2), of l] assms(2) of_int_eq_0 [of "waiting s + 1"]
      by (auto simp: eligible_def arrived_def bounded_def simp del: of_int_add)
    then show ?thesis using wait assms(3) op l by (auto simp: attended_def gap_def cc_measures)
  next
    case give_up
    then show ?thesis using assms(3) op l by (cases c) (auto simp: attended_def gap_def cc_measures)
  qed
qed

lemma attended_finish_swap:
  assumes "attended s" and "cc_operations s = add_mset (FinishSwap b k) others"
  shows "attended (finish_swap spurious b k others s)"
  using assms by (cases b) (auto simp: attended_def gap_def cc_measures finish_swap_def onExecuteFinish_def Let_def)

lemma attended_expire_swap:
  assumes "attended s" and "cc_operations s = add_mset (ExpireSwap k) others"
  shows "attended (expire_swap spurious k others s)"
  using assms by (auto simp: attended_def gap_def cc_measures expire_swap_def processExpiredRequest_def Let_def)

lemma attended_load:
  assumes "counted s" and "bounded s" and "attended s" and op: "cc_operations s = add_mset (TryHead c) others"
  shows "attended (s\<lparr>cc_operations := add_mset (TryLoaded c (cc_counters s)) others\<rparr>)"
proof (cases "eligible (cc_counters s) (cc_limit s)")
  case True
  then show ?thesis using assms(3) op by (auto simp: attended_def gap_def cc_measures)
next
  case False
  then have "gap s = 0" using eligible_iff [OF assms(1,2)] by (auto simp: gap_def)
  then show ?thesis using op by (simp add: attended_def gap_def cc_measures)
qed

lemma attended_step: "cc_step s s' \<Longrightarrow> counted s \<Longrightarrow> bounded s \<Longrightarrow> attended s \<Longrightarrow> attended s'"
proof (induction rule: cc_step.induct)
  case (enqueue s)
  then show ?case by (auto simp: attended_def gap_def cc_measures cc_enqueue_def)
next
  case (load_limit s c k others)
  then show ?case by (auto simp: attended_def gap_def cc_measures)
next
  case (run_request s)
  then show ?case by (auto simp: attended_def gap_def cc_measures executeRequest_def of_nat_diff)
next
  case (run_nothing s)
  then show ?case by (auto simp: attended_def gap_def cc_measures executeRequest_def of_nat_diff)
next
  case (expire s)
  then show ?case by (auto simp: attended_def gap_def cc_measures expire_request_def of_nat_diff)
next
  case (finish s)
  then show ?case by (auto simp: attended_def gap_def cc_measures onRequestFinished_def)
next
  case (finish_load s b others)
  then show ?case by (auto simp: attended_def gap_def cc_measures)
next
  case (expire_load s others)
  then show ?case by (auto simp: attended_def gap_def cc_measures)
next
  case (set_limit s limit)
  then show ?case by (simp add: attended_def setExecutionLimitRequests_def)
qed (blast intro: attended_load attended_decide attended_finish_swap attended_expire_swap)+

lemma cc_reachable:
  assumes "bounded_step\<^sup>*\<^sup>* cc_init s"
  shows "counted s \<and> bounded s \<and> attended s"
  using assms
proof (induction rule: rtranclp_induct)
  case base
  show ?case by (simp add: cc_init_def counted_def bounded_def attended_def gap_def cc_measures)
next
  case (step s s')
  then show ?case using counted_step attended_step by (auto simp: bounded_step_def)
qed

lemma step_executions:
  assumes "cc_step s s'" and "counted s" and "bounded s"
  shows "executions s' \<le> executions s \<or> executions s' = executions s + 1 \<and> executions s < unat (cc_limit s)"
  using assms
proof cases
  case (decide c k l others spurious)
  then have l: "l = cc_limit s" using assms(2) by (auto simp: counted_def)
  show ?thesis
  proof (cases rule: try_decide_cases [of spurious c k l others s])
    case schedule
    then have "ucast (requestInExecution (cc_counters s)) < l" by (simp add: eligible_def arrived_def split: if_splits)
    then have "executions s < unat (cc_limit s)" using below_limit_iff assms(2,3) l by blast
    then show ?thesis using schedule decide by (simp add: executions_def)
  qed (use decide in \<open>simp_all add: executions_def\<close>)
qed (auto simp: executions_def cc_enqueue_def executeRequest_def expire_request_def onRequestFinished_def setExecutionLimitRequests_def finish_swap_def
    onExecuteFinish_def expire_swap_def processExpiredRequest_def Let_def)



text \<open>A run with the limit set to one: of two requests, the first is executed and the second waits.\<close>

abbreviation cc_sample :: "u32 \<Rightarrow> u32 \<Rightarrow> u64 \<Rightarrow> operation list \<Rightarrow> nat \<Rightarrow> nat \<Rightarrow> nat \<Rightarrow> controller" where
  "cc_sample e p l xs pile tasks running \<equiv> \<lparr>cc_counters = \<lparr>requestInExecution = e, pendingDequeCalls = p\<rparr>, cc_limit = l, cc_operations = mset xs,
     cc_pile = pile, cc_tasks = tasks, cc_running = running\<rparr>"

lemma cc_extend: "bounded_step\<^sup>*\<^sup>* cc_init s \<Longrightarrow> cc_step s s' \<Longrightarrow> s' = t \<Longrightarrow> bounded t \<Longrightarrow> bounded_step\<^sup>*\<^sup>* cc_init t"
  by (auto simp: bounded_step_def intro: rtranclp.rtrancl_into_rtrancl)

lemma try_decide_operations: "try_decide spurious c k l others \<lparr>cc_counters = now, cc_limit = limit, cc_operations = M, cc_pile = pile, cc_tasks = tasks, cc_running = running\<rparr> =
    try_decide spurious c k l others \<lparr>cc_counters = now, cc_limit = limit, cc_operations = {#}, cc_pile = pile, cc_tasks = tasks, cc_running = running\<rparr>"
  by (simp add: try_decide_eq)

lemma sample_round:
  fixes e p :: u32
  assumes "bounded_step\<^sup>*\<^sup>* cc_init (cc_sample e p l [TryHead c] pile tasks running)" and "bounded (cc_sample e p l [TryHead c] pile tasks running)"
    and "bounded (try_decide False c \<lparr>requestInExecution = e, pendingDequeCalls = p\<rparr> l {#} (cc_sample e p l [] pile tasks running))"
  shows "bounded_step\<^sup>*\<^sup>* cc_init (try_decide False c \<lparr>requestInExecution = e, pendingDequeCalls = p\<rparr> l {#} (cc_sample e p l [] pile tasks running))"
proof -
  let ?k = "\<lparr>requestInExecution = e, pendingDequeCalls = p\<rparr>"
  have b: "bounded (cc_sample e p l [TryLoaded c ?k] pile tasks running)" "bounded (cc_sample e p l [TryDecide c ?k l] pile tasks running)"
    using assms(2) by (simp_all add: bounded_def cc_measures)
  have "bounded_step\<^sup>*\<^sup>* cc_init (cc_sample e p l [TryLoaded c ?k] pile tasks running)"
    by (rule cc_extend [OF assms(1) cc_step.load_counters [where others = "{#}"] _ b(1)]) simp_all
  then have "bounded_step\<^sup>*\<^sup>* cc_init (cc_sample e p l [TryDecide c ?k l] pile tasks running)"
    by (rule cc_extend [OF _ cc_step.load_limit [where others = "{#}"] _ b(2)]) simp_all
  then have "bounded_step\<^sup>*\<^sup>* cc_init (try_decide False c ?k l {#} (cc_sample e p l [TryDecide c ?k l] pile tasks running))"
    by (rule cc_extend [OF _ cc_step.decide [where c = c and k = ?k and l = l and others = "{#}" and spurious = False] refl])
      (simp, subst try_decide_operations, use assms(3) in simp)
  then show ?thesis by (subst (asm) try_decide_operations) simp
qed

lemma sample_limited: "bounded_step\<^sup>*\<^sup>* cc_init (cc_sample 1 1 1 [] 1 0 1)"
proof -
  note defs = try_decide_eq eligible_def arrived_def bounded_def cc_measures cc_init_def cc_enqueue_def setExecutionLimitRequests_def executeRequest_def
  have "bounded_step\<^sup>*\<^sup>* cc_init (cc_sample 0 0 1 [TryHead OnLimit] 0 0 0)"
    by (rule cc_extend [OF rtranclp.rtrancl_refl cc_step.set_limit [where limit = 1]]) (simp_all add: defs)
  from sample_round [OF this] have "bounded_step\<^sup>*\<^sup>* cc_init (cc_sample 0 0 1 [] 0 0 0)" by (simp add: defs)
  then have "bounded_step\<^sup>*\<^sup>* cc_init (cc_sample 0 0 1 [TryHead OnEnqueued] 1 0 0)" by (rule cc_extend [OF _ cc_step.enqueue]) (simp_all add: defs)
  from sample_round [OF this] have "bounded_step\<^sup>*\<^sup>* cc_init (cc_sample 1 0 1 [] 1 1 0)" by (simp add: defs)
  then have "bounded_step\<^sup>*\<^sup>* cc_init (cc_sample 1 0 1 [] 0 0 1)" by (rule cc_extend [OF _ cc_step.run_request]) (simp_all add: defs)
  then have "bounded_step\<^sup>*\<^sup>* cc_init (cc_sample 1 0 1 [TryHead OnEnqueued] 1 0 1)" by (rule cc_extend [OF _ cc_step.enqueue]) (simp_all add: defs)
  from sample_round [OF this] show ?thesis by (simp add: defs)
qed



text \<open>
  Without the assumption on changes of the limit, a request is forgotten: the limit is raised from zero to five after an \<open>onEnqueued\<close> has loaded it.  The call
  that raises the limit does not see the request yet, and \<open>onEnqueued\<close> goes by the old limit.  Nothing is in progress then, nothing runs, and the request stays in the pile until some other operation comes.
\<close>

lemma limit_change_forgets_request:
  assumes "s = cc_enqueue (cc_init\<lparr>cc_limit := 0\<rparr>)" and "k = cc_counters s"
    and "s1 = setExecutionLimitRequests 5 (s\<lparr>cc_operations := {#TryDecide OnEnqueued k (cc_limit s)#}\<rparr>)"
    and "s2 = try_decide False OnLimit (cc_counters s1) (cc_limit s1) {#TryDecide OnEnqueued k (cc_limit s)#} s1"
    and "s3 = try_decide False OnEnqueued k (cc_limit s) {#} s2"
  shows "cc_operations s3 = {#} \<and> cc_pile s3 = 1 \<and> cc_tasks s3 = 0 \<and> cc_running s3 = 0 \<and> cc_limit s3 = 5"
  unfolding assms by (simp add: cc_init_def cc_enqueue_def setExecutionLimitRequests_def try_decide_eq eligible_def arrived_def)

end
