(* ===== verification/Spec2Isabelle.thy ===== *)
theory Spec2Isabelle
  imports Value_Roundtrip Field_Advance Rocket_Wire Transport_Detection Stream_Requests Atomic_Queue Concurrency_Controller
begin

text \<open>
  \<^bold>\<open>The serialization and transport core of fbthrift's C++ library.\<close>

  A Thrift message passes through four layers: values are written by a protocol (Binary or Compact), whose
  integers are varints in the Compact case; the bytes are the payload of a Rocket frame, or of several when they are too
  long for one; the frames go over a byte stream, which the receiver cuts into frames again; and a connection decides what each frame
  does to its state and when it may be closed.  The theories follow these layers.

  \<^bold>\<open>Prelude.\<close>  Machine integers, byte strings, and the error-and-state monad in which fallible code is written
  (\<open>thrift_error\<close> names every exception that the modelled code throws).  The cursor of folly is an
  interface: \<open>cursor_api\<close> are the calls that the readers make, the locale \<open>cursor\<close> states what they
  do to the remaining bytes, and it is interpreted by a chain of buffers of any segmentation.  So statements about
  readers hold for every way a message may be split into buffers.

  \<^bold>\<open>Varint, Varint\_Decode, Varint\_Encode\<close> (\<open>lib/cpp/util/VarintUtils-inl.h\<close>, \<open>VarintUtils.cpp\<close>).
  The loop decoder, the decoders unrolled for x86 and AArch64, the BMI2 decoder, the three scalar encoders, the pointer routines and zigzag.
  Every decoder is shown to refine one reference decoder on the remaining bytes, every encoder to agree with the loop, and
  the two to be inverse.  The one input on which two decoders differ is exhibited.

  \<^bold>\<open>Protocol, Binary\_Protocol, Compact\_Protocol\<close> (\<open>lib/cpp2/protocol/Protocol.h\<close>, \<open>BinaryProtocol-inl.h\<close>,
  \<open>CompactProtocol-inl.h\<close> and their headers).  One definition per operation of the writers and readers, prefixed \<open>bw\<close>,
  \<open>br\<close>, \<open>cw\<close> and \<open>cr\<close>; \<open>skip\<close> and the readers of string bodies are shared.  The state of a
  Compact reader or writer is a record with the stack of field identifiers and the pending boolean field.
  \<open>Dynamic_Value\<close> (\<open>protocol/detail/Object.h\<close>) serializes and parses schemaless values
  through the operations of a protocol, the records \<open>protocol_writer\<close> and \<open>protocol_reader\<close>; \<open>Codec\<close> states as locales what a protocol promises, item by item, and proves once that
  every value comes back; \<open>Compact_Codec\<close> and \<open>Value_Roundtrip\<close> interpret them with the two protocols.
  \<open>Protocol_Bounds\<close> shows that \<open>skip\<close> and the parser return on every input and that what they build is paid for with input.
  \<open>Field_Advance\<close> shows that the fast path of generated readers does what reading a field header does.

  \<^bold>\<open>Rocket\_Frames, Rocket\_Roundtrip, Rocket\_Fragments\<close> (\<open>lib/cpp2/transport/rocket/framing\<close>,
  \<open>Types.h\<close>, \<open>client/RocketClient.cpp\<close>).  Every frame class with its constructor from bytes and its serialization into one
  frame, into the headroom of a buffer and in fragments, and the reassembly of payloads by the client.

  \<^bold>\<open>Rocket\_Parser, Rocket\_Split, Rocket\_Aligned, Rocket\_Stream\<close> (\<open>framing/Parser.h\<close> and
  \<open>framing/parser\<close>).  The three strategies that cut the byte stream into frames.  Their owner is a parameter, \<open>parser_owner\<close>,
  with the calls that a strategy makes.  The strategies are shown to hand over the frames of one reference splitter for every segmentation
  of the stream into reads; their use of memory and their progress are shown for every owner.

  \<^bold>\<open>Rocket\_Connection\<close> (\<open>server/RocketServerConnection.h\<close>, \<open>.cpp\<close>, \<open>RocketServerFrameContext.cpp\<close>,
  \<open>IRocketServerConnection.h\<close>, \<open>lib/cpp2/server/MemoryTracker.h\<close>).  The state of a server connection as a record
  and its operations: frame dispatch, request reassembly, write batching, write callbacks, back-pressure, memory accounting, draining and
  closing.  Calls to objects outside the connection (socket, frame handler, stream callbacks) are events of a trace.
  \<open>Rocket_Steps\<close> gathers the operations into a step relation and states, as locales, what it takes for a
  relation between connections to be kept by every step.  \<open>Rocket_Writes\<close> and
  \<open>Rocket_Server\<close> interpret these locales for the relations behind the properties: written bytes, completions, the order of
  states, what keeps a closing connection alive, and memory; \<open>Rocket_Requests\<close> shows the reassembly of requests.

  \<^bold>\<open>Rocket\_Wire\<close> composes the layers: the bytes that a client's serializer makes of a request, cut into arbitrary reads,
  go through the frame-length parser to a server connection, its owner, and reach the frame handler as the request that was sent.

  \<^bold>\<open>Stream\_Callbacks, Sink\_Callback, Bidi\_Callback, Stream\_Requests\<close> (\<open>server/RocketStreamClientCallback.cpp\<close>, \<open>RocketSinkClientCallback.cpp\<close>,
  \<open>RocketBiDiClientCallback.cpp\<close>, \<open>BidirectionalStreamState.cpp\<close>, \<open>RocketThriftRequests.cpp\<close>).  The server's ends of streams, prefixed \<open>sc\<close>, of sinks, \<open>sk\<close>, and of bidirectional streams, \<open>bd\<close>:
  credits, timers, fragments and the calls in both directions, recorded in a trace.  The contracts of \<open>async/StreamCallbacks.h\<close> are monitors of the trace, and the
  server's side is any sequence of calls they allow, made at any time and from within calls; every run is shown to keep its contract.  \<open>Stream_Requests\<close> adds the requests that open them
  and, over the locale \<open>request_callback\<close>, that such a request is marked complete exactly once.  Where the code does not reckon with a call that the contract allows, this is an assumption of the step
  relation, and a lemma shows what happens otherwise.

  \<^bold>\<open>Atomic\_Queue\<close> (\<open>lib/cpp2/async/TwoWayBridge.h\<close>).  The lock-free queue \<open>AtomicQueueOrPtr\<close>, which many threads push to and one empties or closes, and the list with a tail pointer.
  Every operation is cut at its accesses to shared memory and the steps of the threads interleave in any order, over a heap that uses freed addresses again.  Every
  interleaving is shown to be a run of a plain list, in the order of the accesses that take effect.  folly's \<open>Queue::fromReversed\<close> is a parameter, and \<open>from_reversed\<close> states what it does.

  \<^bold>\<open>Concurrency\_Controller\<close> (\<open>lib/cpp2/server/ParallelConcurrencyController.cpp\<close>).  The scheduler of a resource pool, which keeps the number of requests in execution below a limit with
  two counters in one atomic word.  The operations in progress form a multiset, their steps interleave in any order, and the counters are kept at their width.  Shown are that the counters are what they stand for, that the limit is
  kept, and that no request stays in the pile while there is room for it; the request pile and the executor are known by their interfaces only.

  \<^bold>\<open>Compression, Header\_Transport, Header\_Roundtrip, Transport\_Detection\<close> (\<open>rocket/compression\<close>,
  \<open>lib/cpp/transport/THeader.cpp\<close>, \<open>isMaybeRocketFrame\<close> of \<open>framing/Util.cpp\<close>).  The older transport, whose frames carry a header with key-value pairs and
  a list of transforms, and which also serves clients of the framed, unframed and HTTP transports.  \<open>theader\<close> is the state of a \<open>THeader\<close>,
  \<open>receiver\<close> that of its receiving side with the queue of a connection; \<open>addHeader\<close> and \<open>removeHeader\<close> wrap and unwrap a message.
  The codecs, the HTTP parser and the comparison of cursor positions are fields of \<open>header_env\<close>, and the locale \<open>header_io\<close> states what
  the code relies on.  Shown are the round trip, what an incomplete frame asks for, that a header fits the buffer made for it, and that the first frames of both transports are told apart.

  \<^bold>\<open>Bounds and fuel.\<close>  Nesting depth is limited as in the code (the height of a protocol object, and for \<open>skip\<close>
  the parameter \<open>FLAGS_thrift_protocol_max_depth\<close>).  \<open>skip\<close> and \<open>parseValue\<close>, whose loops over fields end
  with the input, take fuel; running out of it is the error \<open>OutOfFuel\<close>, which the code does not have.  The round trips hold for any
  fuel of at least \<open>vfuel v\<close>, a function of the value that is written; on arbitrary input, fuel linear in its length is enough, and more changes nothing
  (\<open>Protocol_Bounds\<close>).  The loop over info headers of a
  header frame reads at least a byte in each round and has the length of the frame as fuel.  All other loops recurse on
  a count, a list or, in the parsers, a measure on the buffered bytes.
  Sizes are natural numbers where the code uses \<open>size_t\<close> for the length of a buffer in memory, and words of their width where the code
  narrows them.

  \<^bold>\<open>Not modelled.\<close>  The compiler and its generators; the server's thread and resource pools; the SIMD and SVE code paths, written in vector
  intrinsics; bulk readers and writers of arithmetic vectors; JSON and debug protocols; frame-relative alignment of the first data field,
  behind a flag that is off; the client's request queues and stream callbacks, and the header channels; socket options, observers and statistics; the libraries of other languages.
\<close>

end
